(* ===== verification/Prelude.thy ===== *)
theory Prelude
  imports Main "HOL-Library.Code_Target_Nat" "HOL-Library.Word" "HOL-Library.AList"
begin

text \<open>
  What every component shares: the parts of the Rust standard library that the
  code calls on strings, integers and hash maps, with the laws the components
  rely on.

  A Rust \<open>String\<close>/\<open>&str\<close> is its UTF-8 byte sequence, an Isabelle \<open>string\<close> whose
  characters are bytes.  A \<open>u64\<close> counter is a natural number with the wrap-around,
  the checked or the saturating operation written out; bit-twiddling code uses
  machine words.  A \<open>HashMap\<close>, \<open>BTreeMap\<close> or \<open>DashMap\<close> whose iteration order no
  code depends on is a partial map or an association list.
\<close>

named_theorems str_defs \<open>definitions of the string functions of the Rust standard library\<close>
named_theorems const_defs \<open>constants of the program\<close>

section \<open>Machine integers\<close>

type_synonym u8 = "8 word"
type_synonym u16 = "16 word"
type_synonym u32 = "32 word"

abbreviation u16_max :: nat where "u16_max \<equiv> 65535"
abbreviation u32_max :: nat where "u32_max \<equiv> 4294967295"
abbreviation u64_max :: nat where "u64_max \<equiv> 18446744073709551615"
abbreviation i64_max :: int where "i64_max \<equiv> 9223372036854775807"
abbreviation i64_min :: int where "i64_min \<equiv> - 9223372036854775808"

definition wrap_add64 :: "nat \<Rightarrow> nat \<Rightarrow> nat" where
  "wrap_add64 a b = (a + b) mod (u64_max + 1)"

definition saturating_add64 :: "nat \<Rightarrow> nat \<Rightarrow> nat" where
  "saturating_add64 a b = (if a + b > u64_max then u64_max else a + b)"

text \<open>The cast \<open>as i64\<close> of a \<open>u64\<close>, and \<open>as u64\<close> of an \<open>i64\<close>.\<close>

definition as_i64 :: "nat \<Rightarrow> int" where
  "as_i64 n = (let m = int n mod 2 ^ 64 in if m \<ge> 2 ^ 63 then m - 2 ^ 64 else m)"

definition as_u64 :: "int \<Rightarrow> nat" where
  "as_u64 i = nat (i mod 2 ^ 64)"

lemma wrap_add64_small [simp]: "a + b \<le> u64_max \<Longrightarrow> wrap_add64 a b = a + b"
  by (simp add: wrap_add64_def)

lemma wrap_add64_le [simp]: "wrap_add64 a b \<le> u64_max"
proof -
  have "(a + b) mod (u64_max + 1) < u64_max + 1"
    by (rule mod_less_divisor) simp
  then show ?thesis
    by (simp add: wrap_add64_def)
qed

lemma saturating_add64_le [simp]: "saturating_add64 a b \<le> u64_max"
  by (simp add: saturating_add64_def)

lemma as_u64_as_i64: "n \<le> u64_max \<Longrightarrow> as_u64 (as_i64 n) = n"
  by (auto simp: as_u64_def as_i64_def Let_def)

lemma as_i64_small [simp]: "int n \<le> i64_max \<Longrightarrow> as_i64 n = int n"
  by (auto simp: as_i64_def Let_def)

lemma as_u64_small [simp]: "0 \<le> i \<Longrightarrow> i \<le> i64_max \<Longrightarrow> as_u64 i = nat i"
  by (auto simp: as_u64_def)

section \<open>Options\<close>

text \<open>A check that applies when a value is there.\<close>

fun opt_all :: "('a \<Rightarrow> bool) \<Rightarrow> 'a option \<Rightarrow> bool" where
  "opt_all P None = True"
| "opt_all P (Some x) = P x"

section \<open>Characters and bytes\<close>

definition byte :: "char \<Rightarrow> nat" where
  "byte c = of_char c"

definition is_ascii_digit :: "char \<Rightarrow> bool" where
  "is_ascii_digit c \<longleftrightarrow> 48 \<le> byte c \<and> byte c \<le> 57"

definition is_ascii_lower :: "char \<Rightarrow> bool" where
  "is_ascii_lower c \<longleftrightarrow> 97 \<le> byte c \<and> byte c \<le> 122"

definition is_ascii_upper :: "char \<Rightarrow> bool" where
  "is_ascii_upper c \<longleftrightarrow> 65 \<le> byte c \<and> byte c \<le> 90"

definition is_ascii_alphabetic :: "char \<Rightarrow> bool" where
  "is_ascii_alphabetic c \<longleftrightarrow> is_ascii_lower c \<or> is_ascii_upper c"

definition is_ascii_alphanumeric :: "char \<Rightarrow> bool" where
  "is_ascii_alphanumeric c \<longleftrightarrow> is_ascii_alphabetic c \<or> is_ascii_digit c"

definition ascii_lower_char :: "char \<Rightarrow> char" where
  "ascii_lower_char c = (if is_ascii_upper c then char_of (byte c + 32) else c)"

definition to_ascii_lowercase :: "string \<Rightarrow> string" where
  "to_ascii_lowercase s = map ascii_lower_char s"

definition eq_ignore_ascii_case :: "string \<Rightarrow> string \<Rightarrow> bool" where
  "eq_ignore_ascii_case a b \<longleftrightarrow> to_ascii_lowercase a = to_ascii_lowercase b"

text \<open>\<open>chars().count()\<close>: the bytes that are not UTF-8 continuation bytes.\<close>

definition char_count :: "string \<Rightarrow> nat" where
  "char_count s = length (filter (\<lambda>c. \<not> (128 \<le> byte c \<and> byte c < 192)) s)"

lemmas ascii_defs = is_ascii_digit_def is_ascii_lower_def is_ascii_upper_def
  is_ascii_alphabetic_def is_ascii_alphanumeric_def

lemma byte_less [simp]: "byte c < 256"
  by (simp add: byte_def)

lemma byte_char_of [simp]: "n < 256 \<Longrightarrow> byte (char_of n) = n"
  by (simp add: byte_def)

lemma char_of_byte [simp]: "char_of (byte c) = c"
  by (simp add: byte_def)

lemma byte_inject [simp]: "byte c = byte d \<longleftrightarrow> c = d"
  by (metis char_of_byte)

lemma ascii_lower_char_idem [simp]: "ascii_lower_char (ascii_lower_char c) = ascii_lower_char c"
  by (auto simp: ascii_lower_char_def is_ascii_upper_def)

lemma to_ascii_lowercase_idem [simp]:
  "to_ascii_lowercase (to_ascii_lowercase s) = to_ascii_lowercase s"
  by (simp add: to_ascii_lowercase_def)

lemma to_ascii_lowercase_append [simp]:
  "to_ascii_lowercase (s @ t) = to_ascii_lowercase s @ to_ascii_lowercase t"
  by (simp add: to_ascii_lowercase_def)

lemma length_to_ascii_lowercase [simp]: "length (to_ascii_lowercase s) = length s"
  by (simp add: to_ascii_lowercase_def)

section \<open>Prefixes, searching and splitting\<close>

fun strip_prefix :: "'a list \<Rightarrow> 'a list \<Rightarrow> 'a list option" where
  "strip_prefix [] s = Some s"
| "strip_prefix (p # ps) (c # cs) = (if p = c then strip_prefix ps cs else None)"
| "strip_prefix (p # ps) [] = None"

definition starts_with :: "'a list \<Rightarrow> 'a list \<Rightarrow> bool" where
  "starts_with p s \<longleftrightarrow> strip_prefix p s \<noteq> None"

definition ends_with :: "'a list \<Rightarrow> 'a list \<Rightarrow> bool" where
  "ends_with p s \<longleftrightarrow> starts_with (rev p) (rev s)"

definition strip_suffix :: "'a list \<Rightarrow> 'a list \<Rightarrow> 'a list option" where
  "strip_suffix p s = map_option rev (strip_prefix (rev p) (rev s))"

text \<open>\<open>find_sub p s\<close> is the offset of the first occurrence of \<open>p\<close> in \<open>s\<close>.\<close>

fun find_sub :: "'a list \<Rightarrow> 'a list \<Rightarrow> nat option" where
  "find_sub p [] = (if p = [] then Some 0 else None)"
| "find_sub p (c # cs) =
     (if starts_with p (c # cs) then Some 0 else map_option Suc (find_sub p cs))"

definition contains_str :: "'a list \<Rightarrow> 'a list \<Rightarrow> bool" where
  "contains_str p s \<longleftrightarrow> find_sub p s \<noteq> None"

fun split_once :: "'a \<Rightarrow> 'a list \<Rightarrow> ('a list \<times> 'a list) option" where
  "split_once d [] = None"
| "split_once d (c # cs) =
     (if c = d then Some ([], cs)
      else map_option (\<lambda>(a, b). (c # a, b)) (split_once d cs))"

definition rsplit_once :: "'a \<Rightarrow> 'a list \<Rightarrow> ('a list \<times> 'a list) option" where
  "rsplit_once d s = map_option (\<lambda>(a, b). (rev b, rev a)) (split_once d (rev s))"

fun split_on :: "'a \<Rightarrow> 'a list \<Rightarrow> 'a list list" where
  "split_on d [] = [[]]"
| "split_on d (c # cs) =
     (if c = d then [] # split_on d cs
      else (case split_on d cs of [] \<Rightarrow> [[c]] | p # ps \<Rightarrow> (c # p) # ps))"

text \<open>\<open>split\<close> by a predicate on characters.\<close>

fun split_by :: "('a \<Rightarrow> bool) \<Rightarrow> 'a list \<Rightarrow> 'a list list" where
  "split_by P [] = [[]]"
| "split_by P (c # s) =
     (if P c then [] # split_by P s
      else (case split_by P s of [] \<Rightarrow> [[c]] | w # ws \<Rightarrow> (c # w) # ws))"

lemma strip_prefix_Some_iff [simp]: "strip_prefix p s = Some r \<longleftrightarrow> s = p @ r"
  by (induction p s rule: strip_prefix.induct) auto

lemma strip_prefix_None_iff: "strip_prefix p s = None \<longleftrightarrow> (\<forall>r. s \<noteq> p @ r)"
  by (induction p s rule: strip_prefix.induct) auto

lemma strip_prefix_append [simp]: "strip_prefix p (p @ s) = Some s"
  by simp

lemma starts_with_iff: "starts_with p s \<longleftrightarrow> (\<exists>r. s = p @ r)"
  by (auto simp: starts_with_def)

lemma starts_with_append [simp]: "starts_with p (p @ s)"
  by (auto simp: starts_with_iff)

lemma ends_with_iff: "ends_with p s \<longleftrightarrow> (\<exists>r. s = r @ p)"
  unfolding ends_with_def starts_with_iff
  by (metis rev_append rev_rev_ident)

lemma strip_suffix_Some_iff [simp]: "strip_suffix p s = Some r \<longleftrightarrow> s = r @ p"
  by (auto simp: strip_suffix_def) (metis rev_append rev_rev_ident)

lemma find_sub_Some:
  "find_sub p s = Some i \<Longrightarrow> i + length p \<le> length s \<and> take (length p) (drop i s) = p"
proof (induction p s arbitrary: i rule: find_sub.induct)
  case (1 p)
  then show ?case by (auto split: if_splits)
next
  case (2 p c cs)
  then show ?case
  proof (cases "starts_with p (c # cs)")
    case True
    then obtain r where "c # cs = p @ r" by (auto simp: starts_with_iff)
    moreover have "i = 0" using True 2(2) by simp
    ultimately show ?thesis by simp
  next
    case False
    with 2(2) obtain j where "find_sub p cs = Some j" "i = Suc j" by auto
    with 2(1) False show ?thesis by auto
  qed
qed

lemma find_sub_None_iff: "find_sub p s = None \<longleftrightarrow> (\<forall>a b. s \<noteq> a @ p @ b)"
proof (induction p s rule: find_sub.induct)
  case (1 p) then show ?case by auto
next
  case (2 p c cs)
  show ?case
  proof (cases "starts_with p (c # cs)")
    case True
    then show ?thesis
      by (auto simp: starts_with_iff) (metis append_Nil)
  next
    case False
    have "(\<forall>a b. c # cs \<noteq> a @ p @ b) \<longleftrightarrow> (\<forall>a b. cs \<noteq> a @ p @ b)"
    proof (intro iffI allI notI)
      fix a b assume *: "\<forall>a b. c # cs \<noteq> a @ p @ b" and "cs = a @ p @ b"
      then have "c # cs = (c # a) @ p @ b" by simp
      with * show False by blast
    next
      fix a b assume *: "\<forall>a b. cs \<noteq> a @ p @ b" and eq: "c # cs = a @ p @ b"
      show False
      proof (cases a)
        case Nil
        with eq False show False by (auto simp: starts_with_iff)
      next
        case (Cons x xs)
        with eq * show False by auto
      qed
    qed
    with False 2 show ?thesis by simp
  qed
qed

lemma contains_str_iff: "contains_str p s \<longleftrightarrow> (\<exists>a b. s = a @ p @ b)"
  by (auto simp: contains_str_def find_sub_None_iff simp del: not_None_eq)

lemma split_once_Some_iff:
  "split_once d s = Some (a, b) \<longleftrightarrow> s = a @ d # b \<and> d \<notin> set a"
proof (induction s arbitrary: a)
  case Nil then show ?case by simp
next
  case (Cons c cs)
  then show ?case by (cases a) auto
qed

lemma split_once_None_iff: "split_once d s = None \<longleftrightarrow> d \<notin> set s"
  by (induction s) auto

lemma rsplit_once_Some_iff:
  "rsplit_once d s = Some (a, b) \<longleftrightarrow> s = a @ d # b \<and> d \<notin> set b"
proof -
  have "rsplit_once d s = Some (a, b) \<longleftrightarrow> split_once d (rev s) = Some (rev b, rev a)"
    by (auto simp: rsplit_once_def)
  also have "\<dots> \<longleftrightarrow> rev s = rev b @ d # rev a \<and> d \<notin> set b"
    by (simp add: split_once_Some_iff)
  also have "\<dots> \<longleftrightarrow> s = a @ d # b \<and> d \<notin> set b"
    by (metis append.assoc append_Cons append_Nil rev.simps(2) rev_append rev_rev_ident)
  finally show ?thesis .
qed

lemma rsplit_once_None_iff: "rsplit_once d s = None \<longleftrightarrow> d \<notin> set s"
  by (simp add: rsplit_once_def split_once_None_iff)

lemma split_on_not_Nil [simp]: "split_on d s \<noteq> []"
  by (induction s) (auto split: list.splits)

lemma split_on_no_sep [simp]: "d \<notin> set s \<Longrightarrow> split_on d s = [s]"
  by (induction s) auto

lemma split_on_append:
  "d \<notin> set a \<Longrightarrow> split_on d (a @ d # b) = a # split_on d b"
  by (induction a) auto

lemma split_on_sep_free: "p \<in> set (split_on d s) \<Longrightarrow> d \<notin> set p"
  by (induction s arbitrary: p) (auto split: if_splits list.splits)

lemma split_on_append_sep: "split_on d (a @ d # b) = split_on d a @ split_on d b"
  by (induction a) (auto split: list.splits)

section \<open>White space, as \<open>char::is_whitespace\<close> has it\<close>

text \<open>The UTF-8 encodings of the code points with the Unicode property
  White\_Space.\<close>

definition ws_encodings :: "string list" where
  "ws_encodings =
     map (\<lambda>n. [char_of n]) [9, 10, 11, 12, 13, 32 :: nat]
     @ map (map char_of)
        ([[194, 133], [194, 160], [225, 154, 128 :: nat]]
         @ map (\<lambda>n. [226, 128, n]) [128, 129, 130, 131, 132, 133, 134, 135, 136, 137, 138,
                                      168, 169, 175]
         @ [[226, 129, 159], [227, 128, 128]])"

fun strip_any :: "string list \<Rightarrow> string \<Rightarrow> string option" where
  "strip_any [] s = None"
| "strip_any (p # ps) s = (case strip_prefix p s of None \<Rightarrow> strip_any ps s | Some r \<Rightarrow> Some r)"

lemma strip_any_Some:
  "strip_any ps s = Some r \<Longrightarrow> \<exists>p \<in> set ps. s = p @ r"
  by (induction ps s rule: strip_any.induct) (auto split: option.splits)

lemma strip_any_shorter:
  assumes "strip_any ps s = Some r" "[] \<notin> set ps"
  shows "length r < length s"
proof -
  from strip_any_Some [OF assms(1)] obtain p where "p \<in> set ps" "s = p @ r" by blast
  with assms(2) show ?thesis by (cases p) auto
qed

text \<open>\<open>trim_left ps s\<close> drops encodings of \<open>ps\<close> at the front as long as there is one.\<close>

function trim_left :: "string list \<Rightarrow> string \<Rightarrow> string" where
  "trim_left ps s =
     (case (if [] \<in> set ps then None else strip_any ps s) of
        None \<Rightarrow> s
      | Some r \<Rightarrow> trim_left ps r)"
  by pat_completeness auto
termination
  by (relation "measure (\<lambda>(ps, s). length s)") (auto dest: strip_any_shorter split: if_splits)

declare trim_left.simps [simp del]

definition trim_start :: "string \<Rightarrow> string" where
  "trim_start s = trim_left ws_encodings s"

definition trim_end :: "string \<Rightarrow> string" where
  "trim_end s = rev (trim_left (map rev ws_encodings) (rev s))"

definition trim_str :: "string \<Rightarrow> string" where
  "trim_str s = trim_end (trim_start s)"

text \<open>A byte that cannot belong to a white-space character: printable ASCII.\<close>

definition graphic :: "char \<Rightarrow> bool" where
  "graphic c \<longleftrightarrow> 33 \<le> byte c \<and> byte c \<le> 126"

lemma Nil_notin_ws [simp]: "[] \<notin> set ws_encodings"
  by (auto simp: ws_encodings_def)

lemma ws_encoding_not_graphic:
  assumes "p \<in> set ws_encodings" "c \<in> set p" shows "\<not> graphic c"
  using assms by (auto simp: ws_encodings_def graphic_def)

lemma trim_left_graphic:
  assumes "\<And>p c. p \<in> set ps \<Longrightarrow> c \<in> set p \<Longrightarrow> \<not> graphic c" "s = [] \<or> graphic (hd s)"
    "[] \<notin> set ps"
  shows "trim_left ps s = s"
proof -
  have "strip_any ps s = None"
  proof (rule ccontr)
    assume "strip_any ps s \<noteq> None"
    then obtain r where "strip_any ps s = Some r" by auto
    then obtain p where p: "p \<in> set ps" "s = p @ r" using strip_any_Some by blast
    with assms(3) have "p \<noteq> []" by metis
    then have "hd s \<in> set p" "s \<noteq> []" using p by auto
    with assms(1,2) p(1) show False by auto
  qed
  with assms(3) show ?thesis by (subst trim_left.simps) simp
qed

lemma trim_start_graphic [simp]: "graphic c \<Longrightarrow> trim_start (c # s) = c # s"
  unfolding trim_start_def
  by (rule trim_left_graphic) (use ws_encoding_not_graphic in auto)

lemma trim_end_graphic [simp]:
  assumes "graphic c" shows "trim_end (s @ [c]) = s @ [c]"
proof -
  have "trim_left (map rev ws_encodings) (rev (s @ [c])) = rev (s @ [c])"
    by (rule trim_left_graphic) (use assms ws_encoding_not_graphic in auto)
  then show ?thesis by (simp add: trim_end_def)
qed

lemma trim_Nil [simp]: "trim_str [] = []"
proof -
  have "trim_left ws_encodings [] = []" "trim_left (map rev ws_encodings) [] = []"
    by (rule trim_left_graphic; use ws_encoding_not_graphic in auto)+
  then show ?thesis by (simp add: trim_str_def trim_start_def trim_end_def)
qed

lemma trim_str_graphic:
  assumes "\<forall>c \<in> set s. graphic c" shows "trim_str s = s"
proof (cases s rule: rev_cases)
  case Nil then show ?thesis by simp
next
  case (snoc xs x)
  have "trim_start s = s"
  proof (cases s)
    case (Cons a list)
    with assms have "graphic a" by simp
    with Cons show ?thesis by simp
  qed (use snoc in simp)
  then show ?thesis using snoc assms by (simp add: trim_str_def)
qed

lemma length_trim_left [simp]: "length (trim_left ps s) \<le> length s"
proof (induction ps s rule: trim_left.induct)
  case (1 ps s)
  show ?case
  proof (cases "if [] \<in> set ps then None else strip_any ps s")
    case None then show ?thesis by (subst trim_left.simps) simp
  next
    case (Some r)
    with 1 have "length (trim_left ps r) \<le> length r" by blast
    moreover have "length r < length s"
      using Some by (auto split: if_splits dest: strip_any_shorter)
    ultimately show ?thesis using Some by (subst trim_left.simps) (simp split: if_splits)
  qed
qed

lemma set_trim_left: "set (trim_left ps s) \<subseteq> set s"
proof (induction ps s rule: trim_left.induct)
  case (1 ps s)
  show ?case
  proof (cases "if [] \<in> set ps then None else strip_any ps s")
    case None then show ?thesis by (subst trim_left.simps) simp
  next
    case (Some r)
    with 1 have "set (trim_left ps r) \<subseteq> set r" by blast
    moreover have "set r \<subseteq> set s"
      using Some by (auto split: if_splits dest!: strip_any_Some)
    ultimately show ?thesis using Some by (subst trim_left.simps) (simp split: if_splits)
  qed
qed

lemma set_trim_str: "set (trim_str s) \<subseteq> set s"
  using set_trim_left [of "map rev ws_encodings" "rev (trim_left ws_encodings s)"]
    set_trim_left [of ws_encodings s]
  by (auto simp: trim_str_def trim_start_def trim_end_def)

text \<open>\<open>split_whitespace\<close>: the maximal runs of bytes outside white-space characters.\<close>

function split_ws_acc :: "string \<Rightarrow> string \<Rightarrow> string list" where
  "split_ws_acc acc s =
     (case strip_any ws_encodings s of
        Some r \<Rightarrow> (if acc = [] then [] else [rev acc]) @ split_ws_acc [] r
      | None \<Rightarrow>
          (case s of
             [] \<Rightarrow> (if acc = [] then [] else [rev acc])
           | c # cs \<Rightarrow> split_ws_acc (c # acc) cs))"
  by pat_completeness auto
termination
  by (relation "measure (\<lambda>(acc, s). length s)") (auto dest: strip_any_shorter)

declare split_ws_acc.simps [simp del]

definition split_whitespace :: "string \<Rightarrow> string list" where
  "split_whitespace s = split_ws_acc [] s"

text \<open>\<open>str::lines\<close>: the pieces ended by a line feed, a carriage return before it
  dropped; the rest after the last line feed is a line unless it is empty (and
  keeps its carriage return).\<close>

definition chomp_cr :: "string \<Rightarrow> string" where
  "chomp_cr s = (case strip_suffix [char_of (13::nat)] s of Some r \<Rightarrow> r | None \<Rightarrow> s)"

definition str_lines :: "string \<Rightarrow> string list" where
  "str_lines s =
     (let ps = split_on (char_of (10::nat)) s in
        map chomp_cr (butlast ps) @ (if last ps = [] then [] else [last ps]))"

lemma str_lines_append:
  "str_lines (a @ char_of (10::nat) # b) = map chomp_cr (split_on (char_of (10::nat)) a) @ str_lines b"
  by (simp add: str_lines_def split_on_append_sep butlast_append Let_def)

lemma str_lines_Nil [simp]: "str_lines [] = []"
  by (simp add: str_lines_def)

text \<open>\<open>trim_end_matches(c)\<close>.\<close>

definition trim_end_matches :: "'a \<Rightarrow> 'a list \<Rightarrow> 'a list" where
  "trim_end_matches c s = rev (dropWhile (\<lambda>x. x = c) (rev s))"

lemma trim_end_matches_last:
  "trim_end_matches c s \<noteq> [] \<Longrightarrow> last (trim_end_matches c s) \<noteq> c"
  by (metis (full_types) hd_dropWhile hd_rev rev_is_Nil_conv rev_rev_ident
      trim_end_matches_def)

section \<open>Numbers in text\<close>

text \<open>\<open>char::to_digit(radix)\<close> on an ASCII character.\<close>

definition to_digit :: "nat \<Rightarrow> char \<Rightarrow> nat option" where
  "to_digit r c =
     (let d = (if is_ascii_digit c then byte c - 48
               else if is_ascii_lower c then byte c - 87
               else if is_ascii_upper c then byte c - 55
               else 36)
      in if d < r then Some d else None)"

fun parse_digits :: "nat \<Rightarrow> nat \<Rightarrow> nat \<Rightarrow> string \<Rightarrow> nat option" where
  "parse_digits r m acc [] = Some acc"
| "parse_digits r m acc (c # cs) =
     (case to_digit r c of
        None \<Rightarrow> None
      | Some d \<Rightarrow> (if acc * r + d > m then None else parse_digits r m (acc * r + d) cs))"

text \<open>\<open>from_str_radix(s, r)\<close> of an unsigned type with maximum \<open>m\<close>: one leading
  plus sign is allowed, at least one digit is needed, overflow is an error.\<close>

definition parse_uint :: "nat \<Rightarrow> nat \<Rightarrow> string \<Rightarrow> nat option" where
  "parse_uint r m s =
     (case s of
        [] \<Rightarrow> None
      | c # cs \<Rightarrow>
          (let ds = (if c = CHR ''+'' then cs else s)
           in if ds = [] then None else parse_digits r m 0 ds))"

definition digit_char :: "nat \<Rightarrow> char" where
  "digit_char d = char_of (48 + d)"

fun show_nat :: "nat \<Rightarrow> string" where
  "show_nat n = (if n < 10 then [digit_char n] else show_nat (n div 10) @ [digit_char (n mod 10)])"

declare show_nat.simps [simp del]

definition show_int :: "int \<Rightarrow> string" where
  "show_int i = (if i < 0 then CHR ''-'' # show_nat (nat (- i)) else show_nat (nat i))"

lemma to_digit_digit_char [simp]: "d < 10 \<Longrightarrow> to_digit 10 (digit_char d) = Some d"
  by (simp add: to_digit_def digit_char_def is_ascii_digit_def Let_def)

lemma parse_digits_append:
  "parse_digits r m acc (a @ b) =
     (case parse_digits r m acc a of None \<Rightarrow> None | Some v \<Rightarrow> parse_digits r m v b)"
  by (induction a arbitrary: acc) (auto split: option.splits)

lemma parse_digits_le: "parse_digits r m acc s = Some v \<Longrightarrow> acc \<le> m \<Longrightarrow> v \<le> m"
  by (induction s arbitrary: acc) (auto split: option.splits if_splits)

lemma parse_uint_le: "parse_uint r m s = Some v \<Longrightarrow> v \<le> m"
  by (auto simp del: parse_digits.simps simp: parse_uint_def Let_def
      split: list.splits if_splits dest: parse_digits_le)

lemma parse_digits_show_nat: "n \<le> m \<Longrightarrow> parse_digits 10 m 0 (show_nat n) = Some n"
proof (induction n rule: less_induct)
  case (less n)
  show ?case
  proof (cases "n < 10")
    case True
    with less.prems show ?thesis by (subst show_nat.simps) auto
  next
    case False
    have "parse_digits 10 m 0 (show_nat (n div 10)) = Some (n div 10)"
      using False less by auto
    with False less.prems show ?thesis
      by (subst show_nat.simps) (auto simp: parse_digits_append)
  qed
qed

lemma show_nat_digits: "c \<in> set (show_nat n) \<Longrightarrow> is_ascii_digit c"
proof (induction n rule: less_induct)
  case (less n)
  show ?case
  proof (cases "n < 10")
    case True
    with less.prems show ?thesis
      by (subst (asm) show_nat.simps) (auto simp: digit_char_def is_ascii_digit_def)
  next
    case False
    with less.prems have "c \<in> set (show_nat (n div 10)) \<or> c = digit_char (n mod 10)"
      by (subst (asm) show_nat.simps) auto
    with False less.IH [of "n div 10"] show ?thesis
      by (auto simp: digit_char_def is_ascii_digit_def)
  qed
qed

lemma show_nat_not_Nil [simp]: "show_nat n \<noteq> []"
  by (subst show_nat.simps) auto

lemma hd_show_nat: "0 < n \<Longrightarrow> hd (show_nat n) \<noteq> CHR ''0''"
proof (induction n rule: less_induct)
  case (less n)
  show ?case
  proof (cases "n < 10")
    case True
    with less.prems have "byte (digit_char n) \<noteq> byte (CHR ''0'')"
      by (simp add: digit_char_def) (simp add: byte_def)
    with True show ?thesis by (subst show_nat.simps) auto
  next
    case False
    with less.IH [of "n div 10"] show ?thesis by (subst show_nat.simps) simp
  qed
qed

lemma digit_graphic: "is_ascii_digit c \<Longrightarrow> graphic c"
  by (simp add: graphic_def is_ascii_digit_def)

lemma not_digit_chars [simp]:
  "\<not> is_ascii_digit (CHR ''+'')" "\<not> is_ascii_digit (CHR ''.'')" "\<not> is_ascii_digit (CHR '':'')"
  "\<not> is_ascii_digit (CHR ''-'')"
  by (simp_all add: is_ascii_digit_def byte_def)

lemma show_nat_notin [simp]:
  "\<not> is_ascii_digit c \<Longrightarrow> c \<notin> set (show_nat n)"
  using show_nat_digits by blast

lemma parse_uint_show_nat [simp]: "n \<le> m \<Longrightarrow> parse_uint 10 m (show_nat n) = Some n"
proof -
  assume n: "n \<le> m"
  obtain c cs where s: "show_nat n = c # cs" by (cases "show_nat n") auto
  then have "is_ascii_digit c" using show_nat_digits [of c n] by simp
  then have "c \<noteq> CHR ''+''" by auto
  with s parse_digits_show_nat [OF n] show ?thesis
    by (simp add: parse_uint_def)
qed

lemma trim_show_nat [simp]: "trim_str (show_nat n) = show_nat n"
  by (rule trim_str_graphic) (use show_nat_digits digit_graphic in blast)

lemma show_nat_inject [simp]: "show_nat m = show_nat n \<longleftrightarrow> m = n"
proof
  assume "show_nat m = show_nat n"
  then have "parse_uint 10 (max m n) (show_nat m) = parse_uint 10 (max m n) (show_nat n)" by simp
  then show "m = n" by simp
qed simp

section \<open>\<open>String::from_utf8_lossy\<close>\<close>

text \<open>\<open>utf8_step\<close> looks at the first bytes of a buffer as the decoder of the
  standard library does: whether they are a well-formed scalar value, and how many
  bytes belong to it (or to the maximal ill-formed prefix that one replacement
  character stands for).\<close>

definition byte_at :: "string \<Rightarrow> nat \<Rightarrow> nat" where
  "byte_at s i = (if i < length s then byte (s ! i) else 0)"

definition is_cont :: "nat \<Rightarrow> bool" where
  "is_cont b \<longleftrightarrow> 128 \<le> b \<and> b \<le> 191"

definition utf8_step :: "string \<Rightarrow> bool \<times> nat" where
  "utf8_step s =
     (let b0 = byte_at s 0; b1 = byte_at s 1; b2 = byte_at s 2; b3 = byte_at s 3 in
      if b0 < 128 then (True, 1)
      else if 194 \<le> b0 \<and> b0 \<le> 223 then (if is_cont b1 then (True, 2) else (False, 1))
      else if 224 \<le> b0 \<and> b0 \<le> 239 then
        (if \<not> (is_cont b1 \<and> (b0 = 224 \<longrightarrow> 160 \<le> b1) \<and> (b0 = 237 \<longrightarrow> b1 \<le> 159)) then (False, 1)
         else if \<not> is_cont b2 then (False, 2) else (True, 3))
      else if 240 \<le> b0 \<and> b0 \<le> 244 then
        (if \<not> (is_cont b1 \<and> (b0 = 240 \<longrightarrow> 144 \<le> b1) \<and> (b0 = 244 \<longrightarrow> b1 \<le> 143)) then (False, 1)
         else if \<not> is_cont b2 then (False, 2)
         else if \<not> is_cont b3 then (False, 3) else (True, 4))
      else (False, 1))"

lemma utf8_step_pos: "utf8_step s = (ok, n) \<Longrightarrow> 0 < n"
  by (auto simp: utf8_step_def Let_def split: if_splits)

definition replacement_char :: string where
  "replacement_char = map char_of [239, 191, 189 :: nat]"

function from_utf8_lossy :: "string \<Rightarrow> string" where
  "from_utf8_lossy s =
     (if s = [] then []
      else (let (ok, n) = utf8_step s in
              (if ok then take n s else replacement_char) @ from_utf8_lossy (drop n s)))"
  by pat_completeness auto
termination
  by (relation "measure length") (auto dest!: utf8_step_pos [OF sym])

declare from_utf8_lossy.simps [simp del]

lemma from_utf8_lossy_ascii: "\<forall>c \<in> set s. byte c < 128 \<Longrightarrow> from_utf8_lossy s = s"
proof (induction s)
  case Nil then show ?case by (simp add: from_utf8_lossy.simps)
next
  case (Cons c s)
  then have "utf8_step (c # s) = (True, 1)"
    by (simp add: utf8_step_def byte_at_def)
  with Cons show ?case by (subst from_utf8_lossy.simps) simp
qed

text \<open>\<open>String::from_utf8\<close> accepts exactly the byte sequences without an ill-formed
  part.\<close>

function utf8_valid :: "string \<Rightarrow> bool" where
  "utf8_valid s =
     (if s = [] then True
      else (let (ok, n) = utf8_step s in ok \<and> utf8_valid (drop n s)))"
  by pat_completeness auto
termination
  by (relation "measure length") (auto dest!: utf8_step_pos [OF sym])

declare utf8_valid.simps [simp del]

definition from_utf8 :: "string \<Rightarrow> string option" where
  "from_utf8 s = (if utf8_valid s then Some s else None)"

lemma utf8_valid_ascii: "\<forall>c \<in> set s. byte c < 128 \<Longrightarrow> utf8_valid s"
proof (induction s)
  case Nil then show ?case by (simp add: utf8_valid.simps)
next
  case (Cons c s)
  then have "utf8_step (c # s) = (True, 1)"
    by (simp add: utf8_step_def byte_at_def)
  with Cons show ?case by (subst utf8_valid.simps) simp
qed

section \<open>More on white space\<close>

lemma trim_left_id_iff:
  assumes "[] \<notin> set ps"
  shows "trim_left ps s = s \<longleftrightarrow> strip_any ps s = None"
proof (cases "strip_any ps s")
  case None
  with assms show ?thesis by (subst trim_left.simps) simp
next
  case (Some r)
  with assms have "length r < length s" by (auto dest: strip_any_shorter)
  moreover have "length (trim_left ps r) \<le> length r" by simp
  moreover have "trim_left ps s = trim_left ps r"
    using Some assms by (subst trim_left.simps) simp
  ultimately have "trim_left ps s \<noteq> s" by (metis not_le)
  with Some show ?thesis by simp
qed

lemma strip_any_None_iff: "strip_any ps s = None \<longleftrightarrow> (\<forall>p \<in> set ps. \<not> starts_with p s)"
  by (induction ps s rule: strip_any.induct)
    (auto simp: starts_with_def split: option.splits)

lemma trim_left_suffix: "\<exists>p. s = p @ trim_left ps s"
proof (induction ps s rule: trim_left.induct)
  case (1 ps s)
  show ?case
  proof (cases "if [] \<in> set ps then None else strip_any ps s")
    case None then show ?thesis by (subst trim_left.simps) simp
  next
    case (Some r)
    then obtain p where "s = p @ r" by (auto split: if_splits dest!: strip_any_Some)
    moreover obtain q where "r = q @ trim_left ps r" using 1 Some by blast
    moreover have "trim_left ps s = trim_left ps r"
      using Some by (subst trim_left.simps) (simp split: if_splits)
    ultimately show ?thesis by (metis append.assoc)
  qed
qed

lemma trim_left_idem: "trim_left ps (trim_left ps s) = trim_left ps s"
proof (induction ps s rule: trim_left.induct)
  case (1 ps s)
  show ?case
  proof (cases "if [] \<in> set ps then None else strip_any ps s")
    case None then have "trim_left ps s = s" by (subst trim_left.simps) simp
    then show ?thesis by simp
  next
    case (Some r)
    then have "trim_left ps s = trim_left ps r" by (subst trim_left.simps) (simp split: if_splits)
    with 1 Some show ?thesis by simp
  qed
qed

lemma Nil_notin_rev_ws [simp]: "[] \<notin> set (map rev ws_encodings)"
  using Nil_notin_ws by auto

lemma trim_str_idem [simp]: "trim_str (trim_str s) = trim_str s"
proof -
  let ?a = "trim_start s" and ?b = "trim_str s"
  have a: "strip_any ws_encodings ?a = None"
    using trim_left_idem [of ws_encodings s] by (simp add: trim_start_def flip: trim_left_id_iff)
  obtain q where "rev ?a = q @ trim_left (map rev ws_encodings) (rev ?a)" using trim_left_suffix by blast
  then have "?a = ?b @ rev q"
    by (metis rev_append rev_rev_ident trim_end_def trim_str_def)
  with a have "strip_any ws_encodings ?b = None"
    by (auto simp: strip_any_None_iff starts_with_iff)
  then have "trim_start ?b = ?b" by (simp add: trim_start_def trim_left_id_iff)
  moreover have "trim_end ?b = ?b" by (simp add: trim_str_def trim_end_def trim_left_idem)
  ultimately show ?thesis by (simp add: trim_str_def)
qed

lemma trim_str_no_trailing_cr: "trim_str s = s \<Longrightarrow> chomp_cr s = s"
proof (cases "strip_suffix [char_of (13::nat)] s")
  case (Some r)
  assume "trim_str s = s"
  then have "trim_end s = s" by (metis trim_left_idem trim_end_def rev_rev_ident trim_str_def)
  then have "strip_any (map rev ws_encodings) (rev s) = None"
    unfolding trim_left_id_iff [OF Nil_notin_rev_ws, symmetric] by (metis rev_rev_ident trim_end_def)
  moreover have "[char_of (13::nat)] \<in> set (map rev ws_encodings)"
    by (simp add: ws_encodings_def)
  moreover have "starts_with [char_of (13::nat)] (rev s)"
    using Some by (auto simp: starts_with_iff)
  ultimately show ?thesis unfolding strip_any_None_iff by blast
qed (simp add: chomp_cr_def)

text \<open>A text whose first character is not white space keeps its front when it is
  extended by a printable character.\<close>

lemma trim_start_append:
  assumes "trim_start a = a" "a \<noteq> []" "graphic c"
  shows "trim_start (a @ c # b) = a @ c # b"
proof -
  have none: "strip_any ws_encodings a = None"
    using assms(1) by (simp add: trim_start_def trim_left_id_iff)
  have "\<not> starts_with p (a @ c # b)" if p: "p \<in> set ws_encodings" for p
  proof
    assume "starts_with p (a @ c # b)"
    then obtain r where r: "a @ c # b = p @ r" by (auto simp: starts_with_iff)
    show False
    proof (cases "length p \<le> length a")
      case True
      with r have "a = p @ drop (length p) a"
        by (metis append_eq_append_conv_if append_take_drop_id)
      with none p show False by (auto simp: strip_any_None_iff starts_with_iff)
    next
      case False
      with r have "c = p ! length a"
        by (metis linorder_not_le nth_append nth_append_length)
      with False ws_encoding_not_graphic [OF p] assms(3) show False by (metis linorder_not_le nth_mem)
    qed
  qed
  then show ?thesis
    by (simp add: trim_start_def trim_left_id_iff strip_any_None_iff)
qed

lemma trim_str_append:
  assumes "trim_start a = a" "a \<noteq> []" "graphic c" "b \<noteq> [] \<Longrightarrow> graphic (last b)"
  shows "trim_str (a @ c # b) = a @ c # b"
proof (cases b rule: rev_cases)
  case Nil
  with assms trim_start_append [OF assms(1-3), of b] show ?thesis
    by (simp add: trim_str_def)
next
  case (snoc xs x)
  then have "trim_end ((a @ c # xs) @ [x]) = (a @ c # xs) @ [x]"
    using assms(4) by (intro trim_end_graphic) simp
  with snoc trim_start_append [OF assms(1-3), of b] show ?thesis
    by (simp add: trim_str_def)
qed

section \<open>Sums and counts over a list with one element replaced\<close>

lemma sum_list_filter_update:
  fixes f :: "'a \<Rightarrow> nat"
  assumes "i < length xs"
  shows "sum_list (map f (filter P (xs[i := y]))) + (if P (xs ! i) then f (xs ! i) else 0)
    = sum_list (map f (filter P xs)) + (if P y then f y else 0)"
  using assms
proof (induction xs arbitrary: i)
  case (Cons x xs)
  then show ?case using Cons.IH [of "i - 1"] by (cases i) auto
qed simp

lemma length_filter_update:
  assumes "i < length xs"
  shows "length (filter P (xs[i := y])) + (if P (xs ! i) then 1 else 0)
    = length (filter P xs) + (if P y then 1 else 0)"
  using assms
proof (induction xs arbitrary: i)
  case (Cons x xs)
  then show ?case using Cons.IH [of "i - 1"] by (cases i) auto
qed simp

section \<open>Invariants of step relations\<close>

text \<open>A component that runs as steps from some initial states, with a predicate that holds at
  the start and is kept by every step.\<close>

locale machine =
  fixes init :: "'s \<Rightarrow> bool"
    and step :: "'s \<Rightarrow> 's \<Rightarrow> bool"
    and inv :: "'s \<Rightarrow> bool"
  assumes init_inv: "init s \<Longrightarrow> inv s"
    and step_inv: "inv s \<Longrightarrow> step s t \<Longrightarrow> inv t"
begin

lemma steps_inv: "step\<^sup>*\<^sup>* s t \<Longrightarrow> inv s \<Longrightarrow> inv t"
  by (induction rule: rtranclp_induct) (auto intro: step_inv)

lemma reachable_inv: "init s \<Longrightarrow> step\<^sup>*\<^sup>* s t \<Longrightarrow> inv t"
  using steps_inv init_inv by blast

end

end
