(* ===== verification/IpAddr.thy ===== *)
theory IpAddr
  imports Prelude
begin

text \<open>
  IP addresses as \<open>std::net\<close> has them: the four octets of an \<open>Ipv4Addr\<close>, the
  eight segments of an \<open>Ipv6Addr\<close>, the classification predicates the gate calls,
  and the recursive-descent parser behind \<open>str::parse::<IpAddr>()\<close>.
\<close>

unbundle bit_operations_syntax

datatype ipv4 = Ipv4 u8 u8 u8 u8

datatype ipv6 = Ipv6 u16 u16 u16 u16 u16 u16 u16 u16

datatype ip_addr = V4 ipv4 | V6 ipv6

fun octets :: "ipv4 \<Rightarrow> u8 list" where
  "octets (Ipv4 a b c d) = [a, b, c, d]"

fun segments :: "ipv6 \<Rightarrow> u16 list" where
  "segments (Ipv6 a b c d e f g h) = [a, b, c, d, e, f, g, h]"

text \<open>\<open>Ipv4Addr::from(u32)\<close>: the big-endian bytes.\<close>

definition ipv4_from :: "u32 \<Rightarrow> ipv4" where
  "ipv4_from w = Ipv4 (ucast (drop_bit 24 w)) (ucast (drop_bit 16 w))
                      (ucast (drop_bit 8 w)) (ucast w)"

text \<open>The address as a number, the way CIDR blocks read it.\<close>

fun v4_val :: "ipv4 \<Rightarrow> nat" where
  "v4_val (Ipv4 a b c d) = ((unat a * 256 + unat b) * 256 + unat c) * 256 + unat d"

section \<open>Classification\<close>

fun is_loopback :: "ipv4 \<Rightarrow> bool" where
  "is_loopback (Ipv4 a b c d) \<longleftrightarrow> a = 127"

fun is_private :: "ipv4 \<Rightarrow> bool" where
  "is_private (Ipv4 a b c d) \<longleftrightarrow>
     a = 10 \<or> (a = 172 \<and> 16 \<le> b \<and> b \<le> 31) \<or> (a = 192 \<and> b = 168)"

fun is_link_local :: "ipv4 \<Rightarrow> bool" where
  "is_link_local (Ipv4 a b c d) \<longleftrightarrow> a = 169 \<and> b = 254"

fun is_unspecified :: "ipv4 \<Rightarrow> bool" where
  "is_unspecified (Ipv4 a b c d) \<longleftrightarrow> a = 0 \<and> b = 0 \<and> c = 0 \<and> d = 0"

fun is_broadcast :: "ipv4 \<Rightarrow> bool" where
  "is_broadcast (Ipv4 a b c d) \<longleftrightarrow> a = 255 \<and> b = 255 \<and> c = 255 \<and> d = 255"

fun is_multicast :: "ipv4 \<Rightarrow> bool" where
  "is_multicast (Ipv4 a b c d) \<longleftrightarrow> 224 \<le> a \<and> a \<le> 239"

fun is_documentation :: "ipv4 \<Rightarrow> bool" where
  "is_documentation (Ipv4 a b c d) \<longleftrightarrow>
     (a = 192 \<and> b = 0 \<and> c = 2) \<or> (a = 198 \<and> b = 51 \<and> c = 100) \<or> (a = 203 \<and> b = 0 \<and> c = 113)"

fun v6_is_loopback :: "ipv6 \<Rightarrow> bool" where
  "v6_is_loopback ip \<longleftrightarrow> segments ip = [0, 0, 0, 0, 0, 0, 0, 1]"

fun v6_is_unspecified :: "ipv6 \<Rightarrow> bool" where
  "v6_is_unspecified ip \<longleftrightarrow> segments ip = [0, 0, 0, 0, 0, 0, 0, 0]"

fun ip_is_loopback :: "ip_addr \<Rightarrow> bool" where
  "ip_is_loopback (V4 ip) = is_loopback ip"
| "ip_is_loopback (V6 ip) = v6_is_loopback ip"

fun v6_is_multicast :: "ipv6 \<Rightarrow> bool" where
  "v6_is_multicast (Ipv6 a b c d e f g h) \<longleftrightarrow> a AND 0xff00 = 0xff00"

fun to_ipv4_mapped :: "ipv6 \<Rightarrow> ipv4 option" where
  "to_ipv4_mapped (Ipv6 a b c d e f g h) =
     (if a = 0 \<and> b = 0 \<and> c = 0 \<and> d = 0 \<and> e = 0 \<and> f = 0xffff
      then Some (Ipv4 (ucast (drop_bit 8 g)) (ucast g) (ucast (drop_bit 8 h)) (ucast h))
      else None)"

section \<open>The parser of \<open>std::net\<close>\<close>

type_synonym 'a parser = "string \<Rightarrow> ('a \<times> string) option"

text \<open>\<open>read_number(radix, Some(max_digits), allow_zero_prefix)\<close> for a type with
  maximum \<open>lim\<close>.\<close>

fun read_digits :: "nat \<Rightarrow> nat \<Rightarrow> nat \<Rightarrow> nat \<Rightarrow> string \<Rightarrow> (nat \<times> nat \<times> string) option" where
  "read_digits r m cnt acc [] = Some (acc, cnt, [])"
| "read_digits r m cnt acc (c # cs) =
     (case to_digit r c of
        None \<Rightarrow> Some (acc, cnt, c # cs)
      | Some d \<Rightarrow> (if cnt + 1 > m then None else read_digits r m (cnt + 1) (acc * r + d) cs))"

definition read_number :: "nat \<Rightarrow> nat \<Rightarrow> bool \<Rightarrow> nat \<Rightarrow> nat parser" where
  "read_number r m allow_zero_prefix lim s =
     (case read_digits r m 0 0 s of
        None \<Rightarrow> None
      | Some (v, cnt, rest) \<Rightarrow>
          if cnt = 0 then None
          else if \<not> allow_zero_prefix \<and> starts_with ''0'' s \<and> cnt > 1 then None
          else if v > lim then None else Some (v, rest))"

definition read_given_char :: "char \<Rightarrow> string \<Rightarrow> string option" where
  "read_given_char c s = strip_prefix [c] s"

definition read_separator :: "char \<Rightarrow> nat \<Rightarrow> 'a parser \<Rightarrow> 'a parser" where
  "read_separator sep i inner s =
     (if i > 0 then (case read_given_char sep s of None \<Rightarrow> None | Some r \<Rightarrow> inner r)
      else inner s)"

definition read_octet :: "nat \<Rightarrow> nat parser" where
  "read_octet i = read_separator (CHR ''.'') i (read_number 10 3 False 255)"

definition read_ipv4_addr :: "ipv4 parser" where
  "read_ipv4_addr s =
     (case read_octet 0 s of None \<Rightarrow> None | Some (a, s1) \<Rightarrow>
     (case read_octet 1 s1 of None \<Rightarrow> None | Some (b, s2) \<Rightarrow>
     (case read_octet 2 s2 of None \<Rightarrow> None | Some (c, s3) \<Rightarrow>
     (case read_octet 3 s3 of None \<Rightarrow> None | Some (d, s4) \<Rightarrow>
        Some (Ipv4 (of_nat a) (of_nat b) (of_nat c) (of_nat d), s4)))))"

text \<open>\<open>read_groups\<close> with \<open>n\<close> slots left, the next one being slot \<open>i\<close>: the groups
  read, whether the last two were an embedded IPv4 address, and the rest.\<close>

fun read_groups :: "nat \<Rightarrow> nat \<Rightarrow> string \<Rightarrow> u16 list \<times> bool \<times> string" where
  "read_groups 0 i s = ([], False, s)"
| "read_groups (Suc n) i s =
     (case (if n > 0 then read_separator (CHR '':'') i read_ipv4_addr s else None) of
        Some (Ipv4 a b c d, r) \<Rightarrow>
          ([push_bit 8 (ucast a) OR ucast b, push_bit 8 (ucast c) OR ucast d], True, r)
      | None \<Rightarrow>
          (case read_separator (CHR '':'') i (read_number 16 4 True u16_max) s of
             None \<Rightarrow> ([], False, s)
           | Some (g, r) \<Rightarrow>
               (let (gs, v4, r') = read_groups n (i + 1) r in (of_nat g # gs, v4, r'))))"

fun ipv6_from_list :: "u16 list \<Rightarrow> ipv6 option" where
  "ipv6_from_list [a, b, c, d, e, f, g, h] = Some (Ipv6 a b c d e f g h)"
| "ipv6_from_list _ = None"

definition read_ipv6_addr :: "ipv6 parser" where
  "read_ipv6_addr s =
     (let (head, head_ipv4, r) = read_groups 8 0 s in
      if length head = 8 then map_option (\<lambda>ip. (ip, r)) (ipv6_from_list head)
      else if head_ipv4 then None
      else (case read_given_char (CHR '':'') r of None \<Rightarrow> None | Some r1 \<Rightarrow>
           (case read_given_char (CHR '':'') r1 of None \<Rightarrow> None | Some r2 \<Rightarrow>
             (let (tail, _, r3) = read_groups (8 - (length head + 1)) 0 r2 in
                map_option (\<lambda>ip. (ip, r3))
                  (ipv6_from_list (head @ replicate (8 - length head - length tail) 0 @ tail))))))"

definition read_ip_addr :: "ip_addr parser" where
  "read_ip_addr s =
     (case read_ipv4_addr s of
        Some (ip, r) \<Rightarrow> Some (V4 ip, r)
      | None \<Rightarrow> map_option (\<lambda>(ip, r). (V6 ip, r)) (read_ipv6_addr s))"

definition parse_ip_addr :: "string \<Rightarrow> ip_addr option" where
  "parse_ip_addr s = (case read_ip_addr s of Some (ip, []) \<Rightarrow> Some ip | _ \<Rightarrow> None)"

section \<open>Lemmas\<close>

lemma word_lt_size [simp]:
  "unat (a :: u8) < 256" "unat (b :: u16) < 65536" "unat (c :: u32) < 4294967296"
  using unsigned_less [of a] unsigned_less [of b] unsigned_less [of c] by simp_all

lemma digit_inject:
  assumes "q < k" "r < (k :: nat)"
  shows "x * k + q = y * k + r \<longleftrightarrow> x = y \<and> q = r"
proof
  assume eq: "x * k + q = y * k + r"
  then have "(x * k + q) mod k = (y * k + r) mod k" by simp
  with assms have "q = r" by simp
  with eq assms show "x = y \<and> q = r" by simp
qed simp

lemmas digit256_inject = digit_inject [where k = 256]

lemma div_eq_interval:
  "0 < (k :: nat) \<Longrightarrow> b div k = q \<longleftrightarrow> q * k \<le> b \<and> b < (q + 1) * k"
  by (metis Suc_eq_plus1 div_nat_eqI dividend_less_times_div mult.commute
      mult_Suc_right times_div_less_eq_dividend)

lemma digit256_less: "x < n \<Longrightarrow> b < 256 \<Longrightarrow> x * 256 + b < n * (256 :: nat)"
  by linarith

lemma v4_val_less: "v4_val ip < 2 ^ 32"
proof (cases ip)
  case (Ipv4 a b c d)
  have "unat a * 256 + unat b < 65536"
    using digit256_less [of "unat a" 256 "unat b"] by simp
  then have "(unat a * 256 + unat b) * 256 + unat c < 16777216"
    using digit256_less [of "unat a * 256 + unat b" 65536 "unat c"] by simp
  then have "((unat a * 256 + unat b) * 256 + unat c) * 256 + unat d < 4294967296"
    using digit256_less [of "(unat a * 256 + unat b) * 256 + unat c" 16777216 "unat d"] by simp
  with Ipv4 show ?thesis by simp
qed

lemma unat_ucast_u8: "unat (ucast (w :: u32) :: u8) = unat w mod 256"
  by (simp add: unsigned_ucast_eq take_bit_eq_mod)

lemma v4_val_ipv4_from [simp]: "v4_val (ipv4_from w) = unat w"
proof -
  define n where "n = unat w"
  have n: "n div 16777216 < 256"
    using word_lt_size(3) [of w] by (intro less_mult_imp_div_less) (simp add: n_def)
  have step: "m div 256 * 256 + m mod 256 = m" for m :: nat
    by (rule div_mult_mod_eq)
  have oct: "unat (ucast (drop_bit k w) :: u8) = n div 2 ^ k mod 256" for k
    unfolding unat_ucast_u8 unat_drop_bit_eq by (simp add: drop_bit_eq_div n_def)
  have "unat (ucast (drop_bit 24 w) :: u8) = n div 256 div 256 div 256"
    using n by (simp add: oct flip: div_mult2_eq)
  moreover have "unat (ucast (drop_bit 16 w) :: u8) = n div 256 div 256 mod 256"
    by (simp add: oct flip: div_mult2_eq)
  moreover have "unat (ucast (drop_bit 8 w) :: u8) = n div 256 mod 256"
    by (simp add: oct)
  moreover have "unat (ucast w :: u8) = n mod 256"
    by (simp add: unat_ucast_u8 n_def)
  ultimately have "v4_val (ipv4_from w) = n"
    by (simp only: ipv4_from_def v4_val.simps step)
  then show ?thesis by (simp only: n_def)
qed

lemma v4_val_inject: "v4_val x = v4_val y \<longleftrightarrow> x = y"
  by (cases x; cases y)
    (simp only: v4_val.simps digit256_inject word_lt_size word_unat_eq_iff ipv4.inject conj_assoc)

lemma ipv4_from_v4_val [simp]: "ipv4_from (of_nat (v4_val ip)) = ip"
proof -
  have "v4_val (ipv4_from (of_nat (v4_val ip))) = v4_val ip"
    using v4_val_less [of ip] by (simp add: unat_of_nat)
  then show ?thesis by (simp only: v4_val_inject)
qed

text \<open>A host with neither a dot nor a colon is not an address for \<open>std::net\<close>.\<close>

lemma read_digits_rest:
  "read_digits r m k acc s = Some (v, cnt, rest) \<Longrightarrow> set rest \<subseteq> set s"
  by (induction s arbitrary: k acc) (auto split: option.splits if_splits)

lemma read_number_rest: "read_number r m z lim s = Some (v, rest) \<Longrightarrow> set rest \<subseteq> set s"
  by (auto simp: read_number_def split: option.splits if_splits dest!: read_digits_rest)

lemma read_separator_None:
  "i > 0 \<Longrightarrow> sep \<notin> set s \<Longrightarrow> read_separator sep i p s = None"
  by (auto simp: read_separator_def read_given_char_def split: option.splits)

lemma read_separator_0 [simp]: "read_separator sep 0 p s = p s"
  by (simp add: read_separator_def)

lemma read_ipv4_addr_no_dot:
  assumes "CHR ''.'' \<notin> set s" shows "read_ipv4_addr s = None"
proof (cases "read_octet 0 s")
  case (Some p)
  obtain a s1 where p: "p = (a, s1)" by (cases p)
  with Some have "set s1 \<subseteq> set s" by (auto simp: read_octet_def dest: read_number_rest)
  with assms have "CHR ''.'' \<notin> set s1" by auto
  then have "read_octet 1 s1 = None" by (simp add: read_octet_def read_separator_None)
  with Some p show ?thesis by (simp add: read_ipv4_addr_def)
qed (simp add: read_ipv4_addr_def)

lemma read_groups_no_sep:
  assumes "CHR ''.'' \<notin> set s" "CHR '':'' \<notin> set s" "read_groups n 0 s = (gs, v4, r)"
  shows "length gs \<le> 1 \<and> \<not> v4 \<and> set r \<subseteq> set s"
proof (cases n)
  case 0 with assms(3) show ?thesis by simp
next
  case (Suc m)
  have later: "read_groups k (Suc 0) t = ([], False, t)" if "CHR '':'' \<notin> set t" for k t
    using that by (cases k) (auto simp: read_separator_None)
  show ?thesis
  proof (cases "read_number 16 4 True u16_max s")
    case None
    with Suc assms show ?thesis by (cases "m > 0") (auto simp: read_ipv4_addr_no_dot)
  next
    case (Some p)
    obtain g t where p: "p = (g, t)" by (cases p)
    with Some have t: "set t \<subseteq> set s" by (auto dest: read_number_rest)
    with assms(2) have "CHR '':'' \<notin> set t" by auto
    with t Some p Suc assms later show ?thesis
      by (cases "m > 0") (auto simp: read_ipv4_addr_no_dot)
  qed
qed

lemma parse_ip_addr_no_sep:
  assumes "CHR ''.'' \<notin> set s" "CHR '':'' \<notin> set s"
  shows "parse_ip_addr s = None"
proof -
  obtain gs v4 r where g: "read_groups 8 0 s = (gs, v4, r)"
    by (metis prod_cases3)
  from read_groups_no_sep [OF assms g] assms(2)
  have "length gs \<noteq> 8" "read_given_char (CHR '':'') r = None"
    by (cases r; auto simp: read_given_char_def)+
  then have "read_ipv6_addr s = None"
    using g by (simp add: read_ipv6_addr_def)
  with assms(1) show ?thesis
    by (simp add: parse_ip_addr_def read_ip_addr_def read_ipv4_addr_no_dot)
qed

end
