(* ===== verification/GateAcl.thy ===== *)
theory GateAcl
  imports IpAddr
begin

text \<open>
  The target ACL of the gate's CONNECT plane
  (\<open>crates/gate-server/src/connect_proxy.rs\<close>) and the host filter of the
  \<open>/ws\<close> plane (\<open>is_valid_host\<close> of \<open>crates/gate-server/src/lib.rs\<close>): reading and
  cutting the request head, the authority of the request line, IP literals in every
  spelling, the public-address test and the resolution of the target.

  The resolver is a parameter: the addresses it gives for a host and a port, or
  \<open>None\<close> for a lookup that fails or times out.
\<close>

section \<open>Host filter of the \<open>/ws\<close> plane\<close>

definition is_valid_host :: "string \<Rightarrow> bool" where
  "is_valid_host h =
     (if h = [] \<or> length h > 253 then False
      else
       (let lower = to_ascii_lowercase (trim_end_matches (CHR ''.'') h) in
        if lower = ''localhost'' \<or> ends_with ''.localhost'' lower then False
        else if starts_with ''10.'' lower
             \<or> starts_with ''127.'' lower
             \<or> starts_with ''169.254.'' lower
             \<or> starts_with ''192.168.'' lower
             \<or> starts_with ''0177.'' lower
             \<or> starts_with ''0x7f.'' lower
             \<or> lower = ''::1''
             \<or> lower = ''[::1]'' then False
        else
          (case strip_prefix ''172.'' lower of
             None \<Rightarrow> True
           | Some rest \<Rightarrow>
               (case split_once (CHR ''.'') rest of
                  None \<Rightarrow> True
                | Some (second, _) \<Rightarrow>
                    (case parse_uint 10 255 second of
                       None \<Rightarrow> True
                     | Some num \<Rightarrow> \<not> (16 \<le> num \<and> num \<le> 31))))))"

section \<open>The request head\<close>

definition MAX_HEAD_BYTES :: nat where
  [const_defs]: "MAX_HEAD_BYTES = 16 * 1024"

definition CHUNK_BYTES :: nat where
  [const_defs]: "CHUNK_BYTES = 2048"

definition CRLF2 :: string where
  "CRLF2 = map char_of [13, 10, 13, 10 :: nat]"

definition head_end_offset :: "string \<Rightarrow> nat option" where
  "head_end_offset buf = map_option (\<lambda>i. i + 4) (find_sub CRLF2 buf)"

definition split_head :: "string \<Rightarrow> (string \<times> string) option" where
  "split_head buf =
     (case head_end_offset buf of
        None \<Rightarrow> None
      | Some e \<Rightarrow> if e > MAX_HEAD_BYTES then None else Some (take e buf, drop e buf))"

text \<open>The outcome of one read on the socket under its timeout; a read of no bytes is
  the end of the stream.  A deadline that has already passed when the loop comes
  round is the same outcome as one that passes during the read.\<close>

datatype read_event = Timeout | IoError | Bytes string

datatype head_error = FirstByteTimeout | HeadTimeout | HeadIoError | HeadEof | HeadTooLarge

text \<open>The second phase of \<open>read_head\<close>: what is read, with the events left over.\<close>

fun read_rest :: "string \<Rightarrow> read_event list \<Rightarrow> head_error + string \<times> read_event list" where
  "read_rest buf [] =
     (if length buf > MAX_HEAD_BYTES then Inl HeadTooLarge else Inl HeadTimeout)"
| "read_rest buf (ev # evs) =
     (if length buf > MAX_HEAD_BYTES then Inl HeadTooLarge
      else (case ev of
              Timeout \<Rightarrow> Inl HeadTimeout
            | IoError \<Rightarrow> Inl HeadIoError
            | Bytes chunk \<Rightarrow>
                if chunk = [] then Inl HeadEof
                else if head_end_offset (buf @ chunk) \<noteq> None then Inr (buf @ chunk, evs)
                else read_rest (buf @ chunk) evs))"

fun read_head :: "read_event list \<Rightarrow> head_error + string \<times> read_event list" where
  "read_head [] = Inl FirstByteTimeout"
| "read_head (ev # evs) =
     (case ev of
        Timeout \<Rightarrow> Inl FirstByteTimeout
      | IoError \<Rightarrow> Inl HeadIoError
      | Bytes chunk \<Rightarrow>
          if chunk = [] then Inl HeadEof
          else if head_end_offset chunk \<noteq> None then Inr (chunk, evs)
          else read_rest chunk evs)"

section \<open>Request line and authority\<close>

definition parse_authority :: "string \<Rightarrow> (string \<times> nat) option" where
  "parse_authority authority =
     (case strip_prefix ''['' authority of
        Some rest \<Rightarrow>
          (case split_once (CHR '']'') rest of
             None \<Rightarrow> None
           | Some (host, after) \<Rightarrow>
               (case strip_prefix '':'' after of
                  None \<Rightarrow> None
                | Some p \<Rightarrow> map_option (\<lambda>port. (host, port)) (parse_uint 10 u16_max p)))
      | None \<Rightarrow>
          (case rsplit_once (CHR '':'') authority of
             None \<Rightarrow> None
           | Some (host, p) \<Rightarrow>
               if host = [] then None
               else map_option (\<lambda>port. (host, port)) (parse_uint 10 u16_max p)))"

definition parse_connect_head :: "string \<Rightarrow> (string \<times> nat) option" where
  "parse_connect_head head =
     (case str_lines head of
        [] \<Rightarrow> None
      | l # _ \<Rightarrow>
          (let first = trim_str l in
           case (case strip_prefix ''CONNECT '' first of
                   Some r \<Rightarrow> Some r
                 | None \<Rightarrow> strip_prefix ''connect '' first) of
             None \<Rightarrow> None
           | Some rest \<Rightarrow>
               (case split_whitespace rest of
                  [] \<Rightarrow> None
                | authority # _ \<Rightarrow> parse_authority authority)))"

section \<open>IP literals\<close>

definition parse_u32_auto :: "string \<Rightarrow> u32 option" where
  "parse_u32_auto p =
     (if p = [] then None
      else
        (case (case strip_prefix ''0x'' p of Some h \<Rightarrow> Some h | None \<Rightarrow> strip_prefix ''0X'' p) of
           Some h \<Rightarrow> if h = [] then None else map_option of_nat (parse_uint 16 u32_max h)
         | None \<Rightarrow>
             if length p > 1 \<and> starts_with ''0'' p
             then map_option of_nat (parse_uint 8 u32_max (tl p))
             else map_option of_nat (parse_uint 10 u32_max p)))"

text \<open>\<open>iter().map(f).collect::<Option<Vec<_>>>()\<close>.\<close>

fun collect_opt :: "('a \<Rightarrow> 'b option) \<Rightarrow> 'a list \<Rightarrow> 'b list option" where
  "collect_opt f [] = Some []"
| "collect_opt f (x # xs) =
     (case f x of
        None \<Rightarrow> None
      | Some y \<Rightarrow> map_option (\<lambda>ys. y # ys) (collect_opt f xs))"

text \<open>The loop over the parts: \<open>i\<close> is the index of the next part, \<open>lst\<close> that of the
  last one.  The last part fills all remaining bits, computed in \<open>u64\<close> and cut to
  \<open>u32\<close>.\<close>

fun legacy_loop :: "nat \<Rightarrow> nat \<Rightarrow> u32 \<Rightarrow> u32 list \<Rightarrow> u32 option" where
  "legacy_loop lst i acc [] = Some acc"
| "legacy_loop lst i acc (n # ns) =
     (if i = lst then
        (let bits = 8 * (4 - lst); space = (2 :: nat) ^ bits in
         if unat n \<ge> space then None
         else legacy_loop lst (i + 1)
                (ucast (push_bit bits (ucast acc :: 64 word) OR ucast n)) ns)
      else if n > 255 then None
      else legacy_loop lst (i + 1) (push_bit 8 acc OR n) ns)"

definition parse_legacy_ipv4 :: "string \<Rightarrow> ipv4 option" where
  "parse_legacy_ipv4 s =
     (if s = [] \<or> CHR '':'' \<in> set s then None
      else
        (let parts = split_on (CHR ''.'') s in
         if length parts > 4 then None
         else
           (case collect_opt parse_u32_auto parts of
              None \<Rightarrow> None
            | Some nums \<Rightarrow>
                map_option ipv4_from (legacy_loop (length nums - 1) 0 0 nums))))"

definition parse_ip_literal :: "string \<Rightarrow> ip_addr option" where
  "parse_ip_literal host =
     (case parse_ip_addr host of
        Some ip \<Rightarrow> Some ip
      | None \<Rightarrow> map_option V4 (parse_legacy_ipv4 host))"

definition is_domain_host :: "string \<Rightarrow> bool" where
  "is_domain_host host \<longleftrightarrow>
     host \<noteq> [] \<and> length host \<le> 253
     \<and> list_all (\<lambda>c. is_ascii_alphanumeric c \<or> c = CHR ''.'' \<or> c = CHR ''-'') host"

section \<open>Public addresses\<close>

fun is_public_v4 :: "ipv4 \<Rightarrow> bool" where
  "is_public_v4 (Ipv4 a b c d) =
     (let ip = Ipv4 a b c d in
      if is_loopback ip \<or> is_private ip \<or> is_link_local ip \<or> is_unspecified ip
         \<or> is_broadcast ip \<or> is_multicast ip \<or> is_documentation ip then False
      else if a = 0 then False
      else if a = 100 \<and> 64 \<le> b \<and> b \<le> 127 then False
      else if a = 198 \<and> (b = 18 \<or> b = 19) then False
      else if a = 192 \<and> b = 0 \<and> c = 0 then False
      else if a = 192 \<and> b = 88 \<and> c = 99 then False
      else if a \<ge> 240 then False
      else True)"

definition is_public_v6 :: "ipv6 \<Rightarrow> bool" where
  "is_public_v6 ip =
     (case to_ipv4_mapped ip of
        Some v4 \<Rightarrow> is_public_v4 v4
      | None \<Rightarrow>
          (let seg = segments ip in
           if v6_is_loopback ip \<or> v6_is_unspecified ip \<or> v6_is_multicast ip then False
           else if (seg ! 0) AND 0xfe00 = 0xfc00 then False
           else if (seg ! 0) AND 0xffc0 = 0xfe80 then False
           else if (seg ! 0) AND 0xffc0 = 0xfec0 then False
           else if seg ! 0 = 0x2001 \<and> seg ! 1 = 0x0db8 then False
           else if seg ! 0 = 0x0064 \<and> seg ! 1 = 0xff9b then False
           else if list_all (\<lambda>s. s = 0) (take 6 seg) then False
           else True))"

fun is_public_ip :: "ip_addr \<Rightarrow> bool" where
  "is_public_ip (V4 v4) = is_public_v4 v4"
| "is_public_ip (V6 v6) = is_public_v6 v6"

section \<open>Target resolution\<close>

datatype target_error = AclDenied | Dial

type_synonym resolver = "string \<Rightarrow> nat \<Rightarrow> ip_addr list option"

definition resolve_target :: "resolver \<Rightarrow> string \<Rightarrow> nat \<Rightarrow> target_error + ip_addr" where
  "resolve_target lookup_host host port =
     (case parse_ip_literal host of
        Some ip \<Rightarrow> if is_public_ip ip then Inr ip else Inl AclDenied
      | None \<Rightarrow>
          if \<not> is_domain_host host \<or> \<not> is_valid_host host then Inl AclDenied
          else
            (case lookup_host host port of
               None \<Rightarrow> Inl Dial
             | Some addrs \<Rightarrow>
                 if addrs = [] then Inl Dial
                 else if list_ex (\<lambda>ip. \<not> is_public_ip ip) addrs then Inl AclDenied
                 else Inr (addrs ! 0)))"

section \<open>Lemmas on the head\<close>

lemma find_sub_append: "find_sub p s = Some i \<Longrightarrow> find_sub p (s @ t) = Some i"
proof (induction s arbitrary: i)
  case Nil
  then show ?case by (cases t) (auto simp: starts_with_def split: if_splits)
next
  case (Cons c s)
  show ?case
  proof (cases "starts_with p (c # s)")
    case True
    then have "starts_with p (c # s @ t)" by (auto simp: starts_with_iff) (metis append_Cons append_assoc)
    with True Cons.prems show ?thesis by simp
  next
    case False
    with Cons.prems obtain j where j: "find_sub p s = Some j" "i = Suc j" by auto
    then have "length p \<le> length s" using find_sub_Some by fastforce
    with False have "\<not> starts_with p (c # s @ t)"
      by (auto simp: starts_with_iff append_eq_append_conv2 Cons_eq_append_conv)
    with Cons.IH j show ?thesis by simp
  qed
qed

lemma head_end_offset_append:
  "head_end_offset s = Some e \<Longrightarrow> head_end_offset (s @ t) = Some e"
  by (auto simp: head_end_offset_def find_sub_append)

lemma length_CRLF2 [simp]: "length CRLF2 = 4"
  by (simp add: CRLF2_def)

lemma head_end_offset_le: "head_end_offset s = Some e \<Longrightarrow> 4 \<le> e \<and> e \<le> length s"
  by (auto simp: head_end_offset_def dest: find_sub_Some)

text \<open>The bytes that a sequence of reads delivers up to the first failure.\<close>

fun stream_bytes :: "read_event list \<Rightarrow> string" where
  "stream_bytes (Bytes s # evs) = s @ stream_bytes evs"
| "stream_bytes _ = []"

definition chunked :: "read_event list \<Rightarrow> bool" where
  "chunked evs \<longleftrightarrow> list_all (\<lambda>ev. case ev of Bytes s \<Rightarrow> length s \<le> CHUNK_BYTES | _ \<Rightarrow> True) evs"

lemma read_rest_Inr:
  assumes "read_rest buf evs = Inr (raw, evs')" "chunked evs"
  shows "raw @ stream_bytes evs' = buf @ stream_bytes evs \<and> head_end_offset raw \<noteq> None
    \<and> length raw \<le> MAX_HEAD_BYTES + CHUNK_BYTES"
  using assms
proof (induction buf evs rule: read_rest.induct)
  case (1 buf) then show ?case by (simp split: if_splits)
next
  case (2 buf ev evs)
  then show ?case
    by (cases ev) (auto split: if_splits simp: chunked_def)
qed

lemma read_head_Inr:
  assumes "read_head evs = Inr (raw, evs')" "chunked evs"
  shows "raw @ stream_bytes evs' = stream_bytes evs \<and> head_end_offset raw \<noteq> None
    \<and> length raw \<le> MAX_HEAD_BYTES + CHUNK_BYTES"
proof (cases evs)
  case Nil with assms show ?thesis by simp
next
  case (Cons ev evs1)
  with assms obtain chunk where ev: "ev = Bytes chunk" by (cases ev) auto
  show ?thesis
  proof (cases "head_end_offset chunk = None")
    case True
    with Cons ev assms have r: "read_rest chunk evs1 = Inr (raw, evs')"
      by (simp split: if_splits)
    from assms(2) Cons have "chunked evs1" by (simp add: chunked_def)
    from read_rest_Inr [OF r this] show ?thesis using Cons ev by simp
  next
    case False
    with Cons ev assms show ?thesis by (auto simp: chunked_def split: if_splits)
  qed
qed

section \<open>Lemmas on public addresses\<close>

text \<open>The specification of a public IPv4 address: outside every special-purpose
  block, a block being a base address and a prefix length.\<close>

definition in_block :: "ipv4 \<times> nat \<Rightarrow> ipv4 \<Rightarrow> bool" where
  "in_block blk ip \<longleftrightarrow>
     v4_val ip div 2 ^ (32 - snd blk) = v4_val (fst blk) div 2 ^ (32 - snd blk)"

definition special_blocks :: "(ipv4 \<times> nat) list" where
  "special_blocks =
     [(Ipv4 0 0 0 0, 8), (Ipv4 10 0 0 0, 8), (Ipv4 100 64 0 0, 10), (Ipv4 127 0 0 0, 8),
      (Ipv4 169 254 0 0, 16), (Ipv4 172 16 0 0, 12), (Ipv4 192 0 0 0, 24), (Ipv4 192 0 2 0, 24),
      (Ipv4 192 88 99 0, 24), (Ipv4 192 168 0 0, 16), (Ipv4 198 18 0 0, 15),
      (Ipv4 198 51 100 0, 24), (Ipv4 203 0 113 0, 24), (Ipv4 224 0 0 0, 4), (Ipv4 240 0 0 0, 4)]"

lemma digit256_div: "b < 256 \<Longrightarrow> (x * 256 + b) div 256 = (x :: nat)"
  by simp

lemma v4_div8: "v4_val (Ipv4 a b c d) div 256 = (unat a * 256 + unat b) * 256 + unat c"
  unfolding v4_val.simps by (rule digit256_div) simp

lemma v4_div16: "v4_val (Ipv4 a b c d) div 65536 = unat a * 256 + unat b"
proof -
  have "v4_val (Ipv4 a b c d) div (256 * 256) = unat a * 256 + unat b"
    unfolding div_mult2_eq v4_div8 by (rule digit256_div) simp
  then show ?thesis by simp
qed

lemma v4_div24: "v4_val (Ipv4 a b c d) div 16777216 = unat a"
proof -
  have "v4_val (Ipv4 a b c d) div (65536 * 256) = unat a"
    unfolding div_mult2_eq v4_div16 by simp
  then show ?thesis by simp
qed

lemma v4_div17: "v4_val (Ipv4 a b c d) div 131072 = unat a * 128 + unat b div 2"
proof -
  have "v4_val (Ipv4 a b c d) div (65536 * 2) = unat a * 128 + unat b div 2"
    unfolding div_mult2_eq v4_div16 by simp
  then show ?thesis by simp
qed

lemma v4_div20: "v4_val (Ipv4 a b c d) div 1048576 = unat a * 16 + unat b div 16"
proof -
  have "v4_val (Ipv4 a b c d) div (65536 * 16) = unat a * 16 + unat b div 16"
    unfolding div_mult2_eq v4_div16 by simp
  then show ?thesis by simp
qed

lemma v4_div22: "v4_val (Ipv4 a b c d) div 4194304 = unat a * 4 + unat b div 64"
proof -
  have "v4_val (Ipv4 a b c d) div (65536 * 64) = unat a * 4 + unat b div 64"
    unfolding div_mult2_eq v4_div16 by simp
  then show ?thesis by simp
qed

lemma v4_div28: "v4_val (Ipv4 a b c d) div 268435456 = unat a div 16"
proof -
  have "v4_val (Ipv4 a b c d) div (16777216 * 16) = unat a div 16"
    unfolding div_mult2_eq v4_div24 by simp
  then show ?thesis by simp
qed

lemma in_block_8: "in_block (Ipv4 x y z w, 8) (Ipv4 a b c d) \<longleftrightarrow> a = x"
  unfolding in_block_def fst_conv snd_conv
  using v4_div24 [of a b c d] v4_div24 [of x y z w] by (simp add: word_unat_eq_iff del: v4_val.simps)

lemma in_block_16: "in_block (Ipv4 x y z w, 16) (Ipv4 a b c d) \<longleftrightarrow> a = x \<and> b = y"
  unfolding in_block_def fst_conv snd_conv
  using v4_div16 [of a b c d] v4_div16 [of x y z w]
  by (simp add: word_unat_eq_iff digit256_inject del: v4_val.simps)

lemma in_block_24: "in_block (Ipv4 x y z w, 24) (Ipv4 a b c d) \<longleftrightarrow> a = x \<and> b = y \<and> c = z"
proof -
  have "in_block (Ipv4 x y z w, 24) (Ipv4 a b c d) \<longleftrightarrow>
    (unat a * 256 + unat b) * 256 + unat c = (unat x * 256 + unat y) * 256 + unat z"
    unfolding in_block_def fst_conv snd_conv
    using v4_div8 [of a b c d] v4_div8 [of x y z w] by (simp del: v4_val.simps)
  then show ?thesis
    by (simp only: digit256_inject word_lt_size word_unat_eq_iff conj_assoc)
qed

lemma in_block_special:
  "in_block (Ipv4 100 64 0 0, 10) (Ipv4 a b c d) \<longleftrightarrow> a = 100 \<and> 64 \<le> b \<and> b \<le> 127"
  "in_block (Ipv4 172 16 0 0, 12) (Ipv4 a b c d) \<longleftrightarrow> a = 172 \<and> 16 \<le> b \<and> b \<le> 31"
  "in_block (Ipv4 198 18 0 0, 15) (Ipv4 a b c d) \<longleftrightarrow> a = 198 \<and> (b = 18 \<or> b = 19)"
  "in_block (Ipv4 224 0 0 0, 4) (Ipv4 a b c d) \<longleftrightarrow> 224 \<le> a \<and> a \<le> 239"
  "in_block (Ipv4 240 0 0 0, 4) (Ipv4 a b c d) \<longleftrightarrow> 240 \<le> a"
proof -
  have b: "unat a < 256" "unat b < 256" by simp_all
  have "in_block (Ipv4 100 64 0 0, 10) (Ipv4 a b c d) \<longleftrightarrow> unat a * 4 + unat b div 64 = 401"
    unfolding in_block_def using v4_div22 [of a b c d] by simp
  also have "\<dots> \<longleftrightarrow> unat a = 100 \<and> 64 \<le> unat b \<and> unat b \<le> 127"
    using b(2) digit_inject [of "unat b div 64" 4 1 "unat a" 100]
      div_eq_interval [of 64 "unat b" 1] less_mult_imp_div_less [of "unat b" 4 64] by auto
  finally show "in_block (Ipv4 100 64 0 0, 10) (Ipv4 a b c d) \<longleftrightarrow> a = 100 \<and> 64 \<le> b \<and> b \<le> 127"
    by (simp add: word_unat_eq_iff word_le_nat_alt)
  have "in_block (Ipv4 172 16 0 0, 12) (Ipv4 a b c d) \<longleftrightarrow> unat a * 16 + unat b div 16 = 2753"
    unfolding in_block_def using v4_div20 [of a b c d] by simp
  also have "\<dots> \<longleftrightarrow> unat a = 172 \<and> 16 \<le> unat b \<and> unat b \<le> 31"
    using b(2) digit_inject [of "unat b div 16" 16 1 "unat a" 172]
      div_eq_interval [of 16 "unat b" 1] less_mult_imp_div_less [of "unat b" 16 16] by auto
  finally show "in_block (Ipv4 172 16 0 0, 12) (Ipv4 a b c d) \<longleftrightarrow> a = 172 \<and> 16 \<le> b \<and> b \<le> 31"
    by (simp add: word_unat_eq_iff word_le_nat_alt)
  have "in_block (Ipv4 198 18 0 0, 15) (Ipv4 a b c d) \<longleftrightarrow> unat a * 128 + unat b div 2 = 25353"
    unfolding in_block_def using v4_div17 [of a b c d] by simp
  also have "\<dots> \<longleftrightarrow> unat a = 198 \<and> (unat b = 18 \<or> unat b = 19)"
    using b(2) digit_inject [of "unat b div 2" 128 9 "unat a" 198]
      div_eq_interval [of 2 "unat b" 9] less_mult_imp_div_less [of "unat b" 128 2] by auto
  finally show "in_block (Ipv4 198 18 0 0, 15) (Ipv4 a b c d) \<longleftrightarrow> a = 198 \<and> (b = 18 \<or> b = 19)"
    by (simp add: word_unat_eq_iff)
  have "in_block (Ipv4 224 0 0 0, 4) (Ipv4 a b c d) \<longleftrightarrow> unat a div 16 = 14"
    unfolding in_block_def using v4_div28 [of a b c d] by simp
  also have "\<dots> \<longleftrightarrow> 224 \<le> unat a \<and> unat a \<le> 239"
    using div_eq_interval [of 16 "unat a" 14] by auto
  finally show "in_block (Ipv4 224 0 0 0, 4) (Ipv4 a b c d) \<longleftrightarrow> 224 \<le> a \<and> a \<le> 239"
    by (simp add: word_le_nat_alt)
  have "in_block (Ipv4 240 0 0 0, 4) (Ipv4 a b c d) \<longleftrightarrow> unat a div 16 = 15"
    unfolding in_block_def using v4_div28 [of a b c d] by simp
  also have "\<dots> \<longleftrightarrow> 240 \<le> unat a"
    using b(1) div_eq_interval [of 16 "unat a" 15] by auto
  finally show "in_block (Ipv4 240 0 0 0, 4) (Ipv4 a b c d) \<longleftrightarrow> 240 \<le> a"
    by (simp add: word_le_nat_alt)
qed

lemmas in_block_simps = in_block_8 in_block_16 in_block_24 in_block_special

section \<open>Lemmas on IP literals\<close>

lemma push_bit_or_eq_add:
  fixes acc n :: "'a::len word"
  assumes "unat n < 2 ^ k"
  shows "push_bit k acc OR n = push_bit k acc + n"
proof -
  have "take_bit k n = n"
    using assms by (simp add: word_unat_eq_iff unsigned_take_bit_eq take_bit_nat_eq_self)
  then have "bit n i \<Longrightarrow> i < k" for i
    by (metis bit_take_bit_iff)
  then have "push_bit k acc AND n = 0"
    by (auto simp: bit_eq_iff bit_and_iff bit_push_bit_iff dest: leD)
  then show ?thesis by (simp add: disjunctive_add_eq_or)
qed

lemma unat_push_bit_or:
  fixes acc n :: "'a::len word"
  assumes "unat n < 2 ^ k" "unat acc * 2 ^ k + unat n < 2 ^ LENGTH('a)"
  shows "unat (push_bit k acc OR n) = unat acc * 2 ^ k + unat n"
proof -
  have "push_bit k acc OR n = of_nat (unat acc * 2 ^ k + unat n)"
    unfolding push_bit_or_eq_add [OF assms(1)] by (simp add: push_bit_eq_mult)
  then show ?thesis using assms(2) by (simp add: unat_of_nat del: of_nat_add)
qed

lemma unat_ucast_up: "unat (ucast (w :: u32) :: 64 word) = unat w"
proof -
  have "unat w < 2 ^ 64"
    by (rule less_trans [OF word_lt_size(3)]) simp
  then show ?thesis by (simp add: unsigned_ucast_eq take_bit_nat_eq_self)
qed

lemma unat_ucast_down: "unat (ucast (w :: 64 word) :: u32) = unat w mod 4294967296"
  by (simp add: unsigned_ucast_eq take_bit_eq_mod)

lemma legacy_step:
  assumes "unat acc < 256 ^ i" "i < 3" "n \<le> 255"
  shows "unat (push_bit 8 acc OR n :: u32) = unat acc * 256 + unat n"
    "unat acc * 256 + unat n < 256 ^ Suc i"
proof -
  have n: "unat n < 256" using assms(3) by (simp add: word_le_nat_alt)
  show lt: "unat acc * 256 + unat n < 256 ^ Suc i"
    using digit256_less [OF assms(1) n] by simp
  have "(256 :: nat) ^ Suc i \<le> 256 ^ 3"
    using assms(2) by (intro power_increasing) auto
  with lt have "unat acc * 2 ^ 8 + unat n < 2 ^ LENGTH(32)" by simp
  with n show "unat (push_bit 8 acc OR n :: u32) = unat acc * 256 + unat n"
    using unat_push_bit_or [of n 8 acc] by simp
qed

lemma legacy_last:
  fixes acc n :: u32
  assumes "unat acc < 256 ^ i" "i \<le> 3" "unat n < 2 ^ (8 * (4 - i))"
  shows "unat (ucast (push_bit (8 * (4 - i)) (ucast acc :: 64 word) OR ucast n) :: u32)
    = unat acc * 256 ^ (4 - i) + unat n"
proof -
  have pow: "(2 :: nat) ^ (8 * (4 - i)) = 256 ^ (4 - i)"
    by (simp add: power_mult)
  have "unat acc + 1 \<le> 256 ^ i" using assms(1) by simp
  then have "(unat acc + 1) * 256 ^ (4 - i) \<le> 256 ^ i * 256 ^ (4 - i)"
    by (rule mult_le_mono1)
  also have "\<dots> = 256 ^ 4" using assms(2) by (simp flip: power_add)
  finally have "unat acc * 256 ^ (4 - i) + unat n < 4294967296"
    using assms(3) unfolding pow by simp
  then show ?thesis
    using unat_push_bit_or [of "ucast n :: 64 word" "8 * (4 - i)" "ucast acc"] assms(3)
    by (simp add: unat_ucast_up unat_ucast_down pow)
qed

text \<open>The specification of an \<open>inet_aton\<close> literal with the numbers \<open>ns\<close>: every part
  but the last is one byte, the last fills what remains.\<close>

definition inet_aton :: "nat list \<Rightarrow> nat option" where
  "inet_aton ns =
     (if ns \<noteq> [] \<and> length ns \<le> 4 \<and> (\<forall>n \<in> set (butlast ns). n \<le> 255)
         \<and> last ns < 256 ^ (5 - length ns)
      then Some (foldl (\<lambda>a n. a * 256 + n) 0 (butlast ns) * 256 ^ (5 - length ns) + last ns)
      else None)"

lemma legacy_loop_eq:
  assumes "ns \<noteq> []" "lst + 1 = i + length ns" "lst \<le> 3" "unat acc < 256 ^ i"
  shows "map_option unat (legacy_loop lst i acc ns) =
    (if (\<forall>n \<in> set (butlast ns). n \<le> 255) \<and> unat (last ns) < 256 ^ (4 - lst)
     then Some (foldl (\<lambda>a n. a * 256 + n) (unat acc) (map unat (butlast ns)) * 256 ^ (4 - lst)
            + unat (last ns))
     else None)"
  using assms
proof (induction ns arbitrary: i acc)
  case Nil then show ?case by simp
next
  case (Cons n ns)
  show ?case
  proof (cases "ns = []")
    case True
    with Cons.prems have "i = lst" by simp
    with Cons.prems True legacy_last [of acc i n] show ?thesis
      by (simp add: Let_def power_mult not_le)
  next
    case False
    with Cons.prems have i: "i \<noteq> lst" "i < 3" by (cases ns; auto)+
    show ?thesis
    proof (cases "n \<le> 255")
      case True
      from legacy_step [OF Cons.prems(4) i(2) True]
      have "unat (push_bit 8 acc OR n) < 256 ^ (i + 1)" by simp
      moreover have "lst + 1 = (i + 1) + length ns" using Cons.prems(2) by simp
      ultimately have IH: "map_option unat (legacy_loop lst (i + 1) (push_bit 8 acc OR n) ns) =
        (if (\<forall>n \<in> set (butlast ns). n \<le> 255) \<and> unat (last ns) < 256 ^ (4 - lst)
         then Some (foldl (\<lambda>a n. a * 256 + n) (unat (push_bit 8 acc OR n)) (map unat (butlast ns))
                * 256 ^ (4 - lst) + unat (last ns))
         else None)"
        using Cons.IH False Cons.prems(3) by blast
      have "legacy_loop lst i acc (n # ns) = legacy_loop lst (i + 1) (push_bit 8 acc OR n) ns"
        using i(1) leD [OF True] by simp
      with IH legacy_step(1) [OF Cons.prems(4) i(2) True] False True show ?thesis
        by simp
    next
      case n: False
      then have "n > 255" by simp
      with False i n show ?thesis by simp
    qed
  qed
qed

lemma length_collect_opt: "collect_opt f xs = Some ys \<Longrightarrow> length ys = length xs"
  by (induction xs arbitrary: ys) (auto split: option.splits)

lemma legacy_loop_inet_aton:
  assumes "ns \<noteq> []" "length ns \<le> 4"
  shows "map_option unat (legacy_loop (length ns - 1) 0 0 ns) = inet_aton (map unat ns)"
proof -
  have len: "5 - length ns = 4 - (length ns - 1)" using assms by (cases ns) auto
  have "map_option unat (legacy_loop (length ns - 1) 0 0 ns) =
    (if (\<forall>n \<in> set (butlast ns). n \<le> 255) \<and> unat (last ns) < 256 ^ (5 - length ns)
     then Some (foldl (\<lambda>a n. a * 256 + n) 0 (map unat (butlast ns)) * 256 ^ (5 - length ns)
            + unat (last ns))
     else None)"
    unfolding len using assms legacy_loop_eq [of ns "length ns - 1" 0 0] by (cases ns) simp_all
  moreover have "(\<forall>n \<in> set (butlast ns). n \<le> 255) \<longleftrightarrow> (\<forall>n \<in> set (butlast (map unat ns)). n \<le> 255)"
    by (simp add: word_le_nat_alt flip: map_butlast)
  ultimately show ?thesis
    using assms by (simp add: inet_aton_def last_map flip: map_butlast)
qed

lemma parse_legacy_eq:
  "map_option v4_val (parse_legacy_ipv4 s) =
    (if CHR '':'' \<in> set s then None
     else (case collect_opt parse_u32_auto (split_on (CHR ''.'') s) of
             None \<Rightarrow> None
           | Some ns \<Rightarrow> inet_aton (map unat ns)))"
proof (cases "s = [] \<or> CHR '':'' \<in> set s")
  case True
  then show ?thesis by (auto simp: parse_legacy_ipv4_def parse_u32_auto_def)
next
  case False
  show ?thesis
  proof (cases "collect_opt parse_u32_auto (split_on (CHR ''.'') s)")
    case None
    with False show ?thesis by (simp add: parse_legacy_ipv4_def Let_def)
  next
    case (Some ns)
    then have len: "length ns = length (split_on (CHR ''.'') s)" by (rule length_collect_opt)
    then have ne: "ns \<noteq> []" by auto
    have val: "map_option v4_val (map_option ipv4_from x) = map_option unat x" for x
      by (simp add: option.map_comp comp_def)
    show ?thesis
    proof (cases "length ns \<le> 4")
      case True
      with False Some len have "parse_legacy_ipv4 s =
        map_option ipv4_from (legacy_loop (length ns - 1) 0 0 ns)"
        by (simp add: parse_legacy_ipv4_def Let_def)
      with val legacy_loop_inet_aton [OF ne True] Some False show ?thesis by simp
    next
      case long: False
      with False Some len show ?thesis
        by (simp add: parse_legacy_ipv4_def Let_def inet_aton_def)
    qed
  qed
qed

text \<open>A number without dots is one part.\<close>

lemma parse_u32_auto_show_nat:
  assumes "n \<le> u32_max"
  shows "parse_u32_auto (show_nat n) = Some (of_nat n)"
proof -
  have dig: "\<forall>c \<in> set (show_nat n). is_ascii_digit c" using show_nat_digits by blast
  have "\<not> is_ascii_digit (CHR ''x'')" "\<not> is_ascii_digit (CHR ''X'')"
    by (simp_all add: is_ascii_digit_def byte_def)
  with dig have "strip_prefix ''0x'' (show_nat n) = None" "strip_prefix ''0X'' (show_nat n) = None"
    unfolding strip_prefix_None_iff by force+
  moreover have "\<not> (length (show_nat n) > 1 \<and> starts_with ''0'' (show_nat n))"
  proof (cases "n = 0")
    case True then show ?thesis by (simp add: show_nat.simps)
  next
    case False
    then have "hd (show_nat n) \<noteq> CHR ''0''" by (simp add: hd_show_nat)
    then show ?thesis by (auto simp: starts_with_iff)
  qed
  ultimately show ?thesis
    using parse_uint_show_nat [OF assms] by (auto simp: parse_u32_auto_def)
qed

lemma parse_legacy_decimal: "parse_legacy_ipv4 (show_nat (v4_val ip)) = Some ip"
proof -
  have n: "v4_val ip < 4294967296" using v4_val_less [of ip] by simp
  then have "parse_u32_auto (show_nat (v4_val ip)) = Some (of_nat (v4_val ip))"
    by (intro parse_u32_auto_show_nat) simp
  with n have "map_option v4_val (parse_legacy_ipv4 (show_nat (v4_val ip))) = Some (v4_val ip)"
    by (simp add: parse_legacy_eq inet_aton_def unat_of_nat)
  then show ?thesis by (auto simp: v4_val_inject)
qed

section \<open>Properties\<close>

text \<open>C1: whatever the resolver answers, a target that \<open>resolve_target\<close> accepts is a
  public address; it is the literal the host spells, or the first of the addresses
  the resolver gave, all of them public.\<close>

theorem resolve_target_public:
  assumes "resolve_target lookup_host host port = Inr ip"
  shows "is_public_ip ip \<and>
    (parse_ip_literal host = Some ip \<or>
     parse_ip_literal host = None \<and> is_domain_host host \<and> is_valid_host host \<and>
     (\<exists>rest. lookup_host host port = Some (ip # rest) \<and> list_all is_public_ip (ip # rest)))"
proof (cases "parse_ip_literal host")
  case (Some a)
  with assms show ?thesis by (auto simp: resolve_target_def split: if_splits)
next
  case None
  with assms obtain addrs where
    "lookup_host host port = Some addrs" "addrs \<noteq> []" "ip = addrs ! 0"
    "\<not> list_ex (\<lambda>ip. \<not> is_public_ip ip) addrs" "is_domain_host host" "is_valid_host host"
    by (auto simp: resolve_target_def split: if_splits option.splits)
  then show ?thesis
    using None by (cases addrs) (auto simp: list_all_iff list_ex_iff)
qed

theorem resolve_target_public_witness:
  "is_public_ip (V4 (Ipv4 8 8 8 8))"
proof -
  have "resolve_target (\<lambda>_ _. Some [V4 (Ipv4 8 8 8 8)]) ''dns.google'' 443 = Inr (V4 (Ipv4 8 8 8 8))"
    by code_simp
  from resolve_target_public [OF this] show ?thesis by blast
qed

text \<open>C2: the octet tests of \<open>is_public_v4\<close> accept an IPv4 address exactly when it lies
  in none of the special-purpose CIDR blocks.\<close>

theorem is_public_v4_iff:
  "is_public_v4 ip \<longleftrightarrow> \<not> (\<exists>blk \<in> set special_blocks. in_block blk ip)"
proof (cases ip)
  case (Ipv4 a b c d)
  show ?thesis
    unfolding Ipv4 special_blocks_def
    by (simp add: in_block_simps Let_def)
qed

text \<open>An \<open>inet_aton\<close> literal (decimal, octal or hexadecimal, with one to four parts)
  is read as the address that \<open>inet_aton\<close> gives it, and nothing else is read as one.\<close>

theorem parse_legacy_ipv4_iff:
  "parse_legacy_ipv4 s = Some ip \<longleftrightarrow>
     CHR '':'' \<notin> set s \<and>
     (\<exists>ns. collect_opt parse_u32_auto (split_on (CHR ''.'') s) = Some ns
        \<and> inet_aton (map unat ns) = Some (v4_val ip))"
proof -
  have "parse_legacy_ipv4 s = Some ip \<longleftrightarrow>
      map_option v4_val (parse_legacy_ipv4 s) = Some (v4_val ip)"
    by (auto simp: v4_val_inject)
  then show ?thesis
    by (auto simp: parse_legacy_eq split: option.splits)
qed

text \<open>Writing an address as one decimal number does not get round the ACL: the
  decimal spelling of an IPv4 address is resolved to that address without asking the
  resolver, and it is refused if the address is not public.\<close>

theorem resolve_target_decimal:
  "resolve_target lookup_host (show_nat (v4_val ip)) port =
     (if is_public_v4 ip then Inr (V4 ip) else Inl AclDenied)"
proof -
  have "parse_ip_addr (show_nat (v4_val ip)) = None"
    by (rule parse_ip_addr_no_sep) simp_all
  then show ?thesis
    by (simp add: resolve_target_def parse_ip_literal_def parse_legacy_decimal)
qed

text \<open>However the bytes of a stream are cut into reads, \<open>read_head\<close> loses none of
  them: when it succeeds, the head that \<open>split_head\<close> cuts off and the payload, followed
  by what is still unread, are the stream; the head is the one the whole stream has, and
  the buffer stays within the limit plus one read.\<close>

theorem read_head_split_head:
  assumes "read_head evs = Inr (raw, evs')" "chunked evs"
  shows "length raw \<le> MAX_HEAD_BYTES + CHUNK_BYTES \<and>
    (\<forall>head leftover. split_head raw = Some (head, leftover) \<longrightarrow>
       head @ leftover @ stream_bytes evs' = stream_bytes evs \<and>
       length head \<le> MAX_HEAD_BYTES \<and>
       split_head (stream_bytes evs) = Some (head, leftover @ stream_bytes evs'))"
proof -
  note r = read_head_Inr [OF assms]
  {
    fix head leftover assume sp: "split_head raw = Some (head, leftover)"
    then obtain e where e: "head_end_offset raw = Some e" "e \<le> MAX_HEAD_BYTES"
        "head = take e raw" "leftover = drop e raw"
      by (auto simp: split_head_def split: option.splits if_splits)
    moreover have le: "e \<le> length raw" using head_end_offset_le [OF e(1)] by simp
    moreover from r have str: "stream_bytes evs = raw @ stream_bytes evs'" by simp
    moreover have "head_end_offset (stream_bytes evs) = Some e"
      unfolding str using e(1) by (rule head_end_offset_append)
    ultimately have "head @ leftover @ stream_bytes evs' = stream_bytes evs \<and>
       length head \<le> MAX_HEAD_BYTES \<and>
       split_head (stream_bytes evs) = Some (head, leftover @ stream_bytes evs')"
      by (simp add: split_head_def)
  }
  with r show ?thesis by blast
qed

theorem read_head_split_head_witness:
  "\<exists>head leftover. split_head (''C'' @ CRLF2 @ ''x'') = Some (head, leftover)
     \<and> head @ leftover @ ''y'' = ''C'' @ CRLF2 @ ''xy''"
proof -
  have "read_head [Bytes ''C'', Bytes (CRLF2 @ ''x''), Bytes ''y'']
      = Inr (''C'' @ CRLF2 @ ''x'', [Bytes ''y''])"
    by code_simp
  moreover have "chunked [Bytes ''C'', Bytes (CRLF2 @ ''x''), Bytes ''y'']" by code_simp
  moreover have "split_head (''C'' @ CRLF2 @ ''x'') = Some (''C'' @ CRLF2, ''x'')" by code_simp
  ultimately show ?thesis
    using read_head_split_head [of "[Bytes ''C'', Bytes (CRLF2 @ ''x''), Bytes ''y'']"] by fastforce
qed

end
