(* ===== verification/Crypto.thy ===== *)
theory Crypto
  imports Prelude
begin

text \<open>
  The third-party primitives the program calls (\<open>sha2\<close>, \<open>hex\<close>, \<open>base64\<close>,
  \<open>ed25519-dalek\<close>) as a record of functions that the models take as an argument,
  with the documented laws that some properties assume, and the constant-time
  comparison of \<open>crates/core/src/user.rs\<close>.
\<close>

unbundle bit_operations_syntax

record crypto =
  sha256 :: "string \<Rightarrow> string"
  hex_encode :: "string \<Rightarrow> string"
  hex_decode :: "string \<Rightarrow> string option"
  b64url_encode :: "string \<Rightarrow> string"
  b64url_decode :: "string \<Rightarrow> string option"
  b64std_encode :: "string \<Rightarrow> string"
  b64std_decode :: "string \<Rightarrow> string option"
  ed_public :: "string \<Rightarrow> string"
  ed_sign :: "string \<Rightarrow> string \<Rightarrow> string"
  ed_verify :: "string \<Rightarrow> string \<Rightarrow> string \<Rightarrow> bool"

text \<open>Documented behaviour.  A digest has 32 bytes; \<open>hex\<close> writes lower-case
  hexadecimal digits and reads back what it wrote; so does \<open>base64\<close> with its
  alphabet; a signature has 64 bytes and verifies under the public key of its signing
  key.\<close>

definition sha256_law :: "crypto \<Rightarrow> bool" where
  "sha256_law K \<longleftrightarrow> (\<forall>m. length (sha256 K m) = 32)"

definition hex_char :: "char \<Rightarrow> bool" where
  "hex_char c \<longleftrightarrow> is_ascii_digit c \<or> 97 \<le> byte c \<and> byte c \<le> 102"

definition hex_law :: "crypto \<Rightarrow> bool" where
  "hex_law K \<longleftrightarrow>
     (\<forall>m. hex_decode K (hex_encode K m) = Some m) \<and> (\<forall>m. \<forall>c \<in> set (hex_encode K m). hex_char c)"

definition b64url_char :: "char \<Rightarrow> bool" where
  "b64url_char c \<longleftrightarrow> is_ascii_alphanumeric c \<or> c = CHR ''-'' \<or> c = CHR ''_''"

definition b64url_law :: "crypto \<Rightarrow> bool" where
  "b64url_law K \<longleftrightarrow>
     (\<forall>m. b64url_decode K (b64url_encode K m) = Some m)
     \<and> (\<forall>m. \<forall>c \<in> set (b64url_encode K m). b64url_char c)
     \<and> (\<forall>m. b64url_encode K m = [] \<longleftrightarrow> m = [])"

definition b64std_char :: "char \<Rightarrow> bool" where
  "b64std_char c \<longleftrightarrow> is_ascii_alphanumeric c \<or> c = CHR ''+'' \<or> c = CHR ''/'' \<or> c = CHR ''=''"

definition b64std_law :: "crypto \<Rightarrow> bool" where
  "b64std_law K \<longleftrightarrow>
     (\<forall>m. b64std_decode K (b64std_encode K m) = Some m)
     \<and> (\<forall>m. \<forall>c \<in> set (b64std_encode K m). b64std_char c)
     \<and> (\<forall>m. b64std_encode K m = [] \<longleftrightarrow> m = [])"

definition ed_law :: "crypto \<Rightarrow> bool" where
  "ed_law K \<longleftrightarrow>
     (\<forall>k m. length (ed_sign K k m) = 64 \<and> ed_verify K (ed_public K k) m (ed_sign K k m))"

lemma hex_char_graphic: "hex_char c \<Longrightarrow> graphic c"
  by (auto simp: hex_char_def graphic_def is_ascii_digit_def)

lemma b64url_char_graphic: "b64url_char c \<Longrightarrow> graphic c"
  by (auto simp: b64url_char_def graphic_def ascii_defs byte_def)

lemma b64std_char_graphic: "b64std_char c \<Longrightarrow> graphic c"
  by (auto simp: b64std_char_def graphic_def ascii_defs byte_def)

section \<open>Constant-time comparison\<close>

fun ct_diff :: "nat \<Rightarrow> (char \<times> char) list \<Rightarrow> nat" where
  "ct_diff diff [] = diff"
| "ct_diff diff ((x, y) # ps) = ct_diff (diff OR (byte x XOR byte y)) ps"

definition constant_time_eq :: "string \<Rightarrow> string \<Rightarrow> bool" where
  "constant_time_eq a b =
     (if length a \<noteq> length b then False else ct_diff 0 (zip a b) = 0)"

lemma nat_xor_eq_0_iff: "m XOR n = 0 \<longleftrightarrow> m = (n :: nat)"
  by (metis xor.assoc xor.left_neutral xor_self_eq)

lemma ct_diff_0_iff: "ct_diff d ps = 0 \<longleftrightarrow> d = 0 \<and> (\<forall>(x, y) \<in> set ps. x = y)"
  by (induction d ps rule: ct_diff.induct) (auto simp: or_eq_0_iff nat_xor_eq_0_iff)

lemma constant_time_eq_iff [simp]: "constant_time_eq a b \<longleftrightarrow> a = b"
proof -
  have "(\<forall>(x, y) \<in> set (zip a b). x = y) \<longleftrightarrow> a = b" if "length a = length b"
    using that by (induction a b rule: list_induct2) auto
  then show ?thesis by (auto simp: constant_time_eq_def ct_diff_0_iff)
qed

section \<open>A concrete instance\<close>

text \<open>An instance of the record for the witnesses: real hexadecimal text, used for the
  base64 codecs too, a checksum in place of the digest and a keyed checksum in place of
  the signature.  It satisfies the laws; it is not meant to be secure.\<close>

definition hex_digit :: "nat \<Rightarrow> char" where
  "hex_digit n = (if n < 10 then char_of (48 + n) else char_of (87 + n))"

definition hex_val :: "char \<Rightarrow> nat option" where
  "hex_val c =
     (if is_ascii_digit c then Some (byte c - 48)
      else if 97 \<le> byte c \<and> byte c \<le> 102 then Some (byte c - 87) else None)"

fun demo_hex :: "string \<Rightarrow> string" where
  "demo_hex [] = []"
| "demo_hex (c # cs) = hex_digit (byte c div 16) # hex_digit (byte c mod 16) # demo_hex cs"

fun demo_unhex :: "string \<Rightarrow> string option" where
  "demo_unhex [] = Some []"
| "demo_unhex [c] = None"
| "demo_unhex (c # d # cs) =
     (case (hex_val c, hex_val d, demo_unhex cs) of
        (Some h, Some l, Some r) \<Rightarrow> Some (char_of (h * 16 + l) # r)
      | _ \<Rightarrow> None)"

definition demo_sum :: "nat \<Rightarrow> string \<Rightarrow> string" where
  "demo_sum n m =
     replicate (n - 1) (CHR ''0'') @ [char_of (foldl (\<lambda>a c. (a * 31 + byte c) mod 256) 7 m)]"

definition demo :: crypto where
  "demo = \<lparr> sha256 = demo_sum 32, hex_encode = demo_hex, hex_decode = demo_unhex,
     b64url_encode = demo_hex, b64url_decode = demo_unhex,
     b64std_encode = demo_hex, b64std_decode = demo_unhex,
     ed_public = id, ed_sign = (\<lambda>k m. demo_sum 64 (k @ m)),
     ed_verify = (\<lambda>k m s. s = demo_sum 64 (k @ m)) \<rparr>"

lemma hex_digit_char: "n < 16 \<Longrightarrow> hex_char (hex_digit n)"
  by (auto simp: hex_digit_def hex_char_def is_ascii_digit_def)

lemma hex_val_digit: "n < 16 \<Longrightarrow> hex_val (hex_digit n) = Some n"
  by (auto simp: hex_digit_def hex_val_def is_ascii_digit_def)

lemma demo_hex_chars: "c \<in> set (demo_hex m) \<Longrightarrow> hex_char c"
proof (induction m)
  case (Cons x m)
  have "byte x div 16 < 16" by (rule less_mult_imp_div_less) simp
  with Cons show ?case by (auto intro: hex_digit_char)
qed simp

lemma demo_unhex_hex: "demo_unhex (demo_hex m) = Some m"
proof (induction m)
  case (Cons x m)
  have "byte x div 16 < 16" by (rule less_mult_imp_div_less) simp
  with Cons show ?case by (simp add: hex_val_digit)
qed simp

lemma hex_char_b64: "hex_char c \<Longrightarrow> b64url_char c" "hex_char c \<Longrightarrow> b64std_char c"
  by (auto simp: hex_char_def b64url_char_def b64std_char_def ascii_defs)

lemma demo_laws:
  "sha256_law demo" "hex_law demo" "b64url_law demo" "b64std_law demo" "ed_law demo"
  using demo_hex_chars hex_char_b64
  by (auto simp: demo_def sha256_law_def hex_law_def b64url_law_def b64std_law_def ed_law_def
      demo_unhex_hex demo_sum_def elim: demo_hex.elims)

end
