(* ===== verification/Auth.thy ===== *)
theory Auth
  imports Crypto
begin

text \<open>
  Self-contained user tokens (\<open>crates/core/src/auth.rs\<close>): the claims, their time
  check, signing, verification, and the parsing of a Basic credential.  The clock, the
  crypto primitives and the JSON codec are arguments.
\<close>

record claims =
  cl_jti :: string
  cl_sub :: string
  cl_name :: string
  cl_quota_bytes :: nat
  cl_lease_bytes :: nat
  cl_exp :: nat
  cl_iat :: nat
  cl_max_conns :: nat
  cl_role :: string

text \<open>\<open>serde_json::to_vec\<close> and \<open>from_slice\<close> on the claims.\<close>

record claims_codec =
  claims_to_vec :: "claims \<Rightarrow> string"
  claims_from_slice :: "string \<Rightarrow> claims option"

text \<open>The claims whose numbers fit their \<open>u64\<close> and \<open>usize\<close> fields.\<close>

definition claims_ok :: "claims \<Rightarrow> bool" where
  "claims_ok c \<longleftrightarrow>
     cl_quota_bytes c \<le> u64_max \<and> cl_lease_bytes c \<le> u64_max \<and> cl_exp c \<le> u64_max
     \<and> cl_iat c \<le> u64_max \<and> cl_max_conns c \<le> u64_max"

definition codec_law :: "claims_codec \<Rightarrow> bool" where
  "codec_law J \<longleftrightarrow> (\<forall>c. claims_ok c \<longrightarrow> claims_from_slice J (claims_to_vec J c) = Some c)"

datatype auth_error =
    BadPrefix | MissingDot | BadSignatureBase64 | BadSignatureLength | BadSignature
  | BadPayloadBase64 | BadClaimsJson | TokenExpired | IssuedInFuture | MalformedLifetime
  | BadSeedHex | BadSeedLength | BadKeyHex | BadKeyLength | BadKeyBytes

section \<open>Claims\<close>

definition CLOCK_SKEW_TOLERANCE_SECS :: nat where
  [const_defs]: "CLOCK_SKEW_TOLERANCE_SECS = 60"

definition is_time_valid :: "claims \<Rightarrow> nat \<Rightarrow> auth_error + unit" where
  "is_time_valid c now =
     (if now > cl_exp c then Inl TokenExpired
      else if cl_iat c > saturating_add64 now CLOCK_SKEW_TOLERANCE_SECS then Inl IssuedInFuture
      else if cl_exp c \<le> cl_iat c then Inl MalformedLifetime
      else Inr ())"

definition is_expired :: "claims \<Rightarrow> nat \<Rightarrow> bool" where
  "is_expired c now \<longleftrightarrow> is_time_valid c now \<noteq> Inr ()"

section \<open>Signer\<close>

text \<open>A \<open>TokenSigner\<close> is its 32-byte seed, a \<open>TokenVerifier\<close> its public key.\<close>

definition from_seed_hex :: "crypto \<Rightarrow> string \<Rightarrow> auth_error + string" where
  "from_seed_hex K hex_str =
     (case hex_decode K (trim_str hex_str) of
        None \<Rightarrow> Inl BadSeedHex
      | Some bytes \<Rightarrow> if length bytes \<noteq> 32 then Inl BadSeedLength else Inr bytes)"

definition sign_token :: "crypto \<Rightarrow> claims_codec \<Rightarrow> string \<Rightarrow> claims \<Rightarrow> string" where
  "sign_token K J signing_key c =
     (let payload_json = claims_to_vec J c;
          payload_b64 = b64url_encode K payload_json;
          signature = ed_sign K signing_key payload_b64;
          sig_b64 = b64url_encode K signature
      in ''usr_live_'' @ payload_b64 @ ''.'' @ sig_b64)"

section \<open>Verifier\<close>

text \<open>\<open>verifier_from_hex\<close> has the check of \<open>VerifyingKey::from_bytes\<close> (that the bytes
  are a curve point) as an argument.\<close>

definition verifier_from_hex :: "crypto \<Rightarrow> (string \<Rightarrow> bool) \<Rightarrow> string \<Rightarrow> auth_error + string" where
  "verifier_from_hex K is_point hex_str =
     (case hex_decode K hex_str of
        None \<Rightarrow> Inl BadKeyHex
      | Some bytes \<Rightarrow>
          if length bytes \<noteq> 32 then Inl BadKeyLength
          else if is_point bytes then Inr bytes else Inl BadKeyBytes)"

definition peek_claims_unverified ::
  "crypto \<Rightarrow> claims_codec \<Rightarrow> string \<Rightarrow> auth_error + claims" where
  "peek_claims_unverified K J raw =
     (case strip_prefix ''usr_live_'' (trim_str raw) of
        None \<Rightarrow> Inl BadPrefix
      | Some stripped \<Rightarrow> (case split_once (CHR ''.'') stripped of
          None \<Rightarrow> Inl MissingDot
        | Some (payload_b64, _) \<Rightarrow> (case b64url_decode K payload_b64 of
            None \<Rightarrow> Inl BadPayloadBase64
          | Some payload_json \<Rightarrow> (case claims_from_slice J payload_json of
              None \<Rightarrow> Inl BadClaimsJson
            | Some c \<Rightarrow> Inr c))))"

definition verify_token ::
  "crypto \<Rightarrow> claims_codec \<Rightarrow> string \<Rightarrow> nat \<Rightarrow> string \<Rightarrow> auth_error + claims" where
  "verify_token K J verifying_key now raw =
     (case strip_prefix ''usr_live_'' (trim_str raw) of
        None \<Rightarrow> Inl BadPrefix
      | Some stripped \<Rightarrow> (case split_once (CHR ''.'') stripped of
          None \<Rightarrow> Inl MissingDot
        | Some (payload_b64, sig_b64) \<Rightarrow> (case b64url_decode K sig_b64 of
            None \<Rightarrow> Inl BadSignatureBase64
          | Some sig_bytes \<Rightarrow>
              if length sig_bytes \<noteq> 64 then Inl BadSignatureLength
              else if \<not> ed_verify K verifying_key payload_b64 sig_bytes then Inl BadSignature
              else (case b64url_decode K payload_b64 of
                None \<Rightarrow> Inl BadPayloadBase64
              | Some payload_json \<Rightarrow> (case claims_from_slice J payload_json of
                  None \<Rightarrow> Inl BadClaimsJson
                | Some c \<Rightarrow> (case is_time_valid c now of
                    Inl e \<Rightarrow> Inl e
                  | Inr _ \<Rightarrow> Inr c))))))"

definition verify_bytes :: "crypto \<Rightarrow> string \<Rightarrow> string \<Rightarrow> string \<Rightarrow> auth_error + unit" where
  "verify_bytes K verifying_key message sig_bytes =
     (if length sig_bytes \<noteq> 64 then Inl BadSignatureLength
      else if ed_verify K verifying_key message sig_bytes then Inr () else Inl BadSignature)"

section \<open>Basic credentials\<close>

definition parse_basic_auth :: "crypto \<Rightarrow> string \<Rightarrow> (string \<times> string) option" where
  "parse_basic_auth K raw =
     (let header_val = trim_str raw in
      if starts_with ''basic '' (to_ascii_lowercase header_val) then
        (case b64std_decode K (trim_str (drop 6 header_val)) of
           None \<Rightarrow> None
         | Some decoded \<Rightarrow> (case from_utf8 decoded of
             None \<Rightarrow> None
           | Some creds \<Rightarrow> split_once (CHR '':'') creds))
      else None)"

section \<open>Lemmas\<close>

lemma is_time_valid_iff:
  assumes "now + CLOCK_SKEW_TOLERANCE_SECS \<le> u64_max"
  shows "is_time_valid c now = Inr () \<longleftrightarrow>
    now \<le> cl_exp c \<and> cl_iat c \<le> now + CLOCK_SKEW_TOLERANCE_SECS \<and> cl_iat c < cl_exp c"
  using assms by (auto simp: is_time_valid_def saturating_add64_def)

lemma sum_unit_Inr: "(x :: 'a + unit) \<noteq> Inr () \<longleftrightarrow> (\<exists>e. x = Inl e)"
  by (cases x) auto

lemma dot_not_b64url: "b64url_char c \<Longrightarrow> c \<noteq> CHR ''.''"
  by (auto simp: b64url_char_def ascii_defs byte_def)

lemma verify_token_Inr:
  assumes "verify_token K J vk now raw = Inr c"
  obtains p s sg js where "trim_str raw = ''usr_live_'' @ p @ ''.'' @ s" "CHR ''.'' \<notin> set p"
    "b64url_decode K s = Some sg" "length sg = 64" "ed_verify K vk p sg"
    "b64url_decode K p = Some js" "claims_from_slice J js = Some c" "is_time_valid c now = Inr ()"
proof -
  from assms obtain st p s sg js where "strip_prefix ''usr_live_'' (trim_str raw) = Some st"
    "split_once (CHR ''.'') st = Some (p, s)" "b64url_decode K s = Some sg" "length sg = 64"
    "ed_verify K vk p sg" "b64url_decode K p = Some js" "claims_from_slice J js = Some c"
    "is_time_valid c now = Inr ()"
    unfolding verify_token_def
    by (auto simp del: strip_prefix_Some_iff split: if_splits option.splits sum.splits)
  then show thesis
    by (intro that [of p s sg js]) (simp_all add: split_once_Some_iff)
qed

section \<open>A concrete codec\<close>

text \<open>An instance of the codec for the witnesses: the fields in hexadecimal or decimal,
  separated by commas.\<close>

fun join_comma :: "string list \<Rightarrow> string" where
  "join_comma [] = []"
| "join_comma [x] = x"
| "join_comma (x # xs) = x @ '','' @ join_comma xs"

definition demo_to_vec :: "claims \<Rightarrow> string" where
  "demo_to_vec c = join_comma
     [demo_hex (cl_jti c), demo_hex (cl_sub c), demo_hex (cl_name c), show_nat (cl_quota_bytes c),
      show_nat (cl_lease_bytes c), show_nat (cl_exp c), show_nat (cl_iat c),
      show_nat (cl_max_conns c), demo_hex (cl_role c)]"

definition demo_from_slice :: "string \<Rightarrow> claims option" where
  "demo_from_slice s =
     (case split_on (CHR '','') s of
        [a, b, c, d, e, f, g, h, i] \<Rightarrow>
          (case (map demo_unhex [a, b, c, i], map (parse_uint 10 u64_max) [d, e, f, g, h]) of
             ([Some jti, Some sb, Some nm, Some rl], [Some q, Some l, Some ex, Some ia, Some m]) \<Rightarrow>
               Some \<lparr> cl_jti = jti, cl_sub = sb, cl_name = nm, cl_quota_bytes = q,
                      cl_lease_bytes = l, cl_exp = ex, cl_iat = ia, cl_max_conns = m,
                      cl_role = rl \<rparr>
           | _ \<Rightarrow> None)
      | _ \<Rightarrow> None)"

definition demo_codec :: claims_codec where
  "demo_codec = \<lparr> claims_to_vec = demo_to_vec, claims_from_slice = demo_from_slice \<rparr>"

definition demo_claims :: claims where
  "demo_claims = \<lparr> cl_jti = ''j'', cl_sub = ''u'', cl_name = ''n'', cl_quota_bytes = 1000,
     cl_lease_bytes = 10, cl_exp = 200, cl_iat = 90, cl_max_conns = 2, cl_role = ''user'' \<rparr>"

lemma split_join_comma:
  assumes "xs \<noteq> []" "\<forall>x \<in> set xs. CHR '','' \<notin> set x"
  shows "split_on (CHR '','') (join_comma xs) = xs"
  using assms by (induction xs rule: join_comma.induct) (auto simp: split_on_append)

lemma comma_notin: "CHR '','' \<notin> set (demo_hex m)" "CHR '','' \<notin> set (show_nat n)"
proof -
  have "\<not> hex_char (CHR '','')" by (simp add: hex_char_def is_ascii_digit_def byte_def)
  then show "CHR '','' \<notin> set (demo_hex m)" using demo_hex_chars by blast
  show "CHR '','' \<notin> set (show_nat n)"
    by (rule show_nat_notin) (simp add: is_ascii_digit_def byte_def)
qed

lemma demo_codec_law: "codec_law demo_codec"
proof -
  have "demo_from_slice (demo_to_vec c) = Some c" if "claims_ok c" for c
    using that unfolding demo_from_slice_def demo_to_vec_def
    by (subst split_join_comma) (auto simp: comma_notin demo_unhex_hex claims_ok_def)
  then show ?thesis by (simp add: codec_law_def demo_codec_def)
qed

section \<open>Properties\<close>

text \<open>C4: a signed token verifies under the public key of its signer exactly while its
  claims are valid in time, and gives back the claims that were signed; an untimely
  token gives the time error of the claims.\<close>

theorem sign_token_verify:
  assumes "b64url_law K" "ed_law K" "codec_law J" "claims_ok c"
  shows "verify_token K J (ed_public K k) now (sign_token K J k c) =
    (case is_time_valid c now of Inl e \<Rightarrow> Inl e | Inr _ \<Rightarrow> Inr c)"
proof -
  let ?p = "b64url_encode K (claims_to_vec J c)"
  let ?s = "b64url_encode K (ed_sign K k ?p)"
  have chars: "\<forall>x \<in> set (b64url_encode K m). b64url_char x" for m
    using assms(1) by (auto simp: b64url_law_def)
  have graphic: "\<forall>x \<in> set (sign_token K J k c). graphic x"
    using chars by (auto simp: sign_token_def Let_def graphic_def byte_def
        dest: b64url_char_graphic [unfolded graphic_def byte_def])
  have "CHR ''.'' \<notin> set ?p" using chars dot_not_b64url by blast
  then have "split_once (CHR ''.'') (?p @ ''.'' @ ?s) = Some (?p, ?s)"
    by (simp add: split_once_Some_iff)
  moreover have "strip_prefix ''usr_live_'' (sign_token K J k c) = Some (?p @ ''.'' @ ?s)"
    by (simp add: sign_token_def Let_def)
  ultimately show ?thesis
    using assms trim_str_graphic [OF graphic]
    by (simp add: verify_token_def b64url_law_def ed_law_def codec_law_def)
qed

theorem sign_token_verify_witness:
  "verify_token demo demo_codec ''seed'' 100 (sign_token demo demo_codec ''seed'' demo_claims)
     = Inr demo_claims
   \<and> verify_token demo demo_codec ''seed'' 300 (sign_token demo demo_codec ''seed'' demo_claims)
     = Inl TokenExpired"
proof -
  have ok: "claims_ok demo_claims" by (simp add: demo_claims_def claims_ok_def)
  have pub: "ed_public demo ''seed'' = ''seed''" by (simp add: demo_def)
  have "is_time_valid demo_claims 100 = Inr ()" "is_time_valid demo_claims 300 = Inl TokenExpired"
    by code_simp+
  with sign_token_verify [OF demo_laws(3,5) demo_codec_law ok, where k = "''seed''"] pub
  show ?thesis by simp
qed

text \<open>C5: a token that verifies was signed as it stands: the accepted claims are the
  decoded payload over which the signature holds under the verifier's key, they are
  not expired, not issued more than a minute in the future, and end after they
  begin.\<close>

theorem verify_token_sound:
  assumes "verify_token K J vk now raw = Inr c" "now + CLOCK_SKEW_TOLERANCE_SECS \<le> u64_max"
  shows "\<exists>payload_b64 sig_b64 sig payload.
      trim_str raw = ''usr_live_'' @ payload_b64 @ ''.'' @ sig_b64
    \<and> b64url_decode K sig_b64 = Some sig \<and> length sig = 64 \<and> ed_verify K vk payload_b64 sig
    \<and> b64url_decode K payload_b64 = Some payload \<and> claims_from_slice J payload = Some c
    \<and> now \<le> cl_exp c \<and> cl_iat c \<le> now + CLOCK_SKEW_TOLERANCE_SECS \<and> cl_iat c < cl_exp c"
proof -
  from assms(1) obtain p s sg js where tok: "trim_str raw = ''usr_live_'' @ p @ ''.'' @ s"
    "b64url_decode K s = Some sg" "length sg = 64" "ed_verify K vk p sg"
    "b64url_decode K p = Some js" "claims_from_slice J js = Some c" "is_time_valid c now = Inr ()"
    by (rule verify_token_Inr)
  with is_time_valid_iff [OF assms(2), of c] show ?thesis by blast
qed

theorem verify_token_sound_witness:
  "\<exists>payload_b64 sig_b64 sig.
      trim_str (sign_token demo demo_codec ''seed'' demo_claims) = ''usr_live_'' @ payload_b64 @ ''.'' @ sig_b64
    \<and> b64url_decode demo sig_b64 = Some sig \<and> ed_verify demo ''seed'' payload_b64 sig
    \<and> 100 \<le> cl_exp demo_claims"
proof -
  have "verify_token demo demo_codec ''seed'' 100 (sign_token demo demo_codec ''seed'' demo_claims)
      = Inr demo_claims"
    by code_simp
  moreover have "100 + CLOCK_SKEW_TOLERANCE_SECS \<le> u64_max" by (simp add: CLOCK_SKEW_TOLERANCE_SECS_def)
  ultimately show ?thesis using verify_token_sound by blast
qed

text \<open>A Basic credential built from a user name without a colon and a password gives
  both back, whatever the case of the scheme.\<close>

theorem parse_basic_auth_roundtrip:
  assumes "b64std_law K" "CHR '':'' \<notin> set user" "utf8_valid (user @ '':'' @ pass)"
    and "to_ascii_lowercase scheme = ''basic ''"
  shows "parse_basic_auth K (scheme @ b64std_encode K (user @ '':'' @ pass)) = Some (user, pass)"
proof -
  let ?b = "b64std_encode K (user @ '':'' @ pass)"
  have chars: "\<forall>x \<in> set ?b. graphic x"
    using assms(1) b64std_char_graphic by (auto simp: b64std_law_def)
  have ne: "?b \<noteq> []" using assms(1) by (simp add: b64std_law_def)
  obtain c cs where sch: "scheme = c # cs" and c: "ascii_lower_char c = CHR ''b''"
    and len: "length scheme = 6"
    using assms(4) length_to_ascii_lowercase [of scheme]
    by (cases scheme) (auto simp: to_ascii_lowercase_def)
  from c have "graphic c"
    by (auto simp: ascii_lower_char_def graphic_def is_ascii_upper_def byte_def split: if_splits)
  then have "trim_start (scheme @ ?b) = scheme @ ?b" using sch by simp
  moreover have "trim_end (scheme @ ?b) = scheme @ ?b"
    using ne chars trim_end_graphic [of "last ?b" "scheme @ butlast ?b"] by simp
  ultimately have "trim_str (scheme @ ?b) = scheme @ ?b" by (simp add: trim_str_def)
  moreover have "starts_with ''basic '' (to_ascii_lowercase (scheme @ ?b))"
    unfolding to_ascii_lowercase_append assms(4) by (rule starts_with_append)
  moreover have "split_once (CHR '':'') (user @ '':'' @ pass) = Some (user, pass)"
    using assms(2) by (simp add: split_once_Some_iff)
  ultimately show ?thesis
    using assms(1,3) len trim_str_graphic [OF chars]
    by (simp add: parse_basic_auth_def b64std_law_def from_utf8_def)
qed

theorem parse_basic_auth_roundtrip_witness:
  "parse_basic_auth demo (''BASIC '' @ b64std_encode demo (''bob'' @ '':'' @ ''pw'')) = Some (''bob'', ''pw'')"
  by (rule parse_basic_auth_roundtrip [OF demo_laws(4)]) code_simp+

end
