(* ===== verification/GateServer.thy ===== *)
theory GateServer
  imports GateAcl Auth
begin

text \<open>
  The gate (\<open>crates/gate-server/src/lib.rs\<close> and \<open>connect_proxy.rs\<close>): its shared state,
  the tokens both planes accept, the revocation list with its file, the subscription and
  profile endpoints, and \<open>serve\<close>, which takes a CONNECT request from its head to the
  point where bytes are relayed.
\<close>

section \<open>Shared state\<close>

text \<open>\<open>ServerConfig\<close>: a verifier is its public key; \<open>g_revoked_file\<close> is the content of
  \<open>revoked_tokens.txt\<close> on disk.\<close>

record gate =
  g_tunnel_token_hash :: string
  g_proxy_secret :: string
  g_verifier :: "string option"
  g_active_conns :: "string \<rightharpoonup> nat"
  g_used_bytes :: "string \<rightharpoonup> nat"
  g_revoked :: "string set"
  g_admin_token :: string
  g_revoked_file :: string

definition gate_sha256_hex :: "crypto \<Rightarrow> string \<Rightarrow> string" where
  "gate_sha256_hex K s = hex_encode K (sha256 K s)"

definition used_bytes :: "gate \<Rightarrow> string \<Rightarrow> nat" where
  "used_bytes g uid = (case g_used_bytes g uid of Some v \<Rightarrow> v | None \<Rightarrow> 0)"

definition is_admin_claims :: "claims \<Rightarrow> bool" where
  "is_admin_claims c \<longleftrightarrow> cl_role c = ''admin''"

definition quota_limit :: "claims \<Rightarrow> nat option" where
  "quota_limit c = (if is_admin_claims c then None else Some (cl_quota_bytes c))"

definition is_revoked :: "gate \<Rightarrow> claims \<Rightarrow> bool" where
  "is_revoked g c \<longleftrightarrow> cl_jti c \<in> g_revoked g \<or> cl_sub c \<in> g_revoked g"

section \<open>Principals of the CONNECT plane\<close>

datatype principal = Tunnel | User claims

fun principal_sub :: "principal \<Rightarrow> string option" where
  "principal_sub Tunnel = None"
| "principal_sub (User c) = Some (cl_sub c)"

fun principal_quota :: "principal \<Rightarrow> nat option" where
  "principal_quota Tunnel = None"
| "principal_quota (User c) = (if cl_role c = ''admin'' then None else Some (cl_quota_bytes c))"

definition principal_for_token ::
  "crypto \<Rightarrow> claims_codec \<Rightarrow> nat \<Rightarrow> gate \<Rightarrow> string \<Rightarrow> principal option" where
  "principal_for_token K J now g raw =
     (let token = trim_str raw in
      if token = [] then None
      else if starts_with ''usr_live_'' token then
        (case g_verifier g of
           None \<Rightarrow> None
         | Some vk \<Rightarrow>
             (case verify_token K J vk now token of
                Inl _ \<Rightarrow> None
              | Inr c \<Rightarrow> if is_revoked g c then None else Some (User c)))
      else
        (let expected = to_ascii_lowercase (trim_str (g_tunnel_token_hash g)) in
         if expected = [] then None
         else if constant_time_eq (gate_sha256_hex K token) expected then Some Tunnel
         else None))"

text \<open>The header loop of \<open>authenticate\<close>: the last line with a name wins.\<close>

definition auth_line ::
  "crypto \<Rightarrow> (string \<times> string) option \<times> string option \<Rightarrow> string
   \<Rightarrow> (string \<times> string) option \<times> string option" where
  "auth_line K acc raw =
     (case split_once (CHR '':'') (trim_str raw) of
        None \<Rightarrow> acc
      | Some (name, value) \<Rightarrow>
          (let n = to_ascii_lowercase (trim_str name) in
           if n = ''proxy-authorization'' then (parse_basic_auth K value, snd acc)
           else if n = ''x-pony-token'' then (fst acc, Some (trim_str value))
           else acc))"

definition authenticate ::
  "crypto \<Rightarrow> claims_codec \<Rightarrow> nat \<Rightarrow> gate \<Rightarrow> string \<Rightarrow> principal option" where
  "authenticate K J now g head =
     (let (basic, pony_token) = foldl (auth_line K) (None, None) (drop 1 (str_lines head)) in
      case (case pony_token of
              Some tok \<Rightarrow> principal_for_token K J now g tok
            | None \<Rightarrow> None) of
        Some p \<Rightarrow> Some p
      | None \<Rightarrow>
          (case basic of
             None \<Rightarrow> None
           | Some (user, pass) \<Rightarrow>
               (case principal_for_token K J now g user of
                  Some p \<Rightarrow> Some p
                | None \<Rightarrow> principal_for_token K J now g pass)))"

section \<open>Serving a CONNECT request\<close>

datatype response = RESP_200 | RESP_400 | RESP_403 | RESP_403_QUOTA | RESP_407 | RESP_502

definition crlf :: string where
  "crlf = map char_of [13, 10 :: nat]"

definition reply :: "string list \<Rightarrow> string" where
  "reply ls = concat (map (\<lambda>l. l @ crlf) ls) @ crlf"

fun response_bytes :: "response \<Rightarrow> string" where
  "response_bytes RESP_200 =
     reply [''HTTP/1.1 200 Connection Established'', ''Proxy-Agent: pproxy-gate'']"
| "response_bytes RESP_400 =
     reply [''HTTP/1.1 400 Bad Request'', ''X-Pony-Reason: bad_request'', ''Content-Length: 0'',
            ''Connection: close'']"
| "response_bytes RESP_403 =
     reply [''HTTP/1.1 403 Forbidden'', ''X-Pony-Reason: acl_denied'', ''Content-Length: 0'',
            ''Connection: close'']"
| "response_bytes RESP_403_QUOTA =
     reply [''HTTP/1.1 403 Forbidden'', ''X-Pony-Reason: quota_exceeded'', ''Content-Length: 0'',
            ''Connection: close'']"
| "response_bytes RESP_407 =
     reply [''HTTP/1.1 407 Proxy Authentication Required'',
            ''Proxy-Authenticate: Basic realm=\"pproxy\"'', ''Content-Length: 0'', ''Connection: close'']"
| "response_bytes RESP_502 =
     reply [''HTTP/1.1 502 Bad Gateway'', ''X-Pony-Reason: connect_failed'', ''Content-Length: 0'',
            ''Connection: close'']"

text \<open>The world around one request: the reads on the socket, the resolver, whether the
  dial of an address succeeds within its timeout, and whether the client takes the
  reply.\<close>

record serve_env =
  se_reads :: "read_event list"
  se_lookup :: resolver
  se_dial :: "ip_addr \<Rightarrow> nat \<Rightarrow> bool"
  se_write_ok :: bool

text \<open>What \<open>serve\<close> comes to: a refusal, a client that went away at the 200, or the start
  of the relay to an address, with the first payload bytes, the user and the quota.\<close>

datatype serve_outcome =
    Refused response
  | Abandoned
  | Relay ip_addr nat string "string option" "nat option"

definition serve ::
  "crypto \<Rightarrow> claims_codec \<Rightarrow> nat \<Rightarrow> gate \<Rightarrow> serve_env \<Rightarrow> serve_outcome" where
  "serve K J now g env =
     (case read_head (se_reads env) of
        Inl _ \<Rightarrow> Refused RESP_400
      | Inr (raw, _) \<Rightarrow> (case split_head raw of
          None \<Rightarrow> Refused RESP_400
        | Some (head_bytes, leftover) \<Rightarrow>
            (let head = from_utf8_lossy head_bytes in
             case parse_connect_head head of
               None \<Rightarrow> Refused RESP_400
             | Some (host, port) \<Rightarrow> (case authenticate K J now g head of
                 None \<Rightarrow> Refused RESP_407
               | Some p \<Rightarrow>
                   if port \<noteq> 443 then Refused RESP_403
                   else (case resolve_target (se_lookup env) host port of
                     Inl AclDenied \<Rightarrow> Refused RESP_403
                   | Inl Dial \<Rightarrow> Refused RESP_502
                   | Inr ip \<Rightarrow>
                       (let uid = principal_sub p; quota = principal_quota p in
                        if (case (uid, quota) of
                              (Some u, Some q) \<Rightarrow> used_bytes g u \<ge> q
                            | _ \<Rightarrow> False)
                        then Refused RESP_403_QUOTA
                        else if \<not> se_dial env ip port then Refused RESP_502
                        else if \<not> se_write_ok env then Abandoned
                        else Relay ip port leftover uid quota))))))"

section \<open>Revocation\<close>

text \<open>\<open>load_revoked_tokens\<close>: the trimmed, non-empty lines of the file, if it can be read
  as text (\<open>read_to_string\<close> fails for a missing file, a file that is not UTF-8, or an I/O
  error, and then nothing is loaded).\<close>

definition revoked_lines :: "string \<Rightarrow> string list" where
  "revoked_lines content = filter (\<lambda>l. l \<noteq> []) (map trim_str (str_lines content))"

definition load_revoked_tokens :: "bool \<Rightarrow> gate \<Rightarrow> gate" where
  "load_revoked_tokens readable g =
     (if \<not> readable then g
      else g\<lparr> g_revoked := g_revoked g \<union> set (revoked_lines (g_revoked_file g)) \<rparr>)"

datatype http_status = Http200 | Http400 | Http401 | Http402 | Http403 | Http429 | Http500 | Http502

text \<open>\<open>handle_revoke\<close>: the \<open>Authorization\<close> header (if it is readable text), what
  \<open>serde_json\<close> reads as the \<open>identifier\<close> of the body, and whether the file can be
  appended to.\<close>

definition handle_revoke :: "string option \<Rightarrow> string option \<Rightarrow> bool \<Rightarrow> gate \<Rightarrow> http_status \<times> gate" where
  "handle_revoke authorization body_identifier file_ok g =
     (let presented = (case authorization of
                         Some v \<Rightarrow> (case strip_prefix ''Bearer '' v of Some r \<Rightarrow> r | None \<Rightarrow> [])
                       | None \<Rightarrow> []);
          expected = trim_str (g_admin_token g)
      in if expected = [] \<or> length presented \<noteq> length expected
            \<or> \<not> constant_time_eq presented expected then (Http401, g)
         else (case body_identifier of
           None \<Rightarrow> (Http400, g)
         | Some i \<Rightarrow>
             (let identifier = trim_str i in
              if identifier = [] then (Http400, g)
              else (Http200,
                    g\<lparr> g_revoked := insert identifier (g_revoked g),
                       g_revoked_file :=
                         (if file_ok then g_revoked_file g @ identifier @ [char_of (10::nat)]
                          else g_revoked_file g) \<rparr>))))"

section \<open>Subscription and profile\<close>

definition validate_subscription_token ::
  "crypto \<Rightarrow> claims_codec \<Rightarrow> nat \<Rightarrow> gate \<Rightarrow> string \<Rightarrow> string + unit" where
  "validate_subscription_token K J now g raw =
     (let presented = trim_str raw in
      if presented = [] then Inl ''missing token''
      else
       (let expected = to_ascii_lowercase (trim_str (g_tunnel_token_hash g)) in
        if expected \<noteq> [] \<and> gate_sha256_hex K presented = expected then Inr ()
        else if starts_with ''usr_live_'' presented then
          (case g_verifier g of
             None \<Rightarrow> Inl ''invalid token''
           | Some vk \<Rightarrow>
               (case verify_token K J vk now presented of
                  Inl _ \<Rightarrow> Inl ''invalid token''
                | Inr c \<Rightarrow> if is_revoked g c then Inl ''invalid token'' else Inr ()))
        else Inl ''invalid token''))"

definition bearer :: "string option \<Rightarrow> string" where
  "bearer authorization =
     (case authorization of
        None \<Rightarrow> []
      | Some v \<Rightarrow> (case strip_prefix ''Bearer '' v of Some r \<Rightarrow> trim_str r | None \<Rightarrow> []))"

record profile =
  pf_sub :: string
  pf_name :: string
  pf_exceeded :: bool
  pf_quota_bytes :: nat
  pf_used_bytes :: nat
  pf_expire_at :: nat
  pf_days_left :: nat
  pf_max_conns :: nat

definition handle_user_profile ::
  "crypto \<Rightarrow> claims_codec \<Rightarrow> nat \<Rightarrow> gate \<Rightarrow> string option \<Rightarrow> http_status + profile" where
  "handle_user_profile K J now g authorization =
     (let presented = bearer authorization in
      if \<not> starts_with ''usr_live_'' presented then Inl Http401
      else (case g_verifier g of
        None \<Rightarrow> Inl Http500
      | Some vk \<Rightarrow> (case verify_token K J vk now presented of
          Inl _ \<Rightarrow> Inl Http401
        | Inr c \<Rightarrow>
            if is_revoked g c then Inl Http401
            else
              (let used = used_bytes g (cl_sub c) in
               Inr \<lparr> pf_sub = cl_sub c, pf_name = cl_name c,
                     pf_exceeded = (case quota_limit c of Some q \<Rightarrow> used \<ge> q | None \<Rightarrow> False),
                     pf_quota_bytes = cl_quota_bytes c, pf_used_bytes = used,
                     pf_expire_at = cl_exp c,
                     pf_days_left = (if cl_exp c > now then (cl_exp c - now) div 86400 else 0),
                     pf_max_conns = cl_max_conns c \<rparr>))))"

section \<open>Lemmas\<close>

lemma principal_for_token_User:
  assumes "principal_for_token K J now g tok = Some (User c)"
  shows "\<exists>vk. g_verifier g = Some vk \<and> verify_token K J vk now (trim_str tok) = Inr c \<and> \<not> is_revoked g c"
  using assms by (auto simp: principal_for_token_def Let_def split: if_splits option.splits sum.splits)

lemma principal_for_token_Tunnel:
  assumes "principal_for_token K J now g tok = Some Tunnel"
  shows "gate_sha256_hex K (trim_str tok) = to_ascii_lowercase (trim_str (g_tunnel_token_hash g))
    \<and> trim_str (g_tunnel_token_hash g) \<noteq> []"
  using assms
  by (auto simp: principal_for_token_def Let_def to_ascii_lowercase_def
      split: if_splits option.splits sum.splits)

lemma authenticate_Some:
  assumes "authenticate K J now g head = Some p"
  obtains tok where "principal_for_token K J now g tok = Some p"
  using assms by (auto simp: authenticate_def split: option.splits prod.splits)

lemma serve_Relay:
  assumes "serve K J now g env = Relay ip port leftover uid quota"
  obtains raw evs head host p where "read_head (se_reads env) = Inr (raw, evs)"
    "split_head raw = Some (head, leftover)"
    "parse_connect_head (from_utf8_lossy head) = Some (host, port)"
    "authenticate K J now g (from_utf8_lossy head) = Some p" "port = 443"
    "resolve_target (se_lookup env) host port = Inr ip"
    "uid = principal_sub p" "quota = principal_quota p"
    "\<forall>u q. uid = Some u \<longrightarrow> quota = Some q \<longrightarrow> used_bytes g u < q" "se_dial env ip port" "se_write_ok env"
proof -
  from assms obtain raw evs where 1: "read_head (se_reads env) = Inr (raw, evs)"
    by (auto simp: serve_def Let_def split: sum.splits)
  with assms obtain head lo where 2: "split_head raw = Some (head, lo)"
    by (auto simp: serve_def Let_def split: option.splits)
  with assms 1 obtain host pt where 3: "parse_connect_head (from_utf8_lossy head) = Some (host, pt)"
    by (auto simp: serve_def Let_def split: option.splits)
  with assms 1 2 obtain p where 4: "authenticate K J now g (from_utf8_lossy head) = Some p"
    by (auto simp: serve_def Let_def split: option.splits)
  with assms 1 2 3 have 5: "pt = 443" by (auto simp: serve_def Let_def split: if_splits)
  with assms 1 2 3 4 obtain a where 6: "resolve_target (se_lookup env) host pt = Inr a"
    by (auto simp: serve_def Let_def split: sum.splits target_error.splits)
  have "a = ip \<and> pt = port \<and> lo = leftover \<and> uid = principal_sub p \<and> quota = principal_quota p
    \<and> (\<forall>u q. uid = Some u \<longrightarrow> quota = Some q \<longrightarrow> used_bytes g u < q) \<and> se_dial env ip port \<and> se_write_ok env"
    using assms 1 2 3 4 5 6
    by (auto simp: serve_def Let_def not_le split: if_splits option.splits)
  with 1 2 3 4 5 6 show thesis by (intro that [of raw evs head host p]) auto
qed

text \<open>Revocations that reached the file are loaded again.\<close>

definition file_wf :: "string \<Rightarrow> bool" where
  "file_wf content \<longleftrightarrow> content = [] \<or> last content = char_of (10::nat)"

lemma revoked_lines_append:
  assumes "file_wf content"
  shows "revoked_lines (content @ b) = revoked_lines content @ revoked_lines b"
proof (cases content rule: rev_cases)
  case (snoc a x)
  with assms have "x = char_of (10::nat)" by (simp add: file_wf_def)
  with snoc str_lines_append [of a b] str_lines_append [of a "[]"] show ?thesis
    by (simp add: revoked_lines_def)
qed (simp add: revoked_lines_def)

lemma revoked_lines_line:
  assumes "trim_str i = i" "i \<noteq> []" "char_of (10::nat) \<notin> set i"
  shows "revoked_lines (i @ [char_of (10::nat)]) = [i]"
  using assms str_lines_append [of i "[]"] trim_str_no_trailing_cr [OF assms(1)]
  by (simp add: revoked_lines_def)

text \<open>Later events of the gate that touch the revocation list: further requests of the
  endpoint, and restarts, which start from the file.\<close>

datatype gate_event = EvRevoke "string option" "string option" bool | EvRestart bool

definition gate_restart :: "bool \<Rightarrow> gate \<Rightarrow> gate" where
  "gate_restart readable g = load_revoked_tokens readable
     (g\<lparr> g_revoked := {}, g_active_conns := Map.empty, g_used_bytes := Map.empty \<rparr>)"

fun gate_event_step :: "gate_event \<Rightarrow> gate \<Rightarrow> gate" where
  "gate_event_step (EvRevoke a b ok) g = snd (handle_revoke a b ok g)"
| "gate_event_step (EvRestart readable) g = gate_restart readable g"

definition revoked_for_good :: "string \<Rightarrow> gate \<Rightarrow> bool" where
  "revoked_for_good i g \<longleftrightarrow>
     i \<in> g_revoked g \<and> i \<in> set (revoked_lines (g_revoked_file g)) \<and> file_wf (g_revoked_file g)"

lemma handle_revoke_cases:
  obtains "snd (handle_revoke a b ok g) = g" "fst (handle_revoke a b ok g) \<noteq> Http200"
  | j where "b = Some j" "fst (handle_revoke a b ok g) = Http200" "trim_str j \<noteq> []"
    "snd (handle_revoke a b ok g) = g\<lparr> g_revoked := insert (trim_str j) (g_revoked g),
       g_revoked_file := (if ok then g_revoked_file g @ trim_str j @ [char_of (10::nat)]
                          else g_revoked_file g) \<rparr>"
proof (cases "fst (handle_revoke a b ok g) = Http200")
  case True
  then obtain j where "b = Some j"
    by (cases b) (auto simp: handle_revoke_def Let_def split: if_splits)
  with True show thesis
    by (intro that(2) [of j]) (auto simp: handle_revoke_def Let_def split: if_splits)
next
  case False
  then have "snd (handle_revoke a b ok g) = g"
    by (auto simp: handle_revoke_def Let_def split: if_splits option.splits)
  with False show thesis by (intro that(1))
qed

lemma file_wf_line: "file_wf (c @ i @ [char_of (10::nat)])"
  by (simp add: file_wf_def)

lemma revoked_for_good_step:
  assumes "revoked_for_good i g" "e \<noteq> EvRestart False"
  shows "revoked_for_good i (gate_event_step e g)"
proof (cases e)
  case (EvRevoke a b ok)
  show ?thesis
    by (cases rule: handle_revoke_cases [of a b ok g])
      (use assms EvRevoke revoked_lines_append file_wf_line in \<open>auto simp: revoked_for_good_def\<close>)
next
  case (EvRestart r)
  with assms show ?thesis
    by (simp add: revoked_for_good_def gate_restart_def load_revoked_tokens_def)
qed

lemma revoked_for_good_run:
  "revoked_for_good i g \<Longrightarrow> EvRestart False \<notin> set es \<Longrightarrow>
   revoked_for_good i (fold gate_event_step es g)"
proof (induction es arbitrary: g)
  case (Cons e es)
  then show ?case using revoked_for_good_step [of i g e] by auto
qed simp

section \<open>A concrete gate\<close>

definition demo_gate :: gate where
  "demo_gate = \<lparr> g_tunnel_token_hash = demo_hex (demo_sum 32 ''tun''), g_proxy_secret = ''s'',
     g_verifier = Some ''seed'', g_active_conns = Map.empty, g_used_bytes = [''u'' \<mapsto> 5],
     g_revoked = {}, g_admin_token = ''adm'', g_revoked_file = [] \<rparr>"

definition demo_env :: serve_env where
  "demo_env = \<lparr> se_reads = [Bytes (''CONNECT 8.8.8.8:443 HTTP/1.1'' @ crlf @ ''X-Pony-Token: tun'' @ crlf),
       Bytes (crlf @ ''hello'')],
     se_lookup = (\<lambda>_ _. None), se_dial = (\<lambda>_ _. True), se_write_ok = True \<rparr>"

section \<open>Properties\<close>

text \<open>C11: bytes are relayed for a CONNECT request only if its head, cut from the client's
  stream, names port 443 and carries credentials of a principal, the target is a public
  address that the dial reached, and the principal has quota left; the head and the
  payload handed on are exactly the bytes read so far.\<close>

theorem serve_relay_authorized:
  assumes "serve K J now g env = Relay ip port leftover uid quota" "chunked (se_reads env)"
  shows "port = 443 \<and> is_public_ip ip \<and> se_dial env ip port \<and>
    (\<exists>head host evs p.
       stream_bytes (se_reads env) = head @ leftover @ stream_bytes evs
     \<and> length head \<le> MAX_HEAD_BYTES
     \<and> parse_connect_head (from_utf8_lossy head) = Some (host, 443)
     \<and> authenticate K J now g (from_utf8_lossy head) = Some p
     \<and> uid = principal_sub p \<and> quota = principal_quota p
     \<and> (\<forall>u q. uid = Some u \<longrightarrow> quota = Some q \<longrightarrow> used_bytes g u < q))"
proof -
  from assms(1) obtain raw evs head host p where r: "read_head (se_reads env) = Inr (raw, evs)"
    "split_head raw = Some (head, leftover)"
    "parse_connect_head (from_utf8_lossy head) = Some (host, port)"
    "authenticate K J now g (from_utf8_lossy head) = Some p" "port = 443"
    "resolve_target (se_lookup env) host port = Inr ip"
    "uid = principal_sub p" "quota = principal_quota p"
    "\<forall>u q. uid = Some u \<longrightarrow> quota = Some q \<longrightarrow> used_bytes g u < q" "se_dial env ip port"
    by (rule serve_Relay)
  have "raw = head @ leftover" "length head \<le> MAX_HEAD_BYTES"
    using r(2) by (auto simp: split_head_def split: option.splits if_splits)
  moreover have "raw @ stream_bytes evs = stream_bytes (se_reads env)"
    using read_head_Inr [OF r(1) assms(2)] by blast
  moreover have "is_public_ip ip"
    using r(6) by (auto simp: resolve_target_def list_ex_iff split: option.splits if_splits)
  ultimately show ?thesis using r by (metis append.assoc)
qed

theorem serve_relay_authorized_witness:
  "serve demo demo_codec 100 demo_gate demo_env = Relay (V4 (Ipv4 8 8 8 8)) 443 ''hello'' None None
   \<and> is_public_ip (V4 (Ipv4 8 8 8 8))"
proof -
  have s: "serve demo demo_codec 100 demo_gate demo_env = Relay (V4 (Ipv4 8 8 8 8)) 443 ''hello'' None None"
    by code_simp
  moreover have "chunked (se_reads demo_env)" by code_simp
  ultimately show ?thesis using serve_relay_authorized by blast
qed

text \<open>The CONNECT plane takes a text for a user only if it verifies under the configured
  key with claims that are on no revocation list, and for the tunnel only if its SHA-256
  is the configured hash, which must not be empty.\<close>

theorem principal_for_token_sound:
  assumes "principal_for_token K J now g tok = Some p"
  shows "case p of
      User c \<Rightarrow> (\<exists>vk. g_verifier g = Some vk \<and> verify_token K J vk now (trim_str tok) = Inr c
        \<and> cl_jti c \<notin> g_revoked g \<and> cl_sub c \<notin> g_revoked g)
    | Tunnel \<Rightarrow> gate_sha256_hex K (trim_str tok) = to_ascii_lowercase (trim_str (g_tunnel_token_hash g))
        \<and> trim_str (g_tunnel_token_hash g) \<noteq> []"
  using assms principal_for_token_User principal_for_token_Tunnel
  by (cases p) (auto simp: is_revoked_def)

theorem principal_for_token_sound_witness:
  "gate_sha256_hex demo (trim_str ''tun'') = to_ascii_lowercase (trim_str (g_tunnel_token_hash demo_gate))"
proof -
  have "principal_for_token demo demo_codec 100 demo_gate ''tun'' = Some Tunnel" by code_simp
  from principal_for_token_sound [OF this] show ?thesis by simp
qed

text \<open>C12: a revocation accepted by the admin endpoint and written to its file is permanent:
  after any further requests of the endpoint and any restarts of the gate that can read
  the file (one that cannot starts with an empty list), no text authenticates a user whose token id or user id is the revoked identifier.  (An
  identifier with a line feed inside would be read back as several.)\<close>

theorem revoke_survives_restart:
  assumes "fst (handle_revoke authorization (Some i) True g) = Http200"
    and "file_wf (g_revoked_file g)" "char_of (10::nat) \<notin> set i"
    and "EvRestart False \<notin> set es" "g' = fold gate_event_step es (snd (handle_revoke authorization (Some i) True g))"
    and "cl_jti c = trim_str i \<or> cl_sub c = trim_str i"
  shows "principal_for_token K J now g' tok \<noteq> Some (User c)"
proof -
  have nl: "char_of (10::nat) \<notin> set (trim_str i)" using assms(3) set_trim_str by blast
  have "revoked_for_good (trim_str i) (snd (handle_revoke authorization (Some i) True g))"
    by (cases rule: handle_revoke_cases [of authorization "Some i" True g])
      (use assms(1,2) revoked_lines_append [OF assms(2)] revoked_lines_line [OF trim_str_idem _ nl] file_wf_line
        in \<open>auto simp: revoked_for_good_def\<close>)
  then have "trim_str i \<in> g_revoked g'"
    using revoked_for_good_run assms(4,5) by (auto simp: revoked_for_good_def)
  with assms(6) show ?thesis
    using principal_for_token_User by (fastforce simp: is_revoked_def)
qed

theorem revoke_survives_restart_witness:
  "principal_for_token demo demo_codec 100
     (fold gate_event_step [EvRestart True] (snd (handle_revoke (Some ''Bearer adm'') (Some ''u'') True demo_gate)))
     (sign_token demo demo_codec ''seed'' demo_claims) \<noteq> Some (User demo_claims)"
proof (rule revoke_survives_restart [OF _ _ _ _ refl])
  show "fst (handle_revoke (Some ''Bearer adm'') (Some ''u'') True demo_gate) = Http200" by code_simp
  show "file_wf (g_revoked_file demo_gate)" by code_simp
  show "char_of (10::nat) \<notin> set ''u''" by code_simp
  show "EvRestart False \<notin> set [EvRestart True]" by simp
  have "trim_str ''u'' = ''u''" by code_simp
  then show "cl_jti demo_claims = trim_str ''u'' \<or> cl_sub demo_claims = trim_str ''u''"
    by (simp add: demo_claims_def)
qed

end
