(* ===== verification/GateRelay.thy ===== *)
theory GateRelay
  imports GateServer
begin

text \<open>
  The byte relay of the CONNECT plane (\<open>relay\<close>, \<open>Meter\<close> and \<open>pump\<close> of
  \<open>crates/gate-server/src/connect_proxy.rs\<close>).  Every connection has two pumps, one per
  direction, that run concurrently with those of all other connections and charge one
  shared counter per user.  A step of the system is one turn of the loop of one pump, with
  what its socket and the cancellation token gave it, or the admission of a new
  connection.  A pump that sees its token cancelled may still take a read that is ready
  (\<open>select!\<close> chooses between ready branches at random).
\<close>

definition PUMP_BUF :: nat where
  [const_defs]: "PUMP_BUF = 16 * 1024"

section \<open>Metering\<close>

text \<open>\<open>Meter::charge\<close>: the counter is an \<open>AtomicU64\<close>, whose addition wraps.\<close>

definition charge :: "string option \<Rightarrow> nat option \<Rightarrow> nat \<Rightarrow> gate \<Rightarrow> bool \<times> gate" where
  "charge uid quota n g =
     (case (uid, quota) of
        (Some u, Some q) \<Rightarrow>
          (let total = wrap_add64 (used_bytes g u) n
           in (total \<ge> q, g\<lparr> g_used_bytes := (g_used_bytes g)(u \<mapsto> total) \<rparr>))
      | _ \<Rightarrow> (False, g))"

section \<open>One connection\<close>

record pump =
  p_live :: bool
  p_sent :: string

datatype direction = Up | Down

record conn =
  c_uid :: "string option"
  c_quota :: "nat option"
  c_cancel :: bool
  c_up :: pump
  c_down :: pump

text \<open>The start of \<open>relay\<close>: the payload that came with the head goes out first, before
  the pumps and outside the meter; if that write fails the connection is dropped.\<close>

definition relay_start :: "string option \<Rightarrow> nat option \<Rightarrow> string \<Rightarrow> bool \<Rightarrow> conn option" where
  "relay_start uid quota leftover write_ok =
     (if leftover \<noteq> [] \<and> \<not> write_ok then None
      else Some \<lparr> c_uid = uid, c_quota = quota, c_cancel = False,
                  c_up = \<lparr> p_live = True, p_sent = [] \<rparr>, c_down = \<lparr> p_live = True, p_sent = [] \<rparr> \<rparr>)"

text \<open>What one turn of a pump's loop meets: the cancelled token, an idle timeout, a read
  (no bytes at the end of the stream) whose bytes the other side takes or not, or a
  read error.\<close>

datatype pump_input = Cancelled | IdleTimeout | Read string bool | ReadFailed

definition get_pump :: "direction \<Rightarrow> conn \<Rightarrow> pump" where
  "get_pump d c = (case d of Up \<Rightarrow> c_up c | Down \<Rightarrow> c_down c)"

definition set_pump :: "direction \<Rightarrow> pump \<Rightarrow> conn \<Rightarrow> conn" where
  "set_pump d p c = (case d of Up \<Rightarrow> c\<lparr> c_up := p \<rparr> | Down \<Rightarrow> c\<lparr> c_down := p \<rparr>)"

definition stop_pump :: "direction \<Rightarrow> conn \<Rightarrow> conn" where
  "stop_pump d c = set_pump d ((get_pump d c)\<lparr> p_live := False \<rparr>) c"

definition pump_turn :: "direction \<Rightarrow> pump_input \<Rightarrow> gate \<Rightarrow> conn \<Rightarrow> gate \<times> conn" where
  "pump_turn d inp g c =
     (case inp of
        Cancelled \<Rightarrow> (g, stop_pump d c)
      | IdleTimeout \<Rightarrow> (g, stop_pump d (c\<lparr> c_cancel := True \<rparr>))
      | ReadFailed \<Rightarrow> (g, stop_pump d (c\<lparr> c_cancel := True \<rparr>))
      | Read bs write_ok \<Rightarrow>
          if bs = [] then (g, stop_pump d c)
          else if \<not> write_ok then (g, stop_pump d (c\<lparr> c_cancel := True \<rparr>))
          else
            (let p = get_pump d c;
                 c1 = set_pump d (p\<lparr> p_sent := p_sent p @ bs \<rparr>) c;
                 (exhausted, g1) = charge (c_uid c) (c_quota c) (length bs) g
             in if exhausted then (g1, stop_pump d (c1\<lparr> c_cancel := True \<rparr>)) else (g1, c1)))"

text \<open>The inputs a turn can meet in a state.\<close>

definition pump_input_ok :: "pump_input \<Rightarrow> conn \<Rightarrow> bool" where
  "pump_input_ok inp c =
     (case inp of
        Cancelled \<Rightarrow> c_cancel c
      | Read bs _ \<Rightarrow> length bs \<le> PUMP_BUF
      | _ \<Rightarrow> True)"

section \<open>The system of connections\<close>

inductive relay_step :: "gate \<times> conn list \<Rightarrow> gate \<times> conn list \<Rightarrow> bool" where
  admit: "serve K J now g env = Relay ip port leftover uid quota \<Longrightarrow>
     relay_start uid quota leftover write_ok = Some c \<Longrightarrow>
     relay_step (g, cs) (g, cs @ [c])"
| turn: "i < length cs \<Longrightarrow> p_live (get_pump d (cs ! i)) \<Longrightarrow> pump_input_ok inp (cs ! i) \<Longrightarrow>
     pump_turn d inp g (cs ! i) = (g', c') \<Longrightarrow>
     relay_step (g, cs) (g', cs[i := c'])"
| lifetime: "i < length cs \<Longrightarrow>
     relay_step (g, cs) (g, cs[i := stop_pump Up (stop_pump Down ((cs ! i)\<lparr> c_cancel := True \<rparr>))])"

inductive relay_reach :: "gate \<Rightarrow> gate \<times> conn list \<Rightarrow> bool" for g0 where
  start: "relay_reach g0 (g0, [])"
| step: "relay_reach g0 s \<Longrightarrow> relay_step s s' \<Longrightarrow> relay_reach g0 s'"

inductive_cases relay_stepE: "relay_step (g, cs) (g', cs')"

lemma relay_step_cases:
  assumes "relay_step (g, cs) (g', cs')"
  obtains (admit) K J now env ip port leftover uid quota write_ok c where
      "serve K J now g env = Relay ip port leftover uid quota"
      "relay_start uid quota leftover write_ok = Some c" "g' = g" "cs' = cs @ [c]"
    | (turn) i d inp c' where "i < length cs" "p_live (get_pump d (cs ! i))"
      "pump_input_ok inp (cs ! i)" "pump_turn d inp g (cs ! i) = (g', c')" "cs' = cs[i := c']"
    | (lifetime) i where "i < length cs" "g' = g"
      "cs' = cs[i := stop_pump Up (stop_pump Down ((cs ! i)\<lparr> c_cancel := True \<rparr>))]"
  using assms by (elim relay_stepE) blast+

section \<open>Lemmas\<close>

text \<open>Bytes that the pumps of a connection passed on and charged.\<close>

definition conn_bytes :: "conn \<Rightarrow> nat" where
  "conn_bytes c = length (p_sent (c_up c)) + length (p_sent (c_down c))"

definition metered :: "string \<Rightarrow> conn \<Rightarrow> bool" where
  "metered u c \<longleftrightarrow> c_uid c = Some u \<and> c_quota c \<noteq> None"

definition user_bytes :: "string \<Rightarrow> conn list \<Rightarrow> nat" where
  "user_bytes u cs = sum_list (map conn_bytes (filter (metered u) cs))"

definition dead :: "conn \<Rightarrow> nat" where
  "dead c = (if p_live (c_up c) then 0 else 1) + (if p_live (c_down c) then 0 else 1)"

definition dead_pumps :: "string \<Rightarrow> conn list \<Rightarrow> nat" where
  "dead_pumps u cs = sum_list (map dead (filter (metered u) cs))"

lemma pump_simps [simp]:
  "c_uid (stop_pump d c) = c_uid c" "c_quota (stop_pump d c) = c_quota c"
  "c_uid (set_pump d p c) = c_uid c" "c_quota (set_pump d p c) = c_quota c"
  "conn_bytes (stop_pump d c) = conn_bytes c"
  "conn_bytes (c\<lparr> c_cancel := b \<rparr>) = conn_bytes c" "dead (c\<lparr> c_cancel := b \<rparr>) = dead c"
  "get_pump d (c\<lparr> c_cancel := b \<rparr>) = get_pump d c" "get_pump d (set_pump d p c) = p"
  by (simp_all add: stop_pump_def set_pump_def get_pump_def conn_bytes_def dead_def
      split: direction.splits)

lemma dead_le_2 [simp]: "dead c \<le> 2"
  by (simp add: dead_def)

lemma dead_stop: "dead c \<le> dead (stop_pump d c)"
  "p_live (get_pump d c) \<Longrightarrow> dead (stop_pump d c) = dead c + 1"
  by (simp_all add: dead_def stop_pump_def set_pump_def get_pump_def split: direction.splits)

lemma dead_live: "p_live (get_pump d c) \<Longrightarrow> dead c \<le> 1"
  by (cases d) (auto simp: dead_def get_pump_def)

lemma pump_turn_effect:
  assumes "pump_turn d inp g c = (g', c')" "p_live (get_pump d c)" "pump_input_ok inp c"
  shows "c_uid c' = c_uid c \<and> c_quota c' = c_quota c \<and>
    (g' = g \<and> conn_bytes c' = conn_bytes c \<and> dead c \<le> dead c'
     \<or> (\<exists>n b. n \<le> PUMP_BUF \<and> charge (c_uid c) (c_quota c) n g = (b, g')
          \<and> conn_bytes c' = conn_bytes c + n \<and> dead c' = dead c + (if b then 1 else 0)))"
proof (cases "\<exists>bs. inp = Read bs True \<and> bs \<noteq> []")
  case False
  then have "g' = g \<and> (c' = stop_pump d c \<or> c' = stop_pump d (c\<lparr> c_cancel := True \<rparr>))"
  proof (cases inp)
    case (Read bs w)
    with False have "bs = [] \<or> \<not> w" by (cases w) auto
    with Read assms(1) show ?thesis by (cases "bs = []") (auto simp: pump_turn_def)
  qed (use assms(1) in \<open>auto simp: pump_turn_def\<close>)
  then have "g' = g \<and> conn_bytes c' = conn_bytes c \<and> dead c \<le> dead c'"
    "c_uid c' = c_uid c" "c_quota c' = c_quota c"
    using dead_stop(1) [of c d] dead_stop(1) [of "c\<lparr> c_cancel := True \<rparr>" d] by auto
  then show ?thesis by blast
next
  case True
  then obtain bs where inp: "inp = Read bs True" "bs \<noteq> []" by blast
  obtain b g1 where ch: "charge (c_uid c) (c_quota c) (length bs) g = (b, g1)"
    by (cases "charge (c_uid c) (c_quota c) (length bs) g")
  let ?c1 = "set_pump d ((get_pump d c)\<lparr> p_sent := p_sent (get_pump d c) @ bs \<rparr>) c"
  have "conn_bytes ?c1 = conn_bytes c + length bs" "dead ?c1 = dead c" "p_live (get_pump d ?c1)"
    using assms(2)
    by (simp_all add: conn_bytes_def dead_def set_pump_def get_pump_def split: direction.splits)
  moreover have "g' = g1" "c' = (if b then stop_pump d (?c1\<lparr> c_cancel := True \<rparr>) else ?c1)"
    using assms(1) inp ch by (auto simp: pump_turn_def Let_def split: if_splits)
  moreover have "length bs \<le> PUMP_BUF" using assms(3) inp by (simp add: pump_input_ok_def)
  moreover have "conn_bytes c' = conn_bytes c + length bs \<and> dead c' = dead c + (if b then 1 else 0)"
    "c_uid c' = c_uid c" "c_quota c' = c_quota c"
    using calculation dead_stop(2) [of d "?c1\<lparr> c_cancel := True \<rparr>"] by auto
  ultimately show ?thesis using ch by blast
qed

lemma used_bytes_charge:
  assumes "charge uid quota n g = (b, g')"
  shows "used_bytes g' u =
      (if uid = Some u \<and> quota \<noteq> None then wrap_add64 (used_bytes g u) n else used_bytes g u)"
    and "uid = Some u \<Longrightarrow> quota = Some q \<Longrightarrow> b \<longleftrightarrow> q \<le> wrap_add64 (used_bytes g u) n"
  using assms by (auto simp: charge_def used_bytes_def Let_def split: option.splits)

text \<open>The assumptions of the bound, for a list of connections: quotas of at most \<open>q\<close>, and
  room in the counter.\<close>

definition bounded_user :: "string \<Rightarrow> nat \<Rightarrow> conn list \<Rightarrow> bool" where
  "bounded_user u q cs \<longleftrightarrow>
     (\<forall>c \<in> set cs. \<forall>q'. c_uid c = Some u \<longrightarrow> c_quota c = Some q' \<longrightarrow> q' \<le> q)
     \<and> q + PUMP_BUF * (2 * length (filter (metered u) cs)) \<le> u64_max"

definition relay_inv :: "string \<Rightarrow> nat \<Rightarrow> nat \<Rightarrow> gate \<times> conn list \<Rightarrow> bool" where
  "relay_inv u q used0 s \<longleftrightarrow>
     used_bytes (fst s) u = used0 + user_bytes u (snd s)
     \<and> used_bytes (fst s) u < q + PUMP_BUF * dead_pumps u (snd s)"

lemma filter_metered_update:
  assumes "i < length cs" "metered u c' = metered u (cs ! i)"
  shows "length (filter (metered u) (cs[i := c'])) = length (filter (metered u) cs)"
  using length_filter_update [of i cs "metered u" c'] assms by (simp split: if_splits)

text \<open>Earlier states satisfy the assumptions too: connections stay, with user and quota.\<close>

lemma bounded_user_update:
  assumes "bounded_user u q (cs[i := c'])" "i < length cs" "c_uid c' = c_uid (cs ! i)" "c_quota c' = c_quota (cs ! i)"
  shows "bounded_user u q cs"
proof -
  have "length (filter (metered u) (cs[i := c'])) = length (filter (metered u) cs)"
    using assms(2-4) by (intro filter_metered_update) (simp_all add: metered_def)
  moreover have "\<exists>d \<in> set (cs[i := c']). c_uid d = c_uid c \<and> c_quota d = c_quota c" if "c \<in> set cs" for c
  proof -
    from that obtain j where j: "j < length cs" "cs ! j = c" by (auto simp: in_set_conv_nth)
    then have "cs[i := c'] ! j \<in> set (cs[i := c'])" by (intro nth_mem) simp
    moreover have "c_uid (cs[i := c'] ! j) = c_uid c \<and> c_quota (cs[i := c'] ! j) = c_quota c"
      using j assms(2-4) by (cases "i = j") simp_all
    ultimately show ?thesis by blast
  qed
  ultimately show ?thesis using assms(1) unfolding bounded_user_def by metis
qed

lemma dead_pumps_le: "dead_pumps u cs \<le> 2 * length (filter (metered u) cs)"
proof (induction cs)
  case (Cons c cs)
  with dead_le_2 [of c] show ?case by (simp add: dead_pumps_def del: dead_le_2)
qed (simp add: dead_pumps_def)

lemma relay_inv_turn:
  assumes inv: "relay_inv u q used0 (g, cs)" and i: "i < length cs"
    and turn: "p_live (get_pump d (cs ! i))" "pump_input_ok inp (cs ! i)" "pump_turn d inp g (cs ! i) = (g', c')"
    and b: "bounded_user u q cs"
  shows "relay_inv u q used0 (g', cs[i := c'])"
proof -
  let ?c = "cs ! i"
  note eff = pump_turn_effect [OF turn(3,1,2)]
  have m: "metered u c' = metered u ?c" using eff by (simp add: metered_def)
  have ub: "user_bytes u (cs[i := c']) + (if metered u ?c then conn_bytes ?c else 0)
      = user_bytes u cs + (if metered u ?c then conn_bytes c' else 0)"
    unfolding user_bytes_def using sum_list_filter_update [of i cs conn_bytes "metered u" c'] i m by simp
  have dp: "dead_pumps u (cs[i := c']) + (if metered u ?c then dead ?c else 0)
      = dead_pumps u cs + (if metered u ?c then dead c' else 0)"
    unfolding dead_pumps_def using sum_list_filter_update [of i cs dead "metered u" c'] i m by simp
  from eff consider (quiet) "g' = g" "conn_bytes c' = conn_bytes ?c" "dead ?c \<le> dead c'"
    | (paid) n bb where "n \<le> PUMP_BUF" "charge (c_uid ?c) (c_quota ?c) n g = (bb, g')"
      "conn_bytes c' = conn_bytes ?c + n" "dead c' = dead ?c + (if bb then 1 else 0)"
    by blast
  then show ?thesis
  proof cases
    case quiet
    then have "user_bytes u (cs[i := c']) = user_bytes u cs" "dead_pumps u cs \<le> dead_pumps u (cs[i := c'])"
      using ub dp by (auto split: if_splits)
    with inv quiet(1) show ?thesis
      unfolding relay_inv_def by (auto elim!: less_le_trans)
  next
    case (paid n bb)
    note ch = used_bytes_charge [OF paid(2)]
    show ?thesis
    proof (cases "metered u ?c")
      case False
      then have "used_bytes g' u = used_bytes g u" using ch(1) [of u] by (auto simp: metered_def)
      with False ub dp inv show ?thesis by (simp add: relay_inv_def)
    next
      case True
      then obtain q' where q': "c_uid ?c = Some u" "c_quota ?c = Some q'" by (auto simp: metered_def)
      have "q' \<le> q" using b q' nth_mem [OF i] unfolding bounded_user_def by blast
      have "length (filter (metered u) cs) \<ge> 1"
        using True i by (metis filter_empty_conv length_0_conv less_one linorder_not_le nth_mem)
      have live: "dead_pumps u cs + 1 \<le> 2 * length (filter (metered u) cs)"
        using dead_pumps_le [of u "cs[i := stop_pump d ?c]"] dead_stop(2) [OF turn(1)]
          filter_metered_update [of i cs u "stop_pump d ?c"] i True
          sum_list_filter_update [of i cs dead "metered u" "stop_pump d ?c"]
        by (simp add: metered_def dead_pumps_def)
      have "used_bytes g u + n < q + PUMP_BUF * (dead_pumps u cs + 1)"
        using inv paid(1) by (simp add: relay_inv_def)
      also have "\<dots> \<le> q + PUMP_BUF * (2 * length (filter (metered u) cs))"
        using live by (intro add_left_mono mult_left_mono) simp_all
      also have "\<dots> \<le> u64_max" using b by (simp add: bounded_user_def)
      finally have nowrap: "wrap_add64 (used_bytes g u) n = used_bytes g u + n" by simp
      then have used': "used_bytes g' u = used_bytes g u + n"
        using ch(1) [of u] True by (simp add: metered_def)
      have ub': "user_bytes u (cs[i := c']) = user_bytes u cs + n"
        using ub True paid(3) by simp
      have dp': "dead_pumps u (cs[i := c']) = dead_pumps u cs + (if bb then 1 else 0)"
        using dp True paid(4) by simp
      have "used_bytes g u + n < q + PUMP_BUF * dead_pumps u (cs[i := c'])"
      proof (cases bb)
        case True
        with dp' \<open>used_bytes g u + n < q + PUMP_BUF * (dead_pumps u cs + 1)\<close> show ?thesis by simp
      next
        case False
        then have "used_bytes g u + n < q'" using ch(2) [OF q'] nowrap by simp
        with \<open>q' \<le> q\<close> show ?thesis by simp
      qed
      with used' ub' inv show ?thesis by (simp add: relay_inv_def)
    qed
  qed
qed

lemma relay_inv_step:
  assumes "relay_step (g, cs) (g', cs')" "relay_inv u q used0 (g, cs)" "bounded_user u q cs"
  shows "relay_inv u q used0 (g', cs')"
  using assms(1)
proof (cases rule: relay_step_cases)
  case (admit K J now env ip port leftover uid quota write_ok c)
  then have "conn_bytes c = 0" "dead c = 0"
    by (auto simp: relay_start_def conn_bytes_def dead_def split: if_splits)
  with admit assms(2) show ?thesis by (simp add: relay_inv_def user_bytes_def dead_pumps_def)
next
  case (turn i d inp c')
  with relay_inv_turn [OF assms(2) _ _ _ _ assms(3)] show ?thesis by simp
next
  case (lifetime i)
  let ?c' = "stop_pump Up (stop_pump Down ((cs ! i)\<lparr> c_cancel := True \<rparr>))"
  have m: "metered u ?c' = metered u (cs ! i)" by (simp add: metered_def)
  have "dead (cs ! i) \<le> dead ?c'"
    using dead_stop(1) [of "(cs ! i)\<lparr> c_cancel := True \<rparr>" Down] dead_stop(1) [of _ Up] by (metis le_trans pump_simps(7))
  then have "dead_pumps u cs \<le> dead_pumps u (cs[i := ?c'])"
    using sum_list_filter_update [of i cs dead "metered u" ?c'] lifetime(1) m
    by (auto simp: dead_pumps_def split: if_splits)
  moreover have "user_bytes u (cs[i := ?c']) = user_bytes u cs"
    using sum_list_filter_update [of i cs conn_bytes "metered u" ?c'] lifetime(1) m
    by (auto simp: user_bytes_def split: if_splits)
  ultimately show ?thesis
    using assms(2) lifetime(2,3) unfolding relay_inv_def by (auto elim!: less_le_trans)
qed

lemma bounded_user_step:
  assumes "relay_step (g, cs) (g', cs')" "bounded_user u q cs'"
  shows "bounded_user u q cs"
  using assms(1)
proof (cases rule: relay_step_cases)
  case (admit K J now env ip port leftover uid quota write_ok c)
  with assms(2) have "(\<forall>c \<in> set cs. \<forall>q'. c_uid c = Some u \<longrightarrow> c_quota c = Some q' \<longrightarrow> q' \<le> q)"
    "q + PUMP_BUF * (2 * length (filter (metered u) (cs @ [c]))) \<le> u64_max"
    by (auto simp: bounded_user_def)
  moreover have "q + PUMP_BUF * (2 * length (filter (metered u) cs))
      \<le> q + PUMP_BUF * (2 * length (filter (metered u) (cs @ [c])))"
    by (intro add_left_mono mult_left_mono) simp_all
  ultimately show ?thesis unfolding bounded_user_def by linarith
next
  case (turn i d inp c')
  with bounded_user_update [of u q cs i c'] assms(2) pump_turn_effect [OF turn(4,2,3)] show ?thesis
    by simp
next
  case (lifetime i)
  with bounded_user_update [of u q cs i] assms(2) show ?thesis by simp
qed

lemma relay_inv_reach:
  assumes "relay_reach g0 s" "bounded_user u q (snd s)" "used_bytes g0 u < q"
  shows "relay_inv u q (used_bytes g0 u) s"
  using assms
proof (induction rule: relay_reach.induct)
  case start
  then show ?case by (simp add: relay_inv_def user_bytes_def dead_pumps_def)
next
  case (step s s')
  then have "bounded_user u q (snd s)" using bounded_user_step [of "fst s" "snd s" "fst s'" "snd s'"] by simp
  with step show ?case using relay_inv_step [of "fst s" "snd s" "fst s'" "snd s'"] by simp
qed

section \<open>Properties\<close>

text \<open>C13: in every interleaving of the pumps of all connections, the counter of a user is
  what it was at the start plus exactly the bytes the pumps of that user's connections
  have delivered, and it stays below the largest quota plus one buffer for each of the
  two pumps of each connection: a quota is overshot by at most 32 KiB per connection.
  (The quotas must leave that much room in the 64-bit counter.)\<close>

theorem quota_overshoot_bound:
  assumes "relay_reach g0 (g, cs)" "used_bytes g0 u < q"
    and "\<forall>c \<in> set cs. \<forall>q'. c_uid c = Some u \<longrightarrow> c_quota c = Some q' \<longrightarrow> q' \<le> q"
    and "q + PUMP_BUF * (2 * length (filter (metered u) cs)) \<le> u64_max"
  shows "used_bytes g u = used_bytes g0 u + user_bytes u cs
    \<and> used_bytes g u < q + PUMP_BUF * (2 * length (filter (metered u) cs))"
proof -
  have "bounded_user u q cs" using assms(3,4) by (simp add: bounded_user_def)
  with relay_inv_reach [OF assms(1) _ assms(2)]
  have inv: "relay_inv u q (used_bytes g0 u) (g, cs)" by simp
  have "q + PUMP_BUF * dead_pumps u cs \<le> q + PUMP_BUF * (2 * length (filter (metered u) cs))"
    using dead_pumps_le [of u cs] by (intro add_left_mono mult_left_mono) simp_all
  with inv show ?thesis by (auto simp: relay_inv_def elim!: less_le_trans)
qed

definition demo_head :: string where
  "demo_head = ''CONNECT 8.8.8.8:443 HTTP/1.1'' @ crlf
     @ ''X-Pony-Token: '' @ sign_token demo demo_codec ''seed'' demo_claims @ crlf @ crlf"

definition demo_user_env :: serve_env where
  "demo_user_env = demo_env\<lparr> se_reads := [Bytes demo_head] \<rparr>"

lemma demo_head_read: "read_head [Bytes demo_head] = Inr (demo_head, [])"
  by code_simp

lemma demo_head_split: "split_head demo_head = Some (demo_head, [])"
  by code_simp

lemma demo_head_utf8: "from_utf8_lossy demo_head = demo_head"
  by code_simp

lemma demo_head_parse: "parse_connect_head demo_head = Some (''8.8.8.8'', 443)"
  by code_simp

lemma demo_head_authenticate:
  "authenticate demo demo_codec 100 demo_gate demo_head = Some (User demo_claims)"
  by code_simp

lemma demo_head_target: "resolve_target (\<lambda>_ _. None) ''8.8.8.8'' 443 = Inr (V4 (Ipv4 8 8 8 8))"
  by code_simp

lemmas demo_head_stages = demo_head_read demo_head_split demo_head_utf8 demo_head_parse
  demo_head_authenticate demo_head_target

lemma demo_user_serve:
  "serve demo demo_codec 100 demo_gate demo_user_env
   = Relay (V4 (Ipv4 8 8 8 8)) 443 [] (Some ''u'') (Some (cl_quota_bytes demo_claims))"
proof -
  have "used_bytes demo_gate ''u'' = 5" "cl_sub demo_claims = ''u''" "cl_role demo_claims = ''user''"
    "cl_quota_bytes demo_claims = 1000"
    by (simp_all add: demo_claims_def used_bytes_def demo_gate_def)
  then show ?thesis
    by (simp add: serve_def demo_user_env_def demo_env_def demo_head_stages del: read_head.simps)
qed

definition demo_conn :: "string \<Rightarrow> conn" where
  "demo_conn sent = \<lparr> c_uid = Some ''u'', c_quota = Some (cl_quota_bytes demo_claims), c_cancel = False,
     c_up = \<lparr> p_live = True, p_sent = sent \<rparr>, c_down = \<lparr> p_live = True, p_sent = [] \<rparr> \<rparr>"

theorem quota_overshoot_bound_witness:
  "\<exists>g. relay_reach demo_gate (g, [demo_conn ''hello'']) \<and> used_bytes g ''u'' = 5 + 5"
proof -
  let ?q = "cl_quota_bytes demo_claims" and ?g = "snd (charge (Some ''u'') (Some (cl_quota_bytes demo_claims)) 5 demo_gate)"
  have "relay_start (Some ''u'') (Some ?q) [] True = Some (demo_conn [])"
    by (simp add: relay_start_def demo_conn_def)
  with demo_user_serve have 1: "relay_step (demo_gate, []) (demo_gate, [] @ [demo_conn []])"
    by (rule relay_step.admit)
  have "pump_turn Up (Read ''hello'' True) demo_gate (demo_conn []) = (?g, demo_conn ''hello'')"
    by (simp add: pump_turn_def demo_conn_def get_pump_def set_pump_def charge_def demo_claims_def
        used_bytes_def demo_gate_def wrap_add64_def)
  moreover have "p_live (get_pump Up (demo_conn []))" "pump_input_ok (Read ''hello'' True) (demo_conn [])"
    by (simp_all add: demo_conn_def get_pump_def pump_input_ok_def PUMP_BUF_def)
  ultimately have 2: "relay_step (demo_gate, [demo_conn []]) (?g, [demo_conn ''hello''])"
    using relay_step.turn [of 0 "[demo_conn []]" Up "Read ''hello'' True" demo_gate ?g "demo_conn ''hello''"] by simp
  with 1 have r: "relay_reach demo_gate (?g, [demo_conn ''hello''])"
    using relay_reach.step [OF relay_reach.step [OF relay_reach.start 1] ] by simp
  have "used_bytes demo_gate ''u'' < ?q" "user_bytes ''u'' [demo_conn ''hello''] = 5"
    "used_bytes demo_gate ''u'' = 5" by code_simp+
  moreover have "?q + PUMP_BUF * (2 * length (filter (metered ''u'') [demo_conn ''hello''])) \<le> u64_max" by code_simp
  ultimately have "used_bytes ?g ''u'' = 5 + 5"
    using quota_overshoot_bound [OF r, of "''u''" ?q] by (simp add: demo_conn_def)
  with r show ?thesis by blast
qed

end
