(* ===== verification/GateWs.thy ===== *)
theory GateWs
  imports GateServer
begin

text \<open>
  The WebSocket plane of the gate (\<open>handle_ws\<close> and \<open>handle_ws_socket\<close> of
  \<open>crates/gate-server/src/lib.rs\<close>).  A session is admitted by the HTTP handler, which
  looks at the quota and the number of open sessions, and runs later in a task of its
  own, whose \<open>ConnGuard\<close> counts it.  All sessions run concurrently over the two shared
  maps; a step of the system is an admission, the start of a task, its first frame, one
  turn of one of its two copying loops, or its end.
\<close>

section \<open>Admission\<close>

datatype ws_reject = Unauthorized401 | PaymentRequired402 | TooManyRequests429

text \<open>Steps 1 of \<open>handle_ws\<close>: the claims of a user token, none for other texts.\<close>

definition ws_claims ::
  "crypto \<Rightarrow> claims_codec \<Rightarrow> nat \<Rightarrow> gate \<Rightarrow> string \<Rightarrow> ws_reject + claims option" where
  "ws_claims K J now g presented =
     (if starts_with ''usr_live_'' presented then
        (case g_verifier g of
           None \<Rightarrow> Inl Unauthorized401
         | Some vk \<Rightarrow>
             (case verify_token K J vk now presented of
                Inl _ \<Rightarrow> Inl Unauthorized401
              | Inr c \<Rightarrow> if is_revoked g c then Inl Unauthorized401 else Inr (Some c)))
      else Inr None)"

text \<open>The entries \<open>entry(..).or_insert(0)\<close> makes in the two maps.\<close>

definition touch_used :: "string \<Rightarrow> gate \<Rightarrow> gate" where
  "touch_used u g = g\<lparr> g_used_bytes := (g_used_bytes g)(u \<mapsto> used_bytes g u) \<rparr>"

definition active_conns :: "gate \<Rightarrow> string \<Rightarrow> nat" where
  "active_conns g u = (case g_active_conns g u of Some n \<Rightarrow> n | None \<Rightarrow> 0)"

definition touch_conns :: "string \<Rightarrow> gate \<Rightarrow> gate" where
  "touch_conns u g = g\<lparr> g_active_conns := (g_active_conns g)(u \<mapsto> active_conns g u) \<rparr>"

text \<open>\<open>c.max_conns.max(10) * 4\<close> on \<open>usize\<close>.\<close>

definition conn_limit :: "claims \<Rightarrow> nat" where
  "conn_limit c = (max (cl_max_conns c) 10 * 4) mod 2 ^ 64"

definition handle_ws ::
  "crypto \<Rightarrow> claims_codec \<Rightarrow> nat \<Rightarrow> string option \<Rightarrow> gate \<Rightarrow> (ws_reject + claims option) \<times> gate" where
  "handle_ws K J now authorization g =
     (let presented = bearer authorization in
      case ws_claims K J now g presented of
        Inl e \<Rightarrow> (Inl e, g)
      | Inr None \<Rightarrow>
          (let expected_hash = to_ascii_lowercase (trim_str (g_tunnel_token_hash g)) in
           if expected_hash = [] \<or> presented = [] \<or> gate_sha256_hex K presented \<noteq> expected_hash
           then (Inl Unauthorized401, g)
           else (Inr None, g))
      | Inr (Some c) \<Rightarrow>
          (let g1 = (case quota_limit c of Some _ \<Rightarrow> touch_used (cl_sub c) g | None \<Rightarrow> g) in
           if (case quota_limit c of Some q \<Rightarrow> used_bytes g1 (cl_sub c) \<ge> q | None \<Rightarrow> False)
           then (Inl PaymentRequired402, g1)
           else if is_admin_claims c then (Inr (Some c), g1)
           else
             (let g2 = touch_conns (cl_sub c) g1 in
              if active_conns g2 (cl_sub c) \<ge> conn_limit c then (Inl TooManyRequests429, g2)
              else (Inr (Some c), g2))))"

section \<open>Sessions\<close>

text \<open>\<open>ConnGuard::new\<close> and its \<open>Drop\<close>.\<close>

definition conn_guard_new :: "string option \<Rightarrow> gate \<Rightarrow> gate" where
  "conn_guard_new sub g =
     (case sub of
        None \<Rightarrow> g
      | Some u \<Rightarrow> g\<lparr> g_active_conns := (g_active_conns g)(u \<mapsto> wrap_add64 (active_conns g u) 1) \<rparr>)"

definition conn_guard_drop :: "string option \<Rightarrow> gate \<Rightarrow> gate" where
  "conn_guard_drop sub g =
     (case sub of
        None \<Rightarrow> g
      | Some u \<Rightarrow> (case g_active_conns g u of
          None \<Rightarrow> g
        | Some n \<Rightarrow> if n > 0 then g\<lparr> g_active_conns := (g_active_conns g)(u \<mapsto> n - 1) \<rparr> else g))"

text \<open>Where a session is: admitted by the handler, waiting for its first frame, relaying,
  or over.  While relaying, each of the two loops runs until it breaks.\<close>

datatype ws_phase = Admitted | Waiting | Relaying bool bool | Closed

record ws_session =
  s_claims :: "claims option"
  s_phase :: ws_phase
  s_cancelled :: bool
  s_exceeded :: bool
  s_up :: string
  s_down :: string

definition session_sub :: "ws_session \<Rightarrow> string option" where
  "session_sub s = map_option cl_sub (s_claims s)"

text \<open>What the session sends before the relay; \<open>GateFirstFrame\<close> is the host and port
  that \<open>serde_json\<close> reads from the text frame.\<close>

datatype ws_reply = ReplyNone | ReplyAclDenied | ReplyConnectFailed | ReplyConnectTimeout | ReplyOk

datatype dial_result = Connected | DialError | DialTimeout

definition first_frame ::
  "(string \<times> nat) option \<Rightarrow> (string \<Rightarrow> nat \<Rightarrow> dial_result) \<Rightarrow> bool \<Rightarrow> ws_reply \<times> bool" where
  "first_frame frame dial send_ok =
     (case frame of
        None \<Rightarrow> (ReplyNone, False)
      | Some (host, port) \<Rightarrow>
          if port \<noteq> 443 \<or> \<not> is_valid_host host then (ReplyAclDenied, False)
          else (case dial host port of
            DialError \<Rightarrow> (ReplyConnectFailed, False)
          | DialTimeout \<Rightarrow> (ReplyConnectTimeout, False)
          | Connected \<Rightarrow> (ReplyOk, send_ok)))"

text \<open>Charging a delivered frame: only a user with a counter has one to charge
  (\<open>get\<close>, not \<open>entry\<close>), and only a quota makes the total matter.\<close>

definition ws_charge :: "claims option \<Rightarrow> nat \<Rightarrow> gate \<Rightarrow> bool \<times> gate" where
  "ws_charge cl n g =
     (case cl of
        None \<Rightarrow> (False, g)
      | Some c \<Rightarrow>
          (let u = cl_sub c;
               (total_used, g1) =
                 (case g_used_bytes g u of
                    Some v \<Rightarrow> (wrap_add64 v n, g\<lparr> g_used_bytes := (g_used_bytes g)(u \<mapsto> wrap_add64 v n) \<rparr>)
                  | None \<Rightarrow> (0, g))
           in (case quota_limit c of Some q \<Rightarrow> total_used \<ge> q | None \<Rightarrow> False, g1)))"

text \<open>One turn of \<open>ws_to_tcp\<close>: the cancelled token, a binary frame and whether the TCP
  side took it, a frame that ends the loop, or one that is ignored.\<close>

datatype up_input = UpCancelled | UpBinary string bool | UpClose | UpOther

definition set_up_live :: "bool \<Rightarrow> ws_session \<Rightarrow> ws_session" where
  "set_up_live b s =
     s\<lparr> s_phase := (case s_phase s of Relaying _ d \<Rightarrow> Relaying b d | p \<Rightarrow> p) \<rparr>"

definition set_down_live :: "bool \<Rightarrow> ws_session \<Rightarrow> ws_session" where
  "set_down_live b s =
     s\<lparr> s_phase := (case s_phase s of Relaying u _ \<Rightarrow> Relaying u b | p \<Rightarrow> p) \<rparr>"

definition ws_to_tcp_turn :: "up_input \<Rightarrow> gate \<Rightarrow> ws_session \<Rightarrow> gate \<times> ws_session" where
  "ws_to_tcp_turn inp g s =
     (case inp of
        UpCancelled \<Rightarrow> (g, set_up_live False s)
      | UpClose \<Rightarrow> (g, set_up_live False s)
      | UpOther \<Rightarrow> (g, s)
      | UpBinary bin write_ok \<Rightarrow>
          if \<not> write_ok then (g, set_up_live False s)
          else
            (let s1 = s\<lparr> s_up := s_up s @ bin \<rparr>;
                 (exceeded, g1) = ws_charge (s_claims s) (length bin) g
             in if exceeded then (g1, set_up_live False (s1\<lparr> s_cancelled := True \<rparr>)) else (g1, s1)))"

text \<open>One turn of \<open>tcp_to_ws\<close>: the cancelled token, a read (empty at the end of the
  stream) and whether the client took the frame, or a read error.  \<open>exceeded\<close> decides
  whether the loop ends with a close frame of code 4402.\<close>

datatype down_input = DownCancelled | DownRead string bool | DownFailed

definition tcp_to_ws_turn :: "down_input \<Rightarrow> gate \<Rightarrow> ws_session \<Rightarrow> gate \<times> ws_session" where
  "tcp_to_ws_turn inp g s =
     (case inp of
        DownCancelled \<Rightarrow> (g, set_down_live False (s\<lparr> s_exceeded := True \<rparr>))
      | DownFailed \<Rightarrow> (g, set_down_live False s)
      | DownRead bs send_ok \<Rightarrow>
          if bs = [] \<or> \<not> send_ok then (g, set_down_live False s)
          else
            (let s1 = s\<lparr> s_down := s_down s @ bs \<rparr>;
                 (exceeded, g1) = ws_charge (s_claims s) (length bs) g
             in if exceeded then (g1, set_down_live False (s1\<lparr> s_cancelled := True, s_exceeded := True \<rparr>)) else (g1, s1)))"

definition close_code :: "ws_session \<Rightarrow> nat option" where
  "close_code s = (if s_exceeded s then Some 4402 else None)"

section \<open>The system of sessions\<close>

definition new_session :: "claims option \<Rightarrow> ws_session" where
  "new_session cl = \<lparr> s_claims = cl, s_phase = Admitted, s_cancelled = False, s_exceeded = False,
     s_up = [], s_down = [] \<rparr>"

inductive ws_step :: "gate \<times> ws_session list \<Rightarrow> gate \<times> ws_session list \<Rightarrow> bool" where
  admit: "handle_ws K J now authorization g = (Inr cl, g') \<Longrightarrow>
     ws_step (g, ss) (g', ss @ [new_session cl])"
| reject: "handle_ws K J now authorization g = (Inl e, g') \<Longrightarrow> ws_step (g, ss) (g', ss)"
| revoke: "ws_step (g, ss) (snd (handle_revoke authorization body file_ok g), ss)"
| upgrade_fails: "i < length ss \<Longrightarrow> s_phase (ss ! i) = Admitted \<Longrightarrow>
     ws_step (g, ss) (g, ss[i := (ss ! i)\<lparr> s_phase := Closed \<rparr>])"
| starts: "i < length ss \<Longrightarrow> s_phase (ss ! i) = Admitted \<Longrightarrow>
     ws_step (g, ss) (conn_guard_new (session_sub (ss ! i)) g, ss[i := (ss ! i)\<lparr> s_phase := Waiting \<rparr>])"
| frame_ok: "i < length ss \<Longrightarrow> s_phase (ss ! i) = Waiting \<Longrightarrow>
     first_frame frame dial send_ok = (rep, True) \<Longrightarrow>
     ws_step (g, ss) (g, ss[i := (ss ! i)\<lparr> s_phase := Relaying True True \<rparr>])"
| frame_bad: "i < length ss \<Longrightarrow> s_phase (ss ! i) = Waiting \<Longrightarrow>
     first_frame frame dial send_ok = (rep, False) \<Longrightarrow>
     ws_step (g, ss) (conn_guard_drop (session_sub (ss ! i)) g, ss[i := (ss ! i)\<lparr> s_phase := Closed \<rparr>])"
| up: "i < length ss \<Longrightarrow> s_phase (ss ! i) = Relaying True d \<Longrightarrow>
     inp = UpCancelled \<longrightarrow> s_cancelled (ss ! i) \<Longrightarrow>
     ws_to_tcp_turn inp g (ss ! i) = (g', s') \<Longrightarrow> ws_step (g, ss) (g', ss[i := s'])"
| down: "i < length ss \<Longrightarrow> s_phase (ss ! i) = Relaying u True \<Longrightarrow>
     inpd = DownCancelled \<longrightarrow> s_cancelled (ss ! i) \<Longrightarrow>
     tcp_to_ws_turn inpd g (ss ! i) = (g', s') \<Longrightarrow> ws_step (g, ss) (g', ss[i := s'])"
| finish: "i < length ss \<Longrightarrow> s_phase (ss ! i) = Relaying False False \<Longrightarrow>
     ws_step (g, ss) (conn_guard_drop (session_sub (ss ! i)) g, ss[i := (ss ! i)\<lparr> s_phase := Closed \<rparr>])"

inductive ws_reach :: "gate \<Rightarrow> gate \<times> ws_session list \<Rightarrow> bool" for g0 where
  init: "ws_reach g0 (g0, [])"
| more: "ws_reach g0 s \<Longrightarrow> ws_step s s' \<Longrightarrow> ws_reach g0 s'"

section \<open>Lemmas\<close>

definition counted :: "string \<Rightarrow> ws_session \<Rightarrow> bool" where
  "counted u s \<longleftrightarrow> session_sub s = Some u \<and>
     (case s_phase s of Admitted \<Rightarrow> False | Closed \<Rightarrow> False | _ \<Rightarrow> True)"

definition of_user :: "string \<Rightarrow> ws_session \<Rightarrow> bool" where
  "of_user u s \<longleftrightarrow> session_sub s = Some u"

definition session_bytes :: "ws_session \<Rightarrow> nat" where
  "session_bytes s = length (s_up s) + length (s_down s)"

definition ws_user_bytes :: "string \<Rightarrow> ws_session list \<Rightarrow> nat" where
  "ws_user_bytes u ss = sum_list (map session_bytes (filter (of_user u) ss))"

lemma touch_simps [simp]:
  "used_bytes (touch_used v g) u = used_bytes g u" "active_conns (touch_used v g) u = active_conns g u"
  "used_bytes (touch_conns v g) u = used_bytes g u" "active_conns (touch_conns v g) u = active_conns g u"
  "g_used_bytes (touch_conns v g) = g_used_bytes g"
  "g_used_bytes (touch_used v g) = (g_used_bytes g)(v \<mapsto> used_bytes g v)"
  by (simp_all add: touch_used_def touch_conns_def used_bytes_def active_conns_def)

lemma handle_ws_state:
  assumes "handle_ws K J now a g = (r, g')"
  shows "used_bytes g' u = used_bytes g u" "active_conns g' u = active_conns g u"
    "g_used_bytes g u \<noteq> None \<Longrightarrow> g_used_bytes g' u \<noteq> None"
    "r = Inr (Some c) \<Longrightarrow> \<not> is_admin_claims c \<Longrightarrow> g_used_bytes g' (cl_sub c) \<noteq> None"
  using assms
  by (auto simp: handle_ws_def Let_def quota_limit_def split: sum.splits option.splits if_splits)

lemma handle_revoke_state [simp]:
  "g_used_bytes (snd (handle_revoke a b ok g)) = g_used_bytes g"
  "g_active_conns (snd (handle_revoke a b ok g)) = g_active_conns g"
  by (cases rule: handle_revoke_cases [of a b ok g]; simp)+

lemma guard_simps [simp]:
  "g_used_bytes (conn_guard_new x g) = g_used_bytes g" "g_used_bytes (conn_guard_drop x g) = g_used_bytes g"
  "active_conns (conn_guard_new x g) u =
     (if x = Some u then wrap_add64 (active_conns g u) 1 else active_conns g u)"
  "active_conns (conn_guard_drop x g) u =
     (if x = Some u then active_conns g u - 1 else active_conns g u)"
  by (auto simp: conn_guard_new_def conn_guard_drop_def active_conns_def split: option.splits)

lemma live_simps [simp]:
  "s_claims (set_up_live b s) = s_claims s" "s_claims (set_down_live b s) = s_claims s"
  "session_bytes (set_up_live b s) = session_bytes s" "session_bytes (set_down_live b s) = session_bytes s"
  "counted u (set_up_live b s) = counted u s" "counted u (set_down_live b s) = counted u s"
  by (auto simp: set_up_live_def set_down_live_def session_bytes_def counted_def session_sub_def
      split: ws_phase.splits)

lemma counted_update [simp]:
  "counted u (s\<lparr> s_up := x \<rparr>) = counted u s" "counted u (s\<lparr> s_down := x \<rparr>) = counted u s"
  "counted u (s\<lparr> s_cancelled := b \<rparr>) = counted u s" "counted u (s\<lparr> s_exceeded := b \<rparr>) = counted u s"
  "session_bytes (s\<lparr> s_cancelled := b \<rparr>) = session_bytes s" "session_bytes (s\<lparr> s_exceeded := b \<rparr>) = session_bytes s"
  "session_bytes (s\<lparr> s_up := s_up s @ w \<rparr>) = session_bytes s + length w"
  "session_bytes (s\<lparr> s_down := s_down s @ w \<rparr>) = session_bytes s + length w"
  "session_bytes (s\<lparr> s_phase := ph \<rparr>) = session_bytes s"
  by (simp_all add: counted_def session_sub_def session_bytes_def)

lemma ws_charge_state:
  assumes "ws_charge cl n g = (b, g')"
  shows "active_conns g' u = active_conns g u"
    and "used_bytes g' u = (if map_option cl_sub cl = Some u \<and> g_used_bytes g u \<noteq> None
           then wrap_add64 (used_bytes g u) n else used_bytes g u)"
    and "g_used_bytes g u \<noteq> None \<Longrightarrow> g_used_bytes g' u \<noteq> None"
  using assms
  by (auto simp: ws_charge_def Let_def used_bytes_def active_conns_def split: option.splits if_splits)

text \<open>A turn of either loop delivers nothing and leaves the gate alone, or delivers some
  bytes and charges them.\<close>

definition turn_effect :: "gate \<Rightarrow> ws_session \<Rightarrow> gate \<Rightarrow> ws_session \<Rightarrow> bool" where
  "turn_effect g s g' s' \<longleftrightarrow> s_claims s' = s_claims s \<and> (\<forall>u. counted u s' = counted u s) \<and>
     (g' = g \<and> session_bytes s' = session_bytes s \<or>
      (\<exists>n b. ws_charge (s_claims s) n g = (b, g') \<and> session_bytes s' = session_bytes s + n))"

lemma up_turn_effect: "ws_to_tcp_turn inp g s = (g', s') \<Longrightarrow> turn_effect g s g' s'"
  by (cases inp; cases "ws_charge (s_claims s) (length (case inp of UpBinary b _ \<Rightarrow> b | _ \<Rightarrow> [])) g")
    (auto simp: ws_to_tcp_turn_def turn_effect_def Let_def split: if_splits)

lemma down_turn_effect: "tcp_to_ws_turn inp g s = (g', s') \<Longrightarrow> turn_effect g s g' s'"
  by (cases inp; cases "ws_charge (s_claims s) (length (case inp of DownRead b _ \<Rightarrow> b | _ \<Rightarrow> [])) g")
    (auto simp: tcp_to_ws_turn_def turn_effect_def Let_def split: if_splits)

text \<open>A step appends a session, leaves all of them, moves one to another phase with its
  guard, or is a turn of a loop.\<close>

definition guard_move :: "bool \<Rightarrow> bool \<Rightarrow> nat \<Rightarrow> nat" where
  "guard_move before after n = (if before = after then n else if after then wrap_add64 n 1 else n - 1)"

lemma ws_step_kinds:
  assumes "ws_step (g, ss) (g', ss')"
  obtains (append) K J now authorization cl where
      "handle_ws K J now authorization g = (Inr cl, g')" "ss' = ss @ [new_session cl]"
    | (same) "ss' = ss" "\<And>u. used_bytes g' u = used_bytes g u" "\<And>u. active_conns g' u = active_conns g u"
      "\<And>u. g_used_bytes g u \<noteq> None \<Longrightarrow> g_used_bytes g' u \<noteq> None"
    | (phase) i ph where "i < length ss" "ss' = ss[i := (ss ! i)\<lparr> s_phase := ph \<rparr>]"
      "g_used_bytes g' = g_used_bytes g"
      "\<And>u. active_conns g' u =
         guard_move (counted u (ss ! i)) (counted u ((ss ! i)\<lparr> s_phase := ph \<rparr>)) (active_conns g u)"
    | (turn) i s' where "i < length ss" "ss' = ss[i := s']" "turn_effect g (ss ! i) g' s'"
  using assms
proof cases
  case (admit K J now authorization cl)
  then show thesis by (intro append)
next
  case (reject K J now authorization e)
  then show thesis using handle_ws_state [OF reject(2)] by (intro same)
next
  case (revoke authorization body file_ok)
  then show thesis by (intro same) (simp_all add: used_bytes_def active_conns_def)
next
  case (upgrade_fails i)
  then show thesis by (intro phase [of i Closed]) (auto simp: counted_def guard_move_def)
next
  case (starts i)
  then show thesis by (intro phase [of i Waiting]) (auto simp: counted_def guard_move_def session_sub_def)
next
  case (frame_ok i frame dial send_ok rep)
  then show thesis
    by (intro phase [of i "Relaying True True"]) (auto simp: counted_def guard_move_def session_sub_def)
next
  case (frame_bad i frame dial send_ok rep)
  then show thesis by (intro phase [of i Closed]) (auto simp: counted_def guard_move_def session_sub_def)
next
  case (up i d inp s')
  then show thesis using up_turn_effect by (intro turn [of i s']) auto
next
  case (down i u inpd s')
  then show thesis using down_turn_effect by (intro turn [of i s']) auto
next
  case (finish i)
  then show thesis by (intro phase [of i Closed]) (auto simp: counted_def guard_move_def session_sub_def)
qed

lemma ws_step_length: "ws_step (g, ss) (g', ss') \<Longrightarrow> length ss \<le> length ss'"
  by (erule ws_step_kinds) auto

lemma conn_count_step:
  assumes "ws_step (g, ss) (g', ss')" "length ss' \<le> u64_max"
    and "active_conns g u = length (filter (counted u) ss)"
  shows "active_conns g' u = length (filter (counted u) ss')"
  using assms(1)
proof (cases rule: ws_step_kinds)
  case (append K J now authorization cl)
  then show ?thesis
    using assms(3) handle_ws_state(2) [OF append(1)] by (simp add: new_session_def counted_def)
next
  case (phase i ph)
  let ?t = "(ss ! i)\<lparr> s_phase := ph \<rparr>"
  have "length (filter (counted u) (ss[i := ?t])) \<le> u64_max"
    using assms(2) phase(2) length_filter_le [of "counted u" ss'] by simp
  then show ?thesis
    using length_filter_update [OF phase(1), of "counted u" ?t] phase(2,4) assms(3)
    by (auto simp: guard_move_def split: if_splits)
next
  case (turn i s')
  have "active_conns g' u = active_conns g u"
    using turn(3) ws_charge_state(1) unfolding turn_effect_def by metis
  moreover have "counted u s' = counted u (ss ! i)" using turn(3) by (simp add: turn_effect_def)
  ultimately show ?thesis
    using length_filter_update [OF turn(1), of "counted u" s'] turn(2) assms(3) by (simp split: if_splits)
qed (use assms(3) in simp)

lemma conn_count_reach:
  assumes "ws_reach g0 s" "length (snd s) \<le> u64_max" "active_conns g0 u = 0"
  shows "active_conns (fst s) u = length (filter (counted u) (snd s))"
  using assms
proof (induction rule: ws_reach.induct)
  case (more s s')
  then show ?case
    using ws_step_length [of "fst s" "snd s" "fst s'" "snd s'"]
      conn_count_step [of "fst s" "snd s" "fst s'" "snd s'" u] by simp
qed simp

text \<open>Metering of a user none of whose sessions is an administrator's: each of them has a
  counter from its admission on.\<close>

definition tenant :: "string \<Rightarrow> ws_session \<Rightarrow> bool" where
  "tenant u s \<longleftrightarrow> of_user u s \<longrightarrow> (case s_claims s of Some c \<Rightarrow> \<not> is_admin_claims c | None \<Rightarrow> True)"

definition ws_meter_inv :: "string \<Rightarrow> nat \<Rightarrow> gate \<times> ws_session list \<Rightarrow> bool" where
  "ws_meter_inv u used0 s \<longleftrightarrow>
     used_bytes (fst s) u = (used0 + ws_user_bytes u (snd s)) mod 2 ^ 64
     \<and> (list_ex (of_user u) (snd s) \<longrightarrow> g_used_bytes (fst s) u \<noteq> None)"

lemma of_user_phase [simp]: "of_user u (s\<lparr> s_phase := ph \<rparr>) = of_user u s"
  by (simp add: of_user_def session_sub_def)

lemma list_ex_update:
  "i < length xs \<Longrightarrow> P y = P (xs ! i) \<Longrightarrow> list_ex P (xs[i := y]) = list_ex P xs"
proof (induction xs arbitrary: i)
  case (Cons x xs)
  then show ?case by (cases i) auto
qed simp

lemma list_all_update:
  "i < length xs \<Longrightarrow> P y = P (xs ! i) \<Longrightarrow> list_all P (xs[i := y]) = list_all P xs"
proof (induction xs arbitrary: i)
  case (Cons x xs)
  then show ?case by (cases i) auto
qed simp

lemma ws_meter_step:
  assumes "ws_step (g, ss) (g', ss')" "list_all (tenant u) ss'" "ws_meter_inv u used0 (g, ss)"
  shows "ws_meter_inv u used0 (g', ss')"
  using assms(1)
proof (cases rule: ws_step_kinds)
  case (append K J now authorization cl)
  note st = handle_ws_state [OF append(1)]
  have "session_bytes (new_session cl) = 0" by (simp add: session_bytes_def new_session_def)
  moreover have "g_used_bytes g' u \<noteq> None" if "of_user u (new_session cl)"
  proof -
    from that obtain c where "cl = Some c" "cl_sub c = u"
      by (auto simp: of_user_def session_sub_def new_session_def)
    moreover from this that assms(2) append(2) have "\<not> is_admin_claims c"
      by (simp add: tenant_def new_session_def)
    ultimately show ?thesis using st(4) by blast
  qed
  ultimately show ?thesis
    using assms(3) st(1,3) append(2) by (auto simp: ws_meter_inv_def ws_user_bytes_def)
next
  case same
  then show ?thesis using assms(3) by (simp add: ws_meter_inv_def)
next
  case (phase i ph)
  let ?t = "(ss ! i)\<lparr> s_phase := ph \<rparr>"
  have "ws_user_bytes u ss' = ws_user_bytes u ss"
    using sum_list_filter_update [OF phase(1), of session_bytes "of_user u" ?t] phase(2)
    by (auto simp: ws_user_bytes_def split: if_splits)
  moreover have "list_ex (of_user u) ss' = list_ex (of_user u) ss"
    using list_ex_update [OF phase(1), of "of_user u" ?t] phase(2) by simp
  ultimately show ?thesis using assms(3) phase(3) by (simp add: ws_meter_inv_def used_bytes_def)
next
  case (turn i s')
  have cl: "s_claims s' = s_claims (ss ! i)" using turn(3) by (simp add: turn_effect_def)
  then have of: "of_user u s' = of_user u (ss ! i)" by (simp add: of_user_def session_sub_def)
  have ex: "list_ex (of_user u) ss' = list_ex (of_user u) ss"
    using list_ex_update [OF turn(1), of "of_user u" s'] turn(2) of by simp
  have sum: "ws_user_bytes u ss' + (if of_user u (ss ! i) then session_bytes (ss ! i) else 0)
      = ws_user_bytes u ss + (if of_user u (ss ! i) then session_bytes s' else 0)"
    using sum_list_filter_update [OF turn(1), of session_bytes "of_user u" s'] turn(2) of
    by (simp add: ws_user_bytes_def)
  from turn(3) consider (quiet) "g' = g" "session_bytes s' = session_bytes (ss ! i)"
    | (paid) n b where "ws_charge (s_claims (ss ! i)) n g = (b, g')" "session_bytes s' = session_bytes (ss ! i) + n"
    unfolding turn_effect_def by blast
  then show ?thesis
  proof cases
    case quiet
    with sum have "ws_user_bytes u ss' = ws_user_bytes u ss" by (simp split: if_splits)
    with quiet(1) ex assms(3) show ?thesis by (simp add: ws_meter_inv_def)
  next
    case (paid n b)
    note ch = ws_charge_state [OF paid(1)]
    have user: "(map_option cl_sub (s_claims (ss ! i)) = Some u) = of_user u (ss ! i)"
      by (simp add: of_user_def session_sub_def)
    show ?thesis
    proof (cases "of_user u (ss ! i)")
      case True
      then have "g_used_bytes g u \<noteq> None"
        using assms(3) turn(1) by (auto simp: ws_meter_inv_def list_ex_iff)
      with True user ch(2) have "used_bytes g' u = wrap_add64 (used_bytes g u) n" by simp
      moreover have "ws_user_bytes u ss' = ws_user_bytes u ss + n" using True sum paid(2) by simp
      ultimately show ?thesis
        using assms(3) ex ch(3) by (auto simp: ws_meter_inv_def wrap_add64_def mod_simps ac_simps)
    next
      case False
      then show ?thesis
        using assms(3) ex ch(2,3) user sum by (auto simp: ws_meter_inv_def)
    qed
  qed
qed

lemma tenant_step:
  assumes "ws_step (g, ss) (g', ss')" "list_all (tenant u) ss'"
  shows "list_all (tenant u) ss"
  using assms(1)
proof (cases rule: ws_step_kinds)
  case (phase i ph)
  then show ?thesis
    using assms(2) list_all_update [OF phase(1), of "tenant u" "(ss ! i)\<lparr> s_phase := ph \<rparr>"]
    by (simp add: tenant_def)
next
  case (turn i s')
  then have "tenant u s' = tenant u (ss ! i)"
    by (simp add: turn_effect_def tenant_def of_user_def session_sub_def)
  then show ?thesis using assms(2) turn(2) list_all_update [OF turn(1), of "tenant u" s'] by simp
qed (use assms(2) in simp_all)

lemma ws_meter_reach:
  assumes "ws_reach g0 s" "list_all (tenant u) (snd s)" "used_bytes g0 u \<le> u64_max"
  shows "ws_meter_inv u (used_bytes g0 u) s"
  using assms
proof (induction rule: ws_reach.induct)
  case init
  then show ?case by (simp add: ws_meter_inv_def ws_user_bytes_def)
next
  case (more s s')
  then show ?case
    using tenant_step [of "fst s" "snd s" "fst s'" "snd s'" u]
      ws_meter_step [of "fst s" "snd s" "fst s'" "snd s'" u] by simp
qed

lemma ws_claims_Some_iff:
  "ws_claims K J now g t = Inr (Some c) \<longleftrightarrow>
   (\<exists>vk. starts_with ''usr_live_'' t \<and> g_verifier g = Some vk \<and> verify_token K J vk now t = Inr c
      \<and> \<not> is_revoked g c)"
  by (auto simp: ws_claims_def split: option.splits sum.splits if_splits)

lemma ws_claims_touch [simp]:
  "ws_claims K J now (touch_used u g) t = ws_claims K J now g t"
  "ws_claims K J now (touch_conns u g) t = ws_claims K J now g t"
  by (simp_all add: ws_claims_def touch_used_def touch_conns_def is_revoked_def split: option.splits sum.splits)

text \<open>The check of the number of sessions and its increment are apart: two admissions at
  one session below the limit both pass, and both sessions are counted afterwards.\<close>

lemma ws_limit_race:
  assumes "handle_ws K J now a g = (Inr (Some c), g1)" "\<not> is_admin_claims c"
    and "active_conns g (cl_sub c) + 1 = conn_limit c"
    and "handle_ws K J now a g1 = (r, g2)"
  shows "r = Inr (Some c) \<and>
    active_conns (conn_guard_new (Some (cl_sub c)) (conn_guard_new (Some (cl_sub c)) g2)) (cl_sub c)
      = conn_limit c + 1"
proof -
  have g1: "g1 = touch_conns (cl_sub c) (touch_used (cl_sub c) g)" and cl: "ws_claims K J now g (bearer a) = Inr (Some c)"
    and q: "used_bytes g (cl_sub c) < cl_quota_bytes c"
    using assms(1,2) by (auto simp: handle_ws_def Let_def quota_limit_def not_le split: sum.splits option.splits if_splits)
  have r: "r = Inr (Some c)"
    using assms(2-4) cl q by (auto simp: g1 handle_ws_def Let_def quota_limit_def split: if_splits)
  have "conn_limit c \<le> 2 ^ 64 - 4"
  proof -
    have "conn_limit c = 4 * (max (cl_max_conns c) 10 mod 2 ^ 62)"
      using mult_mod_right [of 4 "max (cl_max_conns c) 10" "2 ^ 62"] by (simp add: conn_limit_def ac_simps)
    moreover have "max (cl_max_conns c) 10 mod 2 ^ 62 < 2 ^ 62" by (rule mod_less_divisor) simp
    ultimately show ?thesis by simp
  qed
  with assms(3) handle_ws_state(2) [OF assms(1)] handle_ws_state(2) [OF assms(4)] r show ?thesis
    by (simp add: wrap_add64_def)
qed

section \<open>A concrete run\<close>

definition demo_bearer :: "string option" where
  "demo_bearer = Some (''Bearer '' @ sign_token demo demo_codec ''seed'' demo_claims)"

definition demo_session :: "ws_phase \<Rightarrow> string \<Rightarrow> ws_session" where
  "demo_session ph sent = (new_session (Some demo_claims))\<lparr> s_phase := ph, s_up := sent \<rparr>"

lemma demo_ws_claims: "ws_claims demo demo_codec 100 demo_gate (bearer demo_bearer) = Inr (Some demo_claims)"
  by code_simp

lemma demo_claims_simps: "cl_sub demo_claims = ''u''" "cl_role demo_claims = ''user''"
  "cl_quota_bytes demo_claims = 1000" "cl_max_conns demo_claims = 2"
  by (simp_all add: demo_claims_def)

lemma demo_gate_counts: "used_bytes demo_gate ''u'' = 5" "active_conns demo_gate v = 0"
  by (simp_all add: demo_gate_def used_bytes_def active_conns_def)

definition demo_gate1 :: gate where
  "demo_gate1 = conn_guard_new (Some ''u'') (touch_conns ''u'' (touch_used ''u'' demo_gate))"

lemma demo_ws_admit:
  "handle_ws demo demo_codec 100 demo_bearer demo_gate
   = (Inr (Some demo_claims), touch_conns ''u'' (touch_used ''u'' demo_gate))"
  by (simp add: handle_ws_def demo_ws_claims quota_limit_def is_admin_claims_def demo_claims_simps
      demo_gate_counts conn_limit_def)

lemma demo_ws_reach:
  "\<exists>g. ws_reach demo_gate (g, [demo_session (Relaying True True) ''hello''])"
proof -
  let ?g = "touch_conns ''u'' (touch_used ''u'' demo_gate)"
  have "ws_step (demo_gate, []) (?g, [demo_session Admitted []])"
    using ws_step.admit [OF demo_ws_admit, of "[]"] by (simp add: demo_session_def new_session_def)
  moreover have "ws_step (?g, [demo_session Admitted []]) (demo_gate1, [demo_session Waiting []])"
    using ws_step.starts [of 0 "[demo_session Admitted []]" ?g]
    by (simp add: demo_session_def session_sub_def new_session_def demo_gate1_def demo_claims_simps)
  moreover have "first_frame (Some (''example.com'', 443)) (\<lambda>_ _. Connected) True = (ReplyOk, True)"
    by code_simp
  then have "ws_step (demo_gate1, [demo_session Waiting []]) (demo_gate1, [demo_session (Relaying True True) []])"
    using ws_step.frame_ok [of 0 "[demo_session Waiting []]" _ _ _ _ demo_gate1]
    by (simp add: demo_session_def new_session_def)
  moreover obtain g' where "ws_to_tcp_turn (UpBinary ''hello'' True) demo_gate1 (demo_session (Relaying True True) [])
      = (g', demo_session (Relaying True True) ''hello'')"
    by (auto simp: Let_def ws_to_tcp_turn_def ws_charge_def demo_session_def new_session_def quota_limit_def
        is_admin_claims_def demo_claims_simps demo_gate1_def demo_gate_counts)
  then have "ws_step (demo_gate1, [demo_session (Relaying True True) []])
      (g', [demo_session (Relaying True True) ''hello''])"
    using ws_step.up [of 0 "[demo_session (Relaying True True) []]" True "UpBinary ''hello'' True" demo_gate1 g']
    by (simp add: demo_session_def)
  ultimately show ?thesis by (meson ws_reach.intros)
qed

section \<open>Properties\<close>

text \<open>C14: in every interleaving of admissions, sessions and revocations, the counter of
  open connections of a user is the number of that user's sessions that have started and
  are not over: every end of a session, on every path, takes back exactly its own count.\<close>

theorem ws_connection_count:
  assumes "ws_reach g0 (g, ss)" "active_conns g0 u = 0" "length ss \<le> u64_max"
  shows "active_conns g u = length (filter (counted u) ss)"
  using conn_count_reach [OF assms(1)] assms(2,3) by simp

theorem ws_connection_count_witness:
  "\<exists>g. ws_reach demo_gate (g, [demo_session (Relaying True True) ''hello'']) \<and> active_conns g ''u'' = 1"
proof -
  obtain g where r: "ws_reach demo_gate (g, [demo_session (Relaying True True) ''hello''])"
    using demo_ws_reach by blast
  have "counted ''u'' (demo_session (Relaying True True) ''hello'')"
    by (simp add: counted_def session_sub_def demo_session_def new_session_def demo_claims_simps)
  with r ws_connection_count [OF r demo_gate_counts(2), of "''u''"] show ?thesis by auto
qed

text \<open>In every interleaving, the byte counter of a user with ordinary (not
  administrator) sessions has grown by exactly the bytes those sessions delivered in both
  directions, modulo the 64 bits of the counter: no delivered frame escapes the meter and
  no undelivered one is charged.\<close>

theorem ws_meter_exact:
  assumes "ws_reach g0 (g, ss)" "used_bytes g0 u \<le> u64_max"
    and "\<forall>s \<in> set ss. \<forall>c. s_claims s = Some c \<longrightarrow> cl_sub c = u \<longrightarrow> cl_role c \<noteq> ''admin''"
  shows "used_bytes g u = (used_bytes g0 u + ws_user_bytes u ss) mod 2 ^ 64"
proof -
  have "list_all (tenant u) ss"
    using assms(3)
    by (auto simp: list_all_iff tenant_def of_user_def session_sub_def is_admin_claims_def split: option.splits)
  with ws_meter_reach [OF assms(1) _ assms(2)] show ?thesis by (simp add: ws_meter_inv_def)
qed

theorem ws_meter_exact_witness:
  "\<exists>g. ws_reach demo_gate (g, [demo_session (Relaying True True) ''hello'']) \<and> used_bytes g ''u'' = 5 + 5"
proof -
  obtain g where r: "ws_reach demo_gate (g, [demo_session (Relaying True True) ''hello''])"
    using demo_ws_reach by blast
  have "ws_user_bytes ''u'' [demo_session (Relaying True True) ''hello''] = 5"
    by (simp add: ws_user_bytes_def of_user_def session_sub_def session_bytes_def demo_session_def
        new_session_def demo_claims_simps)
  then have "used_bytes g ''u'' = 5 + 5"
    using ws_meter_exact [OF r, of "''u''"] demo_gate_counts(1)
    by (simp add: demo_session_def new_session_def demo_claims_simps)
  with r show ?thesis by blast
qed

text \<open>The WebSocket plane admits a request as a user exactly when its bearer token
  verifies under the configured key, is not revoked, and, unless the user is an
  administrator, the user has quota left and is below the connection limit; and whatever
  it answers, no counter changes its value.\<close>

theorem handle_ws_admits_iff:
  "(fst (handle_ws K J now a g) = Inr (Some c) \<longleftrightarrow>
     (\<exists>vk. starts_with ''usr_live_'' (bearer a) \<and> g_verifier g = Some vk
        \<and> verify_token K J vk now (bearer a) = Inr c \<and> cl_jti c \<notin> g_revoked g \<and> cl_sub c \<notin> g_revoked g
        \<and> (cl_role c = ''admin'' \<or>
            used_bytes g (cl_sub c) < cl_quota_bytes c
            \<and> active_conns g (cl_sub c) < (max (cl_max_conns c) 10 * 4) mod 2 ^ 64)))
   \<and> used_bytes (snd (handle_ws K J now a g)) u = used_bytes g u
   \<and> active_conns (snd (handle_ws K J now a g)) u = active_conns g u"
proof -
  have 1: "fst (handle_ws K J now a g) = Inr (Some c) \<longleftrightarrow>
      ws_claims K J now g (bearer a) = Inr (Some c) \<and> (is_admin_claims c \<or>
        used_bytes g (cl_sub c) < cl_quota_bytes c \<and> active_conns g (cl_sub c) < conn_limit c)"
    by (auto simp: handle_ws_def Let_def quota_limit_def split: sum.splits option.splits if_splits)
  show ?thesis
    unfolding 1 ws_claims_Some_iff is_revoked_def is_admin_claims_def conn_limit_def
    using handle_ws_state(1,2) [of K J now a g "fst (handle_ws K J now a g)" "snd (handle_ws K J now a g)" u]
    by auto
qed

end
