(* ===== verification/Http.thy ===== *)
theory Http
  imports Prelude
begin

text \<open>
  HTTP messages as the \<open>http\<close> crate has them: header names are lower case, a name may have
  several values, \<open>get\<close> gives the first and \<open>insert\<close> replaces all of them.  The gate's proxy,
  the edge client and the gateways share these definitions.
\<close>

type_synonym headers = "(string \<times> string) list"

record http_request =
  rq_method :: string
  rq_headers :: headers
  rq_body :: string

record http_response =
  rs_status :: nat
  rs_headers :: headers
  rs_body :: string

text \<open>\<open>HeaderMap::get\<close>: the first value; values that are not visible ASCII are not text.\<close>

definition visible_ascii :: "string \<Rightarrow> bool" where
  "visible_ascii v \<longleftrightarrow> list_all (\<lambda>c. byte c = 9 \<or> 32 \<le> byte c \<and> byte c < 127) v"

definition header_str :: "string \<Rightarrow> headers \<Rightarrow> string option" where
  "header_str name hs =
     (case map_of hs name of
        Some v \<Rightarrow> if visible_ascii v then Some v else None
      | None \<Rightarrow> None)"

definition contains_key :: "string \<Rightarrow> headers \<Rightarrow> bool" where
  "contains_key name hs \<longleftrightarrow> list_ex (\<lambda>(k, _). k = name) hs"

definition remove_header :: "string \<Rightarrow> headers \<Rightarrow> headers" where
  "remove_header name hs = filter (\<lambda>(k, _). k \<noteq> name) hs"

text \<open>The loop that several handlers have: every header whose name passes is inserted into a
  new map, so a name keeps the last of its values.\<close>

definition copy_headers :: "(string \<Rightarrow> bool) \<Rightarrow> headers \<Rightarrow> headers" where
  "copy_headers keep hs =
     foldl (\<lambda>acc (k, v). if keep (to_ascii_lowercase k) then AList.update k v acc else acc) [] hs"

section \<open>Lemmas\<close>

text \<open>The last value of a name.\<close>

definition last_value :: "headers \<Rightarrow> string \<Rightarrow> string option" where
  "last_value hs k = map_of (rev hs) k"

lemma fold_update_map_of:
  "map_of (foldl (\<lambda>acc (k, v). if P k then AList.update k v acc else acc) acc hs) k
   = (if P k then (case last_value hs k of Some v \<Rightarrow> Some v | None \<Rightarrow> map_of acc k) else map_of acc k)"
  unfolding last_value_def
  by (induction hs arbitrary: acc) (auto simp: update_conv map_add_def split: option.splits)

lemma distinct_fold_update:
  "distinct (map fst acc) \<Longrightarrow>
   distinct (map fst (foldl (\<lambda>acc (k, v). if P k then AList.update k v acc else acc) acc hs))"
  by (induction hs arbitrary: acc) (auto simp: distinct_update)

lemma contains_key_iff: "contains_key name hs \<longleftrightarrow> name \<in> fst ` set hs"
  by (force simp: contains_key_def list_ex_iff)

lemma last_value_None: "last_value hs k = None \<longleftrightarrow> k \<notin> fst ` set hs"
  by (simp add: last_value_def map_of_eq_None_iff)

lemma copy_headers_value:
  "map_of (copy_headers keep hs) k = (if keep (to_ascii_lowercase k) then last_value hs k else None)"
  by (simp add: copy_headers_def fold_update_map_of split: option.splits)

lemma copy_headers_distinct: "distinct (map fst (copy_headers keep hs))"
  unfolding copy_headers_def by (rule distinct_fold_update) simp

lemma copy_headers_mem:
  "(k, v) \<in> set (copy_headers keep hs) \<longleftrightarrow> keep (to_ascii_lowercase k) \<and> last_value hs k = Some v"
  using copy_headers_value [of keep hs k] copy_headers_distinct [of keep hs]
  by (auto split: if_splits)

lemma copy_headers_key:
  "k \<in> fst ` set (copy_headers keep hs) \<longleftrightarrow> keep (to_ascii_lowercase k) \<and> k \<in> fst ` set hs"
proof -
  have "k \<in> fst ` set (copy_headers keep hs) \<longleftrightarrow> map_of (copy_headers keep hs) k \<noteq> None"
    by (simp add: map_of_eq_None_iff)
  then show ?thesis using last_value_None [of hs k] by (simp add: copy_headers_value del: not_None_eq)
qed

lemma last_value_remove [simp]:
  "last_value (remove_header name hs) k = (if k = name then None else last_value hs k)"
proof -
  have "map_of (filter (\<lambda>(k, _). k \<noteq> name) l) k = (if k = name then None else map_of l k)" for l :: headers
    by (induction l) auto
  then show ?thesis by (simp add: last_value_def remove_header_def rev_filter)
qed

end
