(* ===== verification/GateProxy.thy ===== *)
theory GateProxy
  imports GateServer Http
begin

text \<open>
  The HTTP plane of the gate (\<open>handle_proxy\<close> of \<open>crates/gate-server/src/lib.rs\<close>): the
  shared secret, the checks of the target, the request handed to the HTTP client without
  the proxy's own and the hop-by-hop headers, and the response rebuilt for the caller.
  Header names are lower case, as the \<open>http\<close> crate stores them.
\<close>

record forwarded =
  fw_method :: string
  fw_url :: string
  fw_headers :: headers
  fw_body :: "string option"

definition MAX_PROXY_BODY :: nat where
  [const_defs]: "MAX_PROXY_BODY = 64 * 1024 * 1024"

definition req_strip :: "string list" where
  "req_strip = [''host'', ''connection'', ''keep-alive'', ''transfer-encoding'', ''upgrade'',
     ''content-length'', ''x-proxy-secret'', ''x-forwarded-for'', ''x-forwarded-proto'',
     ''x-forwarded-host'', ''x-real-ip'', ''forwarded'', ''via'', ''true-client-ip'',
     ''proxy-authorization'', ''x-pony-token'', ''x-pproxy-token'']"

definition resp_strip :: "string list" where
  "resp_strip = [''transfer-encoding'', ''connection'', ''content-length'', ''content-encoding'']"

text \<open>The two header loops; \<open>HeaderMap::insert\<close> replaces what the name had.\<close>

definition forward_headers :: "headers \<Rightarrow> headers" where
  "forward_headers hs = filter (\<lambda>(k, _). to_ascii_lowercase k \<notin> set req_strip) hs"

definition response_headers :: "headers \<Rightarrow> headers" where
  "response_headers hs =
     AList.update ''x-proxy-edge'' ''vps-rust''
       (foldl (\<lambda>acc (k, v). if to_ascii_lowercase k \<notin> set resp_strip then AList.update k v acc else acc)
          [] hs)"

text \<open>The handler, over the parser of \<open>url\<close> (scheme and normal form of a text it accepts)
  and the HTTP client (an error text or a response): what the client was asked to send, if it came to that, and the response.  A
  refusal or failure is a response with a short text.\<close>

definition refuse :: "nat \<Rightarrow> string \<Rightarrow> http_response" where
  "refuse st msg = \<lparr> rs_status = st, rs_headers = [], rs_body = msg \<rparr>"

definition handle_proxy ::
  "(string \<Rightarrow> (string \<times> string) option) \<Rightarrow> (forwarded \<Rightarrow> string + http_response) \<Rightarrow> gate \<Rightarrow> string option
   \<Rightarrow> http_request \<Rightarrow> forwarded option \<times> http_response" where
  "handle_proxy url_parse send g query_url req =
     (let secret = trim_str (g_proxy_secret g) in
      if secret = [] then (None, refuse 500 ''Server misconfigured: PROXY_SECRET missing'')
      else if (case header_str ''x-proxy-secret'' (rq_headers req) of Some v \<Rightarrow> v | None \<Rightarrow> []) \<noteq> secret
      then (None, refuse 403 ''Unauthorized'')
      else (case query_url of
        None \<Rightarrow> (None, refuse 400 ''Missing ?url='')
      | Some target_str \<Rightarrow>
          if target_str = [] then (None, refuse 400 ''Missing ?url='')
          else (case url_parse target_str of
            None \<Rightarrow> (None, refuse 400 ''Invalid URL'')
          | Some (scheme, target_url) \<Rightarrow>
              if scheme \<notin> {''http'', ''https''} then (None, refuse 400 ''Invalid URL'')
              else if length (rq_body req) > MAX_PROXY_BODY
              then (None, refuse 400 ''Request body too large'')
              else
                (let fw = \<lparr> fw_method = rq_method req, fw_url = target_url,
                            fw_headers = forward_headers (rq_headers req),
                            fw_body = (if rq_body req = [] then None else Some (rq_body req)) \<rparr>
                 in case send fw of
                      Inl e \<Rightarrow> (Some fw, refuse 502 (''Upstream fetch failed: '' @ e))
                    | Inr r \<Rightarrow>
                        (Some fw,
                         \<lparr> rs_status = (if 100 \<le> rs_status r \<and> rs_status r < 1000 then rs_status r else 200),
                           rs_headers = response_headers (rs_headers r), rs_body = rs_body r \<rparr>)))))"

section \<open>Lemmas\<close>

lemma forward_headers_mem:
  "(k, v) \<in> set (forward_headers hs) \<longleftrightarrow> (k, v) \<in> set hs \<and> to_ascii_lowercase k \<notin> set req_strip"
  by (auto simp: forward_headers_def)

lemma response_headers_value:
  "map_of (response_headers hs) k =
     (if k = ''x-proxy-edge'' then Some ''vps-rust''
      else if to_ascii_lowercase k \<in> set resp_strip then None else last_value hs k)"
  by (auto simp: response_headers_def update_conv fold_update_map_of split: option.splits)

lemma response_headers_distinct: "distinct (map fst (response_headers hs))"
  by (simp add: response_headers_def distinct_update distinct_fold_update)

lemma handle_proxy_Some:
  assumes "handle_proxy url_parse send g q req = (Some fw, r)"
  shows "trim_str (g_proxy_secret g) \<noteq> []"
    and "header_str ''x-proxy-secret'' (rq_headers req) = Some (trim_str (g_proxy_secret g))"
    and "\<exists>t scheme. q = Some t \<and> url_parse t = Some (scheme, fw_url fw) \<and> (scheme = ''http'' \<or> scheme = ''https'')"
    and "fw_headers fw = forward_headers (rq_headers req)"
    and "fw_method fw = rq_method req" "fw_body fw = (if rq_body req = [] then None else Some (rq_body req))"
    and "send fw = Inr u \<Longrightarrow> r = \<lparr> rs_status = (if 100 \<le> rs_status u \<and> rs_status u < 1000 then rs_status u else 200),
             rs_headers = response_headers (rs_headers u), rs_body = rs_body u \<rparr>"
  using assms
  by (auto simp: handle_proxy_def Let_def split: if_splits option.splits sum.splits prod.splits)

lemma req_strip_secrets: "{''x-proxy-secret'', ''proxy-authorization'', ''x-pony-token'', ''x-pproxy-token''} \<subseteq> set req_strip"
  by (simp add: req_strip_def)

text \<open>A response with two cookies reaches the caller with one.\<close>

lemma response_headers_two_cookies:
  "response_headers [(''set-cookie'', ''a=1''), (''set-cookie'', ''b=2'')]
   = [(''set-cookie'', ''b=2''), (''x-proxy-edge'', ''vps-rust'')]"
  by code_simp

section \<open>Properties\<close>

text \<open>C15: the gate sends a request out only for a caller that presents its (non-empty)
  secret, to an http or https target; the request carries every header of the caller but
  the stripped ones, in particular none of the proxy's credentials, and the method and
  body unchanged; a successful answer has each header name once, with the last value the
  target gave it, and the marker of the edge.\<close>

theorem handle_proxy_forwards:
  assumes "handle_proxy url_parse send g query_url req = (Some fw, r)"
  shows "trim_str (g_proxy_secret g) \<noteq> []
    \<and> map_of (rq_headers req) ''x-proxy-secret'' = Some (trim_str (g_proxy_secret g))
    \<and> (\<exists>t scheme. query_url = Some t \<and> url_parse t = Some (scheme, fw_url fw) \<and> (scheme = ''http'' \<or> scheme = ''https''))
    \<and> (\<forall>k v. (k, v) \<in> set (fw_headers fw) \<longleftrightarrow>
          (k, v) \<in> set (rq_headers req) \<and> to_ascii_lowercase k \<notin> set req_strip)
    \<and> (\<forall>k v. (k, v) \<in> set (fw_headers fw) \<longrightarrow> to_ascii_lowercase k \<notin>
          {''x-proxy-secret'', ''proxy-authorization'', ''x-pony-token'', ''x-pproxy-token''})
    \<and> fw_method fw = rq_method req \<and> (case fw_body fw of Some b \<Rightarrow> b | None \<Rightarrow> []) = rq_body req
    \<and> (\<forall>u. send fw = Inr u \<longrightarrow>
         distinct (map fst (rs_headers r)) \<and> rs_body r = rs_body u
         \<and> (\<forall>k. map_of (rs_headers r) k =
              (if k = ''x-proxy-edge'' then Some ''vps-rust''
               else if to_ascii_lowercase k \<in> set resp_strip then None
               else last_value (rs_headers u) k)))"
proof -
  note h = handle_proxy_Some [OF assms]
  have "map_of (rq_headers req) ''x-proxy-secret'' = Some (trim_str (g_proxy_secret g))"
    using h(2) by (auto simp: header_str_def split: option.splits if_splits)
  moreover have "(k, v) \<in> set (fw_headers fw) \<longleftrightarrow> (k, v) \<in> set (rq_headers req) \<and> to_ascii_lowercase k \<notin> set req_strip" for k v
    by (simp add: h(4) forward_headers_mem)
  moreover have "(case fw_body fw of Some b \<Rightarrow> b | None \<Rightarrow> []) = rq_body req" by (simp add: h(6))
  moreover have "distinct (map fst (rs_headers r)) \<and> rs_body r = rs_body u
      \<and> (\<forall>k. map_of (rs_headers r) k =
           (if k = ''x-proxy-edge'' then Some ''vps-rust''
            else if to_ascii_lowercase k \<in> set resp_strip then None else last_value (rs_headers u) k))"
    if "send fw = Inr u" for u
    using h(7) [OF that] by (simp add: response_headers_distinct response_headers_value)
  ultimately show ?thesis using h(1,3,5) req_strip_secrets by (intro conjI) blast+
qed

definition demo_request :: http_request where
  "demo_request = \<lparr> rq_method = ''GET'',
     rq_headers = [(''accept'', ''*/*''), (''x-proxy-secret'', ''s''), (''x-pony-token'', ''t'')], rq_body = [] \<rparr>"

definition demo_send :: "forwarded \<Rightarrow> string + http_response" where
  "demo_send fw = Inr \<lparr> rs_status = 200, rs_headers = [(''connection'', ''close''), (''etag'', ''e'')], rs_body = ''ok'' \<rparr>"

definition demo_url :: "string \<Rightarrow> (string \<times> string) option" where
  "demo_url t = (if starts_with ''https://'' t then Some (''https'', t) else None)"

theorem handle_proxy_forwards_witness:
  "\<exists>fw r. handle_proxy demo_url demo_send demo_gate (Some ''https://a.io/'') demo_request = (Some fw, r)
     \<and> set (fw_headers fw) = {(''accept'', ''*/*'')} \<and> map_of (rs_headers r) ''etag'' = Some ''e''
     \<and> map_of (rs_headers r) ''connection'' = None"
proof -
  let ?o = "handle_proxy demo_url demo_send demo_gate (Some ''https://a.io/'') demo_request"
  have "fst ?o \<noteq> None" by code_simp
  then obtain fw r where o: "?o = (Some fw, r)" by (cases ?o) auto
  note p = handle_proxy_forwards [OF o]
  have "set (fw_headers fw) = {(k, v) \<in> set (rq_headers demo_request). to_ascii_lowercase k \<notin> set req_strip}"
    using p by auto
  also have "\<dots> = {(''accept'', ''*/*'')}" by code_simp
  finally have "set (fw_headers fw) = {(''accept'', ''*/*'')}" .
  moreover have "to_ascii_lowercase ''etag'' \<notin> set resp_strip" "to_ascii_lowercase ''connection'' \<in> set resp_strip"
    by code_simp+
  then have "map_of (rs_headers r) ''etag'' = Some ''e'' \<and> map_of (rs_headers r) ''connection'' = None"
    using p by (simp add: demo_send_def last_value_def)
  ultimately show ?thesis using o by blast
qed

end
