(* ===== verification/JoinToken.thy ===== *)
theory JoinToken
  imports Crypto IpAddr
begin

text \<open>
  Socket addresses with their text form (\<open>std::net\<close>), and the one-time join tokens of a
  cluster: \<open>ClusterJoinToken\<close> of \<open>crates/core/src/cluster.rs\<close>.  The JSON codec of
  \<open>serde_json\<close> is a parameter.
\<close>

section \<open>Socket addresses\<close>

text \<open>\<open>SocketAddrV6\<close> carries a flow label and a scope besides address and port.\<close>

datatype sock_addr = SockV4 ipv4 u16 | SockV6 ipv6 u16 u32 u32

fun show_ipv4 :: "ipv4 \<Rightarrow> string" where
  "show_ipv4 (Ipv4 a b c d) =
     show_nat (unat a) @ ''.'' @ show_nat (unat b) @ ''.'' @ show_nat (unat c) @ ''.'' @ show_nat (unat d)"

text \<open>Lower-case hexadecimal without leading zeros.\<close>

fun show_hex :: "nat \<Rightarrow> string" where
  "show_hex n = (if n < 16 then [hex_digit n] else show_hex (n div 16) @ [hex_digit (n mod 16)])"

text \<open>The longest run of zero segments, the first of several: start and length, scanning
  with the run at hand.\<close>

fun longest_zeros :: "nat \<Rightarrow> nat \<times> nat \<Rightarrow> nat \<times> nat \<Rightarrow> u16 list \<Rightarrow> nat \<times> nat" where
  "longest_zeros i best cur [] = best"
| "longest_zeros i best cur (s # ss) =
     (if s = 0 then
        (let cur' = (if snd cur = 0 then (i, 1) else (fst cur, snd cur + 1));
             best' = (if snd cur' > snd best then cur' else best)
         in longest_zeros (i + 1) best' cur' ss)
      else longest_zeros (i + 1) best (0, 0) ss)"

fun show_segments :: "u16 list \<Rightarrow> string" where
  "show_segments [] = []"
| "show_segments [s] = show_hex (unat s)"
| "show_segments (s # ss) = show_hex (unat s) @ '':'' @ show_segments ss"

definition show_ipv6 :: "ipv6 \<Rightarrow> string" where
  "show_ipv6 a =
     (case to_ipv4_mapped a of
        Some v4 \<Rightarrow> ''::ffff:'' @ show_ipv4 v4
      | None \<Rightarrow>
          (let ss = segments a; (start, len) = longest_zeros 0 (0, 0) (0, 0) ss in
           if len > 1 then show_segments (take start ss) @ ''::'' @ show_segments (drop (start + len) ss)
           else show_segments ss))"

fun show_sock_addr :: "sock_addr \<Rightarrow> string" where
  "show_sock_addr (SockV4 a port) = show_ipv4 a @ '':'' @ show_nat (unat port)"
| "show_sock_addr (SockV6 a port flow scope) =
     ''['' @ show_ipv6 a @ (if scope = 0 then [] else ''%'' @ show_nat (unat scope)) @ '']:''
       @ show_nat (unat port)"

section \<open>Join tokens\<close>

record join_token =
  jt_cluster_id :: string
  jt_auth_key :: string
  jt_seed_addr :: sock_addr
  jt_exp :: nat
  jt_nonce :: string
  jt_gate_url :: "string option"
  jt_tunnel_token :: "string option"
  jt_verifying_key :: "string option"
  jt_signature :: string

definition join_is_expired :: "nat \<Rightarrow> join_token \<Rightarrow> bool" where
  "join_is_expired now t \<longleftrightarrow> now > jt_exp t"

text \<open>\<open>to_le_bytes\<close>, and the length-prefixed fields of \<open>compute_sig\<close>.\<close>

fun le_bytes :: "nat \<Rightarrow> nat \<Rightarrow> string" where
  "le_bytes 0 v = []"
| "le_bytes (Suc n) v = char_of (v mod 256) # le_bytes n (v div 256)"

definition put_field :: "string \<Rightarrow> string" where
  "put_field val = le_bytes 4 (length val mod 2 ^ 32) @ val"

definition or_empty :: "string option \<Rightarrow> string" where
  "or_empty s = (case s of Some v \<Rightarrow> v | None \<Rightarrow> [])"

definition join_message :: "join_token \<Rightarrow> string" where
  "join_message t = ''PONY_CLUSTER_JOIN_V1'' @ [char_of (0::nat)]
     @ put_field (jt_cluster_id t) @ put_field (show_sock_addr (jt_seed_addr t))
     @ le_bytes 8 (jt_exp t) @ put_field (jt_nonce t) @ put_field (jt_auth_key t)
     @ put_field (or_empty (jt_gate_url t)) @ put_field (or_empty (jt_tunnel_token t))
     @ put_field (or_empty (jt_verifying_key t))"

definition compute_sig :: "crypto \<Rightarrow> join_token \<Rightarrow> string" where
  "compute_sig K t = hex_encode K (sha256 K (join_message t))"

definition new_signed ::
  "crypto \<Rightarrow> nat \<Rightarrow> string \<Rightarrow> string \<Rightarrow> sock_addr \<Rightarrow> nat \<Rightarrow> string \<Rightarrow> string option \<Rightarrow> string option
   \<Rightarrow> string option \<Rightarrow> join_token" where
  "new_signed K now cluster_id auth_key seed_addr valid_minutes nonce gate_url tunnel_token verifying_key =
     (let t = \<lparr> jt_cluster_id = cluster_id, jt_auth_key = auth_key, jt_seed_addr = seed_addr,
                jt_exp = wrap_add64 now ((valid_minutes * 60) mod 2 ^ 64), jt_nonce = nonce,
                jt_gate_url = gate_url, jt_tunnel_token = tunnel_token,
                jt_verifying_key = verifying_key, jt_signature = [] \<rparr>
      in t\<lparr> jt_signature := compute_sig K t \<rparr>)"

record join_codec =
  join_to_vec :: "join_token \<Rightarrow> string"
  join_from_slice :: "string \<Rightarrow> join_token option"

text \<open>\<open>serde\<close> reads back the token it wrote (for a token whose seed address has no flow
  label, which the text form drops).\<close>

definition join_codec_law :: "join_codec \<Rightarrow> join_token \<Rightarrow> bool" where
  "join_codec_law J t \<longleftrightarrow> join_from_slice J (join_to_vec J t) = Some t"

datatype join_error = JoinBase64 | JoinJson | JoinExpired | JoinSignature

definition join_encode :: "crypto \<Rightarrow> join_codec \<Rightarrow> join_token \<Rightarrow> string" where
  "join_encode K J t = b64url_encode K (join_to_vec J t)"

definition join_decode :: "crypto \<Rightarrow> join_codec \<Rightarrow> nat \<Rightarrow> string \<Rightarrow> join_error + join_token" where
  "join_decode K J now encoded =
     (case b64url_decode K (trim_str encoded) of
        None \<Rightarrow> Inl JoinBase64
      | Some bytes \<Rightarrow> (case join_from_slice J bytes of
          None \<Rightarrow> Inl JoinJson
        | Some t \<Rightarrow>
            if join_is_expired now t then Inl JoinExpired
            else if jt_signature t \<noteq> compute_sig K t then Inl JoinSignature
            else Inr t))"

section \<open>Lemmas\<close>

lemma length_le_bytes [simp]: "length (le_bytes n v) = n"
  by (induction n arbitrary: v) auto

lemma le_bytes_inject: "v < 256 ^ n \<Longrightarrow> w < 256 ^ n \<Longrightarrow> le_bytes n v = le_bytes n w \<longleftrightarrow> v = w"
proof (induction n arbitrary: v w)
  case (Suc n)
  have "v div 256 < 256 ^ n" "w div 256 < 256 ^ n"
    using Suc.prems by (auto simp: less_mult_imp_div_less mult.commute)
  moreover have "(char_of (v mod 256) :: char) = char_of (w mod 256) \<longleftrightarrow> v mod 256 = w mod 256"
    using byte_char_of by (metis mod_less_divisor zero_less_numeral)
  moreover have "v = w \<longleftrightarrow> v mod 256 = w mod 256 \<and> v div 256 = w div 256" by (metis div_mult_mod_eq)
  ultimately show ?case using Suc.IH [of "v div 256" "w div 256"] by simp
qed simp

lemma put_field_append:
  assumes "length s < 2 ^ 32" "length t < 2 ^ 32"
  shows "put_field s @ x = put_field t @ y \<longleftrightarrow> s = t \<and> x = y"
proof
  assume eq: "put_field s @ x = put_field t @ y"
  have "le_bytes 4 (length s) = le_bytes 4 (length t)" "s @ x = t @ y"
    using eq assms append_eq_append_conv [of "le_bytes 4 (length s)" "le_bytes 4 (length t)" "s @ x" "t @ y"]
    by (simp_all add: put_field_def)
  then have "length s = length t" using le_bytes_inject [of "length s" 4 "length t"] assms by simp
  with \<open>s @ x = t @ y\<close> show "s = t \<and> x = y" by simp
qed simp

text \<open>A token whose texts have lengths that fit the 32-bit prefixes.\<close>

definition fields_fit :: "join_token \<Rightarrow> bool" where
  "fields_fit t \<longleftrightarrow> list_all (\<lambda>s. length s < 2 ^ 32)
     [jt_cluster_id t, show_sock_addr (jt_seed_addr t), jt_nonce t, jt_auth_key t, or_empty (jt_gate_url t),
      or_empty (jt_tunnel_token t), or_empty (jt_verifying_key t)] \<and> jt_exp t < 2 ^ 64"

text \<open>What a signature is about: every field, an absent one counting as empty.\<close>

definition same_fields :: "join_token \<Rightarrow> join_token \<Rightarrow> bool" where
  "same_fields t u \<longleftrightarrow> jt_cluster_id t = jt_cluster_id u
     \<and> show_sock_addr (jt_seed_addr t) = show_sock_addr (jt_seed_addr u) \<and> jt_exp t = jt_exp u
     \<and> jt_nonce t = jt_nonce u \<and> jt_auth_key t = jt_auth_key u
     \<and> or_empty (jt_gate_url t) = or_empty (jt_gate_url u)
     \<and> or_empty (jt_tunnel_token t) = or_empty (jt_tunnel_token u)
     \<and> or_empty (jt_verifying_key t) = or_empty (jt_verifying_key u)"

lemma join_message_inject:
  assumes "fields_fit t" "fields_fit u"
  shows "join_message t = join_message u \<longleftrightarrow> same_fields t u"
proof -
  have le8: "le_bytes 8 (jt_exp t) @ x = le_bytes 8 (jt_exp u) @ y \<longleftrightarrow> jt_exp t = jt_exp u \<and> x = y" for x y
    using le_bytes_inject [of "jt_exp t" 8 "jt_exp u"] assms by (simp add: fields_fit_def)
  have last: "put_field s = put_field v \<longleftrightarrow> s = v" if "length s < 2 ^ 32" "length v < 2 ^ 32" for s v
    using put_field_append [OF that, of "[]" "[]"] by simp
  show ?thesis
    using assms unfolding join_message_def same_fields_def fields_fit_def
    by (simp add: put_field_append le8 last)
qed

lemma join_decode_Inr:
  assumes "join_decode K J now s = Inr t"
  shows "now \<le> jt_exp t" "jt_signature t = hex_encode K (sha256 K (join_message t))"
  using assms
  by (auto simp: join_decode_def join_is_expired_def compute_sig_def split: option.splits if_splits)

section \<open>A concrete codec\<close>

definition demo_join :: "nat \<Rightarrow> join_token" where
  "demo_join now = new_signed demo now ''c'' ''k'' (SockV4 (Ipv4 10 0 0 1) 8899) 10 ''n'' (Some ''u'') None None"

text \<open>The same token with an empty text instead of an absent one.\<close>

definition demo_join2 :: join_token where
  "demo_join2 = (demo_join 100)\<lparr> jt_tunnel_token := Some [] \<rparr>"

definition demo_join_codec :: join_codec where
  "demo_join_codec = \<lparr> join_to_vec = (\<lambda>t. if jt_tunnel_token t = None then ''t'' else ''u''),
     join_from_slice = (\<lambda>s. if s = ''t'' then Some (demo_join 100) else if s = ''u'' then Some demo_join2 else None) \<rparr>"

section \<open>Properties\<close>

text \<open>A join token made by \<open>new_signed\<close> decodes, also with white space around it, to
  itself until its expiry time, and is refused as expired afterwards.\<close>

theorem join_token_roundtrip:
  assumes "t = new_signed K now cluster_id auth_key seed_addr valid_minutes nonce gate_url tunnel_token verifying_key"
    and "b64url_law K" "join_codec_law J t"
  shows "join_decode K J later (join_encode K J t) =
    (if later > wrap_add64 now ((valid_minutes * 60) mod 2 ^ 64) then Inl JoinExpired else Inr t)"
proof -
  have "trim_str (join_encode K J t) = join_encode K J t"
    using assms(2) by (auto simp: join_encode_def b64url_law_def intro!: trim_str_graphic b64url_char_graphic)
  moreover have "jt_exp t = wrap_add64 now ((valid_minutes * 60) mod 2 ^ 64)" "jt_signature t = compute_sig K t"
    by (simp_all add: assms(1) new_signed_def Let_def compute_sig_def join_message_def)
  ultimately show ?thesis
    using assms(2,3)
    by (simp add: join_decode_def join_encode_def b64url_law_def join_codec_law_def join_is_expired_def)
qed

theorem join_token_roundtrip_witness:
  "join_decode demo demo_join_codec 700 (join_encode demo demo_join_codec (demo_join 100)) = Inr (demo_join 100)
   \<and> join_decode demo demo_join_codec 701 (join_encode demo demo_join_codec (demo_join 100)) = Inl JoinExpired"
proof -
  have "join_codec_law demo_join_codec (demo_join 100)" by code_simp
  note rt = join_token_roundtrip [OF demo_join_def demo_laws(3) this]
  show ?thesis using rt [of 700] rt [of 701] by simp
qed

text \<open>The signature binds every field of a token, with no ambiguity between adjacent
  fields: if two accepted tokens carry the same signature, they agree in cluster, seed
  address, expiry, nonce, key and configuration (an absent text counting as an empty
  one), unless SHA-256 collides on their messages.\<close>

theorem join_signature_binding:
  assumes "join_decode K J now s = Inr t" "join_decode K J now' s' = Inr u" "jt_signature t = jt_signature u"
    and "hex_law K" "sha256 K (join_message t) = sha256 K (join_message u) \<longrightarrow> join_message t = join_message u"
    and "fields_fit t" "fields_fit u"
  shows "same_fields t u"
proof -
  have "hex_encode K (sha256 K (join_message t)) = hex_encode K (sha256 K (join_message u))"
    using join_decode_Inr(2) [OF assms(1)] join_decode_Inr(2) [OF assms(2)] assms(3) by simp
  then have "sha256 K (join_message t) = sha256 K (join_message u)"
    using assms(4) unfolding hex_law_def by (metis option.inject)
  with assms(5) join_message_inject [OF assms(6,7)] show ?thesis by blast
qed

theorem join_signature_binding_witness:
  "demo_join 100 \<noteq> demo_join2 \<and> same_fields (demo_join 100) demo_join2"
proof -
  have d: "join_decode demo demo_join_codec 100 (join_encode demo demo_join_codec (demo_join 100)) = Inr (demo_join 100)"
    "join_decode demo demo_join_codec 100 (join_encode demo demo_join_codec demo_join2) = Inr demo_join2"
    by code_simp+
  have "jt_signature (demo_join 100) = jt_signature demo_join2" by (simp add: demo_join2_def)
  moreover have "join_message (demo_join 100) = join_message demo_join2" by code_simp
  moreover have "fields_fit (demo_join 100)" "fields_fit demo_join2" by code_simp+
  moreover have "demo_join 100 \<noteq> demo_join2" by code_simp
  ultimately show ?thesis using join_signature_binding [OF d _ demo_laws(2)] by blast
qed

end
