(* ===== verification/Cluster.thy ===== *)
theory Cluster
  imports JoinToken "HOL-Library.AList"
begin

text \<open>
  Membership of the node cluster: \<open>ClusterManager\<close> of \<open>crates/core/src/cluster.rs\<close>.  Nodes
  gossip heartbeats; a table of peers is kept by merging them, and reading it marks silent
  peers suspect and moves dead ones to the tombstones.  The tables are behind locks that
  \<open>merge_heartbeat\<close> takes one after the other, so its check of the tombstones and its write
  to the peers are separate steps.  Instants are nanoseconds.
\<close>

section \<open>Data\<close>

datatype node_state = Alive | Suspect | Dead

record peer_node =
  pn_node_id :: string
  pn_addr :: sock_addr
  pn_version :: string
  pn_state :: node_state
  pn_incarnation :: nat
  pn_active_conns :: nat
  pn_bytes_in :: nat
  pn_bytes_out :: nat
  pn_last_seen :: nat
  pn_rtt_ms :: nat

record heartbeat =
  hb_schema_version :: nat
  hb_sender_id :: string
  hb_sender_addr :: sock_addr
  hb_version :: string
  hb_incarnation :: nat
  hb_active_conns :: nat
  hb_bytes_in :: nat
  hb_bytes_out :: nat
  hb_timestamp :: nat
  hb_peers :: "peer_node list"

record tombstone =
  tb_node_id :: string
  tb_dead_epoch :: nat
  tb_incarnation :: nat

text \<open>\<open>ClusterManager\<close>; a peer comes with the instant of its last news.\<close>

record cluster =
  cm_local_id :: string
  cm_local_addr :: sock_addr
  cm_auth_key :: string
  cm_peers :: "(string \<times> peer_node \<times> nat) list"
  cm_tombstones :: "(string \<times> tombstone) list"

definition CLUSTER_SCHEMA_VERSION :: nat where
  [const_defs]: "CLUSTER_SCHEMA_VERSION = 1"

definition cluster_new :: "string \<Rightarrow> sock_addr \<Rightarrow> string \<Rightarrow> cluster" where
  "cluster_new local_id local_addr auth_key = \<lparr> cm_local_id = local_id, cm_local_addr = local_addr,
     cm_auth_key = auth_key, cm_peers = [], cm_tombstones = [] \<rparr>"

section \<open>Operations\<close>

text \<open>\<open>make_heartbeat\<close>; \<open>pkg_version\<close> is \<open>CARGO_PKG_VERSION\<close>.\<close>

definition make_heartbeat :: "string \<Rightarrow> nat \<Rightarrow> nat \<Rightarrow> nat \<Rightarrow> nat \<Rightarrow> cluster \<Rightarrow> heartbeat" where
  "make_heartbeat pkg_version now conns in_bytes out_bytes m =
     \<lparr> hb_schema_version = CLUSTER_SCHEMA_VERSION, hb_sender_id = cm_local_id m,
       hb_sender_addr = cm_local_addr m, hb_version = pkg_version, hb_incarnation = 1,
       hb_active_conns = conns, hb_bytes_in = in_bytes, hb_bytes_out = out_bytes,
       hb_timestamp = now, hb_peers = map (fst \<circ> snd) (cm_peers m) \<rparr>"

text \<open>\<open>merge_heartbeat\<close> up to the release of the tombstone lock.\<close>

definition merge_admit :: "heartbeat \<Rightarrow> cluster \<Rightarrow> bool" where
  "merge_admit hb m \<longleftrightarrow> hb_sender_id hb \<noteq> cm_local_id m \<and>
     (case map_of (cm_tombstones m) (hb_sender_id hb) of
        Some tb \<Rightarrow> \<not> hb_incarnation hb \<le> tb_incarnation tb
      | None \<Rightarrow> True)"

definition heartbeat_node :: "heartbeat \<Rightarrow> nat \<Rightarrow> peer_node" where
  "heartbeat_node hb rtt_ms =
     \<lparr> pn_node_id = hb_sender_id hb, pn_addr = hb_sender_addr hb, pn_version = hb_version hb,
       pn_state = Alive, pn_incarnation = hb_incarnation hb, pn_active_conns = hb_active_conns hb,
       pn_bytes_in = hb_bytes_in hb, pn_bytes_out = hb_bytes_out hb,
       pn_last_seen = hb_timestamp hb, pn_rtt_ms = rtt_ms \<rparr>"

text \<open>The anti-entropy loop: peers of the sender that are not known here.\<close>

fun adopt_peers ::
  "string \<Rightarrow> nat \<Rightarrow> peer_node list \<Rightarrow> (string \<times> peer_node \<times> nat) list \<Rightarrow> (string \<times> peer_node \<times> nat) list" where
  "adopt_peers local_id now [] tab = tab"
| "adopt_peers local_id now (p # ps) tab =
     adopt_peers local_id now ps
       (if pn_node_id p \<noteq> local_id \<and> map_of tab (pn_node_id p) = None
        then AList.update (pn_node_id p) (p, now) tab else tab)"

text \<open>The rest of \<open>merge_heartbeat\<close>, under the write lock of the peers.\<close>

definition merge_write :: "nat \<Rightarrow> heartbeat \<Rightarrow> nat \<Rightarrow> cluster \<Rightarrow> cluster" where
  "merge_write now hb rtt_ms m =
     (if (case map_of (cm_peers m) (hb_sender_id hb) of
            Some (existing, _) \<Rightarrow>
              hb_timestamp hb < pn_last_seen existing \<or> hb_incarnation hb < pn_incarnation existing
          | None \<Rightarrow> False)
      then m
      else m\<lparr> cm_peers := adopt_peers (cm_local_id m) now (hb_peers hb)
                (AList.update (hb_sender_id hb) (heartbeat_node hb rtt_ms, now) (cm_peers m)) \<rparr>)"

definition merge_heartbeat :: "nat \<Rightarrow> heartbeat \<Rightarrow> nat \<Rightarrow> cluster \<Rightarrow> cluster" where
  "merge_heartbeat now hb rtt_ms m = (if merge_admit hb m then merge_write now hb rtt_ms m else m)"

definition SUSPECT_NS :: nat where
  [const_defs]: "SUSPECT_NS = 30 * 1000000000"

definition DEAD_NS :: nat where
  [const_defs]: "DEAD_NS = 120 * 1000000000"

definition age_peer :: "nat \<Rightarrow> peer_node \<times> nat \<Rightarrow> peer_node \<times> nat" where
  "age_peer now e =
     (let elapsed = now - snd e in
      if elapsed > DEAD_NS then ((fst e)\<lparr> pn_state := Dead \<rparr>, snd e)
      else if elapsed > SUSPECT_NS then ((fst e)\<lparr> pn_state := Suspect \<rparr>, snd e)
      else e)"

definition is_dead :: "nat \<Rightarrow> string \<times> peer_node \<times> nat \<Rightarrow> bool" where
  "is_dead now e \<longleftrightarrow> now - snd (snd e) > DEAD_NS"

definition get_cluster_snapshot :: "nat \<Rightarrow> nat \<Rightarrow> cluster \<Rightarrow> peer_node list \<times> cluster" where
  "get_cluster_snapshot now now_epoch m =
     (let aged = map (\<lambda>(k, e). (k, age_peer now e)) (cm_peers m);
          dead_nodes = map (\<lambda>(k, e). (k, pn_incarnation (fst e))) (filter (is_dead now) (cm_peers m));
          alive = foldl (\<lambda>tab (k, _). AList.delete k tab) aged dead_nodes;
          tombs = foldl (\<lambda>tab (k, inc). AList.update k \<lparr> tb_node_id = k, tb_dead_epoch = now_epoch, tb_incarnation = inc \<rparr> tab)
                    (cm_tombstones m) dead_nodes
      in (map (fst \<circ> snd) alive, m\<lparr> cm_peers := alive, cm_tombstones := tombs \<rparr>))"

section \<open>Interleavings\<close>

text \<open>Heartbeats that passed the check and have not been written yet are pending.\<close>

datatype cluster_event =
    Arrive heartbeat nat
  | WriteNext nat
  | TakeSnapshot nat nat

type_synonym cluster_state = "cluster \<times> (heartbeat \<times> nat) list"

fun cluster_step :: "cluster_event \<Rightarrow> cluster_state \<Rightarrow> cluster_state" where
  "cluster_step (Arrive hb rtt) (m, pend) = (m, if merge_admit hb m then pend @ [(hb, rtt)] else pend)"
| "cluster_step (WriteNext now) (m, pend) =
     (case pend of [] \<Rightarrow> (m, []) | (hb, rtt) # rest \<Rightarrow> (merge_write now hb rtt m, rest))"
| "cluster_step (TakeSnapshot now now_epoch) (m, pend) = (snd (get_cluster_snapshot now now_epoch m), pend)"

section \<open>Lemmas\<close>

text \<open>A table is keyed by the ids of its nodes, without the local one.\<close>

definition table_ok :: "string \<Rightarrow> (string \<times> peer_node \<times> nat) list \<Rightarrow> bool" where
  "table_ok l tab \<longleftrightarrow> distinct (map fst tab) \<and> (\<forall>k p i. map_of tab k = Some (p, i) \<longrightarrow> pn_node_id p = k \<and> k \<noteq> l)"

definition cluster_inv :: "cluster_state \<Rightarrow> bool" where
  "cluster_inv s \<longleftrightarrow> table_ok (cm_local_id (fst s)) (cm_peers (fst s))
     \<and> (\<forall>(hb, _) \<in> set (snd s). hb_sender_id hb \<noteq> cm_local_id (fst s))"

lemma distinct_set_singleton: "distinct xs \<Longrightarrow> set xs = {x} \<Longrightarrow> xs = [x]"
  by (cases xs rule: remdups_adj.cases) auto

lemma table_ok_update: "table_ok l tab \<Longrightarrow> pn_node_id p = k \<Longrightarrow> k \<noteq> l \<Longrightarrow> table_ok l (AList.update k (p, i) tab)"
  by (auto simp: table_ok_def distinct_update update_conv)

lemma map_of_adopt_peers:
  "map_of tab n \<noteq> None \<Longrightarrow> map_of (adopt_peers l now ps tab) n = map_of tab n"
  by (induction l now ps tab rule: adopt_peers.induct) (auto simp: update_conv)

lemma adopt_peers_absent:
  "n \<notin> pn_node_id ` set ps \<Longrightarrow> map_of (adopt_peers l now ps tab) n = map_of tab n"
  by (induction l now ps tab rule: adopt_peers.induct) (auto simp: update_conv)

lemma table_ok_adopt: "table_ok l tab \<Longrightarrow> table_ok l (adopt_peers l now ps tab)"
  by (induction l now ps tab rule: adopt_peers.induct) (auto simp: table_ok_update)

lemma merge_write_local [simp]: "cm_local_id (merge_write now hb rtt m) = cm_local_id m"
  "cm_tombstones (merge_write now hb rtt m) = cm_tombstones m"
  by (simp_all add: merge_write_def)

lemma table_ok_merge_write:
  "table_ok (cm_local_id m) (cm_peers m) \<Longrightarrow> hb_sender_id hb \<noteq> cm_local_id m \<Longrightarrow>
   table_ok (cm_local_id m) (cm_peers (merge_write now hb rtt m))"
  by (auto simp: merge_write_def heartbeat_node_def intro!: table_ok_adopt table_ok_update)

text \<open>A snapshot, over lookups.\<close>

lemma map_of_fold_delete:
  "map_of (foldl (\<lambda>tab (k, _). AList.delete k tab) tab ds) n
   = (if n \<in> fst ` set ds then None else map_of tab n)"
  by (induction ds arbitrary: tab) (auto simp: delete_conv')

lemma distinct_fold_delete:
  "distinct (map fst tab) \<Longrightarrow> distinct (map fst (foldl (\<lambda>tab (k, _). AList.delete k tab) tab ds))"
  by (induction ds arbitrary: tab) (auto simp: distinct_delete)

lemma map_of_map_values: "map_of (map (\<lambda>(k, e). (k, f e)) tab) n = map_option f (map_of tab n)"
  by (induction tab) auto

lemma dead_keys:
  assumes "distinct (map fst tab)"
  shows "n \<in> fst ` set (map (\<lambda>(k, e). (k, g e)) (filter (is_dead now) tab)) \<longleftrightarrow>
    (\<exists>p i. map_of tab n = Some (p, i) \<and> now - i > DEAD_NS)"
proof -
  have "n \<in> fst ` set (map (\<lambda>(k, e). (k, g e)) (filter (is_dead now) tab)) \<longleftrightarrow>
      (\<exists>p i. (n, p, i) \<in> set tab \<and> now - i > DEAD_NS)"
    by (force simp: is_dead_def)
  then show ?thesis using map_of_eq_Some_iff [OF assms] by metis
qed

lemma snapshot_peers:
  assumes "distinct (map fst (cm_peers m))"
  shows "map_of (cm_peers (snd (get_cluster_snapshot now ep m))) n =
    (case map_of (cm_peers m) n of
       None \<Rightarrow> None
     | Some (p, i) \<Rightarrow> if now - i > DEAD_NS then None else Some (age_peer now (p, i)))"
  using dead_keys [OF assms, of n "\<lambda>e. pn_incarnation (fst e)" now]
  by (auto simp: get_cluster_snapshot_def Let_def map_of_fold_delete map_of_map_values split: option.splits)

lemma snapshot_distinct:
  "distinct (map fst (cm_peers m)) \<Longrightarrow> distinct (map fst (cm_peers (snd (get_cluster_snapshot now ep m))))"
proof -
  assume d: "distinct (map fst (cm_peers m))"
  have "map fst (map (\<lambda>(k, e). (k, age_peer now e)) (cm_peers m)) = map fst (cm_peers m)" by (simp add: split_beta comp_def)
  with d show ?thesis by (simp add: get_cluster_snapshot_def Let_def distinct_fold_delete del: map_map)
qed

lemma age_peer_fields [simp]:
  "pn_node_id (fst (age_peer now e)) = pn_node_id (fst e)" "snd (age_peer now e) = snd e"
  "pn_incarnation (fst (age_peer now e)) = pn_incarnation (fst e)"
  "pn_last_seen (fst (age_peer now e)) = pn_last_seen (fst e)"
  by (simp_all add: age_peer_def Let_def)

lemma snapshot_local [simp]: "cm_local_id (snd (get_cluster_snapshot now ep m)) = cm_local_id m"
  by (simp add: get_cluster_snapshot_def Let_def)

lemma table_ok_snapshot:
  assumes "table_ok (cm_local_id m) (cm_peers m)"
  shows "table_ok (cm_local_id m) (cm_peers (snd (get_cluster_snapshot now ep m)))"
proof -
  have d: "distinct (map fst (cm_peers m))" using assms by (simp add: table_ok_def)
  have "pn_node_id p = k \<and> k \<noteq> cm_local_id m"
    if "map_of (cm_peers (snd (get_cluster_snapshot now ep m))) k = Some (p, i)" for k p i
  proof -
    from that obtain q j where q: "map_of (cm_peers m) k = Some (q, j)" "age_peer now (q, j) = (p, i)"
      unfolding snapshot_peers [OF d] by (auto split: option.splits if_splits)
    then have "pn_node_id p = pn_node_id q" using age_peer_fields(1) [of now "(q, j)"] by simp
    with assms q(1) show ?thesis by (simp add: table_ok_def)
  qed
  with snapshot_distinct [OF d] show ?thesis by (auto simp: table_ok_def)
qed

lemma cluster_inv_step: "cluster_inv s \<Longrightarrow> cluster_inv (cluster_step e s)"
proof (cases s)
  case (Pair m pend)
  assume "cluster_inv s"
  then show ?thesis
    by (cases e; cases pend)
      (auto simp: Pair cluster_inv_def merge_admit_def table_ok_merge_write table_ok_snapshot)
qed

lemma cluster_inv_run: "cluster_inv s \<Longrightarrow> cluster_inv (fold cluster_step es s)"
  by (induction es arbitrary: s) (simp_all add: cluster_inv_step)

lemma cluster_inv_new: "cluster_inv (cluster_new l a k, [])"
  by (simp add: cluster_inv_def table_ok_def cluster_new_def)

text \<open>A node that is in the tombstones and nowhere else, and news that cannot bring it back.\<close>

definition buried :: "string \<Rightarrow> tombstone \<Rightarrow> cluster_state \<Rightarrow> bool" where
  "buried n tb s \<longleftrightarrow> map_of (cm_tombstones (fst s)) n = Some tb \<and> map_of (cm_peers (fst s)) n = None
     \<and> (\<forall>(hb, _) \<in> set (snd s). hb_sender_id hb \<noteq> n \<and> n \<notin> pn_node_id ` set (hb_peers hb))"

fun stale_news :: "string \<Rightarrow> nat \<Rightarrow> cluster_event \<Rightarrow> bool" where
  "stale_news n inc (Arrive hb _) \<longleftrightarrow> n \<notin> pn_node_id ` set (hb_peers hb)
     \<and> (hb_sender_id hb = n \<longrightarrow> hb_incarnation hb \<le> inc)"
| "stale_news n inc _ \<longleftrightarrow> True"

lemma map_of_fold_update_absent:
  "n \<notin> fst ` set ds \<Longrightarrow> map_of (foldl (\<lambda>tab (k, x). AList.update k (f k x) tab) tab ds) n = map_of tab n"
  by (induction ds arbitrary: tab) (auto simp: update_conv)

lemma snapshot_tombstone_absent:
  assumes "distinct (map fst (cm_peers m))" "map_of (cm_peers m) n = None"
  shows "map_of (cm_tombstones (snd (get_cluster_snapshot now ep m))) n = map_of (cm_tombstones m) n"
  using dead_keys [OF assms(1), of n "\<lambda>e. pn_incarnation (fst e)" now] assms(2)
  by (simp add: get_cluster_snapshot_def Let_def map_of_fold_update_absent del: set_map set_filter)

lemma merge_write_absent:
  assumes "map_of (cm_peers m) n = None" "hb_sender_id hb \<noteq> n" "n \<notin> pn_node_id ` set (hb_peers hb)"
  shows "map_of (cm_peers (merge_write now hb rtt m)) n = None"
  using assms by (simp add: merge_write_def adopt_peers_absent update_conv)

lemma buried_step:
  assumes "cluster_inv s" "buried n tb s" "stale_news n (tb_incarnation tb) e"
  shows "buried n tb (cluster_step e s)"
proof (cases s)
  case (Pair m pend)
  have d: "distinct (map fst (cm_peers m))" using assms(1) by (simp add: Pair cluster_inv_def table_ok_def)
  show ?thesis
  proof (cases e)
    case (Arrive hb rtt)
    then show ?thesis using assms(2,3) by (auto simp: Pair buried_def merge_admit_def)
  next
    case (WriteNext now)
    show ?thesis
    proof (cases pend)
      case (Cons x rest)
      obtain hb rtt where x: "x = (hb, rtt)" by (cases x)
      have "map_of (cm_peers (merge_write now hb rtt m)) n = None"
        using assms(2) by (intro merge_write_absent) (simp_all add: Pair Cons x buried_def)
      with assms(2) show ?thesis by (simp add: Pair WriteNext Cons x buried_def)
    qed (use assms(2) in \<open>simp add: Pair WriteNext buried_def\<close>)
  next
    case (TakeSnapshot now ep)
    have none: "map_of (cm_peers m) n = None" using assms(2) by (simp add: Pair buried_def)
    with TakeSnapshot assms(2) snapshot_tombstone_absent [OF d none, of now ep] snapshot_peers [OF d, of now ep n]
    show ?thesis by (simp add: Pair buried_def)
  qed
qed

lemma buried_run:
  "cluster_inv s \<Longrightarrow> buried n tb s \<Longrightarrow> list_all (stale_news n (tb_incarnation tb)) es \<Longrightarrow>
   buried n tb (fold cluster_step es s)"
  by (induction es arbitrary: s) (simp_all add: cluster_inv_step buried_step)

text \<open>Gossip of another node does bring a buried node back: the anti-entropy loop does not
  look at the tombstones.\<close>

lemma anti_entropy_resurrects:
  assumes "hb_sender_id hb \<noteq> n" "hb_sender_id hb \<noteq> cm_local_id m" "n \<noteq> cm_local_id m"
    and "map_of (cm_tombstones m) (hb_sender_id hb) = None" "map_of (cm_peers m) (hb_sender_id hb) = None"
    and "map_of (cm_peers m) n = None" "hb_peers hb = [p]" "pn_node_id p = n"
  shows "map_of (cm_peers (merge_heartbeat now hb rtt m)) n = Some (p, now)"
  using assms by (simp add: merge_heartbeat_def merge_admit_def merge_write_def update_conv)

lemma fold_update_value:
  "distinct (map fst ds) \<Longrightarrow> (n, x) \<in> set ds \<Longrightarrow>
   map_of (foldl (\<lambda>tab (k, x). AList.update k (f k x) tab) tab ds) n = Some (f n x)"
proof (induction ds arbitrary: tab)
  case (Cons a ds)
  obtain k y where a: "a = (k, y)" by (cases a)
  show ?case
  proof (cases "k = n")
    case True
    then have "n \<notin> fst ` set ds" "y = x" using Cons.prems by (auto simp: a image_iff)
    with True show ?thesis by (simp add: a map_of_fold_update_absent update_conv)
  next
    case False
    with Cons show ?thesis by (simp add: a)
  qed
qed simp

lemma snapshot_buries:
  assumes "distinct (map fst (cm_peers m))" "map_of (cm_peers m) n = Some (q, i)" "now - i > DEAD_NS"
  shows "map_of (cm_tombstones (snd (get_cluster_snapshot now ep m))) n =
    Some \<lparr> tb_node_id = n, tb_dead_epoch = ep, tb_incarnation = pn_incarnation q \<rparr>"
proof -
  let ?ds = "map (\<lambda>(k, e). (k, pn_incarnation (fst e))) (filter (is_dead now) (cm_peers m))"
  have "map fst ?ds = map fst (filter (is_dead now) (cm_peers m))" by (simp add: split_beta comp_def)
  then have "distinct (map fst ?ds)" using assms(1) by (simp add: distinct_map_filter del: map_map)
  moreover have "(n, q, i) \<in> set (cm_peers m)" using assms(2) by (rule map_of_SomeD)
  with assms(3) have "(n, pn_incarnation q) \<in> set ?ds" by (force simp: is_dead_def)
  ultimately show ?thesis
    using fold_update_value [of ?ds n "pn_incarnation q"
      "\<lambda>k inc. \<lparr> tb_node_id = k, tb_dead_epoch = ep, tb_incarnation = inc \<rparr>" "cm_tombstones m"]
    by (simp add: get_cluster_snapshot_def Let_def)
qed

section \<open>Concrete heartbeats\<close>

definition demo_addr :: sock_addr where
  "demo_addr = SockV4 (Ipv4 10 0 0 1) 8899"

definition demo_hb :: "nat \<Rightarrow> heartbeat" where
  "demo_hb t = make_heartbeat ''v'' t 0 0 0 (cluster_new ''b'' demo_addr ''k'')"

section \<open>Properties\<close>

text \<open>C17: in every interleaving of arriving heartbeats, writes and snapshots, the table of
  peers has each node once under its own id and never the local node; and news never go
  back: as long as a peer stays in the table, its last-seen time and incarnation grow.\<close>

theorem cluster_table_monotone:
  assumes "s = fold cluster_step es (cluster_new local_id addr key, [])" "s' = cluster_step e s"
  shows "distinct (map fst (cm_peers (fst s')))
    \<and> (\<forall>n p i. map_of (cm_peers (fst s')) n = Some (p, i) \<longrightarrow> pn_node_id p = n \<and> n \<noteq> local_id)
    \<and> (\<forall>n p i p' i'. map_of (cm_peers (fst s)) n = Some (p, i) \<longrightarrow> map_of (cm_peers (fst s')) n = Some (p', i') \<longrightarrow>
         pn_last_seen p \<le> pn_last_seen p' \<and> pn_incarnation p \<le> pn_incarnation p')"
proof -
  have loc: "cm_local_id (fst (cluster_step e s)) = cm_local_id (fst s)" for e s
    by (cases s; cases e; cases "snd s") auto
  have "cm_local_id (fst (fold cluster_step es s0)) = cm_local_id (fst s0)" for s0
    by (induction es arbitrary: s0) (simp_all add: loc)
  then have id: "cm_local_id (fst s') = local_id" using assms loc by (simp add: cluster_new_def)
  have inv: "cluster_inv s" using assms(1) cluster_inv_run [OF cluster_inv_new] by simp
  then have inv': "cluster_inv s'" using assms(2) cluster_inv_step by simp
  have mono: "pn_last_seen p \<le> pn_last_seen p' \<and> pn_incarnation p \<le> pn_incarnation p'"
    if a: "map_of (cm_peers (fst s)) n = Some (p, i)" "map_of (cm_peers (fst s')) n = Some (p', i')" for n p i p' i'
  proof -
    obtain m pend where s: "s = (m, pend)" by (cases s)
    have d: "distinct (map fst (cm_peers m))" using inv by (simp add: s cluster_inv_def table_ok_def)
    show ?thesis
    proof (cases e)
      case (Arrive hb rtt)
      with a assms(2) show ?thesis by (simp add: s)
    next
      case (WriteNext now)
      show ?thesis
      proof (cases pend)
        case (Cons x rest)
        obtain hb rtt where x: "x = (hb, rtt)" by (cases x)
        let ?tab = "AList.update (hb_sender_id hb) (heartbeat_node hb rtt, now) (cm_peers m)"
        have "map_of ?tab n \<noteq> None" using a(1) by (simp add: s update_conv)
        then have "map_of (adopt_peers (cm_local_id m) now (hb_peers hb) ?tab) n = map_of ?tab n"
          by (rule map_of_adopt_peers)
        with a assms(2) WriteNext Cons x show ?thesis
          by (auto simp: s merge_write_def update_conv heartbeat_node_def not_less split: if_splits option.splits)
      qed (use a assms(2) WriteNext in \<open>simp add: s\<close>)
    next
      case (TakeSnapshot now ep)
      with a assms(2) have "(p', i') = age_peer now (p, i)"
        by (simp add: s snapshot_peers [OF d] split: if_splits)
      then have "p' = fst (age_peer now (p, i))" by (metis fst_conv)
      then show ?thesis by simp
    qed
  qed
  show ?thesis using inv' mono id unfolding cluster_inv_def table_ok_def by auto
qed

theorem cluster_table_monotone_witness:
  "\<exists>p i. map_of (cm_peers (fst (cluster_step (WriteNext 7)
      (fold cluster_step [Arrive (demo_hb 5) 1, WriteNext 1, Arrive (demo_hb 9) 1] (cluster_new ''a'' demo_addr ''k'', []))))) ''b''
     = Some (p, i) \<and> pn_node_id p = ''b'' \<and> 5 \<le> pn_last_seen p"
proof -
  let ?s = "fold cluster_step [Arrive (demo_hb 5) 1, WriteNext 1, Arrive (demo_hb 9) 1] (cluster_new ''a'' demo_addr ''k'', [])"
  have "map_of (cm_peers (fst ?s)) ''b'' = Some (heartbeat_node (demo_hb 5) 1, 1)"
    "map_of (cm_peers (fst (cluster_step (WriteNext 7) ?s))) ''b'' = Some (heartbeat_node (demo_hb 9) 1, 7)"
    by code_simp+
  moreover have "pn_last_seen (heartbeat_node (demo_hb 5) 1) = 5" by code_simp
  ultimately show ?thesis
    using cluster_table_monotone [where s = ?s and e = "WriteNext 7", OF refl refl] by metis
qed

text \<open>Reading the cluster reports exactly the peers with news within the last 120
  seconds, each once, marked suspect after 30 seconds of silence and otherwise as last
  reported; every other peer is forgotten, and a tombstone keeps its incarnation.\<close>

theorem cluster_snapshot_view:
  assumes "(m, pend) = fold cluster_step es (cluster_new local_id addr key, [])"
    and "get_cluster_snapshot now ep m = (ps, m')"
  shows "distinct (map pn_node_id ps)
    \<and> (\<forall>p. p \<in> set ps \<longleftrightarrow> (\<exists>q i. map_of (cm_peers m) (pn_node_id p) = Some (q, i) \<and> now - i \<le> 120 * 10 ^ 9
         \<and> p = (if now - i > 30 * 10 ^ 9 then q\<lparr> pn_state := Suspect \<rparr> else q)))
    \<and> (\<forall>n q i. map_of (cm_peers m) n = Some (q, i) \<longrightarrow> now - i > 120 * 10 ^ 9 \<longrightarrow>
         map_of (cm_peers m') n = None \<and>
         map_of (cm_tombstones m') n = Some \<lparr> tb_node_id = n, tb_dead_epoch = ep, tb_incarnation = pn_incarnation q \<rparr>)"
proof -
  have inv: "cluster_inv (m, pend)" using assms(1) cluster_inv_run [OF cluster_inv_new] by metis
  then have d: "distinct (map fst (cm_peers m))" and t: "table_ok (cm_local_id m) (cm_peers m)"
    by (simp_all add: cluster_inv_def table_ok_def)
  have m': "m' = snd (get_cluster_snapshot now ep m)" using assms(2) by simp
  have d': "distinct (map fst (cm_peers m'))" and t': "table_ok (cm_local_id m) (cm_peers m')"
    using snapshot_distinct [OF d] table_ok_snapshot [OF t] m' by simp_all
  have ps: "ps = map (fst \<circ> snd) (cm_peers m')"
    using assms(2) by (auto simp: get_cluster_snapshot_def Let_def)
  have ids: "map pn_node_id ps = map fst (cm_peers m')"
  proof -
    have "pn_node_id (fst (snd e)) = fst e" if "e \<in> set (cm_peers m')" for e
      using t' that map_of_eq_Some_iff [OF d', of "fst e" "snd e"] unfolding table_ok_def by (cases e) auto
    then show ?thesis by (simp add: ps)
  qed
  have "p \<in> set ps \<longleftrightarrow> (\<exists>q i. map_of (cm_peers m) (pn_node_id p) = Some (q, i) \<and> now - i \<le> 120 * 10 ^ 9
         \<and> p = (if now - i > 30 * 10 ^ 9 then q\<lparr> pn_state := Suspect \<rparr> else q))" for p
  proof -
    have "p \<in> set ps \<longleftrightarrow> (\<exists>i. map_of (cm_peers m') (pn_node_id p) = Some (p, i))"
      using d' t' by (force simp: ps table_ok_def)
    moreover have "(\<exists>j. age_peer now (q, i) = (p, j)) \<longleftrightarrow> p = (if now - i > 30 * 10 ^ 9 then q\<lparr> pn_state := Suspect \<rparr> else q)"
      if "now - i \<le> 120 * 10 ^ 9" for q i
      using that by (auto simp: age_peer_def Let_def DEAD_NS_def SUSPECT_NS_def)
    moreover have "(\<exists>i. map_of (cm_peers m') (pn_node_id p) = Some (p, i)) \<longleftrightarrow>
        (\<exists>q i. map_of (cm_peers m) (pn_node_id p) = Some (q, i) \<and> now - i \<le> 120 * 10 ^ 9 \<and> (\<exists>j. age_peer now (q, i) = (p, j)))"
      unfolding m' snapshot_peers [OF d]
      by (cases "map_of (cm_peers m) (pn_node_id p)") (auto simp: DEAD_NS_def split: if_splits)
    ultimately show ?thesis by blast
  qed
  moreover have "map_of (cm_peers m') n = None \<and>
      map_of (cm_tombstones m') n = Some \<lparr> tb_node_id = n, tb_dead_epoch = ep, tb_incarnation = pn_incarnation q \<rparr>"
    if "map_of (cm_peers m) n = Some (q, i)" "now - i > 120 * 10 ^ 9" for n q i
    using that snapshot_buries [OF d] unfolding m' by (simp add: snapshot_peers [OF d] DEAD_NS_def)
  ultimately show ?thesis using ids d' by auto
qed

theorem cluster_snapshot_view_witness:
  "\<exists>m pend. (m, pend) = fold cluster_step [Arrive (demo_hb 5) 1, WriteNext 1] (cluster_new ''a'' demo_addr ''k'', [])
     \<and> fst (get_cluster_snapshot (31 * 10 ^ 9 + 1) 9 m) = [(heartbeat_node (demo_hb 5) 1)\<lparr> pn_state := Suspect \<rparr>]"
proof -
  let ?s = "fold cluster_step [Arrive (demo_hb 5) 1, WriteNext 1] (cluster_new ''a'' demo_addr ''k'', [])"
  obtain m pend where s: "(m, pend) = ?s" by (metis surj_pair)
  obtain ps m' where g: "get_cluster_snapshot (31 * 10 ^ 9 + 1) 9 m = (ps, m')" by fastforce
  have "cm_peers (fst ?s) = [(''b'', heartbeat_node (demo_hb 5) 1, 1)]" by code_simp
  then have peers: "cm_peers m = [(''b'', heartbeat_node (demo_hb 5) 1, 1)]" by (metis s fst_conv)
  have id: "pn_node_id (heartbeat_node (demo_hb 5) 1) = ''b''" by code_simp
  note v = cluster_snapshot_view [OF s g]
  have "set ps = {(heartbeat_node (demo_hb 5) 1)\<lparr> pn_state := Suspect \<rparr>}"
    using v peers id by (auto split: if_splits)
  moreover have "distinct ps" using v distinct_map by blast
  ultimately have "ps = [(heartbeat_node (demo_hb 5) 1)\<lparr> pn_state := Suspect \<rparr>]"
    by (intro distinct_set_singleton)
  with g have "fst (get_cluster_snapshot (31 * 10 ^ 9 + 1) 9 m) = [(heartbeat_node (demo_hb 5) 1)\<lparr> pn_state := Suspect \<rparr>]"
    by simp
  with s show ?thesis by blast
qed

text \<open>A peer that was declared dead stays out whatever it sends: every heartbeat of
  \<open>make_heartbeat\<close> carries incarnation 1, so after a tombstone with incarnation at least 1,
  no number of its heartbeats, heartbeats of others that do not list it, and snapshots
  brings it back.  (The code has no other way to raise the incarnation and never removes
  a tombstone.)\<close>

theorem cluster_dead_stay_out:
  assumes "s = fold cluster_step es (cluster_new local_id addr key, [])" "buried n tb s" "1 \<le> tb_incarnation tb"
    and "\<forall>e \<in> set es'. case e of
           Arrive hb _ \<Rightarrow> (hb_sender_id hb = n \<and> (\<exists>v t c i out m. hb = make_heartbeat v t c i out m)
                            \<or> hb_sender_id hb \<noteq> n) \<and> n \<notin> pn_node_id ` set (hb_peers hb)
         | _ \<Rightarrow> True"
  shows "map_of (cm_peers (fst (fold cluster_step es' s))) n = None"
proof -
  have "stale_news n (tb_incarnation tb) e" if "e \<in> set es'" for e
  proof (cases e)
    case (Arrive hb rtt)
    with assms(4) that have "n \<notin> pn_node_id ` set (hb_peers hb)"
      "hb_sender_id hb = n \<longrightarrow> (\<exists>v t c i out m. hb = make_heartbeat v t c i out m)" by fastforce+
    moreover have "hb_incarnation (make_heartbeat v t c i out m) = 1" for v t c i out m
      by (simp add: make_heartbeat_def)
    ultimately show ?thesis using assms(3) Arrive by auto
  qed simp_all
  then have "list_all (stale_news n (tb_incarnation tb)) es'" by (simp add: list_all_iff)
  moreover have "cluster_inv s" using assms(1) cluster_inv_run [OF cluster_inv_new] by simp
  ultimately have "buried n tb (fold cluster_step es' s)" using buried_run assms(2) by blast
  then show ?thesis by (simp add: buried_def)
qed

theorem cluster_dead_stay_out_witness:
  "map_of (cm_peers (fst (fold cluster_step [Arrive (demo_hb 500) 1, WriteNext (10 ^ 12)]
     (fold cluster_step [Arrive (demo_hb 5) 1, WriteNext 1, TakeSnapshot (200 * 10 ^ 9) 200] (cluster_new ''a'' demo_addr ''k'', []))))) ''b'' = None"
proof (rule cluster_dead_stay_out [OF refl, where tb = "\<lparr> tb_node_id = ''b'', tb_dead_epoch = 200, tb_incarnation = 1 \<rparr>"])
  show "buried ''b'' \<lparr> tb_node_id = ''b'', tb_dead_epoch = 200, tb_incarnation = 1 \<rparr>
    (fold cluster_step [Arrive (demo_hb 5) 1, WriteNext 1, TakeSnapshot (200 * 10 ^ 9) 200] (cluster_new ''a'' demo_addr ''k'', []))"
    by code_simp
  have "hb_sender_id (demo_hb 500) = ''b''" "hb_peers (demo_hb 500) = []" by code_simp+
  then show "\<forall>e \<in> set [Arrive (demo_hb 500) 1, WriteNext (10 ^ 12)]. case e of
           Arrive hb _ \<Rightarrow> (hb_sender_id hb = ''b'' \<and> (\<exists>v t c i out m. hb = make_heartbeat v t c i out m)
                            \<or> hb_sender_id hb \<noteq> ''b'') \<and> ''b'' \<notin> pn_node_id ` set (hb_peers hb)
         | _ \<Rightarrow> True"
    unfolding demo_hb_def by simp blast
qed simp

end
