(* ===== verification/Store.thy ===== *)
theory Store
  imports Prelude "HOL-Library.Char_ord" "HOL-Library.List_Lexorder"
begin

text \<open>
  The tables of the SQLite store (\<open>crates/core/src/store\<close>): tokens, users and
  routes, with the SQL statements of the code as functions on them; hourly usage and the tables
  of the monitor are in \<open>Usage\<close> and \<open>Monitor\<close>.

  The connection is behind a mutex, so every operation is atomic.  SQLite itself can
  fail: each operation takes the fault it meets, if any, as an argument and then
  returns the error with the tables unchanged.  A table is the list of its rows in
  insertion order; a \<open>u64\<close> is stored as the \<open>i64\<close> with the same bits and read back as
  the same \<open>u64\<close> (lemma \<open>as_u64_as_i64\<close>), so the rows hold the \<open>u64\<close> itself.
\<close>

datatype store_error = SqliteConstraint | SqliteOther | StoreIo | StoreJson | StoreMigration

type_synonym fault = "store_error option"

section \<open>Tables with a key\<close>

text \<open>The services cache a table as a hash map from a key column to the row; a later row
  replaces an earlier one with the same key.\<close>

definition index_by :: "('r \<Rightarrow> 'k) \<Rightarrow> 'r list \<Rightarrow> 'k \<Rightarrow> 'r option" where
  "index_by key rs = foldl (\<lambda>m r. m(key r \<mapsto> r)) Map.empty rs"

lemma index_by_Nil [simp]: "index_by key [] = Map.empty"
  by (simp add: index_by_def)

lemma index_by_snoc [simp]: "index_by key (rs @ [r]) = (index_by key rs)(key r \<mapsto> r)"
  by (simp add: index_by_def)

lemma index_by_Some: "index_by key rs k = Some r \<Longrightarrow> r \<in> set rs \<and> key r = k"
  by (induction rs rule: rev_induct) (auto split: if_splits)

lemma index_by_None_iff: "index_by key rs k = None \<longleftrightarrow> (\<forall>r \<in> set rs. key r \<noteq> k)"
  by (induction rs rule: rev_induct) auto

lemma index_by_unique:
  "distinct (map key rs) \<Longrightarrow> r \<in> set rs \<Longrightarrow> index_by key rs (key r) = Some r"
  by (induction rs rule: rev_induct) (auto simp: image_iff)

lemma index_by_iff:
  assumes "distinct (map key rs)"
  shows "index_by key rs k = Some r \<longleftrightarrow> r \<in> set rs \<and> key r = k"
  using index_by_Some [of key rs k r] index_by_unique [OF assms] by blast

text \<open>Deleting and updating the rows with one key, in terms of the index.\<close>

lemma index_by_delete:
  "index_by key (filter (\<lambda>r. key r \<noteq> k) rs) = (index_by key rs)(k := None)"
  by (induction rs rule: rev_induct) (auto simp: fun_eq_iff)

lemma index_by_update:
  assumes "\<And>r. key (f r) = key r"
  shows "index_by key (map (\<lambda>r. if key r = k then f r else r) rs) =
    (index_by key rs)(k := map_option f (index_by key rs k))"
  using assms by (induction rs rule: rev_induct) (auto simp: fun_eq_iff)

lemma distinct_map_unique:
  "distinct (map f xs) \<Longrightarrow> x \<in> set xs \<Longrightarrow> y \<in> set xs \<Longrightarrow> f x = f y \<Longrightarrow> x = y"
  by (auto simp: distinct_map dest: inj_onD)

text \<open>The contract of a table with a unique key column that a service caches.\<close>

locale keyed_table =
  fixes rows :: "'s \<Rightarrow> 'r list"
    and key :: "'r \<Rightarrow> 'k"
    and ok :: "'s \<Rightarrow> bool"
  assumes key_unique: "ok s \<Longrightarrow> distinct (map key (rows s))"
begin

lemma cached_row: "ok s \<Longrightarrow> r \<in> set (rows s) \<Longrightarrow> index_by key (rows s) (key r) = Some r"
  by (rule index_by_unique [OF key_unique])

lemma cached_iff: "ok s \<Longrightarrow> index_by key (rows s) k = Some r \<longleftrightarrow> r \<in> set (rows s) \<and> key r = k"
  by (rule index_by_iff [OF key_unique])

lemma row_of_key: "ok s \<Longrightarrow> r \<in> set (rows s) \<Longrightarrow> r' \<in> set (rows s) \<Longrightarrow> key r = key r' \<Longrightarrow> r = r'"
  by (rule distinct_map_unique [OF key_unique])

end

section \<open>Tokens\<close>

record token_row =
  tk_id :: int
  tk_name :: string
  tk_hash :: string
  tk_created_at :: nat
  tk_expires_at :: "nat option"
  tk_revoked_at :: "nat option"
  tk_last_used_at :: "nat option"

text \<open>\<open>tk_seq\<close> is the last id given out (\<open>AUTOINCREMENT\<close>).\<close>

record token_table =
  tk_rows :: "token_row list"
  tk_seq :: int

definition token_conflict :: "string \<Rightarrow> string \<Rightarrow> token_row \<Rightarrow> bool" where
  "token_conflict name hash r \<longleftrightarrow> tk_hash r = hash \<or> tk_name r = name \<and> tk_revoked_at r = None"

definition insert_token ::
  "fault \<Rightarrow> nat \<Rightarrow> string \<Rightarrow> string \<Rightarrow> nat option \<Rightarrow> token_table \<Rightarrow> (store_error + int) \<times> token_table" where
  "insert_token fault now name hash expires_at t =
     (case fault of
        Some e \<Rightarrow> (Inl e, t)
      | None \<Rightarrow>
          if list_ex (token_conflict name hash) (tk_rows t) then (Inl SqliteConstraint, t)
          else
            (let tid = tk_seq t + 1;
                 r = \<lparr> tk_id = tid, tk_name = name, tk_hash = hash, tk_created_at = now,
                       tk_expires_at = expires_at, tk_revoked_at = None, tk_last_used_at = None \<rparr>
             in (Inr tid, t\<lparr> tk_rows := tk_rows t @ [r], tk_seq := tid \<rparr>)))"

definition list_tokens :: "fault \<Rightarrow> token_table \<Rightarrow> store_error + token_row list" where
  "list_tokens fault t = (case fault of Some e \<Rightarrow> Inl e | None \<Rightarrow> Inr (tk_rows t))"

definition get_token_by_hash :: "fault \<Rightarrow> string \<Rightarrow> token_table \<Rightarrow> store_error + token_row option" where
  "get_token_by_hash fault hash t =
     (case fault of Some e \<Rightarrow> Inl e | None \<Rightarrow> Inr (find (\<lambda>r. tk_hash r = hash) (tk_rows t)))"

definition get_token_by_id :: "fault \<Rightarrow> int \<Rightarrow> token_table \<Rightarrow> store_error + token_row option" where
  "get_token_by_id fault tid t =
     (case fault of Some e \<Rightarrow> Inl e | None \<Rightarrow> Inr (find (\<lambda>r. tk_id r = tid) (tk_rows t)))"

datatype revoke_outcome = Revoked | AlreadyRevoked | RevokeNotFound

definition revoke_row :: "nat \<Rightarrow> int \<Rightarrow> token_row \<Rightarrow> token_row" where
  "revoke_row now tid r =
     (if tk_id r = tid \<and> tk_revoked_at r = None then r\<lparr> tk_revoked_at := Some now \<rparr> else r)"

definition store_revoke_token ::
  "fault \<Rightarrow> nat \<Rightarrow> int \<Rightarrow> token_table \<Rightarrow> (store_error + revoke_outcome) \<times> token_table" where
  "store_revoke_token fault now tid t =
     (case fault of
        Some e \<Rightarrow> (Inl e, t)
      | None \<Rightarrow>
          if list_ex (\<lambda>r. tk_id r = tid \<and> tk_revoked_at r = None) (tk_rows t)
          then (Inr Revoked, t\<lparr> tk_rows := map (revoke_row now tid) (tk_rows t) \<rparr>)
          else if list_ex (\<lambda>r. tk_id r = tid) (tk_rows t) then (Inr AlreadyRevoked, t)
          else (Inr RevokeNotFound, t))"

definition touch_row :: "int \<Rightarrow> nat \<Rightarrow> token_row \<Rightarrow> token_row" where
  "touch_row tid ts r = (if tk_id r = tid then r\<lparr> tk_last_used_at := Some ts \<rparr> else r)"

definition touch_token :: "fault \<Rightarrow> int \<Rightarrow> nat \<Rightarrow> token_table \<Rightarrow> (store_error + unit) \<times> token_table" where
  "touch_token fault tid ts t =
     (case fault of
        Some e \<Rightarrow> (Inl e, t)
      | None \<Rightarrow>
          (Inr (), t\<lparr> tk_rows := map (touch_row tid ts) (tk_rows t) \<rparr>))"

text \<open>The constraints of the schema: primary key, unique hash, and the partial unique
  index on the names of unrevoked rows.\<close>

definition token_table_ok :: "token_table \<Rightarrow> bool" where
  "token_table_ok t \<longleftrightarrow>
     distinct (map tk_id (tk_rows t))
     \<and> list_all (\<lambda>r. tk_id r \<le> tk_seq t) (tk_rows t)
     \<and> distinct (map tk_hash (tk_rows t))
     \<and> distinct (map tk_name (filter (\<lambda>r. tk_revoked_at r = None) (tk_rows t)))"

definition empty_tokens :: token_table where
  "empty_tokens = \<lparr> tk_rows = [], tk_seq = 0 \<rparr>"

interpretation tk: keyed_table tk_rows tk_hash token_table_ok
  by unfold_locales (simp add: token_table_ok_def)

interpretation tk_by_id: keyed_table tk_rows tk_id token_table_ok
  by unfold_locales (simp add: token_table_ok_def)

lemma token_table_ok_empty: "token_table_ok empty_tokens"
  by (simp add: token_table_ok_def empty_tokens_def)

lemma token_table_ok_insert:
  assumes "token_table_ok t"
  shows "token_table_ok (snd (insert_token f now name hash ex t))"
proof -
  have "\<forall>r \<in> set (tk_rows t). tk_id r \<le> tk_seq t"
    using assms by (simp add: token_table_ok_def list_all_iff)
  then have "tk_seq t + 1 \<notin> tk_id ` set (tk_rows t)" "\<forall>r \<in> set (tk_rows t). tk_id r \<le> tk_seq t + 1"
    by force+
  then show ?thesis
    using assms
    by (auto simp: insert_token_def token_table_ok_def token_conflict_def list_ex_iff list_all_iff
        Let_def split: option.splits)
qed

lemma revoke_row_simps [simp]:
  "tk_id (revoke_row now tid r) = tk_id r" "tk_hash (revoke_row now tid r) = tk_hash r"
  "tk_name (revoke_row now tid r) = tk_name r" "tk_expires_at (revoke_row now tid r) = tk_expires_at r"
  by (simp_all add: revoke_row_def)

lemma touch_row_simps [simp]:
  "tk_id (touch_row tid ts r) = tk_id r" "tk_hash (touch_row tid ts r) = tk_hash r"
  "tk_name (touch_row tid ts r) = tk_name r" "tk_revoked_at (touch_row tid ts r) = tk_revoked_at r"
  "tk_expires_at (touch_row tid ts r) = tk_expires_at r"
  by (simp_all add: touch_row_def)

lemma live_names_subset:
  "distinct (map tk_name (filter P rs)) \<Longrightarrow> (\<And>r. Q (g r) \<Longrightarrow> P r) \<Longrightarrow> (\<And>r. tk_name (g r) = tk_name r)
   \<Longrightarrow> distinct (map tk_name (filter Q (map g rs)))"
proof (induction rs)
  case Nil then show ?case by simp
next
  case (Cons r rs)
  have "tk_name ` {x. x \<in> set (map g rs) \<and> Q x} \<subseteq> tk_name ` {x \<in> set rs. P x}"
    using Cons.prems(2,3) by fastforce
  with Cons show ?case by (auto split: if_splits)
qed

lemma token_table_ok_revoke:
  assumes "token_table_ok t"
  shows "token_table_ok (snd (store_revoke_token f now tid t))"
proof -
  have "distinct (map tk_name (filter (\<lambda>r. tk_revoked_at r = None) (map (revoke_row now tid) (tk_rows t))))"
    by (rule live_names_subset [where P = "\<lambda>r. tk_revoked_at r = None"])
      (use assms in \<open>auto simp: token_table_ok_def revoke_row_def split: if_splits\<close>)
  with assms show ?thesis
    by (auto simp: store_revoke_token_def token_table_ok_def list_all_iff comp_def split: option.splits)
qed

lemma token_table_ok_touch:
  assumes "token_table_ok t"
  shows "token_table_ok (snd (touch_token f tid ts t))"
proof -
  have "distinct (map tk_name (filter (\<lambda>r. tk_revoked_at r = None) (map (touch_row tid ts) (tk_rows t))))"
    by (rule live_names_subset [where P = "\<lambda>r. tk_revoked_at r = None"])
      (use assms in \<open>auto simp: token_table_ok_def\<close>)
  with assms show ?thesis
    by (auto simp: touch_token_def token_table_ok_def list_all_iff comp_def split: option.splits)
qed

section \<open>Users\<close>

record user_row =
  us_id :: int
  us_username :: string
  us_password_hash :: string
  us_created_at :: int
  us_disabled :: bool
  us_expires_at :: "int option"
  us_last_used_at :: "int option"

record user_table =
  us_rows :: "user_row list"
  us_seq :: int

definition empty_users :: user_table where
  "empty_users = \<lparr> us_rows = [], us_seq = 0 \<rparr>"

definition insert_user ::
  "fault \<Rightarrow> string \<Rightarrow> string \<Rightarrow> int \<Rightarrow> int option \<Rightarrow> user_table \<Rightarrow> (store_error + user_row) \<times> user_table" where
  "insert_user fault username password_hash created_at expires_at t =
     (case fault of
        Some e \<Rightarrow> (Inl e, t)
      | None \<Rightarrow>
          if list_ex (\<lambda>r. us_username r = username) (us_rows t) then (Inl SqliteConstraint, t)
          else
            (let r = \<lparr> us_id = us_seq t + 1, us_username = username,
                       us_password_hash = password_hash, us_created_at = created_at,
                       us_disabled = False, us_expires_at = expires_at, us_last_used_at = None \<rparr>
             in (Inr r, t\<lparr> us_rows := us_rows t @ [r], us_seq := us_id r \<rparr>)))"

definition get_user_by_username :: "fault \<Rightarrow> string \<Rightarrow> user_table \<Rightarrow> store_error + user_row option" where
  "get_user_by_username fault username t =
     (case fault of Some e \<Rightarrow> Inl e | None \<Rightarrow> Inr (find (\<lambda>r. us_username r = username) (us_rows t)))"

definition get_user_by_id :: "fault \<Rightarrow> int \<Rightarrow> user_table \<Rightarrow> store_error + user_row option" where
  "get_user_by_id fault uid t =
     (case fault of Some e \<Rightarrow> Inl e | None \<Rightarrow> Inr (find (\<lambda>r. us_id r = uid) (us_rows t)))"

definition store_list_users :: "fault \<Rightarrow> user_table \<Rightarrow> store_error + user_row list" where
  "store_list_users fault t = (case fault of Some e \<Rightarrow> Inl e | None \<Rightarrow> Inr (us_rows t))"

definition store_delete_user ::
  "fault \<Rightarrow> string \<Rightarrow> user_table \<Rightarrow> (store_error + bool) \<times> user_table" where
  "store_delete_user fault username t =
     (case fault of
        Some e \<Rightarrow> (Inl e, t)
      | None \<Rightarrow> (Inr (list_ex (\<lambda>r. us_username r = username) (us_rows t)),
                t\<lparr> us_rows := filter (\<lambda>r. us_username r \<noteq> username) (us_rows t) \<rparr>))"

text \<open>\<open>UPDATE users SET ... WHERE username = ...\<close>, with whether a row was hit.\<close>

definition update_user ::
  "fault \<Rightarrow> string \<Rightarrow> (user_row \<Rightarrow> user_row) \<Rightarrow> user_table \<Rightarrow> (store_error + bool) \<times> user_table" where
  "update_user fault username f t =
     (case fault of
        Some e \<Rightarrow> (Inl e, t)
      | None \<Rightarrow> (Inr (list_ex (\<lambda>r. us_username r = username) (us_rows t)),
                t\<lparr> us_rows := map (\<lambda>r. if us_username r = username then f r else r) (us_rows t) \<rparr>))"

definition set_user_disabled ::
  "fault \<Rightarrow> string \<Rightarrow> bool \<Rightarrow> user_table \<Rightarrow> (store_error + bool) \<times> user_table" where
  "set_user_disabled fault username disabled =
     update_user fault username (\<lambda>r. r\<lparr> us_disabled := disabled \<rparr>)"

definition update_user_password ::
  "fault \<Rightarrow> string \<Rightarrow> string \<Rightarrow> user_table \<Rightarrow> (store_error + bool) \<times> user_table" where
  "update_user_password fault username password_hash =
     update_user fault username (\<lambda>r. r\<lparr> us_password_hash := password_hash \<rparr>)"

definition touch_user_last_used ::
  "fault \<Rightarrow> int \<Rightarrow> int \<Rightarrow> user_table \<Rightarrow> (store_error + unit) \<times> user_table" where
  "touch_user_last_used fault uid ts t =
     (case fault of
        Some e \<Rightarrow> (Inl e, t)
      | None \<Rightarrow> (Inr (), t\<lparr> us_rows :=
          map (\<lambda>r. if us_id r = uid then r\<lparr> us_last_used_at := Some ts \<rparr> else r) (us_rows t) \<rparr>))"

definition user_table_ok :: "user_table \<Rightarrow> bool" where
  "user_table_ok t \<longleftrightarrow>
     distinct (map us_id (us_rows t)) \<and> list_all (\<lambda>r. us_id r \<le> us_seq t) (us_rows t)
     \<and> distinct (map us_username (us_rows t))"

interpretation us: keyed_table us_rows us_username user_table_ok
  by unfold_locales (simp add: user_table_ok_def)

lemma user_table_ok_insert:
  assumes "user_table_ok t"
  shows "user_table_ok (snd (insert_user f u h c ex t))"
proof -
  have "\<forall>r \<in> set (us_rows t). us_id r \<le> us_seq t"
    using assms by (simp add: user_table_ok_def list_all_iff)
  then have "us_seq t + 1 \<notin> us_id ` set (us_rows t)" "\<forall>r \<in> set (us_rows t). us_id r \<le> us_seq t + 1"
    by force+
  then show ?thesis
    using assms
    by (auto simp: insert_user_def user_table_ok_def list_ex_iff list_all_iff Let_def
        split: option.splits)
qed

lemma user_table_ok_delete:
  "user_table_ok t \<Longrightarrow> user_table_ok (snd (store_delete_user f u t))"
  by (auto simp: store_delete_user_def user_table_ok_def list_all_iff distinct_map_filter
      split: option.splits)

lemma user_table_ok_update:
  assumes "user_table_ok t" "\<And>r. us_id (g r) = us_id r" "\<And>r. us_username (g r) = us_username r"
  shows "user_table_ok (snd (update_user f u g t))"
proof -
  have "map us_id (map (\<lambda>r. if us_username r = u then g r else r) rs) = map us_id rs"
    "map us_username (map (\<lambda>r. if us_username r = u then g r else r) rs) = map us_username rs" for rs
    using assms(2,3) by (induction rs) auto
  with assms show ?thesis
    by (auto simp: update_user_def user_table_ok_def list_all_iff simp del: map_map
        split: option.splits)
qed

section \<open>Routes\<close>

record route_row =
  rt_name :: string
  rt_target_host :: string
  rt_upstream :: "string option"
  rt_override_upstream :: "string option"
  rt_backup_upstream :: "string option"
  rt_enabled :: bool
  rt_created_at :: nat

record new_route =
  nr_name :: string
  nr_target_host :: string
  nr_override_upstream :: "string option"
  nr_backup_upstream :: "string option"

type_synonym route_rows = "route_row list"

definition insert_route :: "fault \<Rightarrow> nat \<Rightarrow> new_route \<Rightarrow> route_rows \<Rightarrow> (store_error + unit) \<times> route_rows" where
  "insert_route fault now r t =
     (case fault of
        Some e \<Rightarrow> (Inl e, t)
      | None \<Rightarrow>
          if list_ex (\<lambda>x. rt_name x = nr_name r) t then (Inl SqliteConstraint, t)
          else (Inr (), t @ [\<lparr> rt_name = nr_name r, rt_target_host = nr_target_host r,
                              rt_upstream = None, rt_override_upstream = nr_override_upstream r,
                              rt_backup_upstream = nr_backup_upstream r, rt_enabled = True,
                              rt_created_at = now \<rparr>]))"

text \<open>\<open>ORDER BY name\<close> compares the bytes.\<close>

definition list_routes :: "fault \<Rightarrow> route_rows \<Rightarrow> store_error + route_row list" where
  "list_routes fault t = (case fault of Some e \<Rightarrow> Inl e | None \<Rightarrow> Inr (sort_key rt_name t))"

definition get_route :: "fault \<Rightarrow> string \<Rightarrow> route_rows \<Rightarrow> store_error + route_row option" where
  "get_route fault name t =
     (case fault of Some e \<Rightarrow> Inl e | None \<Rightarrow> Inr (find (\<lambda>r. rt_name r = name) t))"

definition update_route_row ::
  "string option option \<Rightarrow> string option option \<Rightarrow> bool option \<Rightarrow> route_row \<Rightarrow> route_row" where
  "update_route_row override_upstream backup_upstream enabled r =
     r\<lparr> rt_override_upstream := (case override_upstream of None \<Rightarrow> rt_override_upstream r | Some v \<Rightarrow> v),
        rt_backup_upstream := (case backup_upstream of None \<Rightarrow> rt_backup_upstream r | Some v \<Rightarrow> v),
        rt_enabled := (case enabled of None \<Rightarrow> rt_enabled r | Some v \<Rightarrow> v) \<rparr>"

definition store_update_route ::
  "fault \<Rightarrow> string \<Rightarrow> string option option \<Rightarrow> string option option \<Rightarrow> bool option \<Rightarrow> route_rows
   \<Rightarrow> (store_error + bool) \<times> route_rows" where
  "store_update_route fault name override_upstream backup_upstream enabled t =
     (if override_upstream = None \<and> backup_upstream = None \<and> enabled = None
      then (case get_route fault name t of Inl e \<Rightarrow> (Inl e, t) | Inr r \<Rightarrow> (Inr (r \<noteq> None), t))
      else
        (case fault of
           Some e \<Rightarrow> (Inl e, t)
         | None \<Rightarrow>
             (Inr (list_ex (\<lambda>r. rt_name r = name) t),
              map (\<lambda>r. if rt_name r = name
                       then update_route_row override_upstream backup_upstream enabled r else r) t)))"

definition store_delete_route :: "fault \<Rightarrow> string \<Rightarrow> route_rows \<Rightarrow> (store_error + bool) \<times> route_rows" where
  "store_delete_route fault name t =
     (case fault of
        Some e \<Rightarrow> (Inl e, t)
      | None \<Rightarrow> (Inr (list_ex (\<lambda>r. rt_name r = name) t), filter (\<lambda>r. rt_name r \<noteq> name) t))"

definition route_rows_ok :: "route_rows \<Rightarrow> bool" where
  "route_rows_ok t \<longleftrightarrow> distinct (map rt_name t)"

interpretation rt: keyed_table "sort_key rt_name" rt_name route_rows_ok
  by unfold_locales (simp add: route_rows_ok_def distinct_map)

lemma route_rows_ok_insert: "route_rows_ok t \<Longrightarrow> route_rows_ok (snd (insert_route f now r t))"
  by (auto simp: insert_route_def route_rows_ok_def list_ex_iff split: option.splits)

lemma rt_name_update [simp]: "rt_name (update_route_row a b c r) = rt_name r"
  by (simp add: update_route_row_def)

lemma route_rows_ok_update: "route_rows_ok t \<Longrightarrow> route_rows_ok (snd (store_update_route f n a b c t))"
proof -
  have "map rt_name (map (\<lambda>r. if rt_name r = n then update_route_row a b c r else r) t) = map rt_name t"
    by (induction t) auto
  then show "route_rows_ok t \<Longrightarrow> ?thesis"
    by (auto simp: store_update_route_def route_rows_ok_def get_route_def simp del: map_map
        split: option.splits)
qed

lemma route_rows_ok_delete: "route_rows_ok t \<Longrightarrow> route_rows_ok (snd (store_delete_route f n t))"
  by (auto simp: store_delete_route_def route_rows_ok_def distinct_map_filter split: option.splits)

end
