(* ===== verification/Usage.thy ===== *)
theory Usage
  imports Store "HOL-Library.Multiset" "HOL-Library.AList" "HOL-Library.Product_Lexorder"
begin

text \<open>
  Usage counting: \<open>UsageTracker\<close> of \<open>crates/core/src/usage.rs\<close> and the hourly table of
  \<open>crates/core/src/store/usage.rs\<close>.  Requests are counted in a concurrent map; a flush
  drains it shard by shard while requests go on, writes the drained counts in one
  transaction, and puts them back if that fails.  The two concurrent maps are association
  lists (their iteration order is arbitrary and does not matter).
\<close>

section \<open>Counters\<close>

type_synonym usage_key = "string \<times> int"

text \<open>\<open>UsageDelta\<close>, and \<open>Counters\<close>, which has the same three numbers.\<close>

record usage_delta =
  d_requests :: nat
  d_bytes_in :: nat
  d_bytes_out :: nat

definition zero_delta :: usage_delta where
  "zero_delta = \<lparr> d_requests = 0, d_bytes_in = 0, d_bytes_out = 0 \<rparr>"

text \<open>\<open>Counters::add\<close>: three \<open>fetch_add\<close>s.\<close>

definition counters_add :: "usage_delta \<Rightarrow> usage_delta \<Rightarrow> usage_delta" where
  "counters_add c d = \<lparr> d_requests = wrap_add64 (d_requests c) (d_requests d),
     d_bytes_in = wrap_add64 (d_bytes_in c) (d_bytes_in d),
     d_bytes_out = wrap_add64 (d_bytes_out c) (d_bytes_out d) \<rparr>"

type_synonym live = "(usage_key \<times> usage_delta) list"

text \<open>\<open>entry(k).or_default()\<close> followed by an addition.\<close>

definition entry_add :: "usage_key \<Rightarrow> usage_delta \<Rightarrow> live \<Rightarrow> live" where
  "entry_add k d l =
     AList.update k (counters_add (case map_of l k of Some c \<Rightarrow> c | None \<Rightarrow> zero_delta) d) l"

definition record_request :: "usage_key \<Rightarrow> nat \<Rightarrow> live \<Rightarrow> live" where
  "record_request k bytes_in l =
     entry_add k \<lparr> d_requests = 1, d_bytes_in = bytes_in, d_bytes_out = 0 \<rparr> l"

definition record_bytes_out :: "usage_key \<Rightarrow> nat \<Rightarrow> live \<Rightarrow> live" where
  "record_bytes_out k n l =
     entry_add k \<lparr> d_requests = 0, d_bytes_in = 0, d_bytes_out = n \<rparr> l"

text \<open>One shard of \<open>drain\<close>: \<open>retain\<close> holds the lock of the shard, copies every entry of it
  to the snapshot and erases it.\<close>

definition drain_shard :: "(usage_key \<Rightarrow> bool) \<Rightarrow> live \<Rightarrow> live \<Rightarrow> live \<times> live" where
  "drain_shard in_shard out l =
     (foldl (\<lambda>b (k, c). AList.update k c b) out (filter (\<lambda>(k, _). in_shard k) l),
      filter (\<lambda>(k, _). \<not> in_shard k) l)"

text \<open>\<open>merge_back\<close>: \<open>and_modify\<close> adds to an entry made meanwhile, \<open>or_insert_with\<close> restores
  a missing one.\<close>

definition merge_back :: "live \<Rightarrow> live \<Rightarrow> live" where
  "merge_back drained l =
     foldl (\<lambda>l (k, d). AList.update k (case map_of l k of Some c \<Rightarrow> counters_add c d | None \<Rightarrow> d) l) l drained"

section \<open>The hourly table\<close>

text \<open>A cell is \<open>None\<close> once an addition has left the range of SQLite integers: SQLite then
  stores a floating-point number, which cannot be read as an integer again.\<close>

definition sql_add :: "int option \<Rightarrow> int option \<Rightarrow> int option" where
  "sql_add a b =
     (case (a, b) of
        (Some x, Some y) \<Rightarrow> if i64_min \<le> x + y \<and> x + y \<le> i64_max then Some (x + y) else None
      | _ \<Rightarrow> None)"

record usage_cell_row =
  uc_ts :: int
  uc_key :: usage_key
  uc_requests :: "int option"
  uc_bytes_in :: "int option"
  uc_bytes_out :: "int option"

definition usage_pk :: "usage_cell_row \<Rightarrow> int \<times> usage_key" where
  "usage_pk r = (uc_ts r, uc_key r)"

definition add_row :: "usage_cell_row \<Rightarrow> usage_cell_row \<Rightarrow> usage_cell_row" where
  "add_row r x = x\<lparr> uc_requests := sql_add (uc_requests x) (uc_requests r),
     uc_bytes_in := sql_add (uc_bytes_in x) (uc_bytes_in r),
     uc_bytes_out := sql_add (uc_bytes_out x) (uc_bytes_out r) \<rparr>"

definition upsert_row :: "usage_cell_row list \<Rightarrow> usage_cell_row \<Rightarrow> usage_cell_row list" where
  "upsert_row rows r =
     (if list_ex (\<lambda>x. usage_pk x = usage_pk r) rows
      then map (\<lambda>x. if usage_pk x = usage_pk r then add_row r x else x) rows
      else rows @ [r])"

definition hour_floor :: "nat \<Rightarrow> nat" where
  "hour_floor ts = ts - ts mod 3600"

definition delta_row :: "nat \<Rightarrow> usage_key \<times> usage_delta \<Rightarrow> usage_cell_row" where
  "delta_row now kd = \<lparr> uc_ts = as_i64 (hour_floor now), uc_key = fst kd,
     uc_requests = Some (as_i64 (d_requests (snd kd))), uc_bytes_in = Some (as_i64 (d_bytes_in (snd kd))),
     uc_bytes_out = Some (as_i64 (d_bytes_out (snd kd))) \<rparr>"

text \<open>\<open>upsert_usage\<close>: one transaction, so a fault leaves the table as it was.\<close>

definition upsert_usage ::
  "fault \<Rightarrow> nat \<Rightarrow> live \<Rightarrow> usage_cell_row list \<Rightarrow> (store_error + unit) \<times> usage_cell_row list" where
  "upsert_usage fault now drained rows =
     (case fault of
        Some e \<Rightarrow> (Inl e, rows)
      | None \<Rightarrow> (Inr (), foldl upsert_row rows (map (delta_row now) drained)))"

definition usage_match :: "nat \<Rightarrow> string option \<Rightarrow> int option \<Rightarrow> usage_cell_row \<Rightarrow> bool" where
  "usage_match since_hour route token_id r \<longleftrightarrow> uc_ts r \<ge> as_i64 since_hour
     \<and> opt_all (\<lambda>x. fst (uc_key r) = x) route \<and> opt_all (\<lambda>t. snd (uc_key r) = t) token_id"

definition cell_u64 :: "int option \<Rightarrow> store_error + nat" where
  "cell_u64 c = (case c of Some i \<Rightarrow> Inr (as_u64 i) | None \<Rightarrow> Inl SqliteOther)"

text \<open>\<open>map_usage\<close> and \<open>query_usage\<close>: the first unreadable cell ends the query.\<close>

definition map_usage :: "usage_cell_row \<Rightarrow> store_error + (usage_key \<times> usage_delta)" where
  "map_usage r =
     (case (cell_u64 (uc_requests r), cell_u64 (uc_bytes_in r), cell_u64 (uc_bytes_out r)) of
        (Inr a, Inr b, Inr c) \<Rightarrow> Inr (uc_key r, \<lparr> d_requests = a, d_bytes_in = b, d_bytes_out = c \<rparr>)
      | _ \<Rightarrow> Inl SqliteOther)"

fun collect_rows :: "('a \<Rightarrow> 'e + 'b) \<Rightarrow> 'a list \<Rightarrow> 'e + 'b list" where
  "collect_rows f [] = Inr []"
| "collect_rows f (x # xs) =
     (case f x of Inl e \<Rightarrow> Inl e
      | Inr y \<Rightarrow> (case collect_rows f xs of Inl e \<Rightarrow> Inl e | Inr ys \<Rightarrow> Inr (y # ys)))"

definition query_usage ::
  "fault \<Rightarrow> nat \<Rightarrow> string option \<Rightarrow> int option \<Rightarrow> usage_cell_row list
   \<Rightarrow> store_error + (usage_key \<times> usage_delta) list" where
  "query_usage fault since_hour route token_id rows =
     (case fault of
        Some e \<Rightarrow> Inl e
      | None \<Rightarrow> collect_rows map_usage
          (sort_key usage_pk (filter (usage_match since_hour route token_id) rows)))"

section \<open>The tracker\<close>

text \<open>A flush in progress: the shards drained so far and the snapshot.\<close>

record flight =
  fl_next :: nat
  fl_batch :: live

record tracker =
  ut_live :: live
  ut_db :: "usage_cell_row list"
  ut_flights :: "flight list"

text \<open>\<open>query\<close>: the table and the live counts, summed per key and in the order of keys.\<close>

definition query ::
  "fault \<Rightarrow> nat \<Rightarrow> string option \<Rightarrow> int option \<Rightarrow> tracker \<Rightarrow> store_error + (usage_key \<times> usage_delta) list" where
  "query fault since_hour route token_id t =
     (case query_usage fault since_hour route token_id (ut_db t) of
        Inl e \<Rightarrow> Inl e
      | Inr db_rows \<Rightarrow>
          (let agg = foldl (\<lambda>a (k, d). entry_add k d a) [] db_rows;
               keep = (\<lambda>(k, _). opt_all (\<lambda>x. fst k = x) route \<and> opt_all (\<lambda>t. snd k = t) token_id)
           in Inr (sort_key fst (foldl (\<lambda>a (k, d). entry_add k d a) agg (filter keep (ut_live t))))))"

text \<open>What happens to a tracker: a request, a response chunk, the start of a flush, the
  draining of its next shard, and its end with the outcome of the transaction.\<close>

datatype usage_event =
    Request usage_key nat
  | BytesOut usage_key nat
  | FlushStart
  | FlushShard nat
  | FlushEnd nat nat fault

definition flush_end :: "nat \<Rightarrow> fault \<Rightarrow> live \<Rightarrow> tracker \<Rightarrow> (store_error + nat) \<times> tracker" where
  "flush_end now fault drained t =
     (if drained = [] then (Inr 0, t)
      else (case upsert_usage fault now drained (ut_db t) of
        (Inr _, db) \<Rightarrow> (Inr (length drained), t\<lparr> ut_db := db \<rparr>)
      | (Inl e, _) \<Rightarrow> (Inl e, t\<lparr> ut_live := merge_back drained (ut_live t) \<rparr>)))"

text \<open>The map has \<open>N\<close> shards; a step that is not possible in a state leaves it.\<close>

definition usage_step :: "(usage_key \<Rightarrow> nat) \<Rightarrow> nat \<Rightarrow> usage_event \<Rightarrow> tracker \<Rightarrow> tracker" where
  "usage_step shard N e t =
     (case e of
        Request k n \<Rightarrow> t\<lparr> ut_live := record_request k n (ut_live t) \<rparr>
      | BytesOut k n \<Rightarrow> t\<lparr> ut_live := record_bytes_out k n (ut_live t) \<rparr>
      | FlushStart \<Rightarrow> t\<lparr> ut_flights := ut_flights t @ [\<lparr> fl_next = 0, fl_batch = [] \<rparr>] \<rparr>
      | FlushShard j \<Rightarrow>
          if j < length (ut_flights t) \<and> fl_next (ut_flights t ! j) < N then
            (let f = ut_flights t ! j;
                 (out, rest) = drain_shard (\<lambda>k. shard k = fl_next f) (fl_batch f) (ut_live t)
             in t\<lparr> ut_live := rest,
                   ut_flights := (ut_flights t)[j := \<lparr> fl_next = fl_next f + 1, fl_batch = out \<rparr>] \<rparr>)
          else t
      | FlushEnd j now fault \<Rightarrow>
          if j < length (ut_flights t) \<and> fl_next (ut_flights t ! j) = N then
            snd (flush_end now fault (fl_batch (ut_flights t ! j))
                   (t\<lparr> ut_flights := take j (ut_flights t) @ drop (Suc j) (ut_flights t) \<rparr>))
          else t)"

definition tracker_new :: tracker where
  "tracker_new = \<lparr> ut_live = [], ut_db = [], ut_flights = [] \<rparr>"

section \<open>Lemmas\<close>

datatype metric = Requests | BytesIn | BytesOutM

fun dget :: "metric \<Rightarrow> usage_delta \<Rightarrow> nat" where
  "dget Requests d = d_requests d"
| "dget BytesIn d = d_bytes_in d"
| "dget BytesOutM d = d_bytes_out d"

fun cell :: "metric \<Rightarrow> usage_cell_row \<Rightarrow> int option" where
  "cell Requests r = uc_requests r"
| "cell BytesIn r = uc_bytes_in r"
| "cell BytesOutM r = uc_bytes_out r"

lemma dget_simps [simp]:
  "dget m zero_delta = 0" "dget m (counters_add c d) = wrap_add64 (dget m c) (dget m d)"
  by (cases m; simp add: zero_delta_def counters_add_def)+

lemma cell_simps [simp]:
  "cell m (add_row r x) = sql_add (cell m x) (cell m r)"
  "cell m (delta_row now kd) = Some (as_i64 (dget m (snd kd)))"
  by (cases m; simp add: add_row_def delta_row_def)+

lemma row_key_simps [simp]:
  "uc_key (add_row r x) = uc_key x" "usage_pk (add_row r x) = usage_pk x" "uc_key (delta_row now kd) = fst kd"
  by (simp_all add: add_row_def usage_pk_def delta_row_def)

text \<open>The count of a key in a map, and in the table.\<close>

definition aval :: "metric \<Rightarrow> usage_key \<Rightarrow> live \<Rightarrow> nat" where
  "aval m k l = (case map_of l k of Some d \<Rightarrow> dget m d | None \<Rightarrow> 0)"

fun dval :: "metric \<Rightarrow> usage_key \<Rightarrow> usage_cell_row list \<Rightarrow> int" where
  "dval m k [] = 0"
| "dval m k (r # rs) = (if uc_key r = k then (case cell m r of Some v \<Rightarrow> v | None \<Rightarrow> 0) else 0) + dval m k rs"

definition cells_ok :: "metric \<Rightarrow> usage_key \<Rightarrow> usage_cell_row list \<Rightarrow> bool" where
  "cells_ok m k rs \<longleftrightarrow> list_all (\<lambda>r. uc_key r = k \<longrightarrow> (case cell m r of Some v \<Rightarrow> v \<ge> 0 | None \<Rightarrow> False)) rs"

lemma dval_nonneg: "cells_ok m k rs \<Longrightarrow> 0 \<le> dval m k rs"
  by (induction rs) (auto simp: cells_ok_def split: option.splits)

lemma aval_Nil [simp]: "aval m k [] = 0"
  by (simp add: aval_def)

lemma aval_absent: "k \<notin> fst ` set l \<Longrightarrow> aval m k l = 0"
  by (simp add: aval_def map_of_eq_None_iff [symmetric])

lemma aval_update [simp]: "aval m k (AList.update k' d l) = (if k = k' then dget m d else aval m k l)"
  by (simp add: aval_def update_conv)

lemma aval_entry_add:
  "aval m k' (entry_add k d l) = (if k' = k then wrap_add64 (aval m k l) (dget m d) else aval m k' l)"
  by (auto simp: entry_add_def aval_def update_conv split: option.splits)

lemma distinct_entry_add: "distinct (map fst l) \<Longrightarrow> distinct (map fst (entry_add k d l))"
  by (simp add: entry_add_def distinct_update)

lemma map_of_filter_key:
  "map_of (filter (\<lambda>(k, _). P k) l) k = (if P k then map_of l k else None)"
  by (induction l) auto

lemma distinct_filter_key: "distinct (map fst l) \<Longrightarrow> distinct (map fst (filter P l))"
  by (induction l) auto

lemma fold_insert_aval:
  assumes "distinct (map fst es)"
  shows "aval m k (foldl (\<lambda>b (k, c). AList.update k c b) out es)
    = (case map_of es k of Some d \<Rightarrow> dget m d | None \<Rightarrow> aval m k out)"
  using assms
proof (induction es arbitrary: out)
  case (Cons e es)
  then have "map_of es (fst e) = None" by (simp add: map_of_eq_None_iff)
  with Cons show ?case by (cases e) (auto split: option.splits)
qed simp

lemma fold_insert_keys:
  "fst ` set (foldl (\<lambda>b (k, c). AList.update k c b) out es) = fst ` set out \<union> fst ` set es"
proof (induction es arbitrary: out)
  case (Cons e es)
  then show ?case by (cases e) (simp add: dom_update)
qed simp

lemma fold_insert_distinct:
  "distinct (map fst out) \<Longrightarrow> distinct (map fst (foldl (\<lambda>b (k, c). AList.update k c b) out es))"
  by (induction es arbitrary: out) (auto simp: distinct_update)

lemma drain_shard_aval:
  assumes "drain_shard P out l = (out', rest)" "distinct (map fst l)" "\<forall>k \<in> fst ` set out. \<not> P k"
  shows "aval m k out' + aval m k rest = aval m k out + aval m k l"
proof -
  let ?es = "filter (\<lambda>(k, _). P k) l"
  have "aval m k out = 0" if "P k"
    using assms(3) that by (intro aval_absent) blast
  moreover have "aval m k out' = (case map_of ?es k of Some d \<Rightarrow> dget m d | None \<Rightarrow> aval m k out)"
    using assms(1) fold_insert_aval [OF distinct_filter_key [OF assms(2)], of m k out "\<lambda>(k, _). P k"]
    by (simp add: drain_shard_def)
  moreover have "rest = filter (\<lambda>(k, _). \<not> P k) l" using assms(1) by (simp add: drain_shard_def)
  ultimately show ?thesis
    by (auto simp: map_of_filter_key aval_def split: option.splits)
qed

lemma merge_back_aval:
  assumes "distinct (map fst drained)" "aval m k l + aval m k drained \<le> u64_max"
  shows "aval m k (merge_back drained l) = aval m k l + aval m k drained"
  using assms
proof (induction drained arbitrary: l)
  case (Cons e es)
  obtain k' d where e: "e = (k', d)" by (cases e)
  let ?l = "AList.update k' (case map_of l k' of Some c \<Rightarrow> counters_add c d | None \<Rightarrow> d) l"
  have step: "merge_back (e # es) l = merge_back es ?l" by (simp add: merge_back_def e)
  have "aval m k es = 0" if "k = k'"
    using Cons.prems(1) that by (intro aval_absent) (simp add: e)
  then have "aval m k ?l + aval m k es = aval m k l + aval m k (e # es)"
    using Cons.prems(2) by (auto simp: e aval_def update_conv split: option.splits)
  with Cons step show ?case by (simp del: aval_update)
qed (simp add: merge_back_def)

lemma merge_back_distinct: "distinct (map fst l) \<Longrightarrow> distinct (map fst (merge_back drained l))"
  by (induction drained arbitrary: l) (auto simp: merge_back_def distinct_update)

text \<open>The table.\<close>

lemma sql_add_small: "0 \<le> x \<Longrightarrow> 0 \<le> y \<Longrightarrow> x + y \<le> i64_max \<Longrightarrow> sql_add (Some x) (Some y) = Some (x + y)"
  by (simp add: sql_add_def)

lemma upsert_hit:
  assumes "distinct (map usage_pk rows)" "list_ex (\<lambda>x. usage_pk x = usage_pk r) rows" "cells_ok m (uc_key r) rows"
    and "cell m r = Some v" "0 \<le> v" "dval m (uc_key r) rows + v \<le> i64_max"
  shows "dval m (uc_key r) (map (\<lambda>x. if usage_pk x = usage_pk r then add_row r x else x) rows)
      = dval m (uc_key r) rows + v
    \<and> cells_ok m (uc_key r) (map (\<lambda>x. if usage_pk x = usage_pk r then add_row r x else x) rows)"
  using assms
proof (induction rows)
  case (Cons x rows)
  let ?f = "\<lambda>x. if usage_pk x = usage_pk r then add_row r x else x"
  have ok: "cells_ok m (uc_key r) rows" using Cons.prems(3) by (simp add: cells_ok_def)
  show ?case
  proof (cases "usage_pk x = usage_pk r")
    case True
    then have key: "uc_key x = uc_key r" by (simp add: usage_pk_def)
    with Cons.prems(3) obtain w where w: "cell m x = Some w" "0 \<le> w"
      by (auto simp: cells_ok_def split: option.splits)
    have rest: "map ?f rows = rows"
      using Cons.prems(1) True by (intro map_idI) (metis (lifting) distinct.simps(2) image_eqI list.set_map list.simps(9))
    have "w + v \<le> i64_max" using Cons.prems(6) dval_nonneg [OF ok] w key by simp
    then have "sql_add (cell m x) (cell m r) = Some (w + v)"
      using w Cons.prems(4,5) by (simp add: sql_add_small)
    with True key w rest Cons.prems(5) ok show ?thesis by (simp add: cells_ok_def)
  next
    case False
    have "dval m (uc_key r) rows \<le> dval m (uc_key r) (x # rows)"
      using Cons.prems(3) by (auto simp: cells_ok_def split: option.splits)
    with False Cons ok show ?thesis by (simp add: cells_ok_def)
  qed
qed simp

lemma dval_other:
  assumes "uc_key r \<noteq> k"
  shows "dval m k (upsert_row rows r) = dval m k rows" "cells_ok m k (upsert_row rows r) = cells_ok m k rows"
proof -
  have "dval m k (map (\<lambda>x. if usage_pk x = usage_pk r then add_row r x else x) rows) = dval m k rows"
    "cells_ok m k (map (\<lambda>x. if usage_pk x = usage_pk r then add_row r x else x) rows) = cells_ok m k rows"
    using assms by (induction rows) (auto simp: usage_pk_def cells_ok_def)
  moreover have "dval m k (rows @ [r]) = dval m k rows" using assms by (induction rows) auto
  ultimately show "dval m k (upsert_row rows r) = dval m k rows"
    "cells_ok m k (upsert_row rows r) = cells_ok m k rows"
    using assms by (auto simp: upsert_row_def cells_ok_def)
qed

lemma upsert_row_distinct: "distinct (map usage_pk rows) \<Longrightarrow> distinct (map usage_pk (upsert_row rows r))"
proof -
  assume d: "distinct (map usage_pk rows)"
  have "map usage_pk (map (\<lambda>x. if usage_pk x = usage_pk r then add_row r x else x) rows) = map usage_pk rows"
    by simp
  with d show ?thesis unfolding upsert_row_def by (auto simp: list_ex_iff simp del: map_map)
qed

lemma upsert_row_dval:
  assumes "distinct (map usage_pk rows)" "cells_ok m (uc_key r) rows"
    and "cell m r = Some v" "0 \<le> v" "dval m (uc_key r) rows + v \<le> i64_max"
  shows "dval m (uc_key r) (upsert_row rows r) = dval m (uc_key r) rows + v"
    "cells_ok m (uc_key r) (upsert_row rows r)"
proof -
  have "dval m (uc_key r) (rows @ [r]) = dval m (uc_key r) rows + v"
    using assms(3) by (induction rows) auto
  then show "dval m (uc_key r) (upsert_row rows r) = dval m (uc_key r) rows + v"
    "cells_ok m (uc_key r) (upsert_row rows r)"
    using upsert_hit [OF assms(1) _ assms(2-5)] assms(2-4) by (auto simp: upsert_row_def cells_ok_def)
qed

lemma upsert_all:
  assumes "distinct (map usage_pk rows)" "cells_ok m k rows" "distinct (map fst drained)"
    and "dval m k rows + int (aval m k drained) \<le> i64_max"
  shows "dval m k (foldl upsert_row rows (map (delta_row now) drained)) = dval m k rows + int (aval m k drained)
    \<and> cells_ok m k (foldl upsert_row rows (map (delta_row now) drained))
    \<and> distinct (map usage_pk (foldl upsert_row rows (map (delta_row now) drained)))"
  using assms
proof (induction drained arbitrary: rows)
  case (Cons e es)
  obtain k' d where e: "e = (k', d)" by (cases e)
  let ?rows = "upsert_row rows (delta_row now e)"
  have d: "distinct (map usage_pk ?rows)" using Cons.prems(1) by (rule upsert_row_distinct)
  show ?case
  proof (cases "k' = k")
    case True
    then have es: "aval m k es = 0" using Cons.prems(3) by (intro aval_absent) (simp add: e)
    have a: "aval m k (e # es) = dget m d" by (simp add: True e aval_def)
    have small: "as_i64 (dget m d) = int (dget m d)"
      using Cons.prems(4) a dval_nonneg [OF Cons.prems(2)] by (intro as_i64_small) simp
    have "dval m k ?rows = dval m k rows + int (dget m d)" "cells_ok m k ?rows"
      using upsert_row_dval [of rows m "delta_row now e" "int (dget m d)"] Cons.prems a small True
      by (simp_all add: e)
    with Cons.IH [OF d] Cons.prems(3,4) es a show ?thesis by simp
  next
    case False
    then have "aval m k (e # es) = aval m k es" by (simp add: e aval_def)
    moreover have "dval m k ?rows = dval m k rows" "cells_ok m k ?rows"
      using dval_other [of "delta_row now e" k m rows] False Cons.prems(2) by (simp_all add: e)
    ultimately show ?thesis using Cons.IH [OF d] Cons.prems(3,4) by simp
  qed
qed simp

text \<open>The tracker: shape and counts.\<close>

definition tracker_wf :: "(usage_key \<Rightarrow> nat) \<Rightarrow> tracker \<Rightarrow> bool" where
  "tracker_wf shard t \<longleftrightarrow> distinct (map fst (ut_live t)) \<and> distinct (map usage_pk (ut_db t))
     \<and> (\<forall>f \<in> set (ut_flights t). distinct (map fst (fl_batch f))
          \<and> (\<forall>k \<in> fst ` set (fl_batch f). shard k < fl_next f))"

definition flights_val :: "metric \<Rightarrow> usage_key \<Rightarrow> flight list \<Rightarrow> nat" where
  "flights_val m k fs = sum_list (map (\<lambda>f. aval m k (fl_batch f)) fs)"

text \<open>All that a tracker holds of a key: live, being flushed, and stored.\<close>

definition held :: "metric \<Rightarrow> usage_key \<Rightarrow> tracker \<Rightarrow> int" where
  "held m k t = int (aval m k (ut_live t)) + int (flights_val m k (ut_flights t)) + dval m k (ut_db t)"

text \<open>What an event records, and a history.\<close>

fun event_amount :: "metric \<Rightarrow> usage_key \<Rightarrow> usage_event \<Rightarrow> nat" where
  "event_amount m k (Request k' n) =
     (if k' = k then (case m of Requests \<Rightarrow> 1 | BytesIn \<Rightarrow> n | BytesOutM \<Rightarrow> 0) else 0)"
| "event_amount m k (BytesOut k' n) =
     (if k' = k then (case m of BytesOutM \<Rightarrow> n | _ \<Rightarrow> 0) else 0)"
| "event_amount m k _ = 0"

definition recorded :: "metric \<Rightarrow> usage_key \<Rightarrow> usage_event list \<Rightarrow> nat" where
  "recorded m k es = sum_list (map (event_amount m k) es)"

lemma flights_val_split:
  "j < length fs \<Longrightarrow>
   flights_val m k fs = aval m k (fl_batch (fs ! j)) + flights_val m k (take j fs @ drop (Suc j) fs)"
  unfolding flights_val_def by (subst id_take_nth_drop [of j fs]) simp_all

lemma flights_val_update:
  "j < length fs \<Longrightarrow>
   flights_val m k (fs[j := f]) + aval m k (fl_batch (fs ! j)) = flights_val m k fs + aval m k (fl_batch f)"
  using sum_list_filter_update [of j fs "\<lambda>f. aval m k (fl_batch f)" "\<lambda>_. True" f] by (simp add: flights_val_def)

definition step_ok :: "(usage_key \<Rightarrow> nat) \<Rightarrow> metric \<Rightarrow> usage_key \<Rightarrow> nat \<Rightarrow> tracker \<Rightarrow> tracker \<Rightarrow> bool" where
  "step_ok shard m k n t t' \<longleftrightarrow>
     tracker_wf shard t' \<and> cells_ok m k (ut_db t') \<and> held m k t' = held m k t + int n"

lemma aval_le_held: "cells_ok m k (ut_db t) \<Longrightarrow> int (aval m k (ut_live t)) \<le> held m k t"
  using dval_nonneg [of m k "ut_db t"] by (simp add: held_def)

lemma step_ok_record:
  assumes "tracker_wf shard t" "cells_ok m k (ut_db t)" "n = (if k' = k then dget m d else 0)"
    and "held m k t + int n \<le> i64_max"
  shows "step_ok shard m k n t (t\<lparr> ut_live := entry_add k' d (ut_live t) \<rparr>)"
proof -
  have "k' = k \<Longrightarrow> aval m k (ut_live t) + dget m d \<le> u64_max"
    using assms(3,4) aval_le_held [OF assms(2)] by simp
  then show ?thesis
    using assms(1-3) by (auto simp: step_ok_def tracker_wf_def held_def aval_entry_add distinct_entry_add)
qed

lemma step_ok_shard:
  assumes "tracker_wf shard t" "cells_ok m k (ut_db t)" "j < length (ut_flights t)"
    and "f = ut_flights t ! j" "drain_shard (\<lambda>k. shard k = fl_next f) (fl_batch f) (ut_live t) = (out, rest)"
  shows "step_ok shard m k 0 t (t\<lparr> ut_live := rest,
    ut_flights := (ut_flights t)[j := \<lparr> fl_next = fl_next f + 1, fl_batch = out \<rparr>] \<rparr>)"
proof -
  have f: "distinct (map fst (fl_batch f))" "\<forall>k \<in> fst ` set (fl_batch f). shard k < fl_next f"
    using assms(1,3,4) by (auto simp: tracker_wf_def)
  have live: "distinct (map fst (ut_live t))" using assms(1) by (simp add: tracker_wf_def)
  have out: "distinct (map fst out)" "distinct (map fst rest)"
    using assms(5) f(1) live fold_insert_distinct distinct_filter_key by (auto simp: drain_shard_def)
  have ks: "fst ` set out = fst ` set (fl_batch f) \<union> fst ` set (filter (\<lambda>(k, _). shard k = fl_next f) (ut_live t))"
    using assms(5) fold_insert_keys [of "fl_batch f" "filter (\<lambda>(k, _). shard k = fl_next f) (ut_live t)"]
    by (simp only: drain_shard_def prod.inject)
  have "\<forall>k \<in> fst ` set (filter (\<lambda>(k, _). shard k = fl_next f) (ut_live t)). shard k < fl_next f + 1"
    by auto
  moreover have "\<forall>k \<in> fst ` set (fl_batch f). shard k < fl_next f + 1" using f(2) trans_less_add1 by blast
  ultimately have keys: "\<forall>k \<in> fst ` set out. shard k < fl_next f + 1" by (simp only: ks ball_Un)
  have "aval m k out + aval m k rest = aval m k (fl_batch f) + aval m k (ut_live t)"
    using drain_shard_aval [OF assms(5) live] f(2) by fastforce
  moreover have "flights_val m k ((ut_flights t)[j := \<lparr> fl_next = fl_next f + 1, fl_batch = out \<rparr>]) + aval m k (fl_batch f)
      = flights_val m k (ut_flights t) + aval m k out"
    using flights_val_update [OF assms(3)] assms(4) by simp
  moreover have "\<forall>f' \<in> set ((ut_flights t)[j := \<lparr> fl_next = fl_next f + 1, fl_batch = out \<rparr>]).
      distinct (map fst (fl_batch f')) \<and> (\<forall>k \<in> fst ` set (fl_batch f'). shard k < fl_next f')"
  proof
    fix f' assume "f' \<in> set ((ut_flights t)[j := \<lparr> fl_next = fl_next f + 1, fl_batch = out \<rparr>])"
    then consider "f' = \<lparr> fl_next = fl_next f + 1, fl_batch = out \<rparr>" | "f' \<in> set (ut_flights t)"
      using set_update_subset_insert by fast
    then show "distinct (map fst (fl_batch f')) \<and> (\<forall>k \<in> fst ` set (fl_batch f'). shard k < fl_next f')"
      using assms(1) out(1) keys unfolding tracker_wf_def by cases simp_all
  qed
  ultimately show ?thesis
    using assms(1,2) out by (auto simp: step_ok_def tracker_wf_def held_def)
qed

lemma step_ok_end:
  assumes "tracker_wf shard t" "cells_ok m k (ut_db t)" "j < length (ut_flights t)" "held m k t \<le> i64_max"
  shows "step_ok shard m k 0 t (snd (flush_end now fault (fl_batch (ut_flights t ! j))
    (t\<lparr> ut_flights := take j (ut_flights t) @ drop (Suc j) (ut_flights t) \<rparr>)))"
proof -
  let ?b = "fl_batch (ut_flights t ! j)" and ?fs = "take j (ut_flights t) @ drop (Suc j) (ut_flights t)"
  have b: "distinct (map fst ?b)" using assms(1,3) by (auto simp: tracker_wf_def)
  have sub: "set ?fs \<subseteq> set (ut_flights t)" by (auto dest: in_set_takeD in_set_dropD)
  have sum: "flights_val m k (ut_flights t) = aval m k ?b + flights_val m k ?fs"
    by (rule flights_val_split [OF assms(3)])
  have bound: "dval m k (ut_db t) + int (aval m k ?b) \<le> i64_max"
    "aval m k (ut_live t) + aval m k ?b \<le> u64_max"
    using assms(4) sum dval_nonneg [OF assms(2)] by (simp_all add: held_def)
  have wf: "tracker_wf shard (t\<lparr> ut_flights := ?fs \<rparr>)" using assms(1) sub by (auto simp: tracker_wf_def)
  consider "?b = []" | (ok) "?b \<noteq> []" "fault = None" | (err) e where "?b \<noteq> []" "fault = Some e" by (cases fault) auto
  then show ?thesis
  proof cases
    case 1
    with wf assms(2) sum show ?thesis by (simp add: flush_end_def step_ok_def held_def)
  next
    case ok
    note u = upsert_all [OF _ assms(2) b bound(1), of now]
    have "distinct (map usage_pk (ut_db t))" using assms(1) by (simp add: tracker_wf_def)
    from u [OF this] ok wf sum show ?thesis
      by (simp add: flush_end_def upsert_usage_def step_ok_def held_def tracker_wf_def)
  next
    case err
    have "distinct (map fst (merge_back ?b (ut_live t)))"
      using assms(1) by (simp add: tracker_wf_def merge_back_distinct)
    with err wf sum assms(2) merge_back_aval [OF b bound(2)] show ?thesis
      by (simp add: flush_end_def upsert_usage_def step_ok_def held_def tracker_wf_def)
  qed
qed

lemma usage_step_ok:
  assumes "tracker_wf shard t" "cells_ok m k (ut_db t)" "held m k t + int (event_amount m k e) \<le> i64_max"
  shows "step_ok shard m k (event_amount m k e) t (usage_step shard N e t)"
proof (cases e)
  case (Request k' n)
  have "event_amount m k e
      = (if k' = k then dget m \<lparr> d_requests = 1, d_bytes_in = n, d_bytes_out = 0 \<rparr> else 0)"
    by (cases m) (simp_all add: Request)
  from step_ok_record [OF assms(1,2) this assms(3)] show ?thesis
    by (simp add: Request usage_step_def record_request_def)
next
  case (BytesOut k' n)
  have "event_amount m k e
      = (if k' = k then dget m \<lparr> d_requests = 0, d_bytes_in = 0, d_bytes_out = n \<rparr> else 0)"
    by (cases m) (simp_all add: BytesOut)
  from step_ok_record [OF assms(1,2) this assms(3)] show ?thesis
    by (simp add: BytesOut usage_step_def record_bytes_out_def)
next
  case FlushStart
  with assms show ?thesis
    by (auto simp: usage_step_def step_ok_def tracker_wf_def held_def flights_val_def)
next
  case (FlushShard j)
  have stay: "step_ok shard m k 0 t t" using assms(1,2) by (simp add: step_ok_def)
  obtain out rest where d: "drain_shard (\<lambda>k. shard k = fl_next (ut_flights t ! j)) (fl_batch (ut_flights t ! j)) (ut_live t) = (out, rest)"
    by fastforce
  with stay step_ok_shard [OF assms(1,2) _ refl d] show ?thesis
    by (simp add: FlushShard usage_step_def Let_def)
next
  case (FlushEnd j now fault)
  have stay: "step_ok shard m k 0 t t" using assms(1,2) by (simp add: step_ok_def)
  with step_ok_end [OF assms(1,2)] assms(3) show ?thesis by (simp add: FlushEnd usage_step_def)
qed

lemma usage_run_ok:
  assumes "int (recorded m k es) \<le> i64_max"
  shows "step_ok shard m k (recorded m k es) tracker_new (fold (usage_step shard N) es tracker_new)"
  using assms
proof (induction es rule: rev_induct)
  case Nil
  show ?case by (simp add: step_ok_def tracker_wf_def tracker_new_def cells_ok_def recorded_def)
next
  case (snoc e es)
  let ?t = "fold (usage_step shard N) es tracker_new"
  have rec: "recorded m k (es @ [e]) = recorded m k es + event_amount m k e" by (simp add: recorded_def)
  have h0: "held m k tracker_new = 0" by (simp add: held_def tracker_new_def flights_val_def)
  from snoc rec have "step_ok shard m k (recorded m k es) tracker_new ?t" by simp
  then have "tracker_wf shard ?t" "cells_ok m k (ut_db ?t)" "held m k ?t = int (recorded m k es)"
    using h0 by (auto simp: step_ok_def)
  with usage_step_ok [of shard ?t m k e N] snoc.prems rec h0 show ?case by (simp add: step_ok_def)
qed

text \<open>Aggregation of a list of counts.\<close>

definition psum :: "metric \<Rightarrow> usage_key \<Rightarrow> (usage_key \<times> usage_delta) list \<Rightarrow> nat" where
  "psum m k ps = sum_list (map (\<lambda>p. if fst p = k then dget m (snd p) else 0) ps)"

lemma psum_aval: "distinct (map fst l) \<Longrightarrow> psum m k l = aval m k l"
proof (induction l)
  case (Cons p l)
  then show ?case using aval_absent [of k l m] by (cases p) (auto simp: psum_def aval_def)
qed (simp add: psum_def)

lemma aggregate_aval:
  "aval m k acc + psum m k ps \<le> u64_max \<Longrightarrow>
   aval m k (foldl (\<lambda>a (k, d). entry_add k d a) acc ps) = aval m k acc + psum m k ps"
proof (induction ps arbitrary: acc)
  case (Cons p ps)
  obtain k' d where p: "p = (k', d)" by (cases p)
  have "aval m k (entry_add k' d acc) + psum m k ps = aval m k acc + psum m k (p # ps)"
    using Cons.prems by (auto simp: p aval_entry_add psum_def)
  with Cons show ?case by (simp add: p)
qed (simp add: psum_def)

lemma aggregate_distinct:
  "distinct (map fst acc) \<Longrightarrow> distinct (map fst (foldl (\<lambda>a (k, d). entry_add k d a) acc ps))"
  by (induction ps arbitrary: acc) (auto simp: distinct_entry_add)

lemma distinct_sort_keys: "distinct (map fst l) \<Longrightarrow> distinct (map fst (sort_key fst l))"
  by (metis mset_map mset_sort mset_eq_imp_distinct_iff)

lemma aval_sort: "distinct (map fst l) \<Longrightarrow> aval m k (sort_key fst l) = aval m k l"
proof -
  assume d: "distinct (map fst l)"
  note d' = distinct_sort_keys [OF d]
  have "map_of (sort_key fst l) k = Some v \<longleftrightarrow> map_of l k = Some v" for v
    by (simp add: map_of_eq_Some_iff [OF d] map_of_eq_Some_iff [OF d'])
  then have "map_of (sort_key fst l) k = map_of l k" by (metis not_Some_eq)
  then show ?thesis by (simp add: aval_def)
qed

lemma dval_sum_list:
  "dval m k rs = sum_list (map (\<lambda>r. if uc_key r = k then (case cell m r of Some v \<Rightarrow> v | None \<Rightarrow> 0) else 0) rs)"
  by (induction rs) auto

lemma dval_sort: "dval m k (sort_key f rs) = dval m k rs"
  unfolding dval_sum_list by (simp flip: sum_mset_sum_list)

definition rows_ok :: "usage_cell_row list \<Rightarrow> bool" where
  "rows_ok rs \<longleftrightarrow> (\<forall>r \<in> set rs. \<forall>m. \<exists>v. cell m r = Some v \<and> 0 \<le> v \<and> v \<le> i64_max)"

lemma map_usage_ok:
  assumes "\<forall>m. \<exists>v. cell m r = Some v \<and> 0 \<le> v \<and> v \<le> i64_max"
  shows "\<exists>d. map_usage r = Inr (uc_key r, d) \<and> (\<forall>m. cell m r = Some (int (dget m d)))"
proof -
  obtain a b c where abc: "cell Requests r = Some a" "0 \<le> a" "a \<le> i64_max"
    "cell BytesIn r = Some b" "0 \<le> b" "b \<le> i64_max" "cell BytesOutM r = Some c" "0 \<le> c" "c \<le> i64_max"
    using assms by metis
  let ?d = "\<lparr> d_requests = nat a, d_bytes_in = nat b, d_bytes_out = nat c \<rparr>"
  have "cell m r = Some (int (dget m ?d))" for m using abc by (cases m) simp_all
  moreover have "map_usage r = Inr (uc_key r, ?d)" using abc by (simp add: map_usage_def cell_u64_def)
  ultimately show ?thesis by blast
qed

lemma collect_rows_ok:
  assumes "rows_ok rs"
  shows "\<exists>ps. collect_rows map_usage rs = Inr ps \<and> (\<forall>m k. int (psum m k ps) = dval m k rs)"
  using assms
proof (induction rs)
  case (Cons r rs)
  then obtain ps where ps: "collect_rows map_usage rs = Inr ps" "\<forall>m k. int (psum m k ps) = dval m k rs"
    by (auto simp: rows_ok_def)
  moreover obtain d where "map_usage r = Inr (uc_key r, d)" "\<forall>m. cell m r = Some (int (dget m d))"
    using map_usage_ok [of r] Cons.prems by (meson list.set_intros(1) rows_ok_def)
  ultimately show ?case by (auto simp: psum_def)
qed (simp add: psum_def)

text \<open>The hours in the table come from the clock.\<close>

fun clock_ok :: "usage_event \<Rightarrow> bool" where
  "clock_ok (FlushEnd _ now _) = (int now \<le> i64_max)"
| "clock_ok _ = True"

lemma upsert_ts:
  "\<forall>r \<in> set rows. P (uc_ts r) \<Longrightarrow> \<forall>r \<in> set rs. P (uc_ts r) \<Longrightarrow> \<forall>r \<in> set (foldl upsert_row rows rs). P (uc_ts r)"
proof (induction rs arbitrary: rows)
  case (Cons r rs)
  then have "\<forall>x \<in> set (upsert_row rows r). P (uc_ts x)" by (auto simp: upsert_row_def add_row_def)
  with Cons show ?case by simp
qed simp

lemma usage_step_ts:
  assumes "\<forall>r \<in> set (ut_db t). 0 \<le> uc_ts r" "clock_ok e"
  shows "\<forall>r \<in> set (ut_db (usage_step shard N e t)). 0 \<le> uc_ts r"
proof (cases e)
  case (FlushEnd j now fault)
  then have "int (hour_floor now) \<le> i64_max" using assms(2) by (simp add: hour_floor_def)
  then have "\<forall>r \<in> set (map (delta_row now) b). 0 \<le> uc_ts r" for b by (simp add: delta_row_def)
  from upsert_ts [OF assms(1) this] assms(1) show ?thesis
    by (auto simp: FlushEnd usage_step_def flush_end_def upsert_usage_def split: option.splits)
qed (use assms in \<open>simp_all add: usage_step_def Let_def split: prod.splits\<close>)

lemma usage_run_ts:
  "list_all clock_ok es \<Longrightarrow> \<forall>r \<in> set (ut_db (fold (usage_step shard N) es tracker_new)). 0 \<le> uc_ts r"
proof (induction es rule: rev_induct)
  case (snoc e es)
  then show ?case using usage_step_ts [of "fold (usage_step shard N) es tracker_new" e] by simp
qed (simp add: tracker_new_def)

section \<open>Properties\<close>

text \<open>C16: no count is lost or made twice.  After any interleaving of requests, response
  chunks and concurrent flushes, whose transactions may fail, the live, drained and
  stored counts of a route and token add up to exactly what was recorded (while that
  total fits a database integer).\<close>

theorem usage_conserved:
  assumes "t = fold (usage_step shard N) es tracker_new" "int (recorded m k es) \<le> i64_max"
  shows "int (aval m k (ut_live t)) + int (flights_val m k (ut_flights t)) + dval m k (ut_db t)
    = int (recorded m k es)"
  using usage_run_ok [OF assms(2), of shard N] assms(1)
  by (simp add: step_ok_def held_def tracker_new_def flights_val_def)

definition demo_usage :: "usage_event list" where
  "demo_usage = [Request (''a'', 1) 10, FlushStart, FlushShard 0, Request (''a'', 1) 5, BytesOut (''a'', 1) 7,
     FlushEnd 0 7200 (Some SqliteOther), FlushStart, FlushShard 0, FlushEnd 0 7300 None, Request (''a'', 1) 1]"

theorem usage_conserved_witness:
  "dval BytesIn (''a'', 1) (ut_db (fold (usage_step (\<lambda>_. 0) 1) demo_usage tracker_new)) = 15"
proof -
  let ?t = "fold (usage_step (\<lambda>_. 0) 1) demo_usage tracker_new"
  have "recorded BytesIn (''a'', 1) demo_usage = 16" "aval BytesIn (''a'', 1) (ut_live ?t) = 1"
    "flights_val BytesIn (''a'', 1) (ut_flights ?t) = 0" by code_simp+
  with usage_conserved [OF refl, of BytesIn "(''a'', 1)" demo_usage "\<lambda>_. 0" 1] show ?thesis by simp
qed

text \<open>With no flush under way, a query over all hours succeeds and reports, once per
  route and token and in their order, exactly what was recorded, wherever the counts are.\<close>

theorem usage_query_exact:
  assumes "t = fold (usage_step shard N) es tracker_new" "ut_flights t = []"
    and "\<forall>m k. int (recorded m k es) \<le> i64_max" "list_all clock_ok es"
  shows "\<exists>rows. query None 0 None None t = Inr rows \<and> distinct (map fst rows) \<and> sorted (map fst rows)
    \<and> (\<forall>m k. aval m k rows = recorded m k es)"
proof -
  have ok: "tracker_wf shard t" "cells_ok m k (ut_db t)"
    "int (aval m k (ut_live t)) + dval m k (ut_db t) = int (recorded m k es)" for m k
    using usage_run_ok [OF assms(3) [rule_format, of m k], of shard N] assms(1,2)
    by (simp_all add: step_ok_def held_def tracker_new_def flights_val_def)
  have "filter (usage_match 0 None None) (ut_db t) = ut_db t"
    using usage_run_ts [OF assms(4), of shard N] assms(1) by (auto simp: usage_match_def as_i64_def intro!: filter_True)
  moreover have "rows_ok (sort_key usage_pk (ut_db t))"
  proof -
    have "\<exists>v. cell m r = Some v \<and> 0 \<le> v \<and> v \<le> i64_max" if r: "r \<in> set (ut_db t)" for r m
    proof -
      have "0 \<le> dval m (uc_key r) xs \<and> (\<exists>v. cell m r = Some v \<and> 0 \<le> v \<and> v \<le> dval m (uc_key r) xs)"
        if "r \<in> set xs" "cells_ok m (uc_key r) xs" for xs
        using that
      proof (induction xs)
        case (Cons x xs)
        have "cells_ok m (uc_key r) xs" using Cons.prems(2) by (simp add: cells_ok_def)
        then show ?case
          using Cons dval_nonneg [of m "uc_key r" xs] by (auto simp: cells_ok_def split: option.splits)
      qed simp
      from this [OF r ok(2)] show ?thesis using ok(3) [of m "uc_key r"] assms(3) [rule_format, of m "uc_key r"] by auto
    qed
    then show ?thesis by (simp add: rows_ok_def)
  qed
  ultimately obtain ps where ps: "query_usage None 0 None None (ut_db t) = Inr ps"
    "\<forall>m k. int (psum m k ps) = dval m k (ut_db t)"
    using collect_rows_ok by (fastforce simp: query_usage_def dval_sort)
  let ?agg = "foldl (\<lambda>a (k, d). entry_add k d a) (foldl (\<lambda>a (k, d). entry_add k d a) [] ps) (ut_live t)"
  have d: "distinct (map fst ?agg)" by (intro aggregate_distinct) simp
  have "aval m k ?agg = recorded m k es" for m k
  proof -
    have live: "psum m k (ut_live t) = aval m k (ut_live t)" using ok(1) by (intro psum_aval) (simp add: tracker_wf_def)
    have "int (psum m k ps) + int (psum m k (ut_live t)) = int (recorded m k es)"
      using ps(2) [rule_format, of m k] ok(3) [of m k] live by simp
    then show ?thesis
      using assms(3) [rule_format, of m k] aggregate_aval [of m k "[]" ps]
        aggregate_aval [of m k "foldl (\<lambda>a (k, d). entry_add k d a) [] ps" "ut_live t"] by simp
  qed
  moreover have "query None 0 None None t = Inr (sort_key fst ?agg)"
    by (simp add: query_def ps(1) split_beta)
  moreover have "sorted (map fst (sort_key fst ?agg))" by simp
  moreover note distinct_sort_keys [OF d]
  ultimately show ?thesis using aval_sort [OF d] by (intro exI [of _ "sort_key fst ?agg"]) simp
qed

theorem usage_query_exact_witness:
  "\<exists>rows. query None 0 None None (fold (usage_step (\<lambda>_. 0) 1) demo_usage tracker_new) = Inr rows
     \<and> aval BytesIn (''a'', 1) rows = 16"
proof -
  have "ut_flights (fold (usage_step (\<lambda>_. 0) 1) demo_usage tracker_new) = []" "list_all clock_ok demo_usage"
    "recorded BytesIn (''a'', 1) demo_usage = 16" by code_simp+
  moreover have "int (recorded m k demo_usage) \<le> i64_max" for m k
    by (cases m) (auto simp: recorded_def demo_usage_def)
  ultimately show ?thesis using usage_query_exact [OF refl, of "\<lambda>_. 0" 1 demo_usage] by metis
qed

end
