(* ===== verification/Dates.thy ===== *)
theory Dates
  imports Prelude
begin

text \<open>
  UTC dates without a calendar library (\<open>civil_from_days\<close>, \<open>utc_date_string\<close> and
  \<open>iso_utc_string\<close> of \<open>crates/core/src/quota.rs\<close>), and their specification: the day after
  each day in the Gregorian calendar.
\<close>

section \<open>The code\<close>

text \<open>Division of \<open>i64\<close> truncates towards zero.\<close>

definition tdiv :: "int \<Rightarrow> int \<Rightarrow> int" where
  "tdiv a b = (if a < 0 then - ((- a) div b) else a div b)"

definition civil_from_days :: "int \<Rightarrow> int \<times> nat \<times> nat" where
  "civil_from_days z0 =
     (let z = z0 + 719468;
          era = tdiv (if z \<ge> 0 then z else z - 146096) 146097;
          doe = nat (z - era * 146097);
          yoe = (doe - doe div 1460 + doe div 36524 - doe div 146096) div 365;
          y = int yoe + era * 400;
          doy = doe - (365 * yoe + yoe div 4 - yoe div 100);
          mp = (5 * doy + 2) div 153;
          d = doy - (153 * mp + 2) div 5 + 1;
          m = (if mp < 10 then mp + 3 else mp - 9)
      in (if m \<le> 2 then y + 1 else y, m, d))"

text \<open>\<open>{:02}\<close> and \<open>{:04}\<close>.\<close>

definition pad_zero :: "nat \<Rightarrow> string \<Rightarrow> string" where
  "pad_zero w s = replicate (w - length s) (CHR ''0'') @ s"

definition show_signed_pad :: "nat \<Rightarrow> int \<Rightarrow> string" where
  "show_signed_pad w i = (if i < 0 then CHR ''-'' # pad_zero (w - 1) (show_nat (nat (- i)))
                          else pad_zero w (show_nat (nat i)))"

definition show_date :: "int \<times> nat \<times> nat \<Rightarrow> string" where
  "show_date ymd = (case ymd of (y, m, d) \<Rightarrow>
     show_signed_pad 4 y @ ''-'' @ pad_zero 2 (show_nat m) @ ''-'' @ pad_zero 2 (show_nat d))"

definition utc_date_string :: "nat \<Rightarrow> string" where
  "utc_date_string ts = show_date (civil_from_days (int (ts div 86400)))"

definition iso_utc_string :: "nat \<Rightarrow> string" where
  "iso_utc_string ts =
     (let rem = ts mod 86400 in
      show_date (civil_from_days (int (ts div 86400))) @ ''T''
        @ pad_zero 2 (show_nat (rem div 3600)) @ '':''
        @ pad_zero 2 (show_nat (rem mod 3600 div 60)) @ '':''
        @ pad_zero 2 (show_nat (rem mod 60)) @ ''Z'')"

section \<open>The Gregorian calendar\<close>

definition leap_year :: "int \<Rightarrow> bool" where
  "leap_year y \<longleftrightarrow> y mod 4 = 0 \<and> (y mod 100 \<noteq> 0 \<or> y mod 400 = 0)"

definition days_in_month :: "int \<Rightarrow> nat \<Rightarrow> nat" where
  "days_in_month y m =
     (if m = 2 then (if leap_year y then 29 else 28)
      else if m \<in> {4, 6, 9, 11} then 30 else 31)"

fun next_day :: "int \<times> nat \<times> nat \<Rightarrow> int \<times> nat \<times> nat" where
  "next_day (y, m, d) =
     (if d < days_in_month y m then (y, m, d + 1)
      else if m < 12 then (y, m + 1, 1)
      else (y + 1, 1, 1))"

section \<open>Lemmas\<close>

text \<open>Month and day of the \<open>k\<close>-th day of a year that starts in March, and whether it
  belongs to the next calendar year.\<close>

definition march_month :: "nat \<Rightarrow> nat" where
  "march_month k = (let mp = (5 * k + 2) div 153 in if mp < 10 then mp + 3 else mp - 9)"

definition march_day :: "nat \<Rightarrow> nat" where
  "march_day k = k - (153 * ((5 * k + 2) div 153) + 2) div 5 + 1"

definition march_date :: "int \<Rightarrow> nat \<Rightarrow> int \<times> nat \<times> nat" where
  "march_date y k = (if march_month k \<le> 2 then y + 1 else y, march_month k, march_day k)"

text \<open>The step from day \<open>k\<close> to \<open>k + 1\<close> of a March year, leap or not.\<close>

definition march_step_ok :: "nat \<Rightarrow> bool" where
  "march_step_ok k =
     (let m = march_month k; d = march_day k; m' = march_month (k + 1); d' = march_day (k + 1) in
      if m = 2 then d < 28 \<and> m' = 2 \<and> d' = d + 1
      else if d < (if m \<in> {4, 6, 9, 11} then 30 else 31) then m' = m \<and> d' = d + 1
      else d' = 1 \<and> (if m < 12 then m' = m + 1 \<and> m \<noteq> 2 \<and> m > 2 \<or> m = 1 \<and> m' = 2 else m = 12 \<and> m' = 1))"

text \<open>The twelve months of a March year.\<close>

lemma march_month_at:
  fixes k :: nat
  shows
  "0 \<le> k \<Longrightarrow> k < 31 \<Longrightarrow> (5 * k + 2) div 153 = 0"
  "31 \<le> k \<Longrightarrow> k < 61 \<Longrightarrow> (5 * k + 2) div 153 = 1"
  "61 \<le> k \<Longrightarrow> k < 92 \<Longrightarrow> (5 * k + 2) div 153 = 2"
  "92 \<le> k \<Longrightarrow> k < 122 \<Longrightarrow> (5 * k + 2) div 153 = 3"
  "122 \<le> k \<Longrightarrow> k < 153 \<Longrightarrow> (5 * k + 2) div 153 = 4"
  "153 \<le> k \<Longrightarrow> k < 184 \<Longrightarrow> (5 * k + 2) div 153 = 5"
  "184 \<le> k \<Longrightarrow> k < 214 \<Longrightarrow> (5 * k + 2) div 153 = 6"
  "214 \<le> k \<Longrightarrow> k < 245 \<Longrightarrow> (5 * k + 2) div 153 = 7"
  "245 \<le> k \<Longrightarrow> k < 275 \<Longrightarrow> (5 * k + 2) div 153 = 8"
  "275 \<le> k \<Longrightarrow> k < 306 \<Longrightarrow> (5 * k + 2) div 153 = 9"
  "306 \<le> k \<Longrightarrow> k < 337 \<Longrightarrow> (5 * k + 2) div 153 = 10"
  "337 \<le> k \<Longrightarrow> k < 366 \<Longrightarrow> (5 * k + 2) div 153 = 11"
  by (auto intro!: div_nat_eqI)

lemmas march_step_simps = march_step_ok_def march_month_def march_day_def Let_def
  march_month_at march_month_at [simplified] march_month_at [of "Suc k" for k, simplified]

lemma march_step_ok_less: "k < 364 \<Longrightarrow> march_step_ok k"
proof -
  assume "k < 364"
  then consider "k < 31"
    | "31 \<le> k" "k < 61"
    | "61 \<le> k" "k < 92"
    | "92 \<le> k" "k < 122"
    | "122 \<le> k" "k < 153"
    | "153 \<le> k" "k < 184"
    | "184 \<le> k" "k < 214"
    | "214 \<le> k" "k < 245"
    | "245 \<le> k" "k < 275"
    | "275 \<le> k" "k < 306"
    | "306 \<le> k" "k < 337"
    | "337 \<le> k" "k < 364"
    by (meson not_less)
  then show ?thesis
  proof cases
    case 1 then show ?thesis by (cases "k = 30") (auto simp: march_step_simps)
  next
    case 2 then show ?thesis by (cases "k = 60") (auto simp: march_step_simps)
  next
    case 3 then show ?thesis by (cases "k = 91") (auto simp: march_step_simps)
  next
    case 4 then show ?thesis by (cases "k = 121") (auto simp: march_step_simps)
  next
    case 5 then show ?thesis by (cases "k = 152") (auto simp: march_step_simps)
  next
    case 6 then show ?thesis by (cases "k = 183") (auto simp: march_step_simps)
  next
    case 7 then show ?thesis by (cases "k = 213") (auto simp: march_step_simps)
  next
    case 8 then show ?thesis by (cases "k = 244") (auto simp: march_step_simps)
  next
    case 9 then show ?thesis by (cases "k = 274") (auto simp: march_step_simps)
  next
    case 10 then show ?thesis by (cases "k = 305") (auto simp: march_step_simps)
  next
    case 11 then show ?thesis by (cases "k = 336") (auto simp: march_step_simps)
  next
    case 12 then show ?thesis by (auto simp: march_step_simps)
  qed
qed

lemma march_year_step:
  assumes "k < 364"
  shows "next_day (march_date y k) = march_date y (k + 1)"
proof -
  have "march_step_ok k" using assms by (rule march_step_ok_less)
  then show ?thesis
    by (auto simp: march_step_ok_def march_date_def days_in_month_def Let_def split: if_splits)
qed

text \<open>A day as era, century, four-year cycle, year and day of the March year.\<close>

definition cycle_ok :: "nat \<Rightarrow> nat \<Rightarrow> nat \<Rightarrow> nat \<Rightarrow> bool" where
  "cycle_ok s q t k \<longleftrightarrow> s \<le> 3 \<and> q \<le> 24 \<and> t \<le> 3 \<and> k \<le> 365 \<and> (k = 365 \<longrightarrow> t = 3 \<and> (q < 24 \<or> s = 3))"

definition cycle_day :: "nat \<Rightarrow> nat \<Rightarrow> nat \<Rightarrow> nat \<Rightarrow> nat" where
  "cycle_day s q t k = 36524 * s + 1461 * q + 365 * t + k"

lemma cycle_day_le: "cycle_ok s q t k \<Longrightarrow> cycle_day s q t k \<le> 146096"
  unfolding cycle_ok_def cycle_day_def by arith

lemma year_of_era:
  assumes "cycle_ok s q t k" "doe = cycle_day s q t k"
  shows "(doe - doe div 1460 + doe div 36524 - doe div 146096) div 365 = 100 * s + 4 * q + t"
proof -
  define e where "e = (24 * s + q + 365 * t + k) div 1460"
  have b: "s \<le> 3" "q \<le> 24" "t \<le> 3" "k \<le> 365" "k = 365 \<Longrightarrow> t = 3 \<and> (q < 24 \<or> s = 3)"
    using assms(1) by (auto simp: cycle_ok_def)
  have d1: "doe div 1460 = 25 * s + q + e"
    using assms(2) by (simp add: e_def cycle_day_def)
  have e: "e \<le> 1" "e = 1 \<Longrightarrow> 1 \<le> k" "k = 365 \<Longrightarrow> e = 1"
    using b unfolding e_def by arith+
  have d2: "doe div 36524 - doe div 146096 = s" "doe div 146096 \<le> doe div 36524"
  proof -
    have "1461 * q + 365 * t + k \<le> 36523 \<or> doe = 146096 \<and> s = 3"
      using b assms(2) unfolding cycle_day_def by arith
    moreover have "doe \<le> 146096" using assms cycle_day_le by simp
    moreover have "doe div 36524 = s \<and> doe div 146096 = 0" if "1461 * q + 365 * t + k \<le> 36523"
    proof -
      have "doe = s * 36524 + (1461 * q + 365 * t + k)" by (simp add: assms(2) cycle_day_def)
      moreover from this that b(1) have "doe < 146096" by simp
      ultimately show ?thesis using that by simp
    qed
    ultimately show "doe div 36524 - doe div 146096 = s" "doe div 146096 \<le> doe div 36524" by auto
  qed
  have "doe - doe div 1460 + doe div 36524 - doe div 146096 = 365 * (100 * s + 4 * q + t) + (k - e)"
  proof -
    have ek: "e \<le> k" using e(1,2) by (cases "e = 0") auto
    have "doe - doe div 1460 + doe div 36524 - doe div 146096 = doe - (25 * s + q + e) + s"
      using d2 d1 by (metis Nat.add_diff_assoc)
    also have "\<dots> = 365 * (100 * s + 4 * q + t) + (k - e)"
      using ek assms(2) unfolding cycle_day_def by simp
    finally show ?thesis .
  qed
  moreover have "k - e < 365" using b(4) e by arith
  ultimately show ?thesis by simp
qed

lemma civil_march:
  assumes "cycle_ok s q t k" "z + 719468 = 146097 * int e + int (cycle_day s q t k)"
  shows "civil_from_days z = march_date (400 * int e + int (100 * s + 4 * q + t)) k"
proof -
  let ?doe = "cycle_day s q t k" and ?y = "100 * s + 4 * q + t"
  have le: "?doe < 146097" using cycle_day_le [OF assms(1)] by simp
  have era: "tdiv (if z + 719468 \<ge> 0 then z + 719468 else z + 719468 - 146096) 146097 = int e"
    using le unfolding assms(2) tdiv_def by simp
  have doe: "nat (z + 719468 - int e * 146097) = ?doe" unfolding assms(2) by simp
  have yd: "?y div 4 = 25 * s + q" "?y div 100 = s"
    using assms(1) unfolding cycle_ok_def by arith+
  then have doy: "?doe - (365 * ?y + ?y div 4 - ?y div 100) = k" by (simp add: cycle_day_def)
  show ?thesis
    unfolding civil_from_days_def Let_def era doe year_of_era [OF assms(1) refl] doy
    by (simp add: march_date_def march_month_def march_day_def Let_def)
qed

lemma leap_next:
  assumes "cycle_ok s q t k"
  shows "leap_year (400 * int e + int (100 * s + 4 * q + t) + 1) \<longleftrightarrow> t = 3 \<and> (q < 24 \<or> s = 3)"
proof -
  let ?y = "400 * int e + int (100 * s + 4 * q + t) + 1"
  have b: "s \<le> 3" "q \<le> 24" "t \<le> 3" using assms by (auto simp: cycle_ok_def)
  have "?y = int (t + 1) + 4 * (100 * int e + 25 * int s + int q)" by simp
  then have "?y mod 4 = int (t + 1) mod 4" by (simp only: mod_mult_self2)
  also have "\<dots> = 0 \<longleftrightarrow> t = 3" using b(3) by (auto simp: le_Suc_eq numeral_3_eq_3)
  finally have 4: "?y mod 4 = 0 \<longleftrightarrow> t = 3" .
  have 100: "?y mod 100 = 0 \<longleftrightarrow> q = 24" if "t = 3"
  proof -
    have "?y = int (4 * (q + 1)) + 100 * (4 * int e + int s)" using that by simp
    then have "?y mod 100 = int (4 * (q + 1)) mod 100" by (simp only: mod_mult_self2)
    then show ?thesis using b(2) by (cases "q = 24") auto
  qed
  have 400: "?y mod 400 = 0 \<longleftrightarrow> s = 3" if "t = 3" "q = 24"
  proof -
    have "?y = int (100 * (s + 1)) + 400 * int e" using that by simp
    then have "?y mod 400 = int (100 * (s + 1)) mod 400" by (simp only: mod_mult_self2)
    then show ?thesis using b(1) by (cases "s = 3") auto
  qed
  show ?thesis unfolding leap_year_def using 4 100 400 b(2) by auto
qed

lemma march_ends:
  "march_date y 0 = (y, 3, 1)" "march_date y 306 = (y + 1, 1, 1)" "march_date y 364 = (y + 1, 2, 28)"
  "march_date y 365 = (y + 1, 2, 29)"
  by (simp_all add: march_date_def march_month_def march_day_def)

text \<open>The next day has a decomposition, and is the next date.\<close>

lemma cycle_step:
  assumes "cycle_ok s q t k" "y = 400 * int e + int (100 * s + 4 * q + t)"
  shows "\<exists>e' s' q' t' k'. cycle_ok s' q' t' k'
    \<and> 146097 * int e' + int (cycle_day s' q' t' k') = 146097 * int e + int (cycle_day s q t k) + 1
    \<and> march_date (400 * int e' + int (100 * s' + 4 * q' + t')) k' = next_day (march_date y k)"
proof -
  have b: "s \<le> 3" "q \<le> 24" "t \<le> 3" "k \<le> 365" "k = 365 \<Longrightarrow> t = 3 \<and> (q < 24 \<or> s = 3)"
    using assms(1) by (auto simp: cycle_ok_def)
  note leap = leap_next [OF assms(1), of e, folded assms(2)]
  have year_end: "next_day (march_date y k) = (y + 1, 3, 1)" if "k = 364 \<and> \<not> leap_year (y + 1) \<or> k = 365"
    using that leap b(5) by (auto simp: march_ends days_in_month_def)
  consider (inside) "k < 364" | (leap_day) "k = 364" "t = 3 \<and> (q < 24 \<or> s = 3)"
    | (year) "k = 364" "t < 3" | (cycle) "k = 365" "q < 24" | (century) "k = 364" "t = 3" "q = 24" "s < 3"
    | (era) "k = 365" "t = 3" "q = 24" "s = 3"
  proof -
    have "k < 364 \<or> k = 364 \<or> k = 365" using b(4) by arith
    moreover have "t < 3 \<or> t = 3" "q < 24 \<or> q = 24" "s < 3 \<or> s = 3" using b(1-3) by arith+
    ultimately show ?thesis using that b(5) by metis
  qed
  then show ?thesis
  proof cases
    case inside
    have "cycle_ok s q t (k + 1)" using b(1-3) inside by (simp add: cycle_ok_def)
    moreover have "int (cycle_day s q t (k + 1)) = int (cycle_day s q t k) + 1" by (simp add: cycle_day_def)
    moreover note march_year_step [OF inside, of y, symmetric]
    ultimately show ?thesis using assms(2)
      by (intro exI [of _ e] exI [of _ s] exI [of _ q] exI [of _ t] exI [of _ "k + 1"]) simp
  next
    case leap_day
    with leap have "next_day (march_date y k) = march_date y 365" by (simp add: march_ends days_in_month_def)
    with leap_day b(1-3) assms(2) show ?thesis
      by (intro exI [of _ e] exI [of _ s] exI [of _ q] exI [of _ t] exI [of _ 365])
        (simp add: cycle_ok_def cycle_day_def)
  next
    case year
    then have "next_day (march_date y k) = (y + 1, 3, 1)" using year_end leap by blast
    with year b(1-2) assms(2) show ?thesis
      by (intro exI [of _ e] exI [of _ s] exI [of _ q] exI [of _ "t + 1"] exI [of _ 0])
        (simp add: cycle_ok_def cycle_day_def march_ends)
  next
    case cycle
    then have "next_day (march_date y k) = (y + 1, 3, 1)" "t = 3" using year_end b(5) by blast+
    with cycle b(1) assms(2) show ?thesis
      by (intro exI [of _ e] exI [of _ s] exI [of _ "q + 1"] exI [of _ 0])
        (simp add: cycle_ok_def cycle_day_def march_ends)
  next
    case century
    then have "next_day (march_date y k) = (y + 1, 3, 1)" using year_end leap by blast
    with century assms(2) show ?thesis
      by (intro exI [of _ e] exI [of _ "s + 1"] exI [of _ 0])
        (simp add: cycle_ok_def cycle_day_def march_ends)
  next
    case era
    then have "next_day (march_date y k) = (y + 1, 3, 1)" using year_end by blast
    with era assms(2) show ?thesis
      by (intro exI [of _ "e + 1"] exI [of _ 0])
        (simp add: cycle_ok_def cycle_day_def march_ends)
  qed
qed

section \<open>Properties\<close>

text \<open>C18: the date arithmetic is the Gregorian calendar: day \<open>n\<close> after the epoch has the date
  that \<open>n\<close> steps to the next calendar day reach from 1 January 1970, for every \<open>n\<close>.\<close>

theorem civil_from_days_calendar: "civil_from_days (int n) = (next_day ^^ n) (1970, 1, 1)"
proof -
  have "\<exists>e s q t k. cycle_ok s q t k \<and> int n + 719468 = 146097 * int e + int (cycle_day s q t k)
      \<and> march_date (400 * int e + int (100 * s + 4 * q + t)) k = (next_day ^^ n) (1970, 1, 1)"
  proof (induction n)
    case 0
    show ?case
      by (intro exI [of _ 4] exI [of _ 3] exI [of _ 17] exI [of _ 1] exI [of _ 306])
        (simp add: cycle_ok_def cycle_day_def march_ends)
  next
    case (Suc n)
    then obtain e s q t k where ih: "cycle_ok s q t k" "int n + 719468 = 146097 * int e + int (cycle_day s q t k)"
      "march_date (400 * int e + int (100 * s + 4 * q + t)) k = (next_day ^^ n) (1970, 1, 1)"
      by blast
    have "int (Suc n) + 719468 = 146097 * int e + int (cycle_day s q t k) + 1" using ih(2) by simp
    moreover obtain e' s' q' t' k' where "cycle_ok s' q' t' k'"
      "146097 * int e' + int (cycle_day s' q' t' k') = 146097 * int e + int (cycle_day s q t k) + 1"
      "march_date (400 * int e' + int (100 * s' + 4 * q' + t')) k' = next_day ((next_day ^^ n) (1970, 1, 1))"
      using cycle_step [OF ih(1) refl, of e] ih(3) by metis
    ultimately show ?case by (intro exI [of _ e'] exI [of _ s'] exI [of _ q'] exI [of _ t'] exI [of _ k']) simp
  qed
  then show ?thesis using civil_march by metis
qed

end
