(* ===== verification/Json.thy ===== *)
theory Json
  imports Prelude
begin

text \<open>
  JSON values as \<open>serde_json\<close> gives them to the code, with the accessors it uses.  Reading a
  text is a parameter of the components that do it.
\<close>

text \<open>\<open>serde_json::Value\<close>, with the accessors the code uses; \<open>JInt\<close> is a number that fits
  an \<open>i64\<close>.\<close>

datatype json = JNull | JBool bool | JInt int | JNumber | JString string | JArray "json list"
  | JObject "(string \<times> json) list"

fun json_get :: "string \<Rightarrow> json \<Rightarrow> json option" where
  "json_get k (JObject fs) = map_of fs k"
| "json_get k _ = None"

fun as_array :: "json \<Rightarrow> json list option" where
  "as_array (JArray xs) = Some xs"
| "as_array _ = None"

fun as_i64_value :: "json \<Rightarrow> int option" where
  "as_i64_value (JInt i) = Some i"
| "as_i64_value _ = None"

fun as_str :: "json \<Rightarrow> string option" where
  "as_str (JString s) = Some s"
| "as_str _ = None"

text \<open>\<open>Value::pointer\<close>; an array takes a number without leading zero or sign.\<close>

fun json_pointer :: "string list \<Rightarrow> json \<Rightarrow> json option" where
  "json_pointer [] v = Some v"
| "json_pointer (t # ts) (JObject fs) =
     (case map_of fs t of Some v \<Rightarrow> json_pointer ts v | None \<Rightarrow> None)"
| "json_pointer (t # ts) (JArray xs) =
     (case parse_uint 10 u64_max t of
        Some i \<Rightarrow>
          if show_nat i = t \<and> i < length xs then json_pointer ts (xs ! i) else None
      | None \<Rightarrow> None)"
| "json_pointer (t # ts) _ = None"

fun as_bool :: "json \<Rightarrow> bool option" where
  "as_bool (JBool b) = Some b"
| "as_bool _ = None"

end
