(* ===== verification/Monitor.thy ===== *)
theory Monitor
  imports Complex_Main Usage Dates Json
begin

text \<open>
  Quota monitoring: samples and parsing of the providers' answers
  (\<open>crates/core/src/quota.rs\<close>), the crossing rule and messages of
  \<open>crates/core/src/alert.rs\<close>, the tables of \<open>crates/core/src/store/monitor.rs\<close>, and the
  polling tick of \<open>crates/server/src/monitor.rs\<close>.  HTTP answers, the JSON reader, store
  faults and the clock are inputs.
\<close>

section \<open>Floating-point percentages\<close>

text \<open>The comparisons of \<open>f64\<close> the code uses: all of them are false of a NaN.  Infinities
  do not occur (a percentage is a quotient with a positive divisor).\<close>

datatype f64 = NaN | Num real

fun f_less :: "f64 \<Rightarrow> f64 \<Rightarrow> bool" where
  "f_less (Num a) (Num b) = (a < b)"
| "f_less _ _ = False"

fun f_ge :: "f64 \<Rightarrow> f64 \<Rightarrow> bool" where
  "f_ge (Num a) (Num b) = (a \<ge> b)"
| "f_ge _ _ = False"

section \<open>Samples\<close>

record quota_sample =
  qs_used :: int
  qs_quota :: int
  qs_pct :: f64

text \<open>\<open>rnd\<close> rounds to the nearest \<open>f64\<close>.\<close>

definition quota_pct :: "(real \<Rightarrow> real) \<Rightarrow> int \<Rightarrow> int \<Rightarrow> f64" where
  "quota_pct rnd used quota =
     (if quota \<le> 0 then Num (- 1)
      else Num (rnd (rnd (rnd (of_int used) / rnd (of_int quota)) * 100)))"

definition sample_new :: "(real \<Rightarrow> real) \<Rightarrow> int \<Rightarrow> int \<Rightarrow> quota_sample" where
  "sample_new rnd used quota = \<lparr> qs_used = used, qs_quota = quota, qs_pct = quota_pct rnd used quota \<rparr>"

section \<open>Answers of the providers\<close>

definition wrap_i64 :: "int \<Rightarrow> int" where
  "wrap_i64 i = as_i64 (nat (i mod 2 ^ 64))"

datatype cf_outcome = CfOk quota_sample | CfGraphqlErrors string

fun join_semicolon :: "string list \<Rightarrow> string" where
  "join_semicolon [] = []"
| "join_semicolon [s] = s"
| "join_semicolon (s # ss) = s @ ''; '' @ join_semicolon ss"

text \<open>\<open>parse_cf_usage\<close>; \<open>error_message\<close> is what \<open>serde\<close> reads of an item of the error list.\<close>

definition parse_cf_usage ::
  "(real \<Rightarrow> real) \<Rightarrow> (string \<Rightarrow> string + json) \<Rightarrow> (json \<Rightarrow> string option) \<Rightarrow> string \<Rightarrow> int \<Rightarrow> string + cf_outcome" where
  "parse_cf_usage rnd from_slice error_message body quota =
     (case from_slice body of
        Inl e \<Rightarrow> Inl (''invalid json: '' @ e)
      | Inr v \<Rightarrow>
          (case Option.bind (json_get ''errors'' v) as_array of
             Some (e # es) \<Rightarrow>
               (let msgs = List.map_filter error_message (e # es)
                in Inr (CfGraphqlErrors (if msgs = [] then ''(graphql errors without message)''
                                         else join_semicolon msgs)))
           | _ \<Rightarrow>
               (case Option.bind (json_pointer [''data'', ''viewer'', ''accounts'', ''0'', ''workersInvocationsAdaptive''] v) as_array of
                  None \<Rightarrow> Inl ''missing data.viewer.accounts[0].workersInvocationsAdaptive''
                | Some rows \<Rightarrow>
                    (let used = foldl (\<lambda>u r. wrap_i64 (u +
                                  (case Option.bind (json_pointer [''sum'', ''requests''] r) as_i64_value of
                                     Some i \<Rightarrow> i | None \<Rightarrow> 0))) 0 rows
                     in Inr (CfOk (sample_new rnd used quota))))))"

datatype vercel_outcome = UnsupportedPlanOutcome | Samples "(string \<times> quota_sample) list"

definition parse_vercel_usage ::
  "(real \<Rightarrow> real) \<Rightarrow> (string \<Rightarrow> string + json) \<Rightarrow> string \<Rightarrow> string + vercel_outcome" where
  "parse_vercel_usage rnd from_slice body =
     (case from_slice body of
        Inl e \<Rightarrow> Inl (''invalid json: '' @ e)
      | Inr v \<Rightarrow>
          (case Option.bind (json_pointer [''error'', ''code''] v) as_str of
             Some code \<Rightarrow>
               if code = ''plan_upgrade_required'' then Inr UnsupportedPlanOutcome
               else Inl (''vercel api error: '' @ code)
           | None \<Rightarrow>
               (let usage = (case json_get ''usage'' v of Some u \<Rightarrow> u | None \<Rightarrow> JNull);
                    num = (\<lambda>k. case Option.bind (json_get k usage) as_i64_value of Some i \<Rightarrow> i | None \<Rightarrow> 0)
                in Inr (Samples [(''bandwidth'', sample_new rnd (num ''bandwidth'') (- 1)),
                                 (''function_invocations'', sample_new rnd (num ''functionInvocations'') (- 1))]))))"

text \<open>The collectors: an HTTP answer is a transport error, or a status and a body.\<close>

datatype collect_error = CollectDisabled | CollectHttp | CollectStatus nat | CollectParse string

type_synonym http_answer = "(nat \<times> string) option"

definition CF_DAILY_REQUEST_QUOTA :: int where
  [const_defs]: "CF_DAILY_REQUEST_QUOTA = 100000"

definition collect_daily_requests ::
  "(real \<Rightarrow> real) \<Rightarrow> (string \<Rightarrow> string + json) \<Rightarrow> (json \<Rightarrow> string option)
   \<Rightarrow> string option \<Rightarrow> string option \<Rightarrow> http_answer \<Rightarrow> collect_error + quota_sample" where
  "collect_daily_requests rnd from_slice error_message token account_tag answer =
     (if token = None \<or> account_tag = None then Inl CollectDisabled
      else (case answer of
        None \<Rightarrow> Inl CollectHttp
      | Some (status, body) \<Rightarrow>
          if \<not> (200 \<le> status \<and> status < 300) then Inl (CollectStatus status)
          else (case parse_cf_usage rnd from_slice error_message body CF_DAILY_REQUEST_QUOTA of
            Inl e \<Rightarrow> Inl (CollectParse e)
          | Inr (CfOk s) \<Rightarrow> Inr s
          | Inr (CfGraphqlErrors msg) \<Rightarrow> Inl (CollectParse (''cloudflare graphql errors: '' @ msg)))))"

text \<open>\<open>urlencode\<close>, and the address \<open>collect_usage\<close> asks for.\<close>

definition urlencode :: "string \<Rightarrow> string" where
  "urlencode s = concat (map (\<lambda>c. if c = CHR ''+'' then ''%2B'' else [c])
     (concat (map (\<lambda>c. if c = CHR '':'' then ''%3A'' else [c]) s)))"

definition usage_url :: "string \<Rightarrow> string option \<Rightarrow> nat \<Rightarrow> string" where
  "usage_url api_base team_id now =
     api_base @ ''/v1/usage?from='' @ urlencode (iso_utc_string (now - now mod 86400))
       @ ''&to='' @ urlencode (iso_utc_string now)
       @ (case team_id of Some t \<Rightarrow> if t = [] then [] else ''&teamId='' @ t | None \<Rightarrow> [])"

definition collect_usage ::
  "(real \<Rightarrow> real) \<Rightarrow> (string \<Rightarrow> string + json) \<Rightarrow> string option \<Rightarrow> (string \<Rightarrow> http_answer) \<Rightarrow> string
   \<Rightarrow> string option \<Rightarrow> nat \<Rightarrow> collect_error + vercel_outcome" where
  "collect_usage rnd from_slice token fetch api_base team_id now =
     (case token of
        None \<Rightarrow> Inl CollectDisabled
      | Some _ \<Rightarrow> (case fetch (usage_url api_base team_id now) of
          None \<Rightarrow> Inl CollectHttp
        | Some (status, body) \<Rightarrow>
            if \<not> (200 \<le> status \<and> status < 300) then Inl (CollectStatus status)
            else (case parse_vercel_usage rnd from_slice body of
              Inl e \<Rightarrow> Inl (CollectParse e)
            | Inr oc \<Rightarrow> Inr oc)))"

section \<open>Crossing a threshold\<close>

definition CRITICAL_PCT :: f64 where
  [const_defs]: "CRITICAL_PCT = Num 95"

datatype level = Warning | Critical

definition evaluate_crossing :: "f64 option \<Rightarrow> f64 \<Rightarrow> f64 \<Rightarrow> level option" where
  "evaluate_crossing last_pct now_pct threshold_pct =
     (if now_pct = NaN \<or> f_less now_pct (Num 0) then None
      else
        (let was_below = (case last_pct of
                            None \<Rightarrow> True
                          | Some p \<Rightarrow> p = NaN \<or> f_less p threshold_pct)
         in if \<not> was_below \<or> f_less now_pct threshold_pct then None
            else Some (if f_ge now_pct CRITICAL_PCT then Critical else Warning)))"

text \<open>\<open>alert_message\<close>; \<open>show_pct\<close> is \<open>{:.1}\<close>.\<close>

definition alert_message :: "(f64 \<Rightarrow> string) \<Rightarrow> string \<Rightarrow> string \<Rightarrow> f64 \<Rightarrow> int \<Rightarrow> int \<Rightarrow> string" where
  "alert_message show_pct upstream metric pct used quota =
     upstream @ '' '' @ metric @ '' at '' @ show_pct pct @ ''% ('' @
     (if quota < 0 then ''unknown'' else show_int used @ ''/'' @ show_int quota) @ '')''"

section \<open>Tables\<close>

record quota_row =
  qr_ts :: int
  qr_upstream :: string
  qr_metric :: string
  qr_used :: int
  qr_quota :: int
  qr_pct :: f64

definition qr_key :: "quota_row \<Rightarrow> string \<times> string" where
  "qr_key r = (qr_upstream r, qr_metric r)"

text \<open>\<open>INSERT OR REPLACE\<close> under the primary key of time, upstream and metric.\<close>

definition upsert_quota_snapshot ::
  "fault \<Rightarrow> quota_row \<Rightarrow> quota_row list \<Rightarrow> (store_error + unit) \<times> quota_row list" where
  "upsert_quota_snapshot fault r rows =
     (case fault of
        Some e \<Rightarrow> (Inl e, rows)
      | None \<Rightarrow> (Inr (), filter (\<lambda>x. \<not> (qr_ts x = qr_ts r \<and> qr_key x = qr_key r)) rows @ [r]))"

definition latest_quota_snapshots :: "fault \<Rightarrow> quota_row list \<Rightarrow> store_error + quota_row list" where
  "latest_quota_snapshots fault rows =
     (case fault of
        Some e \<Rightarrow> Inl e
      | None \<Rightarrow> Inr (sort_key qr_key
          (filter (\<lambda>r. list_all (\<lambda>x. qr_key x = qr_key r \<longrightarrow> qr_ts x \<le> qr_ts r) rows) rows)))"

definition prune_quota_before :: "fault \<Rightarrow> nat \<Rightarrow> quota_row list \<Rightarrow> (store_error + nat) \<times> quota_row list" where
  "prune_quota_before fault cutoff rows =
     (case fault of
        Some e \<Rightarrow> (Inl e, rows)
      | None \<Rightarrow> (let keep = filter (\<lambda>r. \<not> qr_ts r < as_i64 cutoff) rows
                 in (Inr (length rows - length keep), keep)))"

definition prune_usage_before ::
  "fault \<Rightarrow> nat \<Rightarrow> usage_cell_row list \<Rightarrow> (store_error + nat) \<times> usage_cell_row list" where
  "prune_usage_before fault cutoff rows =
     (case fault of
        Some e \<Rightarrow> (Inl e, rows)
      | None \<Rightarrow> (let keep = filter (\<lambda>r. \<not> uc_ts r < as_i64 cutoff) rows
                 in (Inr (length rows - length keep), keep)))"

record alert_row =
  al_id :: int
  al_ts :: nat
  al_level :: level
  al_message :: string
  al_read_at :: "nat option"

record alert_table =
  at_rows :: "alert_row list"
  at_seq :: int

definition insert_alert ::
  "fault \<Rightarrow> nat \<Rightarrow> level \<Rightarrow> string \<Rightarrow> alert_table \<Rightarrow> (store_error + int) \<times> alert_table" where
  "insert_alert fault ts lv msg t =
     (case fault of
        Some e \<Rightarrow> (Inl e, t)
      | None \<Rightarrow> (let i = at_seq t + 1 in
          (Inr i, t\<lparr> at_rows := at_rows t @ [\<lparr> al_id = i, al_ts = ts, al_level = lv, al_message = msg, al_read_at = None \<rparr>],
                     at_seq := i \<rparr>)))"

text \<open>Newest first; rows are in the order of their ids.\<close>

definition list_alerts :: "fault \<Rightarrow> bool \<Rightarrow> nat \<Rightarrow> alert_table \<Rightarrow> store_error + alert_row list" where
  "list_alerts fault unread_only n t =
     (case fault of
        Some e \<Rightarrow> Inl e
      | None \<Rightarrow> Inr (take n (filter (\<lambda>r. \<not> unread_only \<or> al_read_at r = None) (rev (at_rows t)))))"

datatype mark_read_outcome = Marked | AlreadyRead | NotFoundAlert

definition mark_alert_read ::
  "fault \<Rightarrow> nat \<Rightarrow> int \<Rightarrow> alert_table \<Rightarrow> (store_error + mark_read_outcome) \<times> alert_table" where
  "mark_alert_read fault now i t =
     (case fault of
        Some e \<Rightarrow> (Inl e, t)
      | None \<Rightarrow>
          if list_ex (\<lambda>r. al_id r = i \<and> al_read_at r = None) (at_rows t) then
            (Inr Marked, t\<lparr> at_rows := map (\<lambda>r. if al_id r = i \<and> al_read_at r = None
                                                 then r\<lparr> al_read_at := Some now \<rparr> else r) (at_rows t) \<rparr>)
          else (Inr (if list_ex (\<lambda>r. al_id r = i) (at_rows t) then AlreadyRead else NotFoundAlert), t))"

section \<open>The polling tick\<close>

datatype source_state = SrcOk | SrcDisabled | SrcError | SrcUnsupportedPlan

type_synonym sources = "(string \<times> source_state \<times> nat option) list"

definition set_state :: "string \<Rightarrow> source_state \<Rightarrow> sources \<Rightarrow> sources" where
  "set_state src st m = AList.update src (st, case map_of m src of Some (_, ok) \<Rightarrow> ok | None \<Rightarrow> None) m"

definition set_ok :: "string \<Rightarrow> nat \<Rightarrow> sources \<Rightarrow> sources" where
  "set_ok src ts m = AList.update src (SrcOk, Some ts) m"

definition SOURCE_CF :: string where [const_defs]: "SOURCE_CF = ''cf''"
definition SOURCE_VERCEL :: string where [const_defs]: "SOURCE_VERCEL = ''vercel''"
definition SOURCE_GATE :: string where [const_defs]: "SOURCE_GATE = ''gate_cf''"

definition USAGE_RETENTION_SEC :: nat where [const_defs]: "USAGE_RETENTION_SEC = 30 * 86400"
definition QUOTA_RETENTION_SEC :: nat where [const_defs]: "QUOTA_RETENTION_SEC = 90 * 86400"

text \<open>\<open>MonitorHandle::new\<close>: which sources have what they need.\<close>

definition monitor_sources :: "bool \<Rightarrow> bool \<Rightarrow> bool \<Rightarrow> sources" where
  "monitor_sources cf_enabled vercel_enabled gate_enabled =
     (let st = (\<lambda>b. if b then SrcError else SrcDisabled) in
      [(SOURCE_CF, st cf_enabled, None), (SOURCE_VERCEL, st vercel_enabled, None),
       (SOURCE_GATE, st gate_enabled, None)])"

text \<open>\<open>statuses\<close>: by name.\<close>

definition statuses :: "sources \<Rightarrow> sources" where
  "statuses m = sort_key fst m"

text \<open>State of the monitor: the last percentage per upstream and metric, the tables, and
  the alerts handed to the webhook.\<close>

record monitor =
  mo_last :: "((string \<times> string) \<times> f64) list"
  mo_snaps :: "quota_row list"
  mo_alerts :: alert_table
  mo_sources :: sources
  mo_sent :: "alert_row list"
  mo_warned :: bool

definition persist_sample ::
  "fault \<Rightarrow> string \<Rightarrow> string \<Rightarrow> nat \<Rightarrow> quota_sample \<Rightarrow> monitor \<Rightarrow> bool \<times> monitor" where
  "persist_sample fault upstream metric ts sample mo =
     (case upsert_quota_snapshot fault \<lparr> qr_ts = as_i64 ts, qr_upstream = upstream, qr_metric = metric,
             qr_used = qs_used sample, qr_quota = qs_quota sample, qr_pct = qs_pct sample \<rparr> (mo_snaps mo) of
        (Inr _, rows) \<Rightarrow> (True, mo\<lparr> mo_snaps := rows \<rparr>)
      | (Inl _, _) \<Rightarrow> (False, mo))"

definition evaluate_and_notify ::
  "(f64 \<Rightarrow> string) \<Rightarrow> fault \<Rightarrow> f64 \<Rightarrow> string \<Rightarrow> string \<Rightarrow> quota_sample \<Rightarrow> nat \<Rightarrow> monitor \<Rightarrow> monitor" where
  "evaluate_and_notify show_pct fault threshold upstream metric sample now mo =
     (let key = (upstream, metric);
          prev = map_of (mo_last mo) key;
          mo1 = (if f_ge (qs_pct sample) (Num 0)
                 then mo\<lparr> mo_last := AList.update key (qs_pct sample) (mo_last mo) \<rparr> else mo)
      in case evaluate_crossing prev (qs_pct sample) threshold of
           None \<Rightarrow> mo1
         | Some lv \<Rightarrow>
             (let msg = alert_message show_pct upstream metric (qs_pct sample) (qs_used sample) (qs_quota sample)
              in case insert_alert fault now lv msg (mo_alerts mo1) of
                   (Inl _, _) \<Rightarrow> mo1
                 | (Inr i, t) \<Rightarrow> mo1\<lparr> mo_alerts := t,
                     mo_sent := mo_sent mo1 @ [\<lparr> al_id = i, al_ts = now, al_level = lv, al_message = msg, al_read_at = None \<rparr>] \<rparr>))"

text \<open>One source of the Cloudflare kind, with the faults of the two writes.\<close>

definition tick_cf ::
  "(f64 \<Rightarrow> string) \<Rightarrow> f64 \<Rightarrow> nat \<Rightarrow> string \<Rightarrow> collect_error + quota_sample \<Rightarrow> fault \<Rightarrow> fault \<Rightarrow> monitor \<Rightarrow> monitor" where
  "tick_cf show_pct threshold now src answer f1 f2 mo =
     (case answer of
        Inl CollectDisabled \<Rightarrow> mo
      | Inl _ \<Rightarrow> mo\<lparr> mo_sources := set_state src SrcError (mo_sources mo) \<rparr>
      | Inr sample \<Rightarrow>
          (case persist_sample f1 src ''requests_daily'' (hour_floor now) sample mo of
             (True, mo1) \<Rightarrow>
               evaluate_and_notify show_pct f2 threshold src ''requests_daily'' sample now
                 (mo1\<lparr> mo_sources := set_ok src now (mo_sources mo1) \<rparr>)
           | (False, mo1) \<Rightarrow> mo1\<lparr> mo_sources := set_state src SrcError (mo_sources mo1) \<rparr>))"

text \<open>The samples of Vercel, with the faults of each metric: a failed write skips the
  evaluation and goes on.\<close>

fun tick_samples ::
  "(f64 \<Rightarrow> string) \<Rightarrow> f64 \<Rightarrow> nat \<Rightarrow> (string \<times> quota_sample) list \<Rightarrow> (string \<Rightarrow> fault \<times> fault)
   \<Rightarrow> bool \<Rightarrow> monitor \<Rightarrow> bool \<times> monitor" where
  "tick_samples show_pct threshold now [] fs failed mo = (failed, mo)"
| "tick_samples show_pct threshold now ((metric, sample) # ss) fs failed mo =
     (case persist_sample (fst (fs metric)) SOURCE_VERCEL metric (hour_floor now) sample mo of
        (False, mo1) \<Rightarrow> tick_samples show_pct threshold now ss fs True mo1
      | (True, mo1) \<Rightarrow> tick_samples show_pct threshold now ss fs failed
          (evaluate_and_notify show_pct (snd (fs metric)) threshold SOURCE_VERCEL metric sample now mo1))"

definition tick_vercel ::
  "(f64 \<Rightarrow> string) \<Rightarrow> f64 \<Rightarrow> nat \<Rightarrow> collect_error + vercel_outcome \<Rightarrow> (string \<Rightarrow> fault \<times> fault) \<Rightarrow> monitor \<Rightarrow> monitor" where
  "tick_vercel show_pct threshold now answer fs mo =
     (case answer of
        Inl CollectDisabled \<Rightarrow> mo
      | Inl _ \<Rightarrow> mo\<lparr> mo_sources := set_state SOURCE_VERCEL SrcError (mo_sources mo) \<rparr>
      | Inr UnsupportedPlanOutcome \<Rightarrow>
          mo\<lparr> mo_sources := set_state SOURCE_VERCEL SrcUnsupportedPlan (mo_sources mo), mo_warned := True \<rparr>
      | Inr (Samples ss) \<Rightarrow>
          (case tick_samples show_pct threshold now ss fs False mo of
             (False, mo1) \<Rightarrow> mo1\<lparr> mo_sources := set_ok SOURCE_VERCEL now (mo_sources mo1) \<rparr>
           | (True, mo1) \<Rightarrow> mo1\<lparr> mo_sources := set_state SOURCE_VERCEL SrcError (mo_sources mo1) \<rparr>))"

definition prune_retention ::
  "fault \<Rightarrow> fault \<Rightarrow> nat \<Rightarrow> usage_cell_row list \<Rightarrow> monitor \<Rightarrow> usage_cell_row list \<times> monitor" where
  "prune_retention f1 f2 now usage mo =
     (snd (prune_usage_before f1 (hour_floor (now - USAGE_RETENTION_SEC)) usage),
      mo\<lparr> mo_snaps := snd (prune_quota_before f2 (now - QUOTA_RETENTION_SEC) (mo_snaps mo)) \<rparr>)"

text \<open>The inputs of a tick: the clock, the answers of the enabled sources, the faults.\<close>

record tick_input =
  ti_now :: nat
  ti_cf :: "(collect_error + quota_sample) option"
  ti_gate :: "(collect_error + quota_sample) option"
  ti_vercel :: "(collect_error + vercel_outcome) option"
  ti_cf_faults :: "fault \<times> fault"
  ti_gate_faults :: "fault \<times> fault"
  ti_vercel_faults :: "string \<Rightarrow> fault \<times> fault"
  ti_prune_faults :: "fault \<times> fault"

definition tick ::
  "(f64 \<Rightarrow> string) \<Rightarrow> f64 \<Rightarrow> tick_input \<Rightarrow> usage_cell_row list \<times> monitor \<Rightarrow> usage_cell_row list \<times> monitor" where
  "tick show_pct threshold ti s =
     (let now = ti_now ti;
          mo1 = (case ti_cf ti of
                   Some a \<Rightarrow> tick_cf show_pct threshold now SOURCE_CF a (fst (ti_cf_faults ti)) (snd (ti_cf_faults ti)) (snd s)
                 | None \<Rightarrow> snd s);
          mo2 = (case ti_gate ti of
                   Some a \<Rightarrow> tick_cf show_pct threshold now SOURCE_GATE a (fst (ti_gate_faults ti)) (snd (ti_gate_faults ti)) mo1
                 | None \<Rightarrow> mo1);
          mo3 = (case ti_vercel ti of
                   Some a \<Rightarrow> tick_vercel show_pct threshold now a (ti_vercel_faults ti) mo2
                 | None \<Rightarrow> mo2)
      in prune_retention (fst (ti_prune_faults ti)) (snd (ti_prune_faults ti)) now (fst s) mo3)"

section \<open>Lemmas\<close>

definition pct_level :: "real \<Rightarrow> level" where
  "pct_level x = (if x \<ge> 95 then Critical else Warning)"

text \<open>The alerts of a sequence of percentages: one at each place where it reaches the
  threshold from below, or begins at or above it.\<close>

definition crossings :: "real \<Rightarrow> real list \<Rightarrow> level list" where
  "crossings T xs =
     map (\<lambda>i. pct_level (xs ! i)) (filter (\<lambda>i. xs ! i \<ge> T \<and> (i = 0 \<or> xs ! (i - 1) < T)) [0..<length xs])"

lemma crossings_snoc:
  "crossings T (xs @ [x]) = crossings T xs @ (if x \<ge> T \<and> (xs = [] \<or> last xs < T) then [pct_level x] else [])"
proof -
  have "filter (\<lambda>i. (xs @ [x]) ! i \<ge> T \<and> (i = 0 \<or> (xs @ [x]) ! (i - 1) < T)) [0..<length xs]
      = filter (\<lambda>i. xs ! i \<ge> T \<and> (i = 0 \<or> xs ! (i - 1) < T)) [0..<length xs]"
    by (rule filter_cong) (auto simp: nth_append)
  moreover have "map (\<lambda>i. pct_level ((xs @ [x]) ! i)) (filter P [0..<length xs])
      = map (\<lambda>i. pct_level (xs ! i)) (filter P [0..<length xs])" for P
    by (rule map_cong) (auto simp: nth_append)
  ultimately show ?thesis
    unfolding crossings_def by (cases "xs = []") (auto simp: nth_append last_conv_nth)
qed

text \<open>The percentages a source of the Cloudflare kind observes: those of samples that
  were stored and are not the marker of an unknown quota.\<close>

definition observed :: "tick_input list \<Rightarrow> real list" where
  "observed tis = concat (map (\<lambda>ti. case (ti_cf ti, fst (ti_cf_faults ti)) of
     (Some (Inr sample), None) \<Rightarrow> (case qs_pct sample of Num x \<Rightarrow> if x \<ge> 0 then [x] else [] | NaN \<Rightarrow> [])
   | _ \<Rightarrow> []) tis)"

lemma observed_snoc: "observed (tis @ [ti]) = observed tis @ observed [ti]"
  by (simp add: observed_def)

definition last_opt :: "real list \<Rightarrow> f64 option" where
  "last_opt xs = (if xs = [] then None else Some (Num (last xs)))"

definition alert_inv :: "real \<Rightarrow> real list \<Rightarrow> monitor \<Rightarrow> bool" where
  "alert_inv T xs mo \<longleftrightarrow> map_of (mo_last mo) (SOURCE_CF, ''requests_daily'') = last_opt xs
     \<and> map al_level (mo_sent mo) = crossings T xs \<and> at_rows (mo_alerts mo) = mo_sent mo"

lemma alert_inv_frame [simp]:
  "alert_inv T xs (mo\<lparr> mo_snaps := r \<rparr>) = alert_inv T xs mo" "alert_inv T xs (mo\<lparr> mo_sources := m \<rparr>) = alert_inv T xs mo"
  by (simp_all add: alert_inv_def)

lemma evaluate_crossing_Num:
  assumes "x \<ge> 0"
  shows "evaluate_crossing (last_opt xs) (Num x) (Num T) =
    (if x \<ge> T \<and> (xs = [] \<or> last xs < T) then Some (pct_level x) else None)"
  using assms by (auto simp: evaluate_crossing_def last_opt_def pct_level_def CRITICAL_PCT_def)

lemma alert_inv_evaluate:
  assumes "alert_inv T xs mo"
  shows "alert_inv T (xs @ (case qs_pct sample of Num x \<Rightarrow> if x \<ge> 0 then [x] else [] | NaN \<Rightarrow> []))
    (evaluate_and_notify show_pct None (Num T) SOURCE_CF ''requests_daily'' sample now mo)"
proof (cases "\<exists>x. qs_pct sample = Num x \<and> x \<ge> 0")
  case True
  then obtain x where x: "qs_pct sample = Num x" "x \<ge> 0" by blast
  have "last_opt (xs @ [x]) = Some (Num x)" by (simp add: last_opt_def)
  with assms x evaluate_crossing_Num [OF x(2), of xs T] show ?thesis
    by (auto simp: evaluate_and_notify_def Let_def alert_inv_def update_conv crossings_snoc insert_alert_def)
next
  case False
  then have "qs_pct sample = NaN \<or> (\<exists>x. qs_pct sample = Num x \<and> x < 0)" by (cases "qs_pct sample") auto
  with assms show ?thesis by (auto simp: evaluate_and_notify_def evaluate_crossing_def Let_def alert_inv_def)
qed

lemma alert_inv_tick:
  assumes "alert_inv T xs (snd s)" "ti_gate ti = None" "ti_vercel ti = None" "snd (ti_cf_faults ti) = None"
  shows "alert_inv T (xs @ observed [ti]) (snd (tick show_pct (Num T) ti s))"
proof -
  have "alert_inv T (xs @ observed [ti]) (tick_cf show_pct (Num T) (ti_now ti) SOURCE_CF a (fst (ti_cf_faults ti)) None (snd s))"
    if "ti_cf ti = Some a" for a
  proof (cases a)
    case (Inl e)
    with assms(1) that show ?thesis by (cases e) (simp_all add: tick_cf_def observed_def)
  next
    case (Inr sample)
    let ?row = "\<lparr> qr_ts = as_i64 (hour_floor (ti_now ti)), qr_upstream = SOURCE_CF, qr_metric = ''requests_daily'',
             qr_used = qs_used sample, qr_quota = qs_quota sample, qr_pct = qs_pct sample \<rparr>"
    from assms(1) alert_inv_evaluate [of T xs] that Inr show ?thesis
      by (cases "fst (ti_cf_faults ti)")
        (simp_all add: tick_cf_def persist_sample_def upsert_quota_snapshot_def observed_def)
  qed
  with assms show ?thesis
    by (cases "ti_cf ti") (simp_all add: tick_def Let_def prune_retention_def observed_def)
qed

definition monitor_new :: monitor where
  "monitor_new = \<lparr> mo_last = [], mo_snaps = [], mo_alerts = \<lparr> at_rows = [], at_seq = 0 \<rparr>,
     mo_sources = monitor_sources True False False, mo_sent = [], mo_warned = False \<rparr>"

lemma alert_inv_run:
  assumes "list_all (\<lambda>ti. ti_gate ti = None \<and> ti_vercel ti = None \<and> snd (ti_cf_faults ti) = None) tis"
  shows "alert_inv T (observed tis) (snd (fold (tick show_pct (Num T)) tis (usage, monitor_new)))"
  using assms
proof (induction tis rule: rev_induct)
  case Nil
  show ?case by (simp add: alert_inv_def observed_def last_opt_def crossings_def monitor_new_def)
next
  case (snoc ti tis)
  then show ?case
    using alert_inv_tick [of T "observed tis" "fold (tick show_pct (Num T)) tis (usage, monitor_new)" ti show_pct]
    by (simp add: observed_snoc [of tis ti])
qed

section \<open>Properties\<close>

text \<open>C19: over any sequence of polling ticks of one source, with answers that may fail, be
  unreadable, lack a quota or not be stored, alerts are recorded exactly where the stored
  percentages reach the threshold from below (or start at or above it), critical from 95
  percent on; each recorded alert is the one handed to the webhook.  (The alert writes
  succeed: an alert whose write fails is not raised again.)\<close>

theorem monitor_alerts_at_crossings:
  assumes "\<forall>ti \<in> set tis. ti_gate ti = None \<and> ti_vercel ti = None \<and> snd (ti_cf_faults ti) = None"
    and "mo = snd (fold (tick show_pct (Num T)) tis (usage, monitor_new))"
  shows "map al_level (at_rows (mo_alerts mo)) = crossings T (observed tis) \<and> mo_sent mo = at_rows (mo_alerts mo)"
  using alert_inv_run [of tis T show_pct usage] assms by (simp add: list_all_iff alert_inv_def)

definition demo_tick :: "int \<Rightarrow> tick_input" where
  "demo_tick used = \<lparr> ti_now = 7200, ti_cf = Some (Inr (sample_new (\<lambda>x. x) used 100)), ti_gate = None, ti_vercel = None,
     ti_cf_faults = (None, None), ti_gate_faults = (None, None), ti_vercel_faults = (\<lambda>_. (None, None)), ti_prune_faults = (None, None) \<rparr>"

theorem monitor_alerts_at_crossings_witness:
  "map al_level (at_rows (mo_alerts (snd (fold (tick (\<lambda>_. ''x'') (Num 80)) (map demo_tick [85, 90, 50, 96]) ([], monitor_new)))))
   = [Warning, Critical]"
proof -
  have "observed (map demo_tick [85, 90, 50, 96]) = [85, 90, 50, 96]"
    by (simp add: observed_def demo_tick_def sample_new_def quota_pct_def)
  moreover have "crossings 80 [85, 90, 50, 96] = [Warning, Critical]"
    by (simp add: crossings_def pct_level_def upt_rec numeral_2_eq_2 numeral_3_eq_3)
  moreover have "\<forall>ti \<in> set (map demo_tick [85, 90, 50, 96]). ti_gate ti = None \<and> ti_vercel ti = None \<and> snd (ti_cf_faults ti) = None"
    by (simp add: demo_tick_def)
  ultimately show ?thesis
    using monitor_alerts_at_crossings [OF _ refl, of "map demo_tick [85, 90, 50, 96]" "\<lambda>_. ''x''" 80 "[]"] by metis
qed

end
