(* ===== verification/ClusterTicket.thy ===== *)
theory ClusterTicket
  imports Crypto
begin

text \<open>
  Cluster tickets (\<open>crates/core/src/cluster_ticket.rs\<close>): \<open>node_id|timestamp|mac\<close>
  with an HMAC-SHA256 over the first two fields, made and checked by the nodes of a
  cluster that share a key.  The clock is an argument (\<open>now\<close>, seconds).
\<close>

unbundle bit_operations_syntax

definition TICKET_MAX_AGE_SECS :: nat where
  [const_defs]: "TICKET_MAX_AGE_SECS = 120"

definition CLUSTER_TICKET_HEADER :: string where
  [const_defs]: "CLUSTER_TICKET_HEADER = ''x-pony-cluster-ticket''"

datatype ticket_error =
    NodeIdEmpty | NodeIdForbidden | KeyEmpty | EmptyTicket | MissingNodeDelimiter
  | MissingTimestampDelimiter | InvalidTimestamp | TicketExpired nat | InvalidMacHex | MacMismatch

section \<open>Operations\<close>

definition BLOCK_SIZE :: nat where
  [const_defs]: "BLOCK_SIZE = 64"

definition key_block :: "crypto \<Rightarrow> string \<Rightarrow> string" where
  "key_block K key =
     (let k = (if length key > BLOCK_SIZE then sha256 K key else key)
      in k @ replicate (BLOCK_SIZE - length k) (char_of (0::nat)))"

definition xor_pad :: "nat \<Rightarrow> string \<Rightarrow> string" where
  "xor_pad b kb = map (\<lambda>c. char_of (b XOR byte c)) kb"

definition hmac_sha256 :: "crypto \<Rightarrow> string \<Rightarrow> string \<Rightarrow> string" where
  "hmac_sha256 K key message =
     (let kb = key_block K key;
          ipad = xor_pad 0x36 kb;
          opad = xor_pad 0x5c kb;
          inner_hash = sha256 K (ipad @ message)
      in sha256 K (opad @ inner_hash))"

definition sanitize_node_id :: "string \<Rightarrow> ticket_error + unit" where
  "sanitize_node_id node_id =
     (if trim_str node_id = [] then Inl NodeIdEmpty
      else if CHR ''|'' \<in> set node_id \<or> char_of (10::nat) \<in> set node_id
              \<or> char_of (13::nat) \<in> set node_id then Inl NodeIdForbidden
      else Inr ())"

definition ticket_payload :: "string \<Rightarrow> nat \<Rightarrow> string" where
  "ticket_payload node_id ts = node_id @ ''|'' @ show_nat ts"

definition create_ticket_at :: "crypto \<Rightarrow> string \<Rightarrow> string \<Rightarrow> nat \<Rightarrow> string" where
  "create_ticket_at K cluster_auth_key node_id ts =
     (let payload = ticket_payload node_id ts;
          mac = hmac_sha256 K cluster_auth_key payload
      in payload @ ''|'' @ hex_encode K mac)"

definition create_ticket :: "crypto \<Rightarrow> nat \<Rightarrow> string \<Rightarrow> string \<Rightarrow> ticket_error + string" where
  "create_ticket K now cluster_auth_key node_id =
     (case sanitize_node_id node_id of
        Inl e \<Rightarrow> Inl e
      | Inr _ \<Rightarrow>
          if trim_str cluster_auth_key = [] then Inl KeyEmpty
          else Inr (create_ticket_at K cluster_auth_key node_id now))"

definition abs_diff :: "nat \<Rightarrow> nat \<Rightarrow> nat" where
  "abs_diff a b = (if a < b then b - a else a - b)"

definition verify_ticket :: "crypto \<Rightarrow> string \<Rightarrow> string \<Rightarrow> nat \<Rightarrow> ticket_error + string" where
  "verify_ticket K cluster_auth_key raw now =
     (let ticket = trim_str raw in
      if ticket = [] then Inl EmptyTicket
      else (case split_once (CHR ''|'') ticket of
        None \<Rightarrow> Inl MissingNodeDelimiter
      | Some (node_id, rest) \<Rightarrow> (case split_once (CHR ''|'') rest of
          None \<Rightarrow> Inl MissingTimestampDelimiter
        | Some (ts_str, presented_mac_hex) \<Rightarrow> (case sanitize_node_id node_id of
            Inl e \<Rightarrow> Inl e
          | Inr _ \<Rightarrow> (case parse_uint 10 u64_max ts_str of
              None \<Rightarrow> Inl InvalidTimestamp
            | Some ts \<Rightarrow>
                let age = abs_diff now ts in
                if age > TICKET_MAX_AGE_SECS then Inl (TicketExpired age)
                else
                  (let expected_mac = hmac_sha256 K cluster_auth_key (ticket_payload node_id ts) in
                   case hex_decode K presented_mac_hex of
                     None \<Rightarrow> Inl InvalidMacHex
                   | Some presented_mac \<Rightarrow>
                       if \<not> constant_time_eq expected_mac presented_mac then Inl MacMismatch
                       else Inr node_id))))))"

section \<open>Lemmas\<close>

lemma sanitize_node_id_Inr:
  "sanitize_node_id n = Inr u \<longleftrightarrow>
     trim_str n \<noteq> [] \<and> CHR ''|'' \<notin> set n \<and> char_of (10::nat) \<notin> set n \<and> char_of (13::nat) \<notin> set n"
  by (auto simp: sanitize_node_id_def)

lemma hex_char_not_bar: "hex_char c \<Longrightarrow> c \<noteq> CHR ''|''"
  by (auto simp: hex_char_def is_ascii_digit_def byte_def)

lemma bar_notin_show_nat [simp]: "CHR ''|'' \<notin> set (show_nat n)"
  by (rule show_nat_notin) (simp add: is_ascii_digit_def byte_def)

lemma bar_graphic [simp]: "graphic (CHR ''|'')"
  by (simp add: graphic_def byte_def)

text \<open>The MAC covers the node and the time unambiguously.\<close>

lemma ticket_payload_inject:
  assumes "CHR ''|'' \<notin> set n" "CHR ''|'' \<notin> set n'"
  shows "ticket_payload n ts = ticket_payload n' ts' \<longleftrightarrow> n = n' \<and> ts = ts'"
proof
  assume "ticket_payload n ts = ticket_payload n' ts'"
  then have "split_once (CHR ''|'') (n @ CHR ''|'' # show_nat ts) =
      split_once (CHR ''|'') (n' @ CHR ''|'' # show_nat ts')"
    by (simp add: ticket_payload_def)
  moreover have "split_once (CHR ''|'') (n @ CHR ''|'' # show_nat ts) = Some (n, show_nat ts)"
    "split_once (CHR ''|'') (n' @ CHR ''|'' # show_nat ts') = Some (n', show_nat ts')"
    using assms by (simp_all add: split_once_Some_iff)
  ultimately show "n = n' \<and> ts = ts'" by simp
qed simp

lemma trim_ticket:
  assumes "hex_law K" "trim_start n = n" "n \<noteq> []"
  shows "trim_str (create_ticket_at K key n ts) = create_ticket_at K key n ts"
proof -
  let ?mac = "hmac_sha256 K key (ticket_payload n ts)"
  have "graphic (last (show_nat ts @ CHR ''|'' # hex_encode K ?mac))"
  proof (cases "hex_encode K ?mac" rule: rev_cases)
    case Nil then show ?thesis by simp
  next
    case (snoc xs x)
    then have "x \<in> set (hex_encode K ?mac)" by simp
    then have "hex_char x" using assms(1) unfolding hex_law_def by blast
    with snoc show ?thesis by (simp add: hex_char_graphic)
  qed
  then show ?thesis
    using trim_str_append [OF assms(2,3), of "CHR ''|''" "show_nat ts @ CHR ''|'' # hex_encode K ?mac"]
    by (simp add: create_ticket_at_def ticket_payload_def)
qed

lemma verify_created_ticket:
  assumes "hex_law K" "ts \<le> u64_max" "trim_start node_id = node_id"
    and "create_ticket K ts key node_id = Inr ticket"
  shows "verify_ticket K key ticket now =
    (if abs_diff now ts \<le> TICKET_MAX_AGE_SECS then Inr node_id
     else Inl (TicketExpired (abs_diff now ts)))"
proof -
  from assms(4) obtain u where san: "sanitize_node_id node_id = Inr u"
    and t: "ticket = create_ticket_at K key node_id ts"
    by (auto simp: create_ticket_def split: sum.splits if_splits)
  then have n: "node_id \<noteq> []" "CHR ''|'' \<notin> set node_id"
    by (auto simp: sanitize_node_id_Inr)
  let ?h = "hex_encode K (hmac_sha256 K key (ticket_payload node_id ts))"
  have parts: "split_once (CHR ''|'') ticket = Some (node_id, show_nat ts @ CHR ''|'' # ?h)"
    "split_once (CHR ''|'') (show_nat ts @ CHR ''|'' # ?h) = Some (show_nat ts, ?h)"
    using n by (simp_all add: split_once_Some_iff t create_ticket_at_def ticket_payload_def)
  have "ticket \<noteq> []" using n by (simp add: t create_ticket_at_def ticket_payload_def)
  then show ?thesis
    using trim_ticket [OF assms(1,3) n(1), of key ts] parts san assms(1,2)
    by (simp add: verify_ticket_def t Let_def hex_law_def)
qed

section \<open>Properties\<close>

text \<open>A ticket that a node makes is accepted under the same key for two minutes
  on either side of its time, and gives the node's name back, provided the name does
  not start with white space.  Outside that window it is refused as expired.\<close>

theorem create_ticket_verify:
  assumes "hex_law K" "ts \<le> u64_max" "trim_start node_id = node_id"
    and "create_ticket K ts key node_id = Inr ticket"
  shows "verify_ticket K key ticket now =
    (if abs_diff now ts \<le> TICKET_MAX_AGE_SECS then Inr node_id
     else Inl (TicketExpired (abs_diff now ts)))"
  using assms by (rule verify_created_ticket)

theorem create_ticket_verify_witness:
  "\<exists>ticket. create_ticket demo 1000 ''key'' ''node-1'' = Inr ticket
     \<and> verify_ticket demo ''key'' ticket 1120 = Inr ''node-1''
     \<and> verify_ticket demo ''key'' ticket 1121 = Inl (TicketExpired 121)"
proof -
  have t: "create_ticket demo 1000 ''key'' ''node-1''
      = Inr (create_ticket_at demo ''key'' ''node-1'' 1000)"
    by code_simp
  have "trim_start ''node-1'' = ''node-1''" by code_simp
  from create_ticket_verify [OF demo_laws(2) _ this t]
  have "verify_ticket demo ''key'' (create_ticket_at demo ''key'' ''node-1'' 1000) now =
    (if abs_diff now 1000 \<le> TICKET_MAX_AGE_SECS then Inr ''node-1''
     else Inl (TicketExpired (abs_diff now 1000)))" for now by simp
  with t show ?thesis by (simp add: abs_diff_def TICKET_MAX_AGE_SECS_def)
qed

text \<open>C3: an accepted ticket carries, for a time within two minutes of the clock, the
  HMAC of exactly the accepted node and that time under the verifier's key; no other
  reading of the MAC-ed text as a node without delimiter and a time exists.\<close>

theorem verify_ticket_sound:
  assumes "verify_ticket K key ticket now = Inr node_id"
  shows "\<exists>ts ts_str mac_hex.
      trim_str ticket = node_id @ ''|'' @ ts_str @ ''|'' @ mac_hex
    \<and> parse_uint 10 u64_max ts_str = Some ts
    \<and> now \<le> ts + TICKET_MAX_AGE_SECS \<and> ts \<le> now + TICKET_MAX_AGE_SECS
    \<and> hex_decode K mac_hex = Some (hmac_sha256 K key (ticket_payload node_id ts))
    \<and> CHR ''|'' \<notin> set node_id
    \<and> (\<forall>n ts'. CHR ''|'' \<notin> set n \<longrightarrow>
         ticket_payload n ts' = ticket_payload node_id ts \<longrightarrow> n = node_id \<and> ts' = ts)"
proof -
  from assms obtain rest ts_str mac_hex ts where
    s1: "split_once (CHR ''|'') (trim_str ticket) = Some (node_id, rest)"
    and s2: "split_once (CHR ''|'') rest = Some (ts_str, mac_hex)"
    and ts: "parse_uint 10 u64_max ts_str = Some ts" "abs_diff now ts \<le> TICKET_MAX_AGE_SECS"
    and mac: "hex_decode K mac_hex = Some (hmac_sha256 K key (ticket_payload node_id ts))"
    and san: "sanitize_node_id node_id = Inr ()"
    by (auto simp: verify_ticket_def Let_def split: if_splits option.splits sum.splits)
  have "now \<le> ts + TICKET_MAX_AGE_SECS" "ts \<le> now + TICKET_MAX_AGE_SECS"
    using ts(2) by (auto simp: abs_diff_def split: if_splits)
  moreover have "trim_str ticket = node_id @ ''|'' @ ts_str @ ''|'' @ mac_hex"
    using s1 s2 by (simp add: split_once_Some_iff)
  moreover have "CHR ''|'' \<notin> set node_id" using san by (simp add: sanitize_node_id_Inr)
  ultimately show ?thesis using ts(1) mac ticket_payload_inject by blast
qed

theorem verify_ticket_sound_witness:
  "\<exists>ts ts_str mac_hex.
      trim_str (create_ticket_at demo ''k'' ''n'' 5) = ''n'' @ ''|'' @ ts_str @ ''|'' @ mac_hex
    \<and> parse_uint 10 u64_max ts_str = Some ts \<and> ts \<le> 7 + TICKET_MAX_AGE_SECS
    \<and> hex_decode demo mac_hex = Some (hmac_sha256 demo ''k'' (ticket_payload ''n'' ts))"
proof -
  have "verify_ticket demo ''k'' (create_ticket_at demo ''k'' ''n'' 5) 7 = Inr ''n''"
    by code_simp
  from verify_ticket_sound [OF this] show ?thesis by blast
qed

end
