(* ===== verification/TokenService.thy ===== *)
theory TokenService
  imports Store Crypto
begin

text \<open>
  The token service (\<open>crates/core/src/token.rs\<close>): data and admin tokens, kept as
  SHA-256 hashes in the store and verified against an in-memory snapshot of the table.

  Each operation takes what it reads from outside: the clock, the random bytes of a new
  token and the faults that its calls of the store meet.  \<open>verify\<close> hands the write of
  \<open>last_used_at\<close> to another thread; the model returns it as a job that runs later as a
  \<open>touch_token\<close> step of its own.
\<close>

definition TOKEN_PREFIX :: string where [const_defs]: "TOKEN_PREFIX = ''pony_''"
definition ADMIN_PREFIX :: string where [const_defs]: "ADMIN_PREFIX = ''pony_admin_''"
definition LAST_USED_THROTTLE_SECS :: nat where [const_defs]: "LAST_USED_THROTTLE_SECS = 60"
definition ADMIN_NAME :: string where [const_defs]: "ADMIN_NAME = ''__admin__''"
definition MAX_EXPIRES_DAYS :: nat where [const_defs]: "MAX_EXPIRES_DAYS = 3650"
definition SECS_PER_DAY :: nat where [const_defs]: "SECS_PER_DAY = 86400"

datatype token_error =
    TokNotFound | TokRevoked | TokExpired | TokDuplicate | TokInvalidName | TokInvalidExpiry
  | TokStore store_error

record token_svc =
  ts_store :: token_table
  ts_cache :: "string \<rightharpoonup> token_row"
  ts_last_used :: "int \<rightharpoonup> nat"

type_synonym touch_job = "(int \<times> nat) option"

section \<open>Operations\<close>

definition generate_token :: "crypto \<Rightarrow> string \<Rightarrow> string" where
  "generate_token K bytes = TOKEN_PREFIX @ hex_encode K bytes"

definition generate_admin_token :: "crypto \<Rightarrow> string \<Rightarrow> string" where
  "generate_admin_token K bytes = ADMIN_PREFIX @ hex_encode K bytes"

definition sha256_hex :: "crypto \<Rightarrow> string \<Rightarrow> string" where
  "sha256_hex K token = hex_encode K (sha256 K token)"

definition valid_name :: "string \<Rightarrow> bool" where
  "valid_name name =
     (let n = char_count name in
      if n = 0 \<or> n > 64 then False
      else if name = ADMIN_NAME \<or> starts_with TOKEN_PREFIX name then False
      else list_all (\<lambda>c. is_ascii_alphanumeric c \<or> c = CHR ''.'' \<or> c = CHR ''_'' \<or> c = CHR ''-'') name)"

definition is_unique_violation :: "store_error \<Rightarrow> bool" where
  "is_unique_violation e \<longleftrightarrow> e = SqliteConstraint"

definition reload_cache :: "fault \<Rightarrow> token_svc \<Rightarrow> (store_error + unit) \<times> token_svc" where
  "reload_cache fault svc =
     (case list_tokens fault (ts_store svc) of
        Inl e \<Rightarrow> (Inl e, svc)
      | Inr rows \<Rightarrow> (Inr (), svc\<lparr> ts_cache := index_by tk_hash rows \<rparr>))"

definition expiry :: "nat \<Rightarrow> nat option \<Rightarrow> token_error + nat option" where
  "expiry now expires_days =
     (case expires_days of
        None \<Rightarrow> Inr None
      | Some d \<Rightarrow>
          if \<not> (1 \<le> d \<and> d \<le> MAX_EXPIRES_DAYS) then Inl TokInvalidExpiry
          else if d * SECS_PER_DAY > u64_max \<or> now + d * SECS_PER_DAY > u64_max
          then Inl TokInvalidExpiry
          else Inr (Some (now + d * SECS_PER_DAY)))"

definition create_token ::
  "crypto \<Rightarrow> nat \<Rightarrow> string \<Rightarrow> fault \<Rightarrow> fault \<Rightarrow> string \<Rightarrow> nat option \<Rightarrow> token_svc
   \<Rightarrow> (token_error + int \<times> string) \<times> token_svc" where
  "create_token K now rnd insert_fault reload_fault name expires_days svc =
     (if \<not> valid_name name then (Inl TokInvalidName, svc)
      else (case expiry now expires_days of
        Inl e \<Rightarrow> (Inl e, svc)
      | Inr expires_at \<Rightarrow>
          (let plaintext = generate_token K rnd;
               hash = sha256_hex K plaintext
           in case insert_token insert_fault now name hash expires_at (ts_store svc) of
                (Inl e, _) \<Rightarrow>
                  (Inl (if is_unique_violation e then TokDuplicate else TokStore e), svc)
              | (Inr new_id, store) \<Rightarrow>
                  (case reload_cache reload_fault (svc\<lparr> ts_store := store \<rparr>) of
                     (Inl e, svc') \<Rightarrow> (Inl (TokStore e), svc')
                   | (Inr _, svc') \<Rightarrow> (Inr (new_id, plaintext), svc')))))"

definition revoke_token ::
  "nat \<Rightarrow> fault \<Rightarrow> fault \<Rightarrow> int \<Rightarrow> token_svc \<Rightarrow> (token_error + revoke_outcome) \<times> token_svc" where
  "revoke_token now revoke_fault reload_fault tid svc =
     (case store_revoke_token revoke_fault now tid (ts_store svc) of
        (Inl e, _) \<Rightarrow> (Inl (TokStore e), svc)
      | (Inr outcome, store) \<Rightarrow>
          (let svc = svc\<lparr> ts_store := store \<rparr> in
           if outcome = Revoked then
             (case reload_cache reload_fault svc of
                (Inl e, svc') \<Rightarrow> (Inl (TokStore e), svc')
              | (Inr _, svc') \<Rightarrow> (Inr outcome, svc'))
           else (Inr outcome, svc)))"

definition lookup_verified :: "crypto \<Rightarrow> nat \<Rightarrow> string \<Rightarrow> token_svc \<Rightarrow> token_error + token_row" where
  "lookup_verified K now plaintext svc =
     (case ts_cache svc (sha256_hex K plaintext) of
        None \<Rightarrow> Inl TokNotFound
      | Some row \<Rightarrow>
          if tk_revoked_at row \<noteq> None then Inl TokRevoked
          else (case tk_expires_at row of
                  Some e \<Rightarrow> if e < now then Inl TokExpired else Inr row
                | None \<Rightarrow> Inr row))"

definition throttle_touch :: "nat \<Rightarrow> token_row \<Rightarrow> token_svc \<Rightarrow> touch_job \<times> token_svc" where
  "throttle_touch now row svc =
     (case ts_last_used svc (tk_id row) of
        Some prev \<Rightarrow>
          if now - prev < LAST_USED_THROTTLE_SECS then (None, svc)
          else (Some (tk_id row, now), svc\<lparr> ts_last_used := (ts_last_used svc)(tk_id row \<mapsto> now) \<rparr>)
      | None \<Rightarrow> (Some (tk_id row, now), svc\<lparr> ts_last_used := (ts_last_used svc)(tk_id row \<mapsto> now) \<rparr>))"

definition verify ::
  "crypto \<Rightarrow> nat \<Rightarrow> string \<Rightarrow> token_svc \<Rightarrow> (token_error + token_row) \<times> touch_job \<times> token_svc" where
  "verify K now plaintext svc =
     (case lookup_verified K now plaintext svc of
        Inl e \<Rightarrow> (Inl e, None, svc)
      | Inr row \<Rightarrow>
          if tk_name row = ADMIN_NAME then (Inl TokNotFound, None, svc)
          else (Inr row, throttle_touch now row svc))"

definition verify_admin ::
  "crypto \<Rightarrow> nat \<Rightarrow> string \<Rightarrow> token_svc \<Rightarrow> (token_error + token_row) \<times> touch_job \<times> token_svc" where
  "verify_admin K now plaintext svc =
     (case lookup_verified K now plaintext svc of
        Inl e \<Rightarrow> (Inl e, None, svc)
      | Inr row \<Rightarrow>
          if tk_name row \<noteq> ADMIN_NAME then (Inl TokNotFound, None, svc)
          else (Inr row, throttle_touch now row svc))"

text \<open>\<open>admin_exists\<close> reads the cache; the keys of a cache are the hashes of the rows, so
  its values are those found under the hashes of the table.\<close>

definition admin_row :: "token_row \<Rightarrow> bool" where
  "admin_row r \<longleftrightarrow> tk_name r = ADMIN_NAME \<and> tk_revoked_at r = None"

definition admin_exists :: "token_svc \<Rightarrow> bool" where
  "admin_exists svc \<longleftrightarrow> (\<exists>r \<in> ran (ts_cache svc). admin_row r)"

definition bootstrap_admin ::
  "crypto \<Rightarrow> nat \<Rightarrow> string \<Rightarrow> string option \<Rightarrow> fault \<Rightarrow> fault \<Rightarrow> token_svc
   \<Rightarrow> (token_error + unit) \<times> token_svc" where
  "bootstrap_admin K now rnd admin_token_env list_fault insert_fault svc =
     (case list_tokens list_fault (ts_store svc) of
        Inl e \<Rightarrow> (Inl (TokStore e), svc)
      | Inr rows \<Rightarrow>
          if list_ex admin_row rows then (Inr (), svc)
          else
            (let plaintext = (case admin_token_env of
                                Some injected \<Rightarrow> if injected \<noteq> [] then injected
                                                 else generate_admin_token K rnd
                              | None \<Rightarrow> generate_admin_token K rnd)
             in case insert_token insert_fault now ADMIN_NAME (sha256_hex K plaintext) None (ts_store svc) of
                  (Inl e, _) \<Rightarrow> (Inl (TokStore e), svc)
                | (Inr _, store) \<Rightarrow> (Inr (), svc\<lparr> ts_store := store \<rparr>)))"

definition token_service_new ::
  "crypto \<Rightarrow> nat \<Rightarrow> string \<Rightarrow> string option \<Rightarrow> fault \<Rightarrow> fault \<Rightarrow> fault \<Rightarrow> token_table
   \<Rightarrow> (token_error + token_svc) \<times> token_table" where
  "token_service_new K now rnd admin_token_env list_fault insert_fault reload_fault store =
     (let svc = \<lparr> ts_store = store, ts_cache = Map.empty, ts_last_used = Map.empty \<rparr> in
      case bootstrap_admin K now rnd admin_token_env list_fault insert_fault svc of
        (Inl e, svc1) \<Rightarrow> (Inl e, ts_store svc1)
      | (Inr _, svc1) \<Rightarrow>
          (case reload_cache reload_fault svc1 of
             (Inl e, svc2) \<Rightarrow> (Inl (TokStore e), ts_store svc2)
           | (Inr _, svc2) \<Rightarrow> (Inr svc2, ts_store svc2)))"

section \<open>Histories\<close>

datatype tok_op =
    OpCreate string fault fault string "nat option"
  | OpRevoke fault fault int
  | OpVerify string
  | OpVerifyAdmin string
  | OpTouch fault int nat

fun tok_step :: "crypto \<Rightarrow> nat \<times> tok_op \<Rightarrow> token_svc \<Rightarrow> token_svc" where
  "tok_step K (now, OpCreate rnd f g name days) svc = snd (create_token K now rnd f g name days svc)"
| "tok_step K (now, OpRevoke f g tid) svc = snd (revoke_token now f g tid svc)"
| "tok_step K (now, OpVerify p) svc = snd (snd (verify K now p svc))"
| "tok_step K (now, OpVerifyAdmin p) svc = snd (snd (verify_admin K now p svc))"
| "tok_step K (now, OpTouch f tid ts) svc = svc\<lparr> ts_store := snd (touch_token f tid ts (ts_store svc)) \<rparr>"

fun tok_run :: "crypto \<Rightarrow> (nat \<times> tok_op) list \<Rightarrow> token_svc \<Rightarrow> token_svc" where
  "tok_run K [] svc = svc"
| "tok_run K (e # es) svc = tok_run K es (tok_step K e svc)"

lemma tok_run_invariant:
  assumes "P svc" "\<And>e s. e \<in> set es \<Longrightarrow> P s \<Longrightarrow> P (tok_step K e s)"
  shows "P (tok_run K es svc)"
  using assms by (induction es arbitrary: svc) auto

section \<open>Lemmas\<close>

lemma reload_cache_cases:
  obtains e where "reload_cache f svc = (Inl e, svc)" "f = Some e"
  | "reload_cache f svc = (Inr (), svc\<lparr> ts_cache := index_by tk_hash (tk_rows (ts_store svc)) \<rparr>)" "f = None"
  by (cases f) (auto simp: reload_cache_def list_tokens_def)

lemma throttle_touch_store [simp]:
  "ts_store (snd (throttle_touch now r svc)) = ts_store svc"
  "ts_cache (snd (throttle_touch now r svc)) = ts_cache svc"
  by (auto simp: throttle_touch_def split: option.splits)

lemma verify_store [simp]:
  "ts_store (snd (snd (verify K now p svc))) = ts_store svc"
  "ts_cache (snd (snd (verify K now p svc))) = ts_cache svc"
  "ts_store (snd (snd (verify_admin K now p svc))) = ts_store svc"
  "ts_cache (snd (snd (verify_admin K now p svc))) = ts_cache svc"
  by (auto simp: verify_def verify_admin_def split: sum.splits)

text \<open>What a step does to table and cache: the table changes by one of the statements of
  the store, and the cache is kept or becomes the index of the table.\<close>

lemma create_token_effect:
  obtains "snd (create_token K now rnd f g name days svc) = svc"
  | hash ex where "snd (create_token K now rnd f g name days svc) =
      snd (reload_cache g (svc\<lparr> ts_store := snd (insert_token f now name hash ex (ts_store svc)) \<rparr>))"
proof (cases "\<exists>ex. valid_name name \<and> expiry now days = Inr ex \<and>
    (\<exists>i. fst (insert_token f now name (sha256_hex K (generate_token K rnd)) ex (ts_store svc)) = Inr i)")
  case True
  then obtain ex i where *: "valid_name name" "expiry now days = Inr ex"
    "fst (insert_token f now name (sha256_hex K (generate_token K rnd)) ex (ts_store svc)) = Inr i" by blast
  then show ?thesis
    by (intro that(2) [of "sha256_hex K (generate_token K rnd)" ex])
      (auto simp: create_token_def Let_def split: prod.splits sum.splits)
next
  case False
  then have "snd (create_token K now rnd f g name days svc) = svc"
    by (auto simp: create_token_def Let_def split: prod.splits sum.splits)
  then show ?thesis by (rule that(1))
qed

lemma revoke_token_effect:
  obtains "snd (revoke_token now f g tid svc) = svc"
  | "snd (revoke_token now f g tid svc) =
      snd (reload_cache g (svc\<lparr> ts_store := snd (store_revoke_token f now tid (ts_store svc)) \<rparr>))"
proof (cases "fst (store_revoke_token f now tid (ts_store svc)) = Inr Revoked")
  case True
  then show ?thesis
    by (intro that(2)) (auto simp: revoke_token_def Let_def split: prod.splits sum.splits)
next
  case False
  obtain r st where st: "store_revoke_token f now tid (ts_store svc) = (r, st)" by fastforce
  with False have "r \<noteq> Inr Revoked" by simp
  moreover from this st have "st = ts_store svc"
    unfolding store_revoke_token_def by (cases f) (simp_all split: if_splits)
  ultimately have "snd (revoke_token now f g tid svc) = svc"
    by (cases r) (simp_all add: revoke_token_def st)
  then show ?thesis by (rule that(1))
qed

lemma tok_step_preserves:
  assumes "P (ts_store svc) (ts_cache svc)"
    and insert: "\<And>f now name hash ex. P (snd (insert_token f now name hash ex (ts_store svc))) (ts_cache svc)"
    and revoke: "\<And>f g now tid. e = (now, OpRevoke f g tid) \<Longrightarrow>
        P (snd (store_revoke_token f now tid (ts_store svc))) (ts_cache svc)"
    and touch: "\<And>f tid ts. P (snd (touch_token f tid ts (ts_store svc))) (ts_cache svc)"
    and reload: "\<And>t. P t (ts_cache svc) \<Longrightarrow> P t (index_by tk_hash (tk_rows t))"
  shows "P (ts_store (tok_step K e svc)) (ts_cache (tok_step K e svc))"
proof -
  have rl: "P (ts_store (snd (reload_cache g (svc\<lparr> ts_store := t \<rparr>))))
      (ts_cache (snd (reload_cache g (svc\<lparr> ts_store := t \<rparr>))))"
    if "P t (ts_cache svc)" for g t
    by (cases rule: reload_cache_cases [of g "svc\<lparr> ts_store := t \<rparr>"]) (use that reload in auto)
  obtain now op where e: "e = (now, op)" by (cases e)
  show ?thesis
  proof (cases op)
    case (OpCreate rnd f g name days)
    show ?thesis
      by (cases rule: create_token_effect [of K now rnd f g name days svc])
        (use e OpCreate assms(1) rl insert in auto)
  next
    case (OpRevoke f g tid)
    show ?thesis
      by (cases rule: revoke_token_effect [of now f g tid svc])
        (use e OpRevoke assms(1) rl revoke in auto)
  qed (use e assms(1) touch in simp_all)
qed

lemma tok_step_table_ok:
  assumes "token_table_ok (ts_store svc)"
  shows "token_table_ok (ts_store (tok_step K e svc))"
  by (rule tok_step_preserves [where P = "\<lambda>t c. token_table_ok t"])
    (use assms token_table_ok_insert token_table_ok_revoke token_table_ok_touch in auto)

text \<open>The row under a hash: its lifetime in the table.\<close>

lemma insert_token_rows:
  "set (tk_rows t) \<subseteq> set (tk_rows (snd (insert_token f now name hash ex t)))"
  by (auto simp: insert_token_def Let_def split: option.splits)

lemma touch_token_rows:
  "r \<in> set (tk_rows t) \<Longrightarrow>
   r \<in> set (tk_rows (snd (touch_token f tid ts t)))
   \<or> touch_row tid ts r \<in> set (tk_rows (snd (touch_token f tid ts t)))"
  by (auto simp: touch_token_def split: option.splits)

lemma revoke_token_rows:
  "r \<in> set (tk_rows t) \<Longrightarrow>
   r \<in> set (tk_rows (snd (store_revoke_token f now tid t)))
   \<or> revoke_row now tid r \<in> set (tk_rows (snd (store_revoke_token f now tid t)))"
  by (auto simp: store_revoke_token_def split: option.splits)

lemma revoke_row_revoked: "tk_revoked_at r \<noteq> None \<Longrightarrow> revoke_row now tid r = r"
  by (simp add: revoke_row_def)

text \<open>A property of rows that neither touching nor revoking destroys holds of the row with
  a given hash for ever, in the table and in the cache.\<close>

definition row_has :: "(token_row \<Rightarrow> bool) \<Rightarrow> string \<Rightarrow> token_table \<Rightarrow> (string \<rightharpoonup> token_row) \<Rightarrow> bool" where
  "row_has Q h t c \<longleftrightarrow>
     token_table_ok t \<and> (\<exists>r \<in> set (tk_rows t). tk_hash r = h \<and> Q r) \<and> (\<exists>r. c h = Some r \<and> Q r)"

lemma row_has_step:
  assumes "row_has Q h (ts_store svc) (ts_cache svc)"
    and touch: "\<And>r tid ts. Q r \<Longrightarrow> Q (touch_row tid ts r)"
    and revoke: "\<And>r now f g tid. e = (now, OpRevoke f g tid) \<Longrightarrow> Q r \<Longrightarrow> Q (revoke_row now tid r)"
  shows "row_has Q h (ts_store (tok_step K e svc)) (ts_cache (tok_step K e svc))"
proof (rule tok_step_preserves [where P = "row_has Q h"])
  show "row_has Q h (snd (insert_token f now name hash ex (ts_store svc))) (ts_cache svc)" for f now name hash ex
    using assms(1) token_table_ok_insert insert_token_rows unfolding row_has_def by blast
  show "row_has Q h (snd (touch_token f tid ts (ts_store svc))) (ts_cache svc)" for f tid ts
    using assms(1) touch token_table_ok_touch touch_token_rows [of _ "ts_store svc" f tid ts]
    unfolding row_has_def by (metis touch_row_simps(2))
  show "row_has Q h (snd (store_revoke_token f now tid (ts_store svc))) (ts_cache svc)"
    if "e = (now, OpRevoke f g tid)" for f g now tid
    using assms(1) revoke [OF that] token_table_ok_revoke revoke_token_rows [of _ "ts_store svc" f now tid]
    unfolding row_has_def by (metis revoke_row_simps(2))
  show "row_has Q h t (index_by tk_hash (tk_rows t))" if "row_has Q h t (ts_cache svc)" for t
    using that tk.cached_row unfolding row_has_def by metis
qed (rule assms(1))

lemma row_has_run:
  assumes "row_has Q h (ts_store svc) (ts_cache svc)"
    and "\<And>r tid ts. Q r \<Longrightarrow> Q (touch_row tid ts r)"
    and "\<And>r now f g tid. (now, OpRevoke f g tid) \<in> set es \<Longrightarrow> Q r \<Longrightarrow> Q (revoke_row now tid r)"
  shows "row_has Q h (ts_store (tok_run K es svc)) (ts_cache (tok_run K es svc))"
proof (rule tok_run_invariant [where P = "\<lambda>s. row_has Q h (ts_store s) (ts_cache s)"])
  show "row_has Q h (ts_store (tok_step K e s)) (ts_cache (tok_step K e s))"
    if "e \<in> set es" "row_has Q h (ts_store s) (ts_cache s)" for e s
    by (rule row_has_step [OF that(2)]) (use assms(2,3) that(1) in auto)
qed (rule assms(1))

lemma create_token_Inr:
  assumes "create_token K now rnd f g name days svc = (Inr (new_id, p), svc')"
    and "token_table_ok (ts_store svc)"
  shows "\<exists>ex r. expiry now days = Inr ex \<and> p = generate_token K rnd \<and> valid_name name
    \<and> r \<in> set (tk_rows (ts_store svc')) \<and> ts_cache svc' (sha256_hex K p) = Some r
    \<and> tk_hash r = sha256_hex K p \<and> tk_id r = new_id \<and> tk_name r = name \<and> tk_expires_at r = ex
    \<and> tk_revoked_at r = None \<and> token_table_ok (ts_store svc')"
proof -
  from assms(1) obtain ex t where v: "valid_name name" "expiry now days = Inr ex"
    and p: "p = generate_token K rnd"
    and ins: "insert_token f now name (sha256_hex K p) ex (ts_store svc) = (Inr new_id, t)"
    and rl: "reload_cache g (svc\<lparr> ts_store := t \<rparr>) = (Inr (), svc')"
    by (auto simp: create_token_def Let_def split: prod.splits sum.splits if_splits)
  have "\<exists>r \<in> set (tk_rows t). tk_hash r = sha256_hex K p \<and> tk_id r = new_id
    \<and> tk_name r = name \<and> tk_expires_at r = ex \<and> tk_revoked_at r = None"
    using ins by (auto simp: insert_token_def Let_def split: option.splits if_splits)
  then obtain r where r: "r \<in> set (tk_rows t)" "tk_hash r = sha256_hex K p" "tk_id r = new_id"
    "tk_name r = name" "tk_expires_at r = ex" "tk_revoked_at r = None" by blast
  have ok: "token_table_ok t" using token_table_ok_insert [OF assms(2)] ins by (metis snd_conv)
  have "svc' = svc\<lparr> ts_store := t, ts_cache := index_by tk_hash (tk_rows t) \<rparr>"
    using rl by (cases rule: reload_cache_cases [of g "svc\<lparr> ts_store := t \<rparr>"]) auto
  then show ?thesis using v p r ok tk.cached_row [OF ok r(1)] by auto
qed

lemma ADMIN_NAME_invalid: "valid_name name \<Longrightarrow> name \<noteq> ADMIN_NAME"
  by (auto simp: valid_name_def Let_def split: if_splits)

section \<open>The cache as a snapshot of the table\<close>

definition no_reload_fault :: "nat \<times> tok_op \<Rightarrow> bool" where
  "no_reload_fault e =
     (case snd e of OpCreate _ _ g _ _ \<Rightarrow> g = None | OpRevoke _ g _ \<Rightarrow> g = None | _ \<Rightarrow> True)"

definition live_row :: "nat \<Rightarrow> string \<Rightarrow> token_row \<Rightarrow> bool" where
  "live_row now hash r \<longleftrightarrow>
     tk_hash r = hash \<and> tk_revoked_at r = None \<and> (\<forall>e. tk_expires_at r = Some e \<longrightarrow> now \<le> e)"

text \<open>Cache and table agree but for the time of last use, which is not reloaded.\<close>

definition forget_use :: "token_row \<Rightarrow> token_row" where
  "forget_use r = r\<lparr> tk_last_used_at := None \<rparr>"

definition coherent :: "token_table \<Rightarrow> (string \<rightharpoonup> token_row) \<Rightarrow> bool" where
  "coherent t c \<longleftrightarrow>
     token_table_ok t
     \<and> (\<forall>h. map_option forget_use (c h) = map_option forget_use (index_by tk_hash (tk_rows t) h))"

lemma forget_use_touch [simp]: "forget_use (touch_row tid ts r) = forget_use r"
  by (simp add: forget_use_def touch_row_def)

lemma forget_use_eqD:
  assumes "forget_use r = forget_use r'"
  shows "tk_hash r = tk_hash r'" "tk_revoked_at r = tk_revoked_at r'"
    "tk_expires_at r = tk_expires_at r'" "tk_name r = tk_name r'"
  using assms by (cases r; cases r'; simp add: forget_use_def)+

lemma index_by_map_forget:
  assumes "\<And>r. forget_use (g r) = forget_use r"
  shows "map_option forget_use (index_by tk_hash (map g rs) h) =
    map_option forget_use (index_by tk_hash rs h)"
proof (induction rs rule: rev_induct)
  case (snoc r rs)
  have "tk_hash (g r) = tk_hash r"
    using assms [of r] by (rule forget_use_eqD)
  with snoc assms show ?case by simp
qed simp

lemma coherent_touch:
  assumes "coherent t c" shows "coherent (snd (touch_token f tid ts t)) c"
  using assms token_table_ok_touch [of t f tid ts]
    index_by_map_forget [of "touch_row tid ts" "tk_rows t"]
  by (cases f) (auto simp: coherent_def touch_token_def)

lemma coherent_reload: "token_table_ok t \<Longrightarrow> coherent t (index_by tk_hash (tk_rows t))"
  by (simp add: coherent_def)

lemma coherent_step:
  assumes "coherent (ts_store svc) (ts_cache svc)" "no_reload_fault e"
  shows "coherent (ts_store (tok_step K e svc)) (ts_cache (tok_step K e svc))"
proof -
  have ok: "token_table_ok (ts_store svc)" using assms(1) by (simp add: coherent_def)
  have rl: "coherent (ts_store (snd (reload_cache None (svc\<lparr> ts_store := t \<rparr>))))
      (ts_cache (snd (reload_cache None (svc\<lparr> ts_store := t \<rparr>))))" if "token_table_ok t" for t
    using coherent_reload [OF that] by (simp add: reload_cache_def list_tokens_def)
  obtain now op where e: "e = (now, op)" by (cases e)
  show ?thesis
  proof (cases op)
    case (OpCreate rnd f g name days)
    show ?thesis
      by (cases rule: create_token_effect [of K now rnd f g name days svc])
        (use e OpCreate assms ok rl token_table_ok_insert in \<open>auto simp: no_reload_fault_def\<close>)
  next
    case (OpRevoke f g tid)
    show ?thesis
      by (cases rule: revoke_token_effect [of now f g tid svc])
        (use e OpRevoke assms ok rl token_table_ok_revoke in \<open>auto simp: no_reload_fault_def\<close>)
  qed (use e assms(1) coherent_touch in simp_all)
qed

lemma bootstrap_admin_effect:
  "ts_store (snd (bootstrap_admin K now rnd env f1 f2 svc)) = ts_store svc \<or>
   (\<exists>h. ts_store (snd (bootstrap_admin K now rnd env f1 f2 svc))
      = snd (insert_token f2 now ADMIN_NAME h None (ts_store svc)))"
proof -
  define h where "h = sha256_hex K (case env of
      Some injected \<Rightarrow> if injected \<noteq> [] then injected else generate_admin_token K rnd
    | None \<Rightarrow> generate_admin_token K rnd)"
  obtain res t where ins: "insert_token f2 now ADMIN_NAME h None (ts_store svc) = (res, t)"
    by (cases "insert_token f2 now ADMIN_NAME h None (ts_store svc)")
  then have "ts_store (snd (bootstrap_admin K now rnd env f1 f2 svc)) \<in> {ts_store svc, t}"
    by (auto simp: bootstrap_admin_def Let_def split: sum.splits simp flip: h_def)
  with ins show ?thesis by (auto intro!: exI [of _ h])
qed

lemma coherent_new:
  assumes "token_service_new K now rnd env f1 f2 f3 store = (Inr svc, store')" "token_table_ok store"
  shows "coherent (ts_store svc) (ts_cache svc)"
proof -
  let ?s0 = "\<lparr> ts_store = store, ts_cache = Map.empty, ts_last_used = Map.empty \<rparr>"
  from assms(1) obtain svc1 where b: "bootstrap_admin K now rnd env f1 f2 ?s0 = (Inr (), svc1)"
    and r: "reload_cache f3 svc1 = (Inr (), svc)"
    by (auto simp: token_service_new_def split: prod.splits sum.splits)
  from bootstrap_admin_effect [of K now rnd env f1 f2 ?s0] b
  have "ts_store svc1 = store \<or> (\<exists>h. ts_store svc1 = snd (insert_token f2 now ADMIN_NAME h None store))"
    by simp
  then have "token_table_ok (ts_store svc1)" using assms(2) token_table_ok_insert by auto
  then show ?thesis
    using r coherent_reload by (cases rule: reload_cache_cases [of f3 svc1]) auto
qed

lemma coherent_lookup:
  assumes "coherent (ts_store svc) (ts_cache svc)"
  shows "(\<exists>row. lookup_verified K t p svc = Inr row \<and> tk_name row \<in> N) \<longleftrightarrow>
    (\<exists>r \<in> set (tk_rows (ts_store svc)). live_row t (sha256_hex K p) r \<and> tk_name r \<in> N)"
proof -
  let ?h = "sha256_hex K p"
  have cache: "map_option forget_use (ts_cache svc ?h) =
      map_option forget_use (index_by tk_hash (tk_rows (ts_store svc)) ?h)"
    and ok: "token_table_ok (ts_store svc)"
    using assms by (auto simp: coherent_def)
  show ?thesis
  proof (cases "ts_cache svc ?h")
    case None
    with cache have "index_by tk_hash (tk_rows (ts_store svc)) ?h = None" by simp
    with None show ?thesis
      by (auto simp: lookup_verified_def live_row_def index_by_None_iff)
  next
    case (Some r)
    with cache obtain r' where r': "index_by tk_hash (tk_rows (ts_store svc)) ?h = Some r'"
      "forget_use r = forget_use r'" by (auto simp: map_option_case split: option.splits)
    have "r' \<in> set (tk_rows (ts_store svc))" using r'(1) by (auto dest: index_by_Some)
    moreover have "x = r'" if "x \<in> set (tk_rows (ts_store svc))" "tk_hash x = ?h" for x
      using that r'(1) tk.cached_iff [OF ok, of ?h x] by simp
    ultimately have "(\<exists>x \<in> set (tk_rows (ts_store svc)). live_row t ?h x \<and> tk_name x \<in> N) \<longleftrightarrow>
        live_row t ?h r' \<and> tk_name r' \<in> N"
      unfolding live_row_def by blast
    moreover have "tk_hash r' = ?h" using r'(1) by (auto dest: index_by_Some)
    ultimately show ?thesis
      using Some forget_use_eqD [OF r'(2)]
      by (auto simp: lookup_verified_def live_row_def split: option.splits)
  qed
qed

definition demo_svc :: token_svc where
  "demo_svc = \<lparr> ts_store = empty_tokens, ts_cache = Map.empty, ts_last_used = Map.empty \<rparr>"

definition demo_svc1 :: token_svc where
  "demo_svc1 = snd (create_token demo 100 ''ab'' None None ''laptop'' (Some 1) demo_svc)"

lemma demo_create:
  "create_token demo 100 ''ab'' None None ''laptop'' (Some 1) demo_svc = (Inr (1, ''pony_6162''), demo_svc1)"
proof -
  have "fst (create_token demo 100 ''ab'' None None ''laptop'' (Some 1) demo_svc) = Inr (1, ''pony_6162'')"
    by code_simp
  then show ?thesis by (simp add: demo_svc1_def prod_eq_iff)
qed

section \<open>Properties\<close>

text \<open>A token that \<open>create_token\<close> hands out verifies, as the row with the new id and
  the given name, until it expires, whatever operations follow, with whatever faults of
  the store, as long as none of them revokes that id.\<close>

theorem create_token_verify:
  assumes "token_table_ok (ts_store svc)"
    and "create_token K now rnd f g name days svc = (Inr (new_id, plaintext), svc1)"
    and "\<forall>t f g. (t, OpRevoke f g new_id) \<notin> set later"
    and "\<forall>d. days = Some d \<longrightarrow> now' \<le> now + d * SECS_PER_DAY"
  shows "\<exists>row. fst (verify K now' plaintext (tok_run K later svc1)) = Inr row
    \<and> tk_id row = new_id \<and> tk_name row = name"
proof -
  let ?Q = "\<lambda>r. tk_id r = new_id \<and> tk_name r = name \<and> tk_revoked_at r = None
      \<and> expiry now days = Inr (tk_expires_at r)"
  from create_token_Inr [OF assms(2,1)] have start:
    "row_has ?Q (sha256_hex K plaintext) (ts_store svc1) (ts_cache svc1)" and v: "valid_name name"
    unfolding row_has_def by blast+
  have "row_has ?Q (sha256_hex K plaintext)
      (ts_store (tok_run K later svc1)) (ts_cache (tok_run K later svc1))"
  proof (rule row_has_run [OF start])
    show "?Q (touch_row tid ts r)" if "?Q r" for r tid ts
      using that by simp
    show "?Q (revoke_row t tid r)" if "(t, OpRevoke f g tid) \<in> set later" "?Q r" for r t f g tid
    proof -
      have "tid \<noteq> new_id" using that(1) assms(3) by blast
      with that(2) show ?thesis by (auto simp: revoke_row_def)
    qed
  qed
  then obtain r where r: "ts_cache (tok_run K later svc1) (sha256_hex K plaintext) = Some r" "?Q r"
    unfolding row_has_def by blast
  have "\<not> (\<exists>e. tk_expires_at r = Some e \<and> e < now')"
    using r(2) assms(4) by (auto simp: expiry_def split: option.splits if_splits)
  then have "lookup_verified K now' plaintext (tok_run K later svc1) = Inr r"
    using r by (auto simp: lookup_verified_def split: option.splits)
  then show ?thesis
    using r(2) ADMIN_NAME_invalid [OF v] by (auto simp: verify_def split: prod.splits)
qed

theorem create_token_verify_witness:
  "\<exists>row. fst (verify demo 86500 ''pony_6162'' (tok_run demo [(200, OpRevoke None None 7)] demo_svc1)) = Inr row
    \<and> tk_id row = 1 \<and> tk_name row = ''laptop''"
proof -
  have "token_table_ok (ts_store demo_svc)" by (simp add: demo_svc_def token_table_ok_empty)
  from create_token_verify [OF this demo_create, of "[(200, OpRevoke None None 7)]" 86500] show ?thesis
    by (simp add: SECS_PER_DAY_def)
qed



text \<open>The cache answers for the table.  For a service that \<open>new\<close> set up, after any
  history in which no reload failed, \<open>verify\<close> accepts a text exactly when the table holds
  a row with its hash that is not revoked, not expired and not the admin's, and
  \<open>verify_admin\<close> exactly when it holds such a row of the admin; so no text passes both.\<close>

theorem verify_refines_store:
  assumes "token_service_new K now rnd env f1 f2 f3 store = (Inr svc0, store')"
    and "token_table_ok store" "\<forall>e \<in> set es. no_reload_fault e"
    and "svc = tok_run K es svc0"
  shows "((\<exists>row. fst (verify K t plaintext svc) = Inr row) \<longleftrightarrow>
      (\<exists>r \<in> set (tk_rows (ts_store svc)). live_row t (sha256_hex K plaintext) r \<and> tk_name r \<noteq> ADMIN_NAME))
    \<and> ((\<exists>row. fst (verify_admin K t plaintext svc) = Inr row) \<longleftrightarrow>
      (\<exists>r \<in> set (tk_rows (ts_store svc)). live_row t (sha256_hex K plaintext) r \<and> tk_name r = ADMIN_NAME))"
proof -
  have "coherent (ts_store svc) (ts_cache svc)"
    unfolding assms(4)
    by (rule tok_run_invariant [where P = "\<lambda>s. coherent (ts_store s) (ts_cache s)"])
      (use assms(3) coherent_new [OF assms(1,2)] coherent_step in auto)
  note look = coherent_lookup [OF this, of K t plaintext]
  have "(\<exists>row. fst (verify K t plaintext svc) = Inr row) \<longleftrightarrow>
      (\<exists>row. lookup_verified K t plaintext svc = Inr row \<and> tk_name row \<in> - {ADMIN_NAME})"
    by (auto simp: verify_def split: sum.splits)
  moreover have "(\<exists>row. fst (verify_admin K t plaintext svc) = Inr row) \<longleftrightarrow>
      (\<exists>row. lookup_verified K t plaintext svc = Inr row \<and> tk_name row \<in> {ADMIN_NAME})"
    by (auto simp: verify_admin_def split: sum.splits)
  ultimately show ?thesis unfolding look by simp
qed

theorem verify_refines_store_witness:
  "\<exists>svc0 store'. token_service_new demo 100 ''ab'' None None None None empty_tokens = (Inr svc0, store')
    \<and> ((\<exists>row. fst (verify_admin demo 120 ''pony_admin_6162'' svc0) = Inr row) \<longleftrightarrow>
        (\<exists>r \<in> set (tk_rows (ts_store svc0)).
           live_row 120 (sha256_hex demo ''pony_admin_6162'') r \<and> tk_name r = ADMIN_NAME))"
proof -
  let ?n = "token_service_new demo 100 ''ab'' None None None None empty_tokens"
  have "isl (fst ?n) = False" by code_simp
  then obtain svc0 where "fst ?n = Inr svc0" by (cases "fst ?n") auto
  then have n: "?n = (Inr svc0, snd ?n)" by (simp add: prod_eq_iff)
  from verify_refines_store [OF n token_table_ok_empty, of "[]" svc0 120 "''pony_admin_6162''"] n
  show ?thesis by auto
qed

end
