(* ===== verification/UserService.thy ===== *)
theory UserService
  imports Store Crypto
begin

text \<open>
  The user service (\<open>crates/core/src/user.rs\<close>): salted password hashes and the users of
  the store with an in-memory cache that every successful write updates.  Clock, random
  salt and faults of the store are arguments; the write of \<open>last_used_at\<close> is a job that
  runs later.
\<close>

definition HASH_ITERATIONS :: nat where [const_defs]: "HASH_ITERATIONS = 10000"

section \<open>Passwords\<close>

fun iterate_hash :: "crypto \<Rightarrow> nat \<Rightarrow> string \<Rightarrow> string \<Rightarrow> string \<Rightarrow> string" where
  "iterate_hash K 0 salt password current = current"
| "iterate_hash K (Suc n) salt password current =
     iterate_hash K n salt password (sha256 K (current @ salt @ password))"

definition compute_iterated_hash :: "crypto \<Rightarrow> string \<Rightarrow> string \<Rightarrow> string" where
  "compute_iterated_hash K salt password =
     hex_encode K (iterate_hash K (HASH_ITERATIONS - 1) salt password
       (sha256 K (salt @ '':'' @ password)))"

definition hash_password :: "crypto \<Rightarrow> string \<Rightarrow> string \<Rightarrow> string" where
  "hash_password K salt_bytes password =
     (let salt = hex_encode K salt_bytes;
          hash = compute_iterated_hash K salt password
      in salt @ ''$'' @ hash)"

definition verify_password :: "crypto \<Rightarrow> string \<Rightarrow> string \<Rightarrow> bool" where
  "verify_password K password stored_hash =
     (case split_on (CHR ''$'') stored_hash of
        [salt, expected_hash] \<Rightarrow> constant_time_eq expected_hash (compute_iterated_hash K salt password)
      | _ \<Rightarrow> False)"

section \<open>The service\<close>

datatype user_error =
    UserStore store_error | InvalidUsername | InvalidPassword | UserAlreadyExists string
  | UserNotFound string

record user_svc =
  uv_store :: user_table
  uv_cache :: "string \<rightharpoonup> user_row"
  uv_last_touched :: "int \<rightharpoonup> int"

definition refresh_cache :: "fault \<Rightarrow> user_svc \<Rightarrow> (store_error + unit) \<times> user_svc" where
  "refresh_cache fault svc =
     (case store_list_users fault (uv_store svc) of
        Inl e \<Rightarrow> (Inl e, svc)
      | Inr users \<Rightarrow> (Inr (), svc\<lparr> uv_cache := index_by us_username users \<rparr>))"

definition user_service_new :: "fault \<Rightarrow> user_table \<Rightarrow> store_error + user_svc" where
  "user_service_new fault store =
     (case refresh_cache fault \<lparr> uv_store = store, uv_cache = Map.empty, uv_last_touched = Map.empty \<rparr> of
        (Inl e, _) \<Rightarrow> Inl e
      | (Inr _, svc) \<Rightarrow> Inr svc)"

definition validate_username :: "string \<Rightarrow> user_error + unit" where
  "validate_username username =
     (if length username < 2 \<or> length username > 32 then Inl InvalidUsername
      else if \<not> list_all (\<lambda>c. is_ascii_alphanumeric c \<or> c = CHR ''_'' \<or> c = CHR ''-'') username
      then Inl InvalidUsername
      else Inr ())"

definition create_user ::
  "crypto \<Rightarrow> int \<Rightarrow> string \<Rightarrow> fault \<Rightarrow> string \<Rightarrow> string \<Rightarrow> nat option \<Rightarrow> user_svc
   \<Rightarrow> (user_error + user_row) \<times> user_svc" where
  "create_user K now salt_bytes fault username password expires_days svc =
     (case validate_username username of
        Inl e \<Rightarrow> (Inl e, svc)
      | Inr _ \<Rightarrow>
          if length password < 4 then (Inl InvalidPassword, svc)
          else
            (let expires_at = map_option (\<lambda>days. now + int days * 86400) expires_days;
                 password_hash = hash_password K salt_bytes password
             in case insert_user fault username password_hash now expires_at (uv_store svc) of
                  (Inl e, _) \<Rightarrow>
                    (Inl (if e = SqliteConstraint then UserAlreadyExists username else UserStore e), svc)
                | (Inr row, store) \<Rightarrow>
                    (Inr row, svc\<lparr> uv_store := store, uv_cache := (uv_cache svc)(username \<mapsto> row) \<rparr>)))"

definition touch_last_used :: "int \<Rightarrow> int \<Rightarrow> user_svc \<Rightarrow> (int \<times> int) option \<times> user_svc" where
  "touch_last_used uid now svc =
     (let last_ts = (case uv_last_touched svc uid of Some v \<Rightarrow> v | None \<Rightarrow> 0) in
      if now - last_ts > 60
      then (Some (uid, now), svc\<lparr> uv_last_touched := (uv_last_touched svc)(uid \<mapsto> now) \<rparr>)
      else (None, svc\<lparr> uv_last_touched := (uv_last_touched svc)(uid \<mapsto> last_ts) \<rparr>))"

definition verify_user ::
  "crypto \<Rightarrow> int \<Rightarrow> string \<Rightarrow> string \<Rightarrow> user_svc \<Rightarrow> user_row option \<times> (int \<times> int) option \<times> user_svc" where
  "verify_user K now username password svc =
     (case uv_cache svc username of
        None \<Rightarrow> (None, None, svc)
      | Some user \<Rightarrow>
          if us_disabled user then (None, None, svc)
          else if (case us_expires_at user of Some e \<Rightarrow> now > e | None \<Rightarrow> False) then (None, None, svc)
          else if \<not> verify_password K password (us_password_hash user) then (None, None, svc)
          else (Some user, touch_last_used (us_id user) now svc))"

definition delete_user :: "fault \<Rightarrow> string \<Rightarrow> user_svc \<Rightarrow> (user_error + bool) \<times> user_svc" where
  "delete_user fault username svc =
     (case store_delete_user fault username (uv_store svc) of
        (Inl e, _) \<Rightarrow> (Inl (UserStore e), svc)
      | (Inr deleted, store) \<Rightarrow>
          (Inr deleted,
           if deleted then svc\<lparr> uv_store := store, uv_cache := (uv_cache svc)(username := None) \<rparr>
           else svc\<lparr> uv_store := store \<rparr>))"

definition set_disabled :: "fault \<Rightarrow> string \<Rightarrow> bool \<Rightarrow> user_svc \<Rightarrow> (user_error + bool) \<times> user_svc" where
  "set_disabled fault username disabled svc =
     (case set_user_disabled fault username disabled (uv_store svc) of
        (Inl e, _) \<Rightarrow> (Inl (UserStore e), svc)
      | (Inr updated, store) \<Rightarrow>
          (Inr updated,
           if updated then
             svc\<lparr> uv_store := store,
                  uv_cache := (uv_cache svc)(username :=
                    map_option (\<lambda>r. r\<lparr> us_disabled := disabled \<rparr>) (uv_cache svc username)) \<rparr>
           else svc\<lparr> uv_store := store \<rparr>))"

definition update_password ::
  "crypto \<Rightarrow> string \<Rightarrow> fault \<Rightarrow> string \<Rightarrow> string \<Rightarrow> user_svc \<Rightarrow> (user_error + bool) \<times> user_svc" where
  "update_password K salt_bytes fault username new_password svc =
     (if length new_password < 4 then (Inl InvalidPassword, svc)
      else
        (let password_hash = hash_password K salt_bytes new_password in
         case update_user_password fault username password_hash (uv_store svc) of
           (Inl e, _) \<Rightarrow> (Inl (UserStore e), svc)
         | (Inr updated, store) \<Rightarrow>
             (Inr updated,
              if updated then
                svc\<lparr> uv_store := store,
                     uv_cache := (uv_cache svc)(username :=
                       map_option (\<lambda>r. r\<lparr> us_password_hash := password_hash \<rparr>) (uv_cache svc username)) \<rparr>
              else svc\<lparr> uv_store := store \<rparr>)))"

section \<open>Histories\<close>

datatype user_op =
    UsCreate string fault string string "nat option"
  | UsVerify string string
  | UsDelete fault string
  | UsDisable fault string bool
  | UsPassword string fault string string
  | UsRefresh fault
  | UsTouch fault int int

fun user_step :: "crypto \<Rightarrow> int \<times> user_op \<Rightarrow> user_svc \<Rightarrow> user_svc" where
  "user_step K (now, UsCreate salt f u p d) svc = snd (create_user K now salt f u p d svc)"
| "user_step K (now, UsVerify u p) svc = snd (snd (verify_user K now u p svc))"
| "user_step K (now, UsDelete f u) svc = snd (delete_user f u svc)"
| "user_step K (now, UsDisable f u b) svc = snd (set_disabled f u b svc)"
| "user_step K (now, UsPassword salt f u p) svc = snd (update_password K salt f u p svc)"
| "user_step K (now, UsRefresh f) svc = snd (refresh_cache f svc)"
| "user_step K (now, UsTouch f uid ts) svc =
     svc\<lparr> uv_store := snd (touch_user_last_used f uid ts (uv_store svc)) \<rparr>"

fun user_run :: "crypto \<Rightarrow> (int \<times> user_op) list \<Rightarrow> user_svc \<Rightarrow> user_svc" where
  "user_run K [] svc = svc"
| "user_run K (e # es) svc = user_run K es (user_step K e svc)"

lemma user_run_invariant:
  assumes "P svc" "\<And>e s. P s \<Longrightarrow> P (user_step K e s)"
  shows "P (user_run K es svc)"
  using assms by (induction es arbitrary: svc) auto

section \<open>Lemmas\<close>

lemma dollar_not_hex: "hex_char c \<Longrightarrow> c \<noteq> CHR ''$''"
  by (auto simp: hex_char_def is_ascii_digit_def byte_def)

lemma verify_hash_password:
  assumes "hex_law K"
  shows "verify_password K p (hash_password K salt q) \<longleftrightarrow>
    compute_iterated_hash K (hex_encode K salt) p = compute_iterated_hash K (hex_encode K salt) q"
proof -
  have hex: "CHR ''$'' \<notin> set (hex_encode K m)" for m
    using assms dollar_not_hex unfolding hex_law_def by blast
  have hash: "CHR ''$'' \<notin> set (compute_iterated_hash K s q)" for s
    by (simp add: compute_iterated_hash_def hex)
  have "split_on (CHR ''$'') (hash_password K salt q) =
      [hex_encode K salt, compute_iterated_hash K (hex_encode K salt) q]"
    by (simp add: hash_password_def Let_def split_on_append hex hash)
  then show ?thesis by (auto simp: verify_password_def)
qed

text \<open>Cache and table agree but for the time of last use.\<close>

definition forget_user_use :: "user_row \<Rightarrow> user_row" where
  "forget_user_use r = r\<lparr> us_last_used_at := None \<rparr>"

definition user_coherent :: "user_svc \<Rightarrow> bool" where
  "user_coherent svc \<longleftrightarrow>
     user_table_ok (uv_store svc)
     \<and> (\<forall>u. map_option forget_user_use (uv_cache svc u) =
            map_option forget_user_use (index_by us_username (us_rows (uv_store svc)) u))"

lemma user_coherent_refresh:
  "user_coherent svc \<Longrightarrow> user_coherent (snd (refresh_cache f svc))"
  by (cases f) (simp_all add: refresh_cache_def store_list_users_def user_coherent_def)

lemma user_coherent_create:
  assumes "user_coherent svc"
  shows "user_coherent (snd (create_user K now salt f u p d svc))"
proof -
  have ok: "user_table_ok (uv_store svc)" using assms by (simp add: user_coherent_def)
  have "index_by us_username (us_rows t) = (index_by us_username (us_rows (uv_store svc)))(u \<mapsto> row)"
    if "insert_user f u h now ex (uv_store svc) = (Inr row, t)" for h ex row t
    using that by (auto simp: insert_user_def Let_def split: option.splits if_splits)
  moreover have "user_table_ok t" if "insert_user f u h now ex (uv_store svc) = (Inr row, t)" for h ex row t
    using user_table_ok_insert [OF ok, of f u h now ex] that by simp
  ultimately show ?thesis
    using assms
    by (auto simp: create_user_def user_coherent_def Let_def split: sum.splits prod.splits)
qed

lemma user_coherent_delete:
  assumes "user_coherent svc"
  shows "user_coherent (snd (delete_user f u svc))"
proof (cases f)
  case None
  let ?t = "(uv_store svc)\<lparr> us_rows := filter (\<lambda>r. us_username r \<noteq> u) (us_rows (uv_store svc)) \<rparr>"
  have st: "store_delete_user f u (uv_store svc) =
      (Inr (list_ex (\<lambda>r. us_username r = u) (us_rows (uv_store svc))), ?t)"
    by (simp add: store_delete_user_def None)
  then have ok: "user_table_ok ?t"
    using user_table_ok_delete [of "uv_store svc" f u] assms by (simp add: user_coherent_def)
  show ?thesis
  proof (cases "list_ex (\<lambda>r. us_username r = u) (us_rows (uv_store svc))")
    case True
    with st ok assms show ?thesis by (simp add: delete_user_def user_coherent_def index_by_delete)
  next
    case False
    then have "filter (\<lambda>r. us_username r \<noteq> u) (us_rows (uv_store svc)) = us_rows (uv_store svc)"
      by (auto simp: list_ex_iff intro!: filter_True)
    with st False ok assms show ?thesis by (simp add: delete_user_def user_coherent_def)
  qed
qed (use assms in \<open>simp add: delete_user_def store_delete_user_def\<close>)

text \<open>Both updates of a user change the row in the table and in the cache alike.\<close>

lemma user_coherent_update:
  assumes "user_coherent svc" "update_user f u g (uv_store svc) = (Inr b, t)"
    and g: "\<And>r. us_id (g r) = us_id r" "\<And>r. us_username (g r) = us_username r"
      "\<And>r. forget_user_use (g r) = g (forget_user_use r)"
  shows "b \<Longrightarrow> user_coherent (svc\<lparr> uv_store := t,
      uv_cache := (uv_cache svc)(u := map_option g (uv_cache svc u)) \<rparr>)"
    and "\<not> b \<Longrightarrow> user_coherent (svc\<lparr> uv_store := t \<rparr>)"
proof -
  have ok: "user_table_ok t"
    using user_table_ok_update [of "uv_store svc" g f u] assms by (simp add: user_coherent_def)
  have rows: "us_rows t = map (\<lambda>r. if us_username r = u then g r else r) (us_rows (uv_store svc))"
    using assms(2) by (auto simp: update_user_def split: option.splits)
  have mo: "map_option forget_user_use (map_option g x) = map_option g (map_option forget_user_use x)" for x
    by (simp add: option.map_comp comp_def g(3))
  show "user_coherent (svc\<lparr> uv_store := t, uv_cache := (uv_cache svc)(u := map_option g (uv_cache svc u)) \<rparr>)"
    using assms(1) ok
    by (simp add: user_coherent_def rows index_by_update [where key = us_username, OF g(2)] mo)
  show "user_coherent (svc\<lparr> uv_store := t \<rparr>)" if "\<not> b"
  proof -
    have "\<not> (\<exists>r \<in> set (us_rows (uv_store svc)). us_username r = u)"
      using assms(2) that by (auto simp: update_user_def list_ex_iff split: option.splits)
    then have "us_rows t = us_rows (uv_store svc)" by (auto simp: rows intro!: map_idI)
    with assms(1) ok show ?thesis by (simp add: user_coherent_def)
  qed
qed

lemma user_coherent_touch:
  assumes "user_coherent svc"
  shows "user_coherent (svc\<lparr> uv_store := snd (touch_user_last_used f uid ts (uv_store svc)) \<rparr>)"
proof (cases f)
  case None
  let ?g = "\<lambda>r. if us_id r = uid then r\<lparr> us_last_used_at := Some ts \<rparr> else r"
  have "map_option forget_user_use (index_by us_username (map ?g rs) u) =
      map_option forget_user_use (index_by us_username rs u)" for rs u
    by (induction rs rule: rev_induct) (auto simp: forget_user_use_def)
  moreover have "map us_id (map ?g rs) = map us_id rs" "map us_username (map ?g rs) = map us_username rs"
    for rs :: "user_row list"
    by (induction rs) auto
  ultimately show ?thesis
    using assms None
    by (auto simp: user_coherent_def touch_user_last_used_def user_table_ok_def list_all_iff
        simp del: map_map)
qed (use assms in \<open>simp add: touch_user_last_used_def user_coherent_def\<close>)

lemma user_coherent_step:
  assumes "user_coherent svc" shows "user_coherent (user_step K e svc)"
proof -
  obtain now op where e: "e = (now, op)" by (cases e)
  show ?thesis
  proof (cases op)
    case (UsVerify u p)
    have "uv_store (snd (touch_last_used uid now svc)) = uv_store svc"
      "uv_cache (snd (touch_last_used uid now svc)) = uv_cache svc" for uid
      by (auto simp: touch_last_used_def Let_def)
    with UsVerify e assms show ?thesis
      by (auto simp: verify_user_def user_coherent_def split: option.splits)
  next
    case (UsDisable f u b)
    with e assms user_coherent_update [OF assms, of f u "\<lambda>r. r\<lparr> us_disabled := b \<rparr>"] show ?thesis
      by (auto simp: set_disabled_def set_user_disabled_def forget_user_use_def
          split: sum.splits prod.splits)
  next
    case (UsPassword salt f u p)
    with e assms user_coherent_update [OF assms, of f u
        "\<lambda>r. r\<lparr> us_password_hash := hash_password K salt p \<rparr>"] show ?thesis
      by (auto simp: update_password_def update_user_password_def forget_user_use_def Let_def
          split: sum.splits prod.splits)
  qed (use e assms in \<open>simp_all add: user_coherent_create user_coherent_delete user_coherent_refresh
      user_coherent_touch\<close>)
qed

lemma user_service_new_coherent:
  assumes "user_service_new f store = Inr svc" "user_table_ok store"
  shows "user_coherent svc"
proof -
  have "svc = \<lparr> uv_store = store, uv_cache = index_by us_username (us_rows store),
      uv_last_touched = Map.empty \<rparr>"
    using assms(1) by (cases f) (auto simp: user_service_new_def refresh_cache_def store_list_users_def)
  with assms(2) show ?thesis by (simp add: user_coherent_def)
qed

lemma forget_user_eqD:
  assumes "forget_user_use r = forget_user_use r'"
  shows "us_disabled r = us_disabled r'" "us_expires_at r = us_expires_at r'"
    "us_password_hash r = us_password_hash r'" "us_username r = us_username r'"
  using assms by (cases r; cases r'; simp add: forget_user_use_def)+

section \<open>Properties\<close>

text \<open>C8: the cache answers for the table: after any history, with whatever faults of the
  store, \<open>verify_user\<close> accepts a name and password exactly when the table has a user of
  that name who is enabled, not expired, and whose stored hash matches the password.\<close>

theorem verify_user_refines_store:
  assumes "user_service_new f store = Inr svc0" "user_table_ok store"
    and "svc = user_run K es svc0"
  shows "fst (verify_user K now username password svc) \<noteq> None \<longleftrightarrow>
    (\<exists>r \<in> set (us_rows (uv_store svc)). us_username r = username \<and> \<not> us_disabled r
       \<and> (\<forall>e. us_expires_at r = Some e \<longrightarrow> now \<le> e) \<and> verify_password K password (us_password_hash r))"
proof -
  define okr where "okr r \<longleftrightarrow> \<not> us_disabled r \<and> (\<forall>e. us_expires_at r = Some e \<longrightarrow> now \<le> e)
      \<and> verify_password K password (us_password_hash r)" for r :: user_row
  let ?idx = "index_by us_username (us_rows (uv_store svc)) username"
  have coh: "user_coherent svc"
    unfolding assms(3)
    by (rule user_run_invariant [where P = user_coherent])
      (use user_service_new_coherent [OF assms(1,2)] user_coherent_step in auto)
  then have ok: "user_table_ok (uv_store svc)"
    and cache: "map_option forget_user_use (uv_cache svc username) = map_option forget_user_use ?idx"
    by (simp_all add: user_coherent_def)
  have "fst (verify_user K now username password svc) \<noteq> None \<longleftrightarrow>
      (\<exists>r. uv_cache svc username = Some r \<and> okr r)"
    by (cases "uv_cache svc username") (auto simp: verify_user_def okr_def not_less split: option.splits)
  also have "\<dots> \<longleftrightarrow> (\<exists>r. ?idx = Some r \<and> okr r)"
  proof (cases "uv_cache svc username")
    case None
    with cache show ?thesis by simp
  next
    case (Some r)
    with cache obtain r' where "?idx = Some r'" "forget_user_use r = forget_user_use r'"
      by (cases ?idx) auto
    with Some forget_user_eqD [of r r'] show ?thesis by (simp add: okr_def)
  qed
  also have "\<dots> \<longleftrightarrow> (\<exists>r \<in> set (us_rows (uv_store svc)). us_username r = username \<and> okr r)"
    unfolding us.cached_iff [OF ok] by blast
  finally show ?thesis unfolding okr_def .
qed

theorem verify_user_refines_store_witness:
  "\<exists>svc0. user_service_new None empty_users = Inr svc0 \<and>
    fst (verify_user demo 5 ''bob'' ''secret'' (user_run demo [(1, UsDelete None ''bob'')] svc0)) = None"
proof -
  have new: "user_service_new None empty_users =
      Inr \<lparr> uv_store = empty_users, uv_cache = Map.empty, uv_last_touched = Map.empty \<rparr>" (is "_ = Inr ?s")
    by (simp add: user_service_new_def refresh_cache_def store_list_users_def empty_users_def)
  have "user_table_ok empty_users" by (simp add: user_table_ok_def empty_users_def)
  moreover have "us_rows (uv_store (user_run demo [(1, UsDelete None ''bob'')] ?s)) = []"
    by (simp add: delete_user_def store_delete_user_def empty_users_def)
  ultimately have "fst (verify_user demo 5 ''bob'' ''secret'' (user_run demo [(1, UsDelete None ''bob'')] ?s)) = None"
    using verify_user_refines_store [OF new _ refl, of demo 5 "''bob''" "''secret''"
        "[(1, UsDelete None ''bob'')]"] by simp
  with new show ?thesis by blast
qed

text \<open>A created user can log in with the password at once and until the account
  expires.\<close>

theorem create_user_verify:
  assumes "hex_law K" "create_user K now salt f username password days svc = (Inr row, svc')"
    and "\<forall>d. days = Some d \<longrightarrow> now' \<le> now + int d * 86400"
  shows "fst (verify_user K now' username password svc') = Some row"
proof -
  from assms(2) obtain t where
    "svc' = svc\<lparr> uv_store := t, uv_cache := (uv_cache svc)(username \<mapsto> row) \<rparr>"
    and "insert_user f username (hash_password K salt password) now
       (map_option (\<lambda>days. now + int days * 86400) days) (uv_store svc) = (Inr row, t)"
    by (auto simp: create_user_def Let_def split: sum.splits prod.splits if_splits)
  then have "uv_cache svc' username = Some row" "\<not> us_disabled row"
    "us_password_hash row = hash_password K salt password"
    "us_expires_at row = map_option (\<lambda>days. now + int days * 86400) days"
    by (auto simp: insert_user_def Let_def split: option.splits if_splits)
  then show ?thesis
    using assms(3) verify_hash_password [OF assms(1)]
    by (auto simp: verify_user_def split: option.splits)
qed

theorem create_user_verify_witness:
  "\<exists>row svc'. create_user demo 10 ''s'' None ''bob'' ''secret'' (Some 1)
      \<lparr> uv_store = empty_users, uv_cache = Map.empty, uv_last_touched = Map.empty \<rparr> = (Inr row, svc')
    \<and> fst (verify_user demo 86410 ''bob'' ''secret'' svc') = Some row"
proof -
  let ?s = "\<lparr> uv_store = empty_users, uv_cache = Map.empty, uv_last_touched = Map.empty \<rparr> :: user_svc"
  have "validate_username ''bob'' = Inr ()" by code_simp
  then have "\<exists>row svc'. create_user demo 10 ''s'' None ''bob'' ''secret'' (Some 1) ?s = (Inr row, svc')"
    by (simp add: create_user_def insert_user_def empty_users_def Let_def)
  then obtain row svc' where c: "create_user demo 10 ''s'' None ''bob'' ''secret'' (Some 1) ?s = (Inr row, svc')"
    by blast
  from create_user_verify [OF demo_laws(2) c, of 86410] c show ?thesis by auto
qed

end
