(* ===== verification/ConnectAuth.thy ===== *)
theory ConnectAuth
  imports Auth ClusterTicket TokenService UserService
begin

text \<open>
  \<open>verify_connect_credentials\<close> of \<open>crates/core/src/auth.rs\<close>: the credentials of a
  CONNECT request head, checked against the cluster key, the user service and the token
  service.  The services are threaded through, with the last-use writes they hand out.
\<close>

record connect_headers =
  ch_basic :: "(string \<times> string) option"
  ch_token :: "string option"
  ch_ticket :: "string option"

definition scan_line :: "crypto \<Rightarrow> connect_headers \<Rightarrow> string \<Rightarrow> connect_headers" where
  "scan_line K h raw =
     (let line = trim_str raw;
          lower = to_ascii_lowercase line
      in if starts_with ''proxy-authorization:'' lower then
           (case split_once (CHR '':'') line of
              Some (_, val) \<Rightarrow> h\<lparr> ch_basic := parse_basic_auth K val \<rparr>
            | None \<Rightarrow> h)
         else if starts_with ''x-pony-token:'' lower then
           (case split_once (CHR '':'') line of
              Some (_, val) \<Rightarrow> h\<lparr> ch_token := Some (trim_str val) \<rparr>
            | None \<Rightarrow> h)
         else if starts_with CLUSTER_TICKET_HEADER lower then
           (case split_once (CHR '':'') line of
              Some (_, val) \<Rightarrow> h\<lparr> ch_ticket := Some (trim_str val) \<rparr>
            | None \<Rightarrow> h)
         else h)"

definition scan_headers :: "crypto \<Rightarrow> string \<Rightarrow> connect_headers" where
  "scan_headers K head =
     foldl (scan_line K) \<lparr> ch_basic = None, ch_token = None, ch_ticket = None \<rparr> (str_lines head)"

record services =
  sv_users :: "user_svc option"
  sv_tokens :: token_svc
  sv_token_jobs :: "(int \<times> nat) list"
  sv_user_jobs :: "(int \<times> int) list"

definition token_is_ok :: "crypto \<Rightarrow> nat \<Rightarrow> string \<Rightarrow> services \<Rightarrow> bool \<times> services" where
  "token_is_ok K now plaintext s =
     (case verify K now plaintext (sv_tokens s) of
        (r, job, tokens) \<Rightarrow>
          (\<not> isl r,
           s\<lparr> sv_tokens := tokens,
              sv_token_jobs := sv_token_jobs s @ (case job of None \<Rightarrow> [] | Some j \<Rightarrow> [j]) \<rparr>))"

definition user_is_ok :: "crypto \<Rightarrow> nat \<Rightarrow> string \<Rightarrow> string \<Rightarrow> services \<Rightarrow> bool \<times> services" where
  "user_is_ok K now username password s =
     (case sv_users s of
        None \<Rightarrow> (False, s)
      | Some users \<Rightarrow>
          (case verify_user K (as_i64 now) username password users of
             (r, job, users') \<Rightarrow>
               (r \<noteq> None,
                s\<lparr> sv_users := Some users',
                   sv_user_jobs := sv_user_jobs s @ (case job of None \<Rightarrow> [] | Some j \<Rightarrow> [j]) \<rparr>)))"

definition ticket_is_ok :: "crypto \<Rightarrow> nat \<Rightarrow> string option \<Rightarrow> string option \<Rightarrow> bool" where
  "ticket_is_ok K now cluster_auth_key ticket =
     (case (cluster_auth_key, ticket) of
        (Some key, Some t) \<Rightarrow> \<not> isl (verify_ticket K key t now)
      | _ \<Rightarrow> False)"

definition verify_connect_credentials ::
  "crypto \<Rightarrow> nat \<Rightarrow> string option \<Rightarrow> string \<Rightarrow> services \<Rightarrow> bool \<times> services" where
  "verify_connect_credentials K now cluster_auth_key head s =
     (let h = scan_headers K head in
      if ticket_is_ok K now cluster_auth_key (ch_ticket h) then (True, s)
      else
        (case ch_basic h of
           Some (username, password) \<Rightarrow>
             (case user_is_ok K now username password s of
                (True, s1) \<Rightarrow> (True, s1)
              | (False, s1) \<Rightarrow>
                  (case token_is_ok K now username s1 of
                     (True, s2) \<Rightarrow> (True, s2)
                   | (False, s2) \<Rightarrow> token_is_ok K now password s2))
         | None \<Rightarrow>
             (case ch_token h of
                Some tok \<Rightarrow> token_is_ok K now tok s
              | None \<Rightarrow> (False, s))))"

section \<open>Lemmas\<close>

lemma user_is_ok_tokens [simp]: "sv_tokens (snd (user_is_ok K now u p s)) = sv_tokens s"
  by (auto simp: user_is_ok_def split: option.splits prod.splits)

lemma token_is_ok_cache [simp]:
  "ts_cache (sv_tokens (snd (token_is_ok K now p s))) = ts_cache (sv_tokens s)"
proof -
  obtain r job t where v: "verify K now p (sv_tokens s) = (r, job, t)" by (cases "verify K now p (sv_tokens s)")
  then have "ts_cache t = ts_cache (sv_tokens s)" using verify_store(2) [of K now p "sv_tokens s"] by simp
  with v show ?thesis by (simp add: token_is_ok_def)
qed

lemma lookup_verified_cong:
  "ts_cache a = ts_cache b \<Longrightarrow> lookup_verified K now p a = lookup_verified K now p b"
  by (simp add: lookup_verified_def)

text \<open>Whether a text is a valid data token, as a function of the cache.\<close>

definition valid_token :: "crypto \<Rightarrow> nat \<Rightarrow> string \<Rightarrow> token_svc \<Rightarrow> bool" where
  "valid_token K now p svc \<longleftrightarrow> (\<exists>row. fst (verify K now p svc) = Inr row)"

definition valid_user :: "crypto \<Rightarrow> nat \<Rightarrow> string \<Rightarrow> string \<Rightarrow> user_svc option \<Rightarrow> bool" where
  "valid_user K now u p us \<longleftrightarrow> (\<exists>svc. us = Some svc \<and> fst (verify_user K (as_i64 now) u p svc) \<noteq> None)"

lemma token_is_ok_iff: "fst (token_is_ok K now p s) \<longleftrightarrow> valid_token K now p (sv_tokens s)"
  by (auto simp: token_is_ok_def valid_token_def isl_def split: prod.splits) (metis sum.exhaust)

lemma user_is_ok_iff: "fst (user_is_ok K now u p s) \<longleftrightarrow> valid_user K now u p (sv_users s)"
  by (auto simp: user_is_ok_def valid_user_def split: prod.splits option.splits)

lemma valid_token_cong: "ts_cache a = ts_cache b \<Longrightarrow> valid_token K now p a = valid_token K now p b"
proof -
  have "valid_token K now p svc \<longleftrightarrow>
      (\<exists>row. lookup_verified K now p svc = Inr row \<and> tk_name row \<noteq> ADMIN_NAME)" for svc
    by (auto simp: valid_token_def verify_def split: sum.splits)
  moreover assume "ts_cache a = ts_cache b"
  ultimately show ?thesis using lookup_verified_cong by metis
qed

section \<open>Properties\<close>

text \<open>The credentials of a request head are accepted exactly when the head has a cluster
  ticket valid under the configured key; or else a Basic credential that is a valid user
  or one half of which is a valid data token; or else, with no readable Basic credential,
  a valid data token in \<open>X-Pony-Token\<close>.  A head without credentials is never
  accepted.\<close>

theorem verify_connect_credentials_iff:
  "fst (verify_connect_credentials K now key head s) \<longleftrightarrow>
    (let h = scan_headers K head in
       (\<exists>k t n. key = Some k \<and> ch_ticket h = Some t \<and> verify_ticket K k t now = Inr n)
     \<or> (\<exists>u p. ch_basic h = Some (u, p) \<and>
          (valid_user K now u p (sv_users s) \<or> valid_token K now u (sv_tokens s)
           \<or> valid_token K now p (sv_tokens s)))
     \<or> (\<exists>t. ch_basic h = None \<and> ch_token h = Some t \<and> valid_token K now t (sv_tokens s)))"
proof -
  let ?h = "scan_headers K head"
  have ticket: "ticket_is_ok K now key (ch_ticket ?h) \<longleftrightarrow>
      (\<exists>k t n. key = Some k \<and> ch_ticket ?h = Some t \<and> verify_ticket K k t now = Inr n)"
    by (auto simp: ticket_is_ok_def isl_def split: option.splits) (metis sum.exhaust)
  have basic: "fst (case user_is_ok K now u p s of
        (True, s1) \<Rightarrow> (True, s1)
      | (False, s1) \<Rightarrow>
          (case token_is_ok K now u s1 of
             (True, s2) \<Rightarrow> (True, s2)
           | (False, s2) \<Rightarrow> token_is_ok K now p s2)) \<longleftrightarrow>
      valid_user K now u p (sv_users s) \<or> valid_token K now u (sv_tokens s)
      \<or> valid_token K now p (sv_tokens s)" for u p
  proof -
    obtain b1 s1 where 1: "user_is_ok K now u p s = (b1, s1)" by (cases "user_is_ok K now u p s")
    obtain b2 s2 where 2: "token_is_ok K now u s1 = (b2, s2)" by (cases "token_is_ok K now u s1")
    have t1: "sv_tokens s1 = sv_tokens s" using 1 user_is_ok_tokens [of K now u p s] by simp
    then have "ts_cache (sv_tokens s2) = ts_cache (sv_tokens s)"
      using 2 token_is_ok_cache [of K now u s1] by simp
    then have "valid_token K now p (sv_tokens s2) = valid_token K now p (sv_tokens s)"
      by (rule valid_token_cong)
    moreover have "b1 \<longleftrightarrow> valid_user K now u p (sv_users s)" "b2 \<longleftrightarrow> valid_token K now u (sv_tokens s)"
      using 1 2 t1 user_is_ok_iff [of K now u p s] token_is_ok_iff [of K now u s1] by simp_all
    ultimately show ?thesis
      using 1 2 token_is_ok_iff [of K now p s2] by (simp split: bool.splits)
  qed
  show ?thesis
    unfolding verify_connect_credentials_def Let_def
    using ticket basic token_is_ok_iff
    by (cases "ticket_is_ok K now key (ch_ticket ?h)"; cases "ch_basic ?h"; cases "ch_token ?h") auto
qed

end
