(* ===== verification/Gatekeeper.thy ===== *)
theory Gatekeeper
  imports IpAddr
begin

text \<open>
  The brute-force guard of \<open>crates/core/src/gatekeeper.rs\<close>: per address a counter of
  consecutive failures and, from a threshold on, a lock-out whose length doubles with
  every further failure up to a limit.  The mutex makes every operation atomic, so a
  history of the guard is a sequence of operations with the instants they read from the
  clock.  Instants and durations are natural numbers.
\<close>

record gk_config =
  max_failures :: nat
  base_lockout :: nat
  max_backoff_shift :: nat

definition gk_config_default :: gk_config where
  "gk_config_default = \<lparr> max_failures = 5, base_lockout = 300, max_backoff_shift = 4 \<rparr>"

record fail_record =
  fr_count :: nat
  lockout_until :: "nat option"
  last_attempt :: nat

type_synonym gk_records = "ip_addr \<rightharpoonup> fail_record"

section \<open>Operations\<close>

datatype gk_error = LockedOut

definition gk_check :: "nat \<Rightarrow> ip_addr \<Rightarrow> gk_records \<Rightarrow> (gk_error + unit) \<times> gk_records" where
  "gk_check now ip m =
     (case m ip of
        None \<Rightarrow> (Inr (), m)
      | Some r \<Rightarrow>
          (case lockout_until r of
             None \<Rightarrow> (Inr (), m)
           | Some until \<Rightarrow>
               if now < until then (Inl LockedOut, m)
               else (Inr (), m(ip \<mapsto> r\<lparr>lockout_until := None\<rparr>))))"

text \<open>The counter is a \<open>u32\<close>; a shift by 32 or more is taken modulo 32.\<close>

definition record_failure :: "gk_config \<Rightarrow> nat \<Rightarrow> ip_addr \<Rightarrow> gk_records \<Rightarrow> gk_records" where
  "record_failure cfg now ip m =
     (let entry = (case m ip of
                     Some r \<Rightarrow> r
                   | None \<Rightarrow> \<lparr> fr_count = 0, lockout_until = None, last_attempt = now \<rparr>);
          count = (fr_count entry + 1) mod 2 ^ 32;
          entry = entry\<lparr> fr_count := count, last_attempt := now \<rparr>;
          entry = (if count \<ge> max_failures cfg then
                     (let shift = min (count - max_failures cfg) (max_backoff_shift cfg);
                          multiplier = 2 ^ (shift mod 32);
                          duration = base_lockout cfg * multiplier
                      in entry\<lparr> lockout_until := Some (now + duration) \<rparr>)
                   else entry)
      in m(ip \<mapsto> entry))"

definition record_success :: "ip_addr \<Rightarrow> gk_records \<Rightarrow> gk_records" where
  "record_success ip m = m(ip := None)"

definition prune_keep :: "nat \<Rightarrow> nat \<Rightarrow> fail_record \<Rightarrow> bool" where
  "prune_keep max_idle now v =
     (case lockout_until v of
        Some until \<Rightarrow> if now < until then True else now - last_attempt v < max_idle
      | None \<Rightarrow> now - last_attempt v < max_idle)"

definition prune_stale :: "nat \<Rightarrow> nat \<Rightarrow> gk_records \<Rightarrow> gk_records" where
  "prune_stale max_idle now m =
     (\<lambda>ip. case m ip of None \<Rightarrow> None | Some v \<Rightarrow> if prune_keep max_idle now v then Some v else None)"

section \<open>Histories\<close>

datatype gk_op = Check ip_addr | Failure ip_addr | Success ip_addr

fun gk_step :: "gk_config \<Rightarrow> nat \<times> gk_op \<Rightarrow> gk_records \<Rightarrow> gk_records" where
  "gk_step cfg (now, Check ip) m = snd (gk_check now ip m)"
| "gk_step cfg (now, Failure ip) m = record_failure cfg now ip m"
| "gk_step cfg (now, Success ip) m = record_success ip m"

text \<open>Histories are kept latest operation first.\<close>

fun gk_run :: "gk_config \<Rightarrow> (nat \<times> gk_op) list \<Rightarrow> gk_records" where
  "gk_run cfg [] = Map.empty"
| "gk_run cfg (e # hist) = gk_step cfg e (gk_run cfg hist)"

text \<open>The failures of an address since its last success, latest first.\<close>

fun recent_failures :: "ip_addr \<Rightarrow> (nat \<times> gk_op) list \<Rightarrow> nat list" where
  "recent_failures ip [] = []"
| "recent_failures ip ((t, op) # hist) =
     (case op of
        Check _ \<Rightarrow> recent_failures ip hist
      | Failure a \<Rightarrow> if a = ip then t # recent_failures ip hist else recent_failures ip hist
      | Success a \<Rightarrow> if a = ip then [] else recent_failures ip hist)"

definition lockout_len :: "gk_config \<Rightarrow> nat \<Rightarrow> nat" where
  "lockout_len cfg n = base_lockout cfg * 2 ^ (min (n - max_failures cfg) (max_backoff_shift cfg))"

text \<open>What a record says about the failures \<open>ts\<close> at the instant \<open>now\<close>.\<close>

definition record_ok :: "gk_config \<Rightarrow> nat \<Rightarrow> nat list \<Rightarrow> fail_record option \<Rightarrow> bool" where
  "record_ok cfg now ts r \<longleftrightarrow>
     (case r of
        None \<Rightarrow> ts = []
      | Some r \<Rightarrow>
          ts \<noteq> [] \<and> fr_count r = length ts \<and> last_attempt r = hd ts
          \<and> (if length ts \<ge> max_failures cfg
             then lockout_until r = Some (hd ts + lockout_len cfg (length ts))
                  \<or> lockout_until r = None \<and> hd ts + lockout_len cfg (length ts) \<le> now
             else lockout_until r = None))"

lemma record_ok_mono: "record_ok cfg t ts r \<Longrightarrow> t \<le> now \<Longrightarrow> record_ok cfg now ts r"
  by (auto simp: record_ok_def split: option.splits if_splits)

lemma record_ok_check:
  assumes "record_ok cfg now ts (m ip)"
  shows "record_ok cfg now ts (snd (gk_check now a m) ip)"
  using assms by (auto simp: record_ok_def gk_check_def split: option.splits if_splits)

lemma record_ok_failure:
  assumes "record_ok cfg t ts (m ip)" "max_backoff_shift cfg < 32" "length ts + 1 < 2 ^ 32"
  shows "record_ok cfg now (now # ts) (record_failure cfg now ip m ip)"
proof -
  have sh: "min k (max_backoff_shift cfg) mod 32 = min k (max_backoff_shift cfg)" for k
    using assms(2) by simp
  have "(case m ip of Some r \<Rightarrow> fr_count r | None \<Rightarrow> 0) = length ts"
    "\<forall>r. m ip = Some r \<longrightarrow> length ts < max_failures cfg \<longrightarrow> lockout_until r = None"
    using assms(1) by (auto simp: record_ok_def split: option.splits)
  then show ?thesis
    using assms(3)
    by (cases "m ip")
      (auto simp: record_failure_def record_ok_def Let_def sh lockout_len_def)
qed

lemma record_failure_other [simp]: "a \<noteq> ip \<Longrightarrow> record_failure cfg now a m ip = m ip"
  by (simp add: record_failure_def Let_def)

lemma gk_run_ok:
  assumes "sorted_wrt (\<lambda>x y. fst y \<le> fst x) hist" "max_backoff_shift cfg < 32"
    "length hist < 2 ^ 32" "\<forall>e \<in> set hist. fst e \<le> now"
  shows "record_ok cfg now (recent_failures ip hist) (gk_run cfg hist ip)"
  using assms
proof (induction hist arbitrary: now)
  case Nil then show ?case by (simp add: record_ok_def)
next
  case (Cons e hist)
  obtain t op where e: "e = (t, op)" by (cases e)
  have IH: "record_ok cfg t (recent_failures ip hist) (gk_run cfg hist ip)"
    using Cons e by auto
  have t: "t \<le> now" using Cons.prems e by simp
  have "length (recent_failures ip hist) \<le> length hist"
    by (induction hist rule: recent_failures.induct) (auto split: gk_op.splits)
  then have len: "length (recent_failures ip hist) + 1 < 2 ^ 32" using Cons.prems(3) by simp
  have "record_ok cfg t (recent_failures ip (e # hist)) (gk_run cfg (e # hist) ip)"
  proof (cases op)
    case (Check a) with IH e show ?thesis by (simp add: record_ok_check)
  next
    case (Failure a)
    with IH e record_ok_failure [where m = "gk_run cfg hist" and ip = ip, OF IH Cons.prems(2) len, of t] show ?thesis by auto
  next
    case (Success a) with IH e show ?thesis by (auto simp: record_success_def record_ok_def)
  qed
  with t show ?case by (rule record_ok_mono [rotated])
qed

section \<open>Properties\<close>

text \<open>C6: after any history of checks, failures and successes, a check refuses an
  address exactly when its failures since its last success reach the threshold and the
  lock-out of the latest one, which doubles with every further failure up to the limit,
  has not run out.\<close>

theorem gatekeeper_refuses_iff:
  fixes ip :: ip_addr
  assumes "sorted_wrt (\<lambda>x y. fst y \<le> fst x) hist" "\<forall>e \<in> set hist. fst e \<le> now"
    "length hist < 2 ^ 32" "max_backoff_shift cfg < 32"
  defines "ts \<equiv> recent_failures ip hist"
  shows "fst (gk_check now ip (gk_run cfg hist)) = Inl LockedOut \<longleftrightarrow>
    ts \<noteq> [] \<and> max_failures cfg \<le> length ts \<and>
    now < hd ts + base_lockout cfg * 2 ^ min (length ts - max_failures cfg) (max_backoff_shift cfg)"
proof -
  from gk_run_ok [OF assms(1,4,3,2), of ip]
  have "record_ok cfg now ts (gk_run cfg hist ip)" by (simp add: ts_def)
  then show ?thesis
    by (auto simp: gk_check_def record_ok_def lockout_len_def split: option.splits if_splits)
qed

theorem gatekeeper_refuses_iff_witness:
  "fst (gk_check 1000 (V4 (Ipv4 1 2 3 4)) (gk_run gk_config_default
      (replicate 6 (500, Failure (V4 (Ipv4 1 2 3 4)))))) = Inl LockedOut"
proof -
  let ?h = "replicate 6 (500 :: nat, Failure (V4 (Ipv4 1 2 3 4)))"
  have "sorted_wrt (\<lambda>x y. fst y \<le> fst x) ?h" "\<forall>e \<in> set ?h. fst e \<le> 1000"
    "length ?h < 2 ^ 32" "max_backoff_shift gk_config_default < 32"
    by code_simp+
  note iff = gatekeeper_refuses_iff [OF this, of "V4 (Ipv4 1 2 3 4)"]
  have "recent_failures (V4 (Ipv4 1 2 3 4)) ?h = [500, 500, 500, 500, 500, 500]" by code_simp
  with iff show ?thesis by (simp add: gk_config_default_def)
qed

text \<open>Pruning never ends a lock-out early and never causes one: after it, a check at
  that or any later instant answers every address as it would have without it.\<close>

theorem prune_stale_check:
  assumes "t \<le> now"
  shows "fst (gk_check now ip (prune_stale max_idle t m)) = fst (gk_check now ip m)"
  using assms
  by (auto simp: gk_check_def prune_stale_def prune_keep_def split: option.splits if_splits)

theorem prune_stale_check_witness:
  "fst (gk_check 700 (V4 (Ipv4 1 2 3 4)) (prune_stale 10 600 (gk_run gk_config_default
      (replicate 6 (500, Failure (V4 (Ipv4 1 2 3 4))))))) = Inl LockedOut"
proof -
  have "fst (gk_check 700 (V4 (Ipv4 1 2 3 4)) (gk_run gk_config_default
      (replicate 6 (500, Failure (V4 (Ipv4 1 2 3 4)))))) = Inl LockedOut"
    by code_simp
  then show ?thesis by (subst prune_stale_check) simp_all
qed

end
