(* ===== verification/UpstreamProxy.thy ===== *)
theory UpstreamProxy
  imports GateAcl
begin

text \<open>
  CONNECT through another proxy (\<open>crates/core/src/relay.rs\<close>): the HTTP and the SOCKS5
  handshake of the dedicated proxies for streaming targets.  What the proxy answers and how
  connecting and writing end are inputs.
\<close>

section \<open>HTTP CONNECT\<close>

datatype proxy_error =
    ProxyDial | ProxyWrite | ProxyRead | ProxyEof | ProxyHeadTooLarge | ProxyRefused string
  | Socks5Greeting | Socks5Reply nat

definition connect_request :: "string \<Rightarrow> nat \<Rightarrow> string" where
  "connect_request target_host target_port =
     (let authority = target_host @ '':'' @ show_nat target_port in
      ''CONNECT '' @ authority @ '' HTTP/1.1'' @ map char_of [13, 10 :: nat] @ ''Host: '' @ authority @ CRLF2)"

fun read_connect_answer :: "string \<Rightarrow> read_event list \<Rightarrow> proxy_error + string \<times> string \<times> read_event list" where
  "read_connect_answer buf (Bytes chunk # evs) =
     (if chunk = [] then Inl ProxyEof
      else (let buf' = buf @ chunk in
            case find_sub CRLF2 buf' of
              Some pos \<Rightarrow> Inr (take (pos + 4) buf', drop (pos + 4) buf', evs)
            | None \<Rightarrow> if length buf' > 16 * 1024 then Inl ProxyHeadTooLarge else read_connect_answer buf' evs))"
| "read_connect_answer buf _ = Inl ProxyRead"

definition answer_first_line :: "string \<Rightarrow> string" where
  "answer_first_line header_bytes =
     (case str_lines (from_utf8_lossy header_bytes) of l # _ \<Rightarrow> l | [] \<Rightarrow> [])"

definition answer_status :: "string \<Rightarrow> nat" where
  "answer_status first_line =
     (case split_whitespace first_line of
        _ # s # _ \<Rightarrow> (case parse_uint 10 65535 s of Some n \<Rightarrow> n | None \<Rightarrow> 0)
      | _ \<Rightarrow> 0)"

definition http_connect_ext :: "bool \<Rightarrow> bool \<Rightarrow> read_event list \<Rightarrow> proxy_error + string \<times> read_event list" where
  "http_connect_ext connected written evs =
     (if \<not> connected then Inl ProxyDial
      else if \<not> written then Inl ProxyWrite
      else (case read_connect_answer [] evs of
              Inl e \<Rightarrow> Inl e
            | Inr (header_bytes, leftover, evs') \<Rightarrow>
                (let first_line = answer_first_line header_bytes;
                     status_code = answer_status first_line
                 in if 200 \<le> status_code \<and> status_code \<le> 299 then Inr (leftover, evs')
                    else Inl (ProxyRefused first_line))))"

definition http_connect :: "bool \<Rightarrow> bool \<Rightarrow> read_event list \<Rightarrow> proxy_error + read_event list" where
  "http_connect connected written evs =
     (case http_connect_ext connected written evs of Inl e \<Rightarrow> Inl e | Inr (_, evs') \<Rightarrow> Inr evs')"

section \<open>SOCKS5\<close>

text \<open>\<open>read_exact\<close> on the bytes that arrive before the end of the stream.\<close>

definition read_exact :: "nat \<Rightarrow> string \<Rightarrow> proxy_error + string \<times> string" where
  "read_exact n input = (if length input < n then Inl ProxyEof else Inr (take n input, drop n input))"

definition socks5_greeting :: string where
  "socks5_greeting = map char_of [5, 1, 0 :: nat]"

definition socks5_request :: "string \<Rightarrow> nat \<Rightarrow> string" where
  "socks5_request target_host target_port =
     map char_of [5, 1, 0, 3, length target_host mod 256 :: nat] @ target_host
     @ map char_of [target_port div 256, target_port mod 256 :: nat]"

definition socks5_connect :: "bool \<Rightarrow> bool \<Rightarrow> bool \<Rightarrow> string \<Rightarrow> proxy_error + string" where
  "socks5_connect connected greeted requested input =
     (if \<not> connected then Inl ProxyDial
      else if \<not> greeted then Inl ProxyWrite
      else (case read_exact 2 input of
        Inl e \<Rightarrow> Inl e
      | Inr (buf, input') \<Rightarrow>
          if byte (buf ! 0) \<noteq> 5 \<or> byte (buf ! 1) \<noteq> 0 then Inl Socks5Greeting
          else if \<not> requested then Inl ProxyWrite
          else (case read_exact 4 input' of
            Inl e \<Rightarrow> Inl e
          | Inr (resp, input'') \<Rightarrow>
              if byte (resp ! 1) \<noteq> 0 then Inl (Socks5Reply (byte (resp ! 1))) else Inr input'')))"

section \<open>Lemmas\<close>

lemma read_connect_answer_Inr:
  "read_connect_answer buf evs = Inr (head, left, evs') \<Longrightarrow>
   head @ left @ stream_bytes evs' = buf @ stream_bytes evs \<and> ends_with CRLF2 head"
proof (induction buf evs rule: read_connect_answer.induct)
  case (1 buf chunk evs)
  show ?case
  proof (cases "find_sub CRLF2 (buf @ chunk)")
    case None
    with 1 show ?thesis by (auto simp: Let_def split: if_splits)
  next
    case (Some pos)
    with 1(2) have r: "head = take (pos + 4) (buf @ chunk)" "left = drop (pos + 4) (buf @ chunk)" "evs' = evs"
      by (auto simp: Let_def split: if_splits)
    have "pos + 4 \<le> length (buf @ chunk)" "take 4 (drop pos (buf @ chunk)) = CRLF2"
      using find_sub_Some [OF Some] by (simp_all add: CRLF2_def numeral_eq_Suc)
    then have "head = take pos (buf @ chunk) @ CRLF2" unfolding r(1) take_add by (simp only:)
    then have "ends_with CRLF2 head" unfolding ends_with_iff by blast
    moreover have "head @ left = buf @ chunk" unfolding r(1,2) by (rule append_take_drop_id)
    ultimately show ?thesis using r(3) by simp
  qed
qed auto

lemma http_connect_ext_exact:
  assumes "http_connect_ext connected written evs = Inr (leftover, evs')"
  shows "\<exists>head. head @ leftover @ stream_bytes evs' = stream_bytes evs \<and> ends_with CRLF2 head
    \<and> 200 \<le> answer_status (answer_first_line head) \<and> answer_status (answer_first_line head) \<le> 299"
proof -
  from assms obtain head where "read_connect_answer [] evs = Inr (head, leftover, evs')"
    "200 \<le> answer_status (answer_first_line head)" "answer_status (answer_first_line head) \<le> 299"
    by (auto simp: http_connect_ext_def Let_def split: if_splits sum.splits prod.splits)
  with read_connect_answer_Inr [of "[]"] show ?thesis by fastforce
qed

section \<open>Properties\<close>

text \<open>Of the answer of a SOCKS5 proxy only the first four bytes are read.  The bound
  address and port that complete a success answer stay in the stream and are relayed to the
  client in front of the target's first bytes, for an IPv4, a domain or an IPv6 address
  alike.\<close>

theorem socks5_reply_leaks:
  "socks5_connect True True True
     (map char_of [5, 0, 5, 0, 0, atyp :: nat] @ bound_addr @ bound_port @ payload)
   = Inr (bound_addr @ bound_port @ payload)"
  by (simp add: socks5_connect_def read_exact_def)

end
