(* ===== verification/Transport.thy ===== *)
theory Transport
  imports Crypto "HOL-Library.Multiset" "HOL-Library.AList" "HOL-Library.Sublist"
begin

text \<open>
  Choice of the outgoing endpoint and the pool of stand-by tunnels
  (\<open>route.rs\<close> and \<open>pool.rs\<close> of \<open>crates/transport\<close>).  A WebSocket session is a number;
  times are nanoseconds.
\<close>

section \<open>Classes of endpoints and targets\<close>

datatype egress = Cf | Vercel | NativeVps

definition is_native_vps_endpoint :: "string \<Rightarrow> bool" where
  "is_native_vps_endpoint url \<longleftrightarrow> contains_str ''searchxai'' url \<or> contains_str ''rn.'' url
     \<or> contains_str ''rn.example.com'' url \<or> contains_str ''192.210.231.8'' url"

definition is_vercel_endpoint :: "string \<Rightarrow> bool" where
  "is_vercel_endpoint url \<longleftrightarrow> contains_str ''vercel'' url \<or> contains_str ''vgate'' url
     \<or> contains_str ''/api/ws'' url"

definition classify_egress :: "string \<Rightarrow> egress" where
  "classify_egress url =
     (if is_native_vps_endpoint url then NativeVps else if is_vercel_endpoint url then Vercel else Cf)"

definition GOOGLE_BASE_SUFFIXES :: "string list" where
  "GOOGLE_BASE_SUFFIXES = [''googleapis.com'', ''gstatic.com'', ''googleusercontent.com'', ''deepmind.google'',
     ''antigravity.google'', ''labs.google'', ''g.co'', ''goog'']"

definition AI_TARGET_SUFFIXES :: "string list" where
  "AI_TARGET_SUFFIXES = [''openai.com'', ''chatgpt.com'', ''oaistatic.com'', ''oaiusercontent.com'',
     ''anthropic.com'', ''claude.ai'']"

definition COMPLIANT_EGRESS_SUFFIXES :: "string list" where
  "COMPLIANT_EGRESS_SUFFIXES = [''daily-cloudcode-pa.googleapis.com'', ''cloudcode-pa.googleapis.com'',
     ''cloudaicompanion.googleapis.com'']"

definition YOUTUBE_SUFFIXES :: "string list" where
  "YOUTUBE_SUFFIXES = [''youtube.com'', ''googlevideo.com'', ''ytimg.com'', ''youtu.be'',
     ''youtube-nocookie.com'', ''ggpht.com'']"

text \<open>The test all four lists share: the name is the suffix or ends with a dot and it.\<close>

definition suffix_match :: "string \<Rightarrow> string \<Rightarrow> bool" where
  "suffix_match h s =
     (if \<not> ends_with s h then False
      else (let rest = take (length h - length s) h in rest = [] \<or> ends_with ''.'' rest))"

definition is_strict_ai_host :: "string \<Rightarrow> bool" where
  "is_strict_ai_host host = list_ex (suffix_match (to_ascii_lowercase (trim_str host))) AI_TARGET_SUFFIXES"

definition is_google_or_ai_host :: "string \<Rightarrow> bool" where
  "is_google_or_ai_host host =
     (let h = to_ascii_lowercase (trim_str host) in
      if list_ex (suffix_match h) GOOGLE_BASE_SUFFIXES then True
      else if h = ''google.com'' \<or> ends_with ''.google.com'' h \<or> starts_with ''google.'' h
              \<or> contains_str ''.google.'' h then True
      else list_ex (suffix_match h) AI_TARGET_SUFFIXES)"

definition is_google_host :: "string \<Rightarrow> bool" where
  "is_google_host host = is_google_or_ai_host host"

definition is_youtube_host :: "string \<Rightarrow> bool" where
  "is_youtube_host host =
     (let h = trim_end_matches (CHR ''.'') (to_ascii_lowercase (trim_str host)) in
      if h = [] then False else list_ex (suffix_match h) YOUTUBE_SUFFIXES)"

definition requires_compliant_egress :: "string \<Rightarrow> bool" where
  "requires_compliant_egress host =
     (let h = trim_end_matches (CHR ''.'') (to_ascii_lowercase (trim_str host)) in
      if h = [] then False else list_ex (suffix_match h) COMPLIANT_EGRESS_SUFFIXES)"

section \<open>Order of endpoints\<close>

text \<open>The rotation of one group, done only for several endpoints and a positive offset.\<close>

definition rotate_group :: "nat \<Rightarrow> string list \<Rightarrow> string list" where
  "rotate_group offset l = (if length l > 1 \<and> offset > 0 then rotate (offset mod length l) l else l)"

definition vercel_preferred :: "string \<Rightarrow> bool \<Rightarrow> bool" where
  "vercel_preferred host conserve_vercel =
     (if requires_compliant_egress host then True
      else if conserve_vercel then is_strict_ai_host host
      else is_google_or_ai_host host)"

definition order_endpoints_with_offset :: "string list \<Rightarrow> string \<Rightarrow> bool \<Rightarrow> nat \<Rightarrow> string list" where
  "order_endpoints_with_offset urls host conserve_vercel offset =
     (let vps_list = rotate_group offset (filter is_native_vps_endpoint urls);
          vercel_list = rotate_group offset
            (filter (\<lambda>u. \<not> is_native_vps_endpoint u \<and> is_vercel_endpoint u) urls);
          cf_list = rotate_group offset
            (filter (\<lambda>u. \<not> is_native_vps_endpoint u \<and> \<not> is_vercel_endpoint u) urls)
      in vps_list @ (if vercel_preferred host conserve_vercel then vercel_list @ cf_list
                     else cf_list @ vercel_list))"

definition order_endpoints_with :: "string list \<Rightarrow> string \<Rightarrow> bool \<Rightarrow> string list" where
  "order_endpoints_with urls host conserve_vercel = order_endpoints_with_offset urls host conserve_vercel 0"

text \<open>\<open>env\<close> is \<open>PPROXY_CONSERVE_VERCEL\<close>; \<open>ordered_gate_urls\<close> also draws a number from the
  shared counter, which it returns increased.\<close>

definition order_endpoints :: "string option \<Rightarrow> string list \<Rightarrow> string \<Rightarrow> string list" where
  "order_endpoints env urls host = order_endpoints_with urls host (env \<noteq> Some ''0'')"

definition split_gate_urls :: "string \<Rightarrow> string list" where
  "split_gate_urls gate_url = filter (\<lambda>s. s \<noteq> []) (map trim_str (split_on (CHR '','') gate_url))"

definition ordered_gate_urls :: "string option \<Rightarrow> string \<Rightarrow> string \<Rightarrow> nat \<Rightarrow> string list \<times> nat" where
  "ordered_gate_urls env gate_url host counter =
     (order_endpoints_with_offset (split_gate_urls gate_url) host (env \<noteq> Some ''0'') counter,
      wrap_add64 counter 1)"

definition compliant_egress_endpoints :: "string list \<Rightarrow> string list" where
  "compliant_egress_endpoints ordered = filter (\<lambda>u. is_native_vps_endpoint u \<or> is_vercel_endpoint u) ordered"

section \<open>The pool\<close>

record idle_session =
  is_ws :: nat
  is_born :: nat
  is_fp8 :: string

definition token_fp8_of :: "crypto \<Rightarrow> string \<Rightarrow> string" where
  "token_fp8_of K token = hex_encode K (take 4 (sha256 K token))"

text \<open>What the mutex guards, with the counters; the last session of a list is popped first.\<close>

record pool =
  tp_idle :: "(string \<times> idle_session list) list"
  tp_size :: nat
  tp_ttl :: nat
  tp_hits :: nat
  tp_misses :: nat
  tp_expired :: nat
  tp_fused401 :: nat

definition vec_of :: "(string \<times> idle_session list) list \<Rightarrow> string \<Rightarrow> idle_session list" where
  "vec_of idle u = (case map_of idle u of Some v \<Rightarrow> v | None \<Rightarrow> [])"

definition idle_of :: "pool \<Rightarrow> string \<Rightarrow> idle_session list" where
  "idle_of p u = vec_of (tp_idle p) u"

text \<open>The inner loop of \<open>checkout\<close> over one list, popping from its end: the session found,
  the sessions of another token in the order they were popped, the rest, and how many had
  expired.  Reversing the list makes the popping a recursion.\<close>

fun pop_loop ::
  "nat \<Rightarrow> nat \<Rightarrow> string option \<Rightarrow> idle_session list \<Rightarrow> idle_session list \<Rightarrow> nat
   \<Rightarrow> idle_session option \<times> idle_session list \<times> idle_session list \<times> nat" where
  "pop_loop now ttl fp [] stash expired = (None, stash, [], expired)"
| "pop_loop now ttl fp (s # ss) stash expired =
     (if now - is_born s \<ge> ttl then pop_loop now ttl fp ss stash (expired + 1)
      else if (case fp of Some f \<Rightarrow> is_fp8 s \<noteq> f | None \<Rightarrow> False)
      then pop_loop now ttl fp ss (stash @ [s]) expired
      else (Some s, stash, ss, expired))"

text \<open>The loop over the endpoints, with the stash, the expired count and whether anything
  was popped.\<close>

fun checkout_loop ::
  "nat \<Rightarrow> nat \<Rightarrow> string option \<Rightarrow> string list \<Rightarrow> (string \<times> idle_session list) list
   \<Rightarrow> (string \<times> idle_session) list \<Rightarrow> nat \<Rightarrow> bool
   \<Rightarrow> (idle_session \<times> string) option \<times> (string \<times> idle_session list) list \<times> (string \<times> idle_session) list \<times> nat \<times> bool" where
  "checkout_loop now ttl fp [] idle stashed expired popped = (None, idle, stashed, expired, popped)"
| "checkout_loop now ttl fp (u # us) idle stashed expired popped =
     (case map_of idle u of
        None \<Rightarrow> checkout_loop now ttl fp us idle stashed expired popped
      | Some v \<Rightarrow>
          (case pop_loop now ttl fp (rev v) [] expired of
             (found, st, rest, expired') \<Rightarrow>
               (let idle' = AList.update u (rev rest) idle; stashed' = stashed @ map (Pair u) st;
                    popped' = (popped \<or> v \<noteq> [])
                in case found of
                     Some s \<Rightarrow> (Some (s, u), idle', stashed', expired', True)
                   | None \<Rightarrow> checkout_loop now ttl fp us idle' stashed' expired' popped')))"

definition put_back :: "(string \<times> idle_session) list \<Rightarrow> (string \<times> idle_session list) list \<Rightarrow> (string \<times> idle_session list) list" where
  "put_back stashed idle =
     foldl (\<lambda>idle (u, s). AList.update u (vec_of idle u @ [s]) idle) idle (rev stashed)"

text \<open>\<open>checkout\<close>: the session with its endpoint, whether the refill task is woken, and the
  pool afterwards.\<close>

definition checkout ::
  "nat \<Rightarrow> string list \<Rightarrow> string option \<Rightarrow> pool \<Rightarrow> (idle_session \<times> string) option \<times> bool \<times> pool" where
  "checkout now ordered_urls expected_fp8 p =
     (case checkout_loop now (tp_ttl p) expected_fp8 ordered_urls (tp_idle p) [] (tp_expired p) False of
        (found, idle, stashed, expired, popped) \<Rightarrow>
          (let p' = p\<lparr> tp_idle := put_back stashed idle, tp_expired := expired \<rparr> in
           case found of
             Some su \<Rightarrow> (Some su, True, p'\<lparr> tp_hits := tp_hits p + 1 \<rparr>)
           | None \<Rightarrow> (None, popped, p'\<lparr> tp_misses := tp_misses p + 1 \<rparr>)))"

definition invalidate :: "pool \<Rightarrow> pool" where
  "invalidate p = p\<lparr> tp_idle := [] \<rparr>"

definition purge :: "nat \<Rightarrow> pool \<Rightarrow> pool" where
  "purge now p = p\<lparr> tp_idle := map (\<lambda>(u, v). (u, filter (\<lambda>s. now - is_born s < tp_ttl p) v)) (tp_idle p) \<rparr>"

definition push_idle :: "string \<Rightarrow> idle_session \<Rightarrow> pool \<Rightarrow> pool" where
  "push_idle u s p = p\<lparr> tp_idle := AList.update u (idle_of p u @ [s]) (tp_idle p) \<rparr>"

definition idle_total :: "pool \<Rightarrow> nat" where
  "idle_total p = sum_list (map (length \<circ> snd) (tp_idle p))"

section \<open>The refill task\<close>

text \<open>\<open>maintain\<close> as a state machine: one step per access to the shared map or wait, since
  between two of them other tasks check sessions out, clear the map or change the
  configuration.  \<open>Dial ep n\<close> still has to open \<open>n\<close> sessions to \<open>ep\<close>; \<open>Fused\<close> is the pause
  after five refusals; \<open>Waiting\<close> the wait at the end of a round, with its length.  The task
  ends when the pool is dropped, which it only sees at the start of a round.\<close>

datatype phase =
    RoundStart
  | ReadConfig
  | NextEndpoint "string list" string bool bool
  | Dial string nat "string list" string bool bool
  | Fused "string list" string bool
  | Waiting nat

datatype dial = DialOk nat | DialErr string

record maintainer =
  mt_pool :: pool
  mt_watch :: "string option \<times> string option"
  mt_last_key :: "(string list \<times> string) option"
  mt_consec_401 :: nat
  mt_phase :: phase
  mt_interval :: nat
  mt_backoff :: nat

definition AUTH_401_MARKER :: string where
  "AUTH_401_MARKER = ''HTTP error: 401 Unauthorized''"

definition split_endpoints :: "string \<Rightarrow> string list" where
  "split_endpoints url_raw =
     filter (\<lambda>s. s \<noteq> []) (map trim_str (split_by (\<lambda>c. c \<in> {CHR '','', CHR '';'', CHR 0x0A}) url_raw))"

definition target_size :: "nat \<Rightarrow> bool \<Rightarrow> string \<Rightarrow> nat" where
  "target_size n has_vps ep =
     (if classify_egress ep = Vercel then 0
      else if has_vps \<and> \<not> is_native_vps_endpoint ep then 0 else n)"

definition maintain_step :: "crypto \<Rightarrow> nat \<Rightarrow> dial \<Rightarrow> maintainer \<Rightarrow> maintainer" where
  "maintain_step K now d s =
     (let p = mt_pool s in
      case mt_phase s of
        RoundStart \<Rightarrow> s\<lparr> mt_pool := purge now p, mt_phase := ReadConfig \<rparr>
      | ReadConfig \<Rightarrow>
          (case mt_watch s of
             (Some url_raw, Some token) \<Rightarrow>
               (let endpoints = split_endpoints url_raw;
                    s' = (if mt_last_key s \<noteq> Some (endpoints, token)
                          then s\<lparr> mt_pool := p\<lparr> tp_idle := [] \<rparr>, mt_last_key := Some (endpoints, token),
                                 mt_consec_401 := 0 \<rparr>
                          else s)
                in s'\<lparr> mt_phase := NextEndpoint endpoints token (list_ex is_native_vps_endpoint endpoints) True \<rparr>)
           | _ \<Rightarrow> s\<lparr> mt_pool := p\<lparr> tp_idle := [] \<rparr>, mt_last_key := None, mt_phase := Waiting (mt_backoff s) \<rparr>)
      | NextEndpoint [] token has_vps healthy \<Rightarrow>
          s\<lparr> mt_phase := Waiting (if healthy then mt_interval s else mt_backoff s) \<rparr>
      | NextEndpoint (ep # eps) token has_vps healthy \<Rightarrow>
          s\<lparr> mt_phase := Dial ep (target_size (tp_size p) has_vps ep - length (idle_of p ep)) eps token has_vps healthy \<rparr>
      | Dial ep 0 eps token has_vps healthy \<Rightarrow> s\<lparr> mt_phase := NextEndpoint eps token has_vps healthy \<rparr>
      | Dial ep (Suc n) eps token has_vps healthy \<Rightarrow>
          (case d of
             DialOk ws \<Rightarrow>
               s\<lparr> mt_pool := push_idle ep \<lparr> is_ws = ws, is_born = now, is_fp8 = token_fp8_of K token \<rparr> p,
                  mt_consec_401 := 0, mt_phase := Dial ep n eps token has_vps healthy \<rparr>
           | DialErr es \<Rightarrow>
               (if contains_str AUTH_401_MARKER es
                then (if mt_consec_401 s + 1 \<ge> 5
                      then s\<lparr> mt_pool := purge now (p\<lparr> tp_fused401 := tp_fused401 p + 1 \<rparr>),
                             mt_consec_401 := mt_consec_401 s + 1, mt_phase := Fused eps token has_vps \<rparr>
                      else s\<lparr> mt_consec_401 := mt_consec_401 s + 1,
                             mt_phase := NextEndpoint eps token has_vps False \<rparr>)
                else s\<lparr> mt_consec_401 := 0, mt_phase := NextEndpoint eps token has_vps False \<rparr>))
      | Fused eps token has_vps \<Rightarrow>
          s\<lparr> mt_consec_401 := 0, mt_phase := NextEndpoint eps token has_vps False \<rparr>
      | Waiting t \<Rightarrow> s\<lparr> mt_phase := RoundStart \<rparr>)"

text \<open>\<open>with_timing\<close> and \<open>start_maintain\<close>.\<close>

definition with_timing :: "string option \<times> string option \<Rightarrow> nat \<Rightarrow> nat \<Rightarrow> nat \<Rightarrow> nat \<Rightarrow> maintainer" where
  "with_timing watch n ttl interval backoff =
     \<lparr> mt_pool = \<lparr> tp_idle = [], tp_size = n, tp_ttl = ttl, tp_hits = 0, tp_misses = 0, tp_expired = 0,
                  tp_fused401 = 0 \<rparr>,
       mt_watch = watch, mt_last_key = None, mt_consec_401 = 0, mt_phase = RoundStart,
       mt_interval = interval, mt_backoff = backoff \<rparr>"

text \<open>The refill task among the other users of the pool, with the clock.\<close>

inductive pool_step :: "crypto \<Rightarrow> nat \<times> maintainer \<Rightarrow> nat \<times> maintainer \<Rightarrow> bool" for K where
  tick: "now \<le> now' \<Longrightarrow> pool_step K (now, s) (now', s)"
| maintain: "pool_step K (now, s) (now, maintain_step K now d s)"
| checkout: "pool_step K (now, s) (now, s\<lparr> mt_pool := snd (snd (checkout now urls fp (mt_pool s))) \<rparr>)"
| invalidate: "pool_step K (now, s) (now, s\<lparr> mt_pool := invalidate (mt_pool s) \<rparr>)"
| configure: "pool_step K (now, s) (now, s\<lparr> mt_watch := w \<rparr>)"

inductive pool_reach :: "crypto \<Rightarrow> maintainer \<Rightarrow> nat \<times> maintainer \<Rightarrow> bool" for K s0 where
  start: "pool_reach K s0 (now, s0)"
| step: "pool_reach K s0 a \<Longrightarrow> pool_step K a b \<Longrightarrow> pool_reach K s0 b"

section \<open>Lemmas\<close>

lemma mset_rotate_group [simp]: "mset (rotate_group n l) = mset l"
  by (metis add.commute append_take_drop_id mset_append rotate_drop_take rotate_group_def)

lemma set_rotate_group [simp]: "set (rotate_group n l) = set l"
  by (simp add: rotate_group_def)

lemma vec_of_update [simp]: "vec_of (AList.update u v idle) w = (if w = u then v else vec_of idle w)"
  by (simp add: vec_of_def update_conv)

lemma vec_of_Nil [simp]: "vec_of [] u = []"
  by (simp add: vec_of_def)

lemma vec_of_None: "map_of idle u = None \<Longrightarrow> vec_of idle u = []"
  by (simp add: vec_of_def)

lemma vec_of_Some: "map_of idle u = Some v \<Longrightarrow> vec_of idle u = v"
  by (simp add: vec_of_def)

definition of_key :: "string \<Rightarrow> (string \<times> idle_session) list \<Rightarrow> idle_session list" where
  "of_key u st = map snd (filter (\<lambda>x. fst x = u) st)"

lemma of_key_simps [simp]:
  "of_key u [] = []" "of_key u (st @ st') = of_key u st @ of_key u st'"
  "of_key u (map (Pair w) xs) = (if w = u then xs else [])" "of_key u (rev st) = rev (of_key u st)"
  by (auto simp: of_key_def filter_map comp_def rev_filter rev_map)

lemma vec_of_put_back [simp]: "vec_of (put_back st idle) v = vec_of idle v @ rev (of_key v st)"
proof -
  have "vec_of (foldl (\<lambda>idle (u, s). AList.update u (vec_of idle u @ [s]) idle) idle xs) v
      = vec_of idle v @ of_key v xs" for xs
    by (induction xs arbitrary: idle) (auto simp: of_key_def)
  then show ?thesis by (simp add: put_back_def)
qed

text \<open>A session that is still alive, and one that a checkout may hand out.\<close>

definition live :: "nat \<Rightarrow> nat \<Rightarrow> idle_session \<Rightarrow> bool" where
  "live now ttl s \<longleftrightarrow> now - is_born s < ttl"

definition usable :: "nat \<Rightarrow> nat \<Rightarrow> string option \<Rightarrow> idle_session \<Rightarrow> bool" where
  "usable now ttl fp s \<longleftrightarrow> live now ttl s \<and> (\<forall>f. fp = Some f \<longrightarrow> is_fp8 s = f)"

lemma pop_loop_spec:
  assumes "pop_loop now ttl fp ss st e = (found, st', rest, e')"
  shows "\<exists>pre. (\<forall>x \<in> set pre. \<not> usable now ttl fp x) \<and> st' = st @ filter (live now ttl) pre
    \<and> (case found of None \<Rightarrow> ss = pre \<and> rest = [] | Some x \<Rightarrow> ss = pre @ x # rest \<and> usable now ttl fp x)"
  using assms
proof (induction ss arbitrary: st e)
  case (Cons s ss)
  let ?rec = "\<lambda>st e. pop_loop now ttl fp ss st e = (found, st', rest, e')"
  consider "\<not> live now ttl s" "?rec st (e + 1)" | "live now ttl s" "\<not> usable now ttl fp s" "?rec (st @ [s]) e"
    | "usable now ttl fp s" "found = Some s" "st' = st" "rest = ss"
    using Cons.prems by (auto simp: live_def usable_def split: if_splits option.splits)
  then show ?case
  proof cases
    case 1
    from Cons.IH [OF 1(2)] obtain pre where "(\<forall>x \<in> set pre. \<not> usable now ttl fp x)" "st' = st @ filter (live now ttl) pre"
      "case found of None \<Rightarrow> ss = pre \<and> rest = [] | Some x \<Rightarrow> ss = pre @ x # rest \<and> usable now ttl fp x" by blast
    with 1(1) show ?thesis by (intro exI [of _ "s # pre"]) (auto simp: usable_def split: option.splits)
  next
    case 2
    from Cons.IH [OF 2(3)] obtain pre where "(\<forall>x \<in> set pre. \<not> usable now ttl fp x)"
      "st' = (st @ [s]) @ filter (live now ttl) pre"
      "case found of None \<Rightarrow> ss = pre \<and> rest = [] | Some x \<Rightarrow> ss = pre @ x # rest \<and> usable now ttl fp x" by blast
    with 2(1,2) show ?thesis by (intro exI [of _ "s # pre"]) (auto split: option.splits)
  next
    case 3
    then show ?thesis by (intro exI [of _ "[]"]) simp
  qed
qed simp

lemma pop_rev:
  assumes "pop_loop now ttl fp (rev v) [] e = (found, st, rest, e')"
  obtains b where "\<forall>x \<in> set b. \<not> usable now ttl fp x" "st = rev (filter (live now ttl) b)"
    "found = None \<longrightarrow> v = b \<and> rest = []" "\<forall>x. found = Some x \<longrightarrow> v = rev rest @ x # b \<and> usable now ttl fp x"
proof -
  from pop_loop_spec [OF assms] obtain pre where p: "\<forall>x \<in> set pre. \<not> usable now ttl fp x" "st = filter (live now ttl) pre"
    "case found of None \<Rightarrow> rev v = pre \<and> rest = [] | Some x \<Rightarrow> rev v = pre @ x # rest \<and> usable now ttl fp x"
    by auto
  show ?thesis
  proof (rule that [of "rev pre"])
    show "found = None \<longrightarrow> v = rev pre \<and> rest = []" using p(3) by auto
    have "v = rev rest @ x # rev pre \<and> usable now ttl fp x" if "found = Some x" for x
    proof -
      have "rev v = pre @ x # rest" "usable now ttl fp x" using p(3) that by auto
      from arg_cong [OF this(1), of rev] this(2) show ?thesis by simp
    qed
    then show "\<forall>x. found = Some x \<longrightarrow> v = rev rest @ x # rev pre \<and> usable now ttl fp x" by blast
  qed (use p in \<open>auto simp: rev_filter\<close>)
qed

text \<open>The sessions of an endpoint while some are set aside.\<close>

definition content :: "(string \<times> idle_session list) list \<Rightarrow> (string \<times> idle_session) list \<Rightarrow> string \<Rightarrow> idle_session list" where
  "content idle st v = vec_of idle v @ rev (of_key v st)"

lemma checkout_loop_subseq:
  "checkout_loop now ttl fp us idle st e pop = (r, idle', st', e', pop') \<Longrightarrow>
   subseq (content idle' st' v) (content idle st v)"
proof (induction us arbitrary: idle st e pop)
  case (Cons u us)
  show ?case
  proof (cases "map_of idle u")
    case None
    with Cons show ?thesis by simp
  next
    case (Some vec)
    obtain found st2 rest e2 where pl: "pop_loop now ttl fp (rev vec) [] e = (found, st2, rest, e2)"
      by (metis prod_cases4)
    then obtain b where b: "\<forall>x \<in> set b. \<not> usable now ttl fp x" "st2 = rev (filter (live now ttl) b)"
      "found = None \<longrightarrow> vec = b \<and> rest = []" "\<forall>x. found = Some x \<longrightarrow> vec = rev rest @ x # b \<and> usable now ttl fp x"
      by (rule pop_rev)
    let ?idle = "AList.update u (rev rest) idle" and ?st = "st @ map (Pair u) st2"
    have sub: "subseq (content ?idle ?st v) (content idle st v)"
      using b vec_of_Some [OF Some]
      by (cases found) (auto simp: content_def intro!: list_emb_append_mono)
    show ?thesis
    proof (cases found)
      case None
      with Cons.prems Some pl have "checkout_loop now ttl fp us ?idle ?st e2 (pop \<or> vec \<noteq> []) = (r, idle', st', e', pop')"
        by simp
      from Cons.IH [OF this] sub show ?thesis by (rule subseq_order.trans)
    next
      case (Some s)
      with Cons.prems \<open>map_of idle u = Some vec\<close> pl show ?thesis using sub by auto
    qed
  qed
qed auto

text \<open>What a pass over the endpoints finds and what it leaves, the dead sessions aside.\<close>

definition checkout_ok ::
  "nat \<Rightarrow> nat \<Rightarrow> string option \<Rightarrow> string list \<Rightarrow> (string \<Rightarrow> idle_session list) \<Rightarrow> (idle_session \<times> string) option
   \<Rightarrow> (string \<Rightarrow> idle_session list) \<Rightarrow> (string \<Rightarrow> idle_session list) \<Rightarrow> bool" where
  "checkout_ok now ttl fp us vec r after before \<longleftrightarrow>
     (case r of
        None \<Rightarrow> (\<forall>u \<in> set us. \<forall>x \<in> set (vec u). \<not> usable now ttl fp x)
          \<and> (\<forall>v. filter (live now ttl) (after v) = filter (live now ttl) (before v))
      | Some (s, u) \<Rightarrow>
          (\<exists>us1 us2 a b. us = us1 @ u # us2 \<and> (\<forall>w \<in> set us1. \<forall>x \<in> set (vec w). \<not> usable now ttl fp x)
            \<and> vec u = a @ s # b \<and> usable now ttl fp s \<and> (\<forall>x \<in> set b. \<not> usable now ttl fp x)
            \<and> (\<exists>c. before u = vec u @ c \<and> filter (live now ttl) (after u) = filter (live now ttl) (a @ b @ c)))
          \<and> (\<forall>v. v \<noteq> u \<longrightarrow> filter (live now ttl) (after v) = filter (live now ttl) (before v)))"

lemma checkout_ok_SomeI:
  assumes "us = us1 @ u # us2" "\<forall>w \<in> set us1. \<forall>x \<in> set (vec w). \<not> usable now ttl fp x"
    "vec u = a @ s # b" "usable now ttl fp s" "\<forall>x \<in> set b. \<not> usable now ttl fp x" "before u = vec u @ c"
    "filter (live now ttl) (after u) = filter (live now ttl) (a @ b @ c)"
    "\<forall>v. v \<noteq> u \<longrightarrow> filter (live now ttl) (after v) = filter (live now ttl) (before v)"
  shows "checkout_ok now ttl fp us vec (Some (s, u)) after before"
  unfolding checkout_ok_def option.case prod.case using assms by blast

lemma checkout_ok_skip:
  assumes "checkout_ok now ttl fp us vec r after before" "\<forall>x \<in> set (vec w). \<not> usable now ttl fp x"
  shows "checkout_ok now ttl fp (w # us) vec r after before"
proof (cases r)
  case (Some su)
  then obtain s u where r: "r = Some (s, u)" by (cases su) auto
  with assms(1) obtain us1 us2 where "us = us1 @ u # us2" "\<forall>w \<in> set us1. \<forall>x \<in> set (vec w). \<not> usable now ttl fp x"
    and rest: "\<exists>a b. vec u = a @ s # b \<and> usable now ttl fp s \<and> (\<forall>x \<in> set b. \<not> usable now ttl fp x)
      \<and> (\<exists>c. before u = vec u @ c \<and> filter (live now ttl) (after u) = filter (live now ttl) (a @ b @ c))"
      "\<forall>v. v \<noteq> u \<longrightarrow> filter (live now ttl) (after v) = filter (live now ttl) (before v)"
    unfolding checkout_ok_def by auto blast
  then have "w # us = (w # us1) @ u # us2" "\<forall>w \<in> set (w # us1). \<forall>x \<in> set (vec w). \<not> usable now ttl fp x"
    using assms(2) by auto
  with rest show ?thesis unfolding checkout_ok_def r by (simp only: option.case prod.case) blast
qed (use assms in \<open>auto simp: checkout_ok_def\<close>)

lemma checkout_ok_emptied:
  assumes "checkout_ok now ttl fp us vec2 r after before2" "vec2 u = []"
    and other: "\<And>w. w \<noteq> u \<Longrightarrow> vec2 w = vec w \<and> before2 w = before w"
    and "\<forall>x \<in> set (vec u). \<not> usable now ttl fp x"
    and "filter (live now ttl) (before2 u) = filter (live now ttl) (before u)"
  shows "checkout_ok now ttl fp us vec r after before"
proof -
  have unusable: "\<forall>x \<in> set (vec w). \<not> usable now ttl fp x" if "\<forall>x \<in> set (vec2 w). \<not> usable now ttl fp x" for w
    using that other [of w] assms(4) by (cases "w = u") auto
  have before: "filter (live now ttl) (before2 w) = filter (live now ttl) (before w)" for w
    using assms(5) other [of w] by (cases "w = u") auto
  show ?thesis
  proof (cases r)
    case None
    with assms(1) unusable before show ?thesis by (auto simp: checkout_ok_def)
  next
    case (Some sw)
    then obtain s w where r: "r = Some (s, w)" by (cases sw) auto
    with assms(1) obtain us1 us2 a b c where *: "us = us1 @ w # us2"
      "\<forall>w \<in> set us1. \<forall>x \<in> set (vec2 w). \<not> usable now ttl fp x" "vec2 w = a @ s # b" "usable now ttl fp s"
      "\<forall>x \<in> set b. \<not> usable now ttl fp x" "before2 w = vec2 w @ c"
      "filter (live now ttl) (after w) = filter (live now ttl) (a @ b @ c)"
      "\<forall>v. v \<noteq> w \<longrightarrow> filter (live now ttl) (after v) = filter (live now ttl) (before2 v)"
      unfolding checkout_ok_def by auto
    then have "w \<noteq> u" using assms(2) by auto
    with other have w: "vec w = a @ s # b" "before w = vec w @ c" using *(3,6) by auto
    have "\<forall>w \<in> set us1. \<forall>x \<in> set (vec w). \<not> usable now ttl fp x" using *(2) unusable by blast
    with * w before show ?thesis unfolding checkout_ok_def r by (simp only: option.case prod.case) blast
  qed
qed

lemma checkout_loop_ok:
  "checkout_loop now ttl fp us idle st e pop = (r, idle', st', e', pop') \<Longrightarrow>
   checkout_ok now ttl fp us (vec_of idle) r (content idle' st') (content idle st)"
proof (induction us arbitrary: idle st e pop)
  case (Cons u us)
  show ?case
  proof (cases "map_of idle u")
    case None
    with Cons show ?thesis by (intro checkout_ok_skip) (auto simp: vec_of_None)
  next
    case (Some vec)
    obtain found st2 rest e2 where pl: "pop_loop now ttl fp (rev vec) [] e = (found, st2, rest, e2)"
      by (metis prod_cases4)
    then obtain b where b: "\<forall>x \<in> set b. \<not> usable now ttl fp x" "st2 = rev (filter (live now ttl) b)"
      "found = None \<longrightarrow> vec = b \<and> rest = []" "\<forall>x. found = Some x \<longrightarrow> vec = rev rest @ x # b \<and> usable now ttl fp x"
      by (rule pop_rev)
    let ?idle = "AList.update u (rev rest) idle" and ?st = "st @ map (Pair u) st2"
    show ?thesis
    proof (cases found)
      case None
      with Cons.prems Some pl have "checkout_loop now ttl fp us ?idle ?st e2 (pop \<or> vec \<noteq> []) = (r, idle', st', e', pop')"
        by simp
      from Cons.IH [OF this] have "checkout_ok now ttl fp us (vec_of idle) r (content idle' st') (content idle st)"
        by (rule checkout_ok_emptied) (use b None vec_of_Some [OF Some] in \<open>auto simp: content_def\<close>)
      then show ?thesis by (rule checkout_ok_skip) (use b(1,3) None vec_of_Some [OF Some] in auto)
    next
      case (Some s)
      with Cons.prems \<open>map_of idle u = Some vec\<close> pl have r: "r = Some (s, u)" "idle' = ?idle" "st' = ?st" by auto
      have "vec_of idle u = rev rest @ s # b" "usable now ttl fp s"
        using b(4) Some vec_of_Some [OF \<open>map_of idle u = Some vec\<close>] by simp_all
      with b(1,2) show ?thesis unfolding r
        by (intro checkout_ok_SomeI [of _ "[]" u us _ _ _ _ "rev rest" s b _ "rev (of_key u st)"])
          (auto simp: content_def)
    qed
  qed
qed (auto simp: checkout_ok_def)

text \<open>Both facts for \<open>checkout\<close>.\<close>

lemma checkout_after:
  assumes "checkout now us fp p = (r, wake, p')"
  shows "subseq (idle_of p' v) (idle_of p v)"
    and "checkout_ok now (tp_ttl p) fp us (idle_of p) r (idle_of p') (idle_of p)"
    and "tp_size p' = tp_size p" "tp_ttl p' = tp_ttl p"
proof -
  obtain idle st e pop where l: "checkout_loop now (tp_ttl p) fp us (tp_idle p) [] (tp_expired p) False = (r, idle, st, e, pop)"
    and p': "tp_idle p' = put_back st idle" "tp_size p' = tp_size p" "tp_ttl p' = tp_ttl p"
    using assms by (auto simp: checkout_def Let_def split: prod.splits option.splits)
  then show "tp_size p' = tp_size p" "tp_ttl p' = tp_ttl p" by simp_all
  have i: "idle_of p' = content idle st" "idle_of p = content (tp_idle p) []" "vec_of (tp_idle p) = idle_of p"
    by (auto simp: fun_eq_iff idle_of_def content_def p'(1))
  from checkout_loop_subseq [OF l] show "subseq (idle_of p' v) (idle_of p v)" by (simp add: i)
  from checkout_loop_ok [OF l] show "checkout_ok now (tp_ttl p) fp us (idle_of p) r (idle_of p') (idle_of p)"
    by (simp only: i)
qed

section \<open>The invariant of the refill task\<close>

text \<open>Where the round stands: the token and the endpoints of the current key, and how many
  sessions the task may still add for an endpoint.\<close>

fun pending :: "phase \<Rightarrow> string \<Rightarrow> nat" where
  "pending (Dial ep n _ _ _ _) u = (if u = ep then n else 0)"
| "pending _ u = 0"

fun phase_ok :: "(string list \<times> string) option \<Rightarrow> phase \<Rightarrow> bool" where
  "phase_ok key (NextEndpoint eps token has_vps _) \<longleftrightarrow>
     (\<exists>all. key = Some (all, token) \<and> set eps \<subseteq> set all \<and> has_vps = list_ex is_native_vps_endpoint all)"
| "phase_ok key (Dial ep n eps token has_vps _) \<longleftrightarrow>
     (\<exists>all. key = Some (all, token) \<and> set (ep # eps) \<subseteq> set all \<and> has_vps = list_ex is_native_vps_endpoint all)"
| "phase_ok key (Fused eps token has_vps) \<longleftrightarrow>
     (\<exists>all. key = Some (all, token) \<and> set eps \<subseteq> set all \<and> has_vps = list_ex is_native_vps_endpoint all)"
| "phase_ok key _ \<longleftrightarrow> True"

text \<open>How many sessions an endpoint may have under a key: none when it is not configured.\<close>

definition allowance :: "nat \<Rightarrow> (string list \<times> string) option \<Rightarrow> string \<Rightarrow> nat" where
  "allowance n key u =
     (case key of None \<Rightarrow> 0
      | Some (all, token) \<Rightarrow>
          if u \<in> set all then target_size n (list_ex is_native_vps_endpoint all) u else 0)"

definition pool_inv :: "crypto \<Rightarrow> maintainer \<Rightarrow> bool" where
  "pool_inv K s \<longleftrightarrow>
     phase_ok (mt_last_key s) (mt_phase s)
   \<and> (\<forall>u. length (idle_of (mt_pool s) u) + pending (mt_phase s) u \<le> allowance (tp_size (mt_pool s)) (mt_last_key s) u)
   \<and> (\<forall>u. \<forall>x \<in> set (idle_of (mt_pool s) u).
        \<exists>all token. mt_last_key s = Some (all, token) \<and> is_fp8 x = token_fp8_of K token)
   \<and> mt_consec_401 s \<le> (case mt_phase s of Fused _ _ _ \<Rightarrow> 5 | _ \<Rightarrow> 4)"

lemma idle_of_purge: "idle_of (purge now p) u = filter (live now (tp_ttl p)) (idle_of p u)"
  by (auto simp: idle_of_def vec_of_def purge_def map_of_map live_def [abs_def] split: option.splits)

lemma pool_simps [simp]:
  "tp_size (purge now p) = tp_size p" "tp_size (push_idle u x p) = tp_size p" "tp_size (invalidate p) = tp_size p"
  "idle_of (invalidate p) u = []" "idle_of (p\<lparr> tp_idle := [] \<rparr>) u = []" "idle_of (p\<lparr> tp_fused401 := n \<rparr>) u = idle_of p u"
  "idle_of (push_idle v x p) u = (if u = v then idle_of p v @ [x] else idle_of p u)"
  by (simp_all add: purge_def push_idle_def invalidate_def idle_of_def)

lemma purge_subseq: "subseq (idle_of (purge now p) u) (idle_of p u)"
  by (simp add: idle_of_purge)

lemma pool_inv_shrink:
  assumes "pool_inv K s" "\<And>u. subseq (idle_of p' u) (idle_of (mt_pool s) u)" "tp_size p' = tp_size (mt_pool s)"
  shows "pool_inv K (s\<lparr> mt_pool := p' \<rparr>)"
proof -
  have len: "length (idle_of p' u) + n \<le> m" if "length (idle_of (mt_pool s) u) + n \<le> m" for u n m
    using list_emb_length [OF assms(2), of u] that by simp
  have sub: "set (idle_of p' u) \<subseteq> set (idle_of (mt_pool s) u)" for u
    using assms(2) [of u] by (auto elim: list_emb_set)
  have "length (idle_of p' u) + pending (mt_phase s) u \<le> allowance (tp_size (mt_pool s)) (mt_last_key s) u" for u
    using assms(1) by (intro len) (simp add: pool_inv_def)
  moreover have "\<exists>all token. mt_last_key s = Some (all, token) \<and> is_fp8 x = token_fp8_of K token"
    if "x \<in> set (idle_of p' u)" for u x
    using assms(1) that sub unfolding pool_inv_def by blast
  ultimately show ?thesis using assms(1,3) by (simp add: pool_inv_def)
qed

lemma pool_inv_phase:
  assumes "pool_inv K s" "phase_ok (mt_last_key s) ph" "\<And>u. pending ph u \<le> pending (mt_phase s) u"
    "c \<le> (case ph of Fused _ _ _ \<Rightarrow> 5 | _ \<Rightarrow> 4)"
  shows "pool_inv K (s\<lparr> mt_consec_401 := c, mt_phase := ph \<rparr>)"
proof -
  have "length (idle_of (mt_pool s) u) + pending ph u \<le> allowance (tp_size (mt_pool s)) (mt_last_key s) u" for u
    using assms(1) assms(3) [of u] unfolding pool_inv_def by (metis add_le_cancel_left order_trans)
  with assms show ?thesis by (simp add: pool_inv_def)
qed

lemma maintain_step_inv:
  assumes inv: "pool_inv K s"
  shows "pool_inv K (maintain_step K now d s)"
proof (cases "mt_phase s")
  case RoundStart
  have "pool_inv K (s\<lparr> mt_pool := purge now (mt_pool s) \<rparr>)" using inv purge_subseq by (rule pool_inv_shrink) simp
  with RoundStart show ?thesis by (simp add: maintain_step_def Let_def pool_inv_def)
next
  case ReadConfig
  obtain a b where w: "mt_watch s = (a, b)" by (cases "mt_watch s")
  with ReadConfig inv show ?thesis
    by (cases a; cases b) (auto simp: maintain_step_def Let_def pool_inv_def)
next
  case (NextEndpoint eps token has_vps healthy)
  show ?thesis
  proof (cases eps)
    case Nil
    with NextEndpoint inv show ?thesis by (simp add: maintain_step_def Let_def pool_inv_def)
  next
    case (Cons ep rest)
    have le: "\<And>u. length (idle_of (mt_pool s) u) \<le> allowance (tp_size (mt_pool s)) (mt_last_key s) u"
      using inv NextEndpoint by (simp add: pool_inv_def)
    have "allowance (tp_size (mt_pool s)) (mt_last_key s) ep = target_size (tp_size (mt_pool s)) has_vps ep"
      using inv NextEndpoint Cons by (auto simp: pool_inv_def allowance_def)
    with le [of ep] NextEndpoint Cons inv le show ?thesis
      by (auto simp: maintain_step_def Let_def pool_inv_def)
  qed
next
  case (Dial ep n eps token has_vps healthy)
  show ?thesis
  proof (cases n)
    case 0
    with Dial inv show ?thesis by (auto simp: maintain_step_def Let_def pool_inv_def)
  next
    case (Suc m)
    show ?thesis
    proof (cases d)
      case (DialOk ws)
      with Dial Suc inv show ?thesis
        by (auto simp: maintain_step_def Let_def pool_inv_def split: if_splits)
    next
      case (DialErr es)
      let ?p = "purge now ((mt_pool s)\<lparr> tp_fused401 := tp_fused401 (mt_pool s) + 1 \<rparr>)"
      have "pool_inv K (s\<lparr> mt_pool := ?p \<rparr>)"
        using inv by (rule pool_inv_shrink) (simp_all add: idle_of_purge)
      then have fused: "pool_inv K (s\<lparr> mt_pool := ?p, mt_consec_401 := 5, mt_phase := Fused eps token has_vps \<rparr>)"
        using pool_inv_phase [of K "s\<lparr> mt_pool := ?p \<rparr>" "Fused eps token has_vps" 5] inv Dial
        by (auto simp: pool_inv_def)
      have failed: "pool_inv K (s\<lparr> mt_consec_401 := c, mt_phase := NextEndpoint eps token has_vps False \<rparr>)"
        if "c \<le> 4" for c
        using inv by (rule pool_inv_phase) (use inv Dial that in \<open>auto simp: pool_inv_def\<close>)
      have "mt_consec_401 s \<le> 4" using inv Dial by (simp add: pool_inv_def)
      with fused failed Dial Suc DialErr show ?thesis
        by (cases "mt_consec_401 s = 4") (simp_all add: maintain_step_def Let_def)
    qed
  qed
next
  case (Fused eps token has_vps)
  with inv show ?thesis by (simp add: maintain_step_def Let_def pool_inv_def)
next
  case (Waiting t)
  with inv show ?thesis by (simp add: maintain_step_def Let_def pool_inv_def)
qed

inductive_cases pool_stepE: "pool_step K a b"

lemma pool_inv_watch [simp]: "pool_inv K (s\<lparr> mt_watch := w \<rparr>) \<longleftrightarrow> pool_inv K s"
  by (simp add: pool_inv_def)

lemma pool_step_inv: "pool_step K a b \<Longrightarrow> pool_inv K (snd a) \<Longrightarrow> pool_inv K (snd b)"
proof (elim pool_stepE)
  fix now s urls fp
  assume ab: "a = (now, s)" "b = (now, s\<lparr> mt_pool := snd (snd (checkout now urls fp (mt_pool s))) \<rparr>)"
    and inv: "pool_inv K (snd a)"
  obtain r wake p' where c: "checkout now urls fp (mt_pool s) = (r, wake, p')" by (metis prod_cases3)
  from inv have "pool_inv K (s\<lparr> mt_pool := p' \<rparr>)" unfolding ab
    by (intro pool_inv_shrink) (simp_all add: checkout_after [OF c])
  then show ?thesis by (simp add: ab c)
next
  fix now s
  assume ab: "a = (now, s)" "b = (now, s\<lparr> mt_pool := invalidate (mt_pool s) \<rparr>)" and inv: "pool_inv K (snd a)"
  from inv have "pool_inv K (s\<lparr> mt_pool := invalidate (mt_pool s) \<rparr>)" unfolding ab
    by (intro pool_inv_shrink) simp_all
  then show ?thesis by (simp add: ab)
qed (auto simp: maintain_step_inv)

lemma pool_reach_inv:
  "pool_reach K (with_timing w n ttl i b) a \<Longrightarrow> pool_inv K (snd a) \<and> tp_size (mt_pool (snd a)) = n"
proof (induction rule: pool_reach.induct)
  case (start now)
  show ?case by (simp add: with_timing_def pool_inv_def idle_of_def)
next
  case (step a b)
  have "tp_size (mt_pool (snd b)) = tp_size (mt_pool (snd a))" using step.hyps(2)
    by (elim pool_stepE)
      (auto simp: maintain_step_def Let_def checkout_def split: phase.splits list.splits nat.splits dial.splits prod.splits option.splits)
  with step pool_step_inv show ?case by blast
qed

text \<open>The rank of an endpoint for a target.\<close>

definition egress_rank :: "string \<Rightarrow> bool \<Rightarrow> string \<Rightarrow> nat" where
  "egress_rank host conserve_vercel u =
     (case classify_egress u of NativeVps \<Rightarrow> 0
      | Vercel \<Rightarrow> if vercel_preferred host conserve_vercel then 1 else 2
      | Cf \<Rightarrow> if vercel_preferred host conserve_vercel then 2 else 1)"

lemma classify_egress_iff:
  "classify_egress u = NativeVps \<longleftrightarrow> is_native_vps_endpoint u"
  "classify_egress u = Vercel \<longleftrightarrow> \<not> is_native_vps_endpoint u \<and> is_vercel_endpoint u"
  "classify_egress u = Cf \<longleftrightarrow> \<not> is_native_vps_endpoint u \<and> \<not> is_vercel_endpoint u"
  by (simp_all add: classify_egress_def)

lemma order_endpoints_groups:
  "order_endpoints_with_offset urls host cons n =
     (let group = (\<lambda>g. rotate_group n (filter (\<lambda>u. classify_egress u = g) urls))
      in group NativeVps @ (if vercel_preferred host cons then group Vercel @ group Cf else group Cf @ group Vercel))"
  by (simp add: order_endpoints_with_offset_def Let_def classify_egress_iff)

lemma filter_group:
  "filter (\<lambda>u. classify_egress u = g) (rotate_group n (filter (\<lambda>u. classify_egress u = g') urls)) =
     (if g = g' then rotate_group n (filter (\<lambda>u. classify_egress u = g) urls) else [])"
proof -
  have "\<forall>u \<in> set (rotate_group n (filter (\<lambda>u. classify_egress u = g') urls)). classify_egress u = g'" by simp
  then show ?thesis by (auto simp: filter_empty_conv intro: filter_True)
qed

lemma sorted_group:
  "sorted (map (egress_rank host cons) (rotate_group n (filter (\<lambda>u. classify_egress u = g) urls)))"
proof -
  have const: "(\<forall>x \<in> set xs. f x = r) \<Longrightarrow> sorted (map f xs)" for f :: "string \<Rightarrow> nat" and r xs
    by (induction xs) auto
  show ?thesis
    by (rule const [of _ _ "case g of NativeVps \<Rightarrow> 0 | Vercel \<Rightarrow> if vercel_preferred host cons then 1 else 2
        | Cf \<Rightarrow> if vercel_preferred host cons then 2 else 1"]) (simp add: egress_rank_def)
qed

section \<open>Properties\<close>

text \<open>The order in which endpoints are tried is a permutation of the configured ones,
  sorted by class: native servers first, then the Vercel gates before the Cloudflare ones
  for targets that prefer them and after them otherwise; inside a class the configured
  order, rotated by the offset, is kept.\<close>

theorem order_endpoints_priority:
  "mset (order_endpoints_with_offset urls host conserve_vercel offset) = mset urls
   \<and> sorted (map (egress_rank host conserve_vercel) (order_endpoints_with_offset urls host conserve_vercel offset))
   \<and> filter (\<lambda>u. classify_egress u = g) (order_endpoints_with_offset urls host conserve_vercel offset)
       = rotate_group offset (filter (\<lambda>u. classify_egress u = g) urls)"
proof (intro conjI)
  have "mset urls = filter_mset (\<lambda>u. classify_egress u = NativeVps) (mset urls)
      + filter_mset (\<lambda>u. classify_egress u = Vercel) (mset urls) + filter_mset (\<lambda>u. classify_egress u = Cf) (mset urls)"
    by (induction urls) (auto, metis egress.exhaust)
  then show "mset (order_endpoints_with_offset urls host conserve_vercel offset) = mset urls"
    by (simp add: order_endpoints_groups Let_def add_ac)
  show "sorted (map (egress_rank host conserve_vercel) (order_endpoints_with_offset urls host conserve_vercel offset))"
    by (simp add: order_endpoints_groups Let_def sorted_append sorted_group) (simp add: egress_rank_def)
  show "filter (\<lambda>u. classify_egress u = g) (order_endpoints_with_offset urls host conserve_vercel offset)
       = rotate_group offset (filter (\<lambda>u. classify_egress u = g) urls)"
    by (cases g) (simp_all add: order_endpoints_groups Let_def filter_group)
qed

text \<open>A checkout hands out the newest live session made with the expected token from the
  first endpoint, in the given order, that has one, and reports a miss only when no
  endpoint has one.  It never hands out an expired session or one of another token, and the
  pool keeps every other live session, of any token, in its order.\<close>

theorem checkout_exact:
  assumes "checkout now urls fp p = (r, wake, p')"
  shows "case r of
      None \<Rightarrow> (\<forall>u \<in> set urls. \<forall>x \<in> set (idle_of p u). \<not> usable now (tp_ttl p) fp x)
        \<and> (\<forall>v. filter (live now (tp_ttl p)) (idle_of p' v) = filter (live now (tp_ttl p)) (idle_of p v))
    | Some (s, u) \<Rightarrow>
        (\<exists>us1 us2 a b. urls = us1 @ u # us2 \<and> (\<forall>w \<in> set us1. \<forall>x \<in> set (idle_of p w). \<not> usable now (tp_ttl p) fp x)
          \<and> idle_of p u = a @ s # b \<and> usable now (tp_ttl p) fp s \<and> (\<forall>x \<in> set b. \<not> usable now (tp_ttl p) fp x)
          \<and> filter (live now (tp_ttl p)) (idle_of p' u) = filter (live now (tp_ttl p)) (a @ b))
        \<and> (\<forall>v. v \<noteq> u \<longrightarrow> filter (live now (tp_ttl p)) (idle_of p' v) = filter (live now (tp_ttl p)) (idle_of p v))"
proof (cases r)
  case None
  with checkout_after(2) [OF assms] show ?thesis by (simp add: checkout_ok_def)
next
  case (Some su)
  then obtain s u where "r = Some (s, u)" by (cases su) auto
  with checkout_after(2) [OF assms] show ?thesis by (auto simp: checkout_ok_def)
qed

definition demo_pool :: pool where
  "demo_pool = \<lparr> tp_idle = [(''wss://a'', [\<lparr> is_ws = 1, is_born = 90, is_fp8 = ''new'' \<rparr>,
       \<lparr> is_ws = 2, is_born = 91, is_fp8 = ''old'' \<rparr>, \<lparr> is_ws = 3, is_born = 10, is_fp8 = ''new'' \<rparr>])],
     tp_size = 3, tp_ttl = 25, tp_hits = 0, tp_misses = 0, tp_expired = 0, tp_fused401 = 0 \<rparr>"

theorem checkout_exact_witness:
  "fst (checkout 100 [''wss://b'', ''wss://a''] (Some ''new'') demo_pool)
     = Some (\<lparr> is_ws = 1, is_born = 90, is_fp8 = ''new'' \<rparr>, ''wss://a'')
   \<and> usable 100 25 (Some ''new'') \<lparr> is_ws = 1, is_born = 90, is_fp8 = ''new'' \<rparr>"
proof -
  let ?s = "\<lparr> is_ws = 1, is_born = 90, is_fp8 = ''new'' \<rparr>"
  obtain w p' where c: "checkout 100 [''wss://b'', ''wss://a''] (Some ''new'') demo_pool = (Some (?s, ''wss://a''), w, p')"
    by (simp add: checkout_def demo_pool_def)
  from checkout_exact [OF c] have "usable 100 (tp_ttl demo_pool) (Some ''new'') ?s" by auto
  with c show ?thesis by (simp add: demo_pool_def)
qed

text \<open>Whatever interleaving of the refill task with checkouts, invalidations, configuration
  changes and failing connections, no endpoint has more stand-by sessions than the pool
  size; a Vercel endpoint, an endpoint other than a native server when one is configured,
  and an endpoint that is not configured have none; every session was opened with the token
  of the current key; and the count of refused logins stays below the fuse, except during
  its pause.\<close>

theorem pool_bounded:
  assumes "pool_reach K (with_timing w n ttl interval backoff) (now, s)"
  shows "length (idle_of (mt_pool s) u) \<le> n
    \<and> (is_vercel_endpoint u \<and> \<not> is_native_vps_endpoint u \<longrightarrow> idle_of (mt_pool s) u = [])
    \<and> (x \<in> set (idle_of (mt_pool s) u) \<longrightarrow>
        (\<exists>endpoints token. mt_last_key s = Some (endpoints, token) \<and> u \<in> set endpoints
          \<and> is_fp8 x = token_fp8_of K token
          \<and> (list_ex is_native_vps_endpoint endpoints \<longrightarrow> is_native_vps_endpoint u)))
    \<and> mt_consec_401 s \<le> (case mt_phase s of Fused _ _ _ \<Rightarrow> 5 | _ \<Rightarrow> 4)"
proof (intro conjI impI)
  have inv: "pool_inv K s" and n: "tp_size (mt_pool s) = n" using pool_reach_inv [OF assms] by auto
  have "length (idle_of (mt_pool s) u) + pending (mt_phase s) u \<le> allowance n (mt_last_key s) u"
    using inv n unfolding pool_inv_def by blast
  then have len: "length (idle_of (mt_pool s) u) \<le> allowance n (mt_last_key s) u" by simp
  moreover have "allowance n (mt_last_key s) u \<le> n"
    by (auto simp: allowance_def target_size_def split: option.splits)
  ultimately show "length (idle_of (mt_pool s) u) \<le> n" by simp
  show "idle_of (mt_pool s) u = []" if "is_vercel_endpoint u \<and> \<not> is_native_vps_endpoint u"
    using len that by (auto simp: allowance_def target_size_def classify_egress_iff split: option.splits if_splits)
  show "\<exists>endpoints token. mt_last_key s = Some (endpoints, token) \<and> u \<in> set endpoints
      \<and> is_fp8 x = token_fp8_of K token
      \<and> (list_ex is_native_vps_endpoint endpoints \<longrightarrow> is_native_vps_endpoint u)"
    if x: "x \<in> set (idle_of (mt_pool s) u)"
  proof -
    obtain all token where k: "mt_last_key s = Some (all, token)" "is_fp8 x = token_fp8_of K token"
      using inv x unfolding pool_inv_def by blast
    from x len have "allowance n (mt_last_key s) u > 0" by (cases "idle_of (mt_pool s) u") auto
    with k show ?thesis by (auto simp: allowance_def target_size_def split: if_splits)
  qed
  show "mt_consec_401 s \<le> (case mt_phase s of Fused _ _ _ \<Rightarrow> 5 | _ \<Rightarrow> 4)" using inv by (simp add: pool_inv_def)
qed

definition demo_refill :: maintainer where
  "demo_refill = (maintain_step demo 7 (DialOk 1) ^^ 4) (with_timing (Some ''wss://a'', Some ''t'') 2 25 2 5)"

lemma pool_reach_maintain: "pool_reach K s0 (now, s) \<Longrightarrow> pool_reach K s0 (now, (maintain_step K now d ^^ k) s)"
  by (induction k) (auto intro: pool_reach.step pool_step.maintain)

theorem pool_bounded_witness:
  "length (idle_of (mt_pool demo_refill) ''wss://a'') = 1 \<and> mt_consec_401 demo_refill \<le> 4
   \<and> (\<exists>endpoints token. mt_last_key demo_refill = Some (endpoints, token) \<and> ''wss://a'' \<in> set endpoints)"
proof -
  have r: "pool_reach demo (with_timing (Some ''wss://a'', Some ''t'') 2 25 2 5) (7, demo_refill)"
    unfolding demo_refill_def by (intro pool_reach_maintain pool_reach.start)
  have i: "length (idle_of (mt_pool demo_refill) ''wss://a'') = 1"
    "mt_phase demo_refill = Dial ''wss://a'' 1 [] ''t'' False True"
  proof -
    have e: "split_endpoints ''wss://a'' = [''wss://a'']" "classify_egress ''wss://a'' = Cf"
      "is_native_vps_endpoint ''wss://a'' = False"
      by code_simp+
    show "length (idle_of (mt_pool demo_refill) ''wss://a'') = 1"
      "mt_phase demo_refill = Dial ''wss://a'' 1 [] ''t'' False True"
      by (simp_all add: demo_refill_def with_timing_def maintain_step_def Let_def numeral_eq_Suc e target_size_def
          purge_def idle_of_def vec_of_def push_idle_def)
  qed
  then obtain x where "x \<in> set (idle_of (mt_pool demo_refill) ''wss://a'')"
    by (cases "idle_of (mt_pool demo_refill) ''wss://a''") auto
  with i pool_bounded [OF r, of "''wss://a''" x] show ?thesis by auto
qed

end
