(* ===== verification/WsTunnel.thy ===== *)
theory WsTunnel
  imports Transport Json
begin

text \<open>
  One tunnel over a WebSocket (\<open>proto.rs\<close> and \<open>relay.rs\<close> of \<open>crates/transport\<close>): opening
  it, declaring the target in the first frame, and relaying bytes in both directions with
  an idle and an absolute deadline.  A session is a number; what the peer sends and how
  each send ends are inputs.
\<close>

section \<open>Opening a session\<close>

definition QUOTA_402_MARKER :: string where
  "QUOTA_402_MARKER = ''HTTP error: 402 Payment Required: Quota Exceeded''"

text \<open>The WebSocket library: what it says of a URL and of a header value it cannot use, and how
  the upgrade ends.\<close>

datatype upgrade = UpgradeTimeout | Upgraded nat | UpgradeHttp nat string | UpgradeError string

record ws_client =
  wc_url_error :: "string \<Rightarrow> string option"
  wc_header_error :: "string \<Rightarrow> string option"
  wc_upgrade :: "string \<Rightarrow> string \<Rightarrow> upgrade"

definition connect_ws :: "ws_client \<Rightarrow> string \<Rightarrow> string \<Rightarrow> string + nat" where
  "connect_ws C url_str raw_token =
     (let token = trim_str raw_token in
      if token = [] then Inl ''tunnel token is empty: refusing WS upgrade''
      else (case wc_url_error C url_str of
        Some e \<Rightarrow> Inl (''bad tunnel url: '' @ e)
      | None \<Rightarrow> (case wc_header_error C (''Bearer '' @ token) of
          Some e \<Rightarrow> Inl e
        | None \<Rightarrow> (case wc_upgrade C url_str (''Bearer '' @ token) of
            UpgradeTimeout \<Rightarrow> Inl ''dial timeout after 8s''
          | Upgraded ws \<Rightarrow> Inr ws
          | UpgradeHttp status e \<Rightarrow>
              if status = 401 then Inl AUTH_401_MARKER
              else if status = 402 then Inl QUOTA_402_MARKER
              else Inl e
          | UpgradeError e \<Rightarrow> Inl e))))"

section \<open>Declaring the target\<close>

text \<open>What \<open>ws_rx.next()\<close> gives under the deadline; a ping carries how sending the pong ends.\<close>

datatype bind_event =
    BindTimeout | BindEnd | BindError string | BindText string | BindPing string "string option"
  | BindClose string | BindOther

text \<open>The first frame, as \<open>serde_json\<close> prints it; \<open>quote\<close> is its string escape.\<close>

definition first_frame_text :: "(string \<Rightarrow> string) \<Rightarrow> string \<Rightarrow> nat \<Rightarrow> string" where
  \<open>first_frame_text quote host port = ''{"host":'' @ quote host @ '',"port":'' @ show_nat port @ ''}''\<close>

fun await_ok :: "(string \<Rightarrow> string + json) \<Rightarrow> bind_event list \<Rightarrow> string + bind_event list" where
  "await_ok parse [] = Inl ''first-frame timeout''"
| "await_ok parse (ev # evs) =
     (case ev of
        BindTimeout \<Rightarrow> Inl ''first-frame timeout''
      | BindEnd \<Rightarrow> Inl ''closed before ok''
      | BindError e \<Rightarrow> Inl e
      | BindText t \<Rightarrow>
          (case parse t of
             Inl e \<Rightarrow> Inl e
           | Inr v \<Rightarrow>
               if Option.bind (json_get ''ok'' v) as_bool = Some True then Inr evs
               else Inl (''denied: '' @ (case Option.bind (json_get ''reason'' v) as_str of
                                          Some r \<Rightarrow> r | None \<Rightarrow> ''?'')))
      | BindPing p pong_error \<Rightarrow> (case pong_error of Some e \<Rightarrow> Inl e | None \<Rightarrow> await_ok parse evs)
      | BindClose c \<Rightarrow> Inl (''closed: '' @ c)
      | BindOther \<Rightarrow> await_ok parse evs)"

text \<open>The peer of a session: how sending the first frame ends, and what comes back.\<close>

record ws_peer =
  wp_send_error :: "nat \<Rightarrow> string \<Rightarrow> string option"
  wp_answers :: "nat \<Rightarrow> string \<Rightarrow> bind_event list"
  wp_parse :: "string \<Rightarrow> string + json"
  wp_quote :: "string \<Rightarrow> string"

definition bind_target :: "ws_peer \<Rightarrow> nat \<Rightarrow> string \<Rightarrow> nat \<Rightarrow> string + nat" where
  "bind_target P ws host port =
     (let first = first_frame_text (wp_quote P) host port in
      case wp_send_error P ws first of
        Some e \<Rightarrow> Inl e
      | None \<Rightarrow> (case await_ok (wp_parse P) (wp_answers P ws first) of
                   Inl e \<Rightarrow> Inl e
                 | Inr _ \<Rightarrow> Inr ws))"

definition try_establish_url :: "ws_client \<Rightarrow> ws_peer \<Rightarrow> string \<Rightarrow> string \<Rightarrow> string \<Rightarrow> nat \<Rightarrow> string + nat" where
  "try_establish_url C P url_str token host port =
     (case connect_ws C url_str token of
        Inl e \<Rightarrow> Inl e
      | Inr ws \<Rightarrow> bind_target P ws host port)"

section \<open>Traffic counters\<close>

record traffic =
  cf_up :: nat
  cf_down :: nat
  vercel_up :: nat
  vercel_down :: nat
  rn_up :: nat
  rn_down :: nat

definition record_up :: "egress \<Rightarrow> nat \<Rightarrow> traffic \<Rightarrow> traffic" where
  "record_up egress n t =
     (case egress of
        Cf \<Rightarrow> t\<lparr> cf_up := wrap_add64 (cf_up t) n \<rparr>
      | Vercel \<Rightarrow> t\<lparr> vercel_up := wrap_add64 (vercel_up t) n \<rparr>
      | NativeVps \<Rightarrow> t\<lparr> rn_up := wrap_add64 (rn_up t) n \<rparr>)"

definition record_down :: "egress \<Rightarrow> nat \<Rightarrow> traffic \<Rightarrow> traffic" where
  "record_down egress n t =
     (case egress of
        Cf \<Rightarrow> t\<lparr> cf_down := wrap_add64 (cf_down t) n \<rparr>
      | Vercel \<Rightarrow> t\<lparr> vercel_down := wrap_add64 (vercel_down t) n \<rparr>
      | NativeVps \<Rightarrow> t\<lparr> rn_down := wrap_add64 (rn_down t) n \<rparr>)"

section \<open>The relay\<close>

datatype relay_end = RelayIdle | RelayAbsolute | RelayClosed | RelayFailed

record relay_cfg =
  rc_egress :: egress
  rc_idle :: "nat option"
  rc_absolute :: "nat option"
  rc_start :: nat

text \<open>The state of one relay.  The last three fields are bookkeeping for the statements: what
  was read from the client, what arrived in binary frames, and when the deadline was last
  set.\<close>

record ws_relay =
  wr_client_done :: bool
  wr_idle_deadline :: nat
  wr_sent :: "string list"
  wr_written :: string
  wr_pongs :: "string list"
  wr_stats :: traffic
  wr_result :: "relay_end option"
  wr_read :: string
  wr_received :: string
  wr_active :: nat

text \<open>Times are in milliseconds.\<close>

definition FAR_FUTURE :: nat where
  "FAR_FUTURE = 86400 * 365 * 1000"

definition idle_window :: "relay_cfg \<Rightarrow> nat" where
  "idle_window c = (case rc_idle c of Some d \<Rightarrow> d | None \<Rightarrow> FAR_FUTURE)"

definition absolute_deadline :: "relay_cfg \<Rightarrow> nat" where
  "absolute_deadline c = rc_start c + (case rc_absolute c of Some d \<Rightarrow> d | None \<Rightarrow> FAR_FUTURE)"

definition relay_begin :: "relay_cfg \<Rightarrow> traffic \<Rightarrow> ws_relay" where
  "relay_begin c stats =
     \<lparr> wr_client_done = False, wr_idle_deadline = rc_start c + idle_window c, wr_sent = [], wr_written = [],
       wr_pongs = [], wr_stats = stats, wr_result = None, wr_read = [], wr_received = [], wr_active = rc_start c \<rparr>"

text \<open>The branches of the select; a flag says whether the write they lead to succeeds.  An empty
  read is the end of the client's stream.\<close>

datatype relay_event =
    IdleFires | AbsoluteFires | ClientRead string bool | ClientReadError
  | TunnelBinary string bool | TunnelPing string bool | TunnelClose | TunnelError | TunnelOther

definition relay_enabled :: "relay_cfg \<Rightarrow> nat \<Rightarrow> relay_event \<Rightarrow> ws_relay \<Rightarrow> bool" where
  "relay_enabled c now ev s \<longleftrightarrow> wr_result s = None \<and>
     (case ev of
        IdleFires \<Rightarrow> rc_idle c \<noteq> None \<and> wr_idle_deadline s \<le> now
      | AbsoluteFires \<Rightarrow> rc_absolute c \<noteq> None \<and> absolute_deadline c \<le> now
      | ClientRead chunk ok \<Rightarrow> \<not> wr_client_done s \<and> length chunk \<le> 8192
      | ClientReadError \<Rightarrow> \<not> wr_client_done s
      | _ \<Rightarrow> True)"

definition touch_idle :: "relay_cfg \<Rightarrow> nat \<Rightarrow> ws_relay \<Rightarrow> ws_relay" where
  "touch_idle c now s = s\<lparr> wr_idle_deadline := now + idle_window c, wr_active := now \<rparr>"

definition relay_event_step :: "relay_cfg \<Rightarrow> nat \<Rightarrow> relay_event \<Rightarrow> ws_relay \<Rightarrow> ws_relay" where
  "relay_event_step c now ev s =
     (case ev of
        IdleFires \<Rightarrow> s\<lparr> wr_result := Some RelayIdle \<rparr>
      | AbsoluteFires \<Rightarrow> s\<lparr> wr_result := Some RelayAbsolute \<rparr>
      | ClientRead chunk ok \<Rightarrow>
          if chunk = [] then s\<lparr> wr_client_done := True \<rparr>
          else (let s' = touch_idle c now
                  (s\<lparr> wr_stats := record_up (rc_egress c) (length chunk) (wr_stats s), wr_read := wr_read s @ chunk \<rparr>)
                in if ok then s'\<lparr> wr_sent := wr_sent s @ [chunk] \<rparr> else s'\<lparr> wr_result := Some RelayFailed \<rparr>)
      | ClientReadError \<Rightarrow> s\<lparr> wr_result := Some RelayFailed \<rparr>
      | TunnelBinary b ok \<Rightarrow>
          (let s' = touch_idle c now
             (s\<lparr> wr_stats := record_down (rc_egress c) (length b) (wr_stats s), wr_received := wr_received s @ b \<rparr>)
           in if ok then s'\<lparr> wr_written := wr_written s @ b \<rparr> else s'\<lparr> wr_result := Some RelayFailed \<rparr>)
      | TunnelPing p ok \<Rightarrow>
          (let s' = touch_idle c now s
           in if ok then s'\<lparr> wr_pongs := wr_pongs s @ [p] \<rparr> else s'\<lparr> wr_result := Some RelayFailed \<rparr>)
      | TunnelClose \<Rightarrow> s\<lparr> wr_result := Some RelayClosed \<rparr>
      | TunnelError \<Rightarrow> s\<lparr> wr_result := Some RelayFailed \<rparr>
      | TunnelOther \<Rightarrow> s)"

inductive ws_relay_step :: "relay_cfg \<Rightarrow> nat \<times> ws_relay \<Rightarrow> nat \<times> ws_relay \<Rightarrow> bool" for c where
  pass: "now \<le> now' \<Longrightarrow> ws_relay_step c (now, s) (now', s)"
| event: "relay_enabled c now ev s \<Longrightarrow> ws_relay_step c (now, s) (now, relay_event_step c now ev s)"

inductive_cases ws_relay_stepE: "ws_relay_step c a b"

section \<open>Lemmas\<close>

fun up_count :: "egress \<Rightarrow> traffic \<Rightarrow> nat" where
  "up_count Cf t = cf_up t"
| "up_count Vercel t = vercel_up t"
| "up_count NativeVps t = rn_up t"

fun down_count :: "egress \<Rightarrow> traffic \<Rightarrow> nat" where
  "down_count Cf t = cf_down t"
| "down_count Vercel t = vercel_down t"
| "down_count NativeVps t = rn_down t"

lemma record_counts [simp]:
  "up_count g (record_up e n t) = (if g = e then wrap_add64 (up_count g t) n else up_count g t)"
  "down_count g (record_up e n t) = down_count g t"
  "up_count g (record_down e n t) = up_count g t"
  "down_count g (record_down e n t) = (if g = e then wrap_add64 (down_count g t) n else down_count g t)"
  by (cases g; cases e; simp add: record_up_def record_down_def)+

lemma wrap_add64_mod: "wrap_add64 (m mod 2 ^ 64) n = (m + n) mod 2 ^ 64"
  by (simp add: wrap_add64_def mod_add_left_eq)

text \<open>A stream and the part of it handed on: all of it, unless the last write failed.\<close>

definition handed_on :: "relay_end option \<Rightarrow> string \<Rightarrow> string \<Rightarrow> bool" where
  "handed_on r given done \<longleftrightarrow> (\<exists>rest. given = done @ rest \<and> (rest \<noteq> [] \<longrightarrow> r = Some RelayFailed))"

definition relay_ok :: "relay_cfg \<Rightarrow> traffic \<Rightarrow> nat \<times> ws_relay \<Rightarrow> bool" where
  "relay_ok c t0 a \<longleftrightarrow> (case a of (now, s) \<Rightarrow>
     handed_on (wr_result s) (wr_read s) (concat (wr_sent s))
   \<and> handed_on (wr_result s) (wr_received s) (wr_written s)
   \<and> up_count (rc_egress c) (wr_stats s) = (up_count (rc_egress c) t0 + length (wr_read s)) mod 2 ^ 64
   \<and> down_count (rc_egress c) (wr_stats s) = (down_count (rc_egress c) t0 + length (wr_received s)) mod 2 ^ 64
   \<and> wr_active s \<le> now \<and> wr_idle_deadline s = wr_active s + idle_window c
   \<and> (wr_result s = Some RelayIdle \<longrightarrow> (\<exists>d. rc_idle c = Some d \<and> wr_active s + d \<le> now))
   \<and> (wr_result s = Some RelayAbsolute \<longrightarrow> (\<exists>d. rc_absolute c = Some d \<and> rc_start c + d \<le> now)))"

lemma handed_on_more: "handed_on None g d \<Longrightarrow> handed_on r (g @ x) (d @ x)"
  by (auto simp: handed_on_def)

lemma handed_on_keep: "handed_on None g d \<Longrightarrow> handed_on r g d"
  by (auto simp: handed_on_def)

lemma handed_on_fail: "handed_on None g d \<Longrightarrow> handed_on (Some RelayFailed) (g @ x) d"
  by (auto simp: handed_on_def)

lemmas relay_step_simps = relay_ok_def relay_event_step_def relay_enabled_def touch_idle_def Let_def
  wrap_add64_mod [simplified] add.assoc handed_on_more handed_on_keep handed_on_fail

lemma relay_ok_event:
  assumes ok: "relay_ok c t0 (now, s)" and en: "relay_enabled c now ev s"
  shows "relay_ok c t0 (now, relay_event_step c now ev s)"
proof (cases ev)
  case IdleFires
  with assms show ?thesis by (auto simp: relay_step_simps idle_window_def)
next
  case AbsoluteFires
  with assms show ?thesis by (auto simp: relay_step_simps absolute_deadline_def)
next
  case (ClientRead chunk b)
  with assms show ?thesis by (cases b) (auto simp: relay_step_simps)
next
  case (TunnelBinary chunk b)
  with assms show ?thesis by (cases b) (auto simp: relay_step_simps)
next
  case (TunnelPing p b)
  with assms show ?thesis by (cases b) (auto simp: relay_step_simps)
qed (use assms in \<open>auto simp: relay_step_simps\<close>)

text \<open>Counters are \<open>u64\<close>.\<close>

definition counters_fit :: "traffic \<Rightarrow> bool" where
  "counters_fit t \<longleftrightarrow> (\<forall>g. up_count g t \<le> u64_max \<and> down_count g t \<le> u64_max)"

lemma counters_fit_mod:
  assumes "counters_fit t"
  shows "up_count g t mod 2 ^ 64 = up_count g t" "down_count g t mod 2 ^ 64 = down_count g t"
proof -
  have "up_count g t \<le> u64_max" "down_count g t \<le> u64_max" using assms by (auto simp: counters_fit_def)
  then show "up_count g t mod 2 ^ 64 = up_count g t" "down_count g t mod 2 ^ 64 = down_count g t" by simp_all
qed

interpretation relay: machine "\<lambda>a. a = (rc_start c, relay_begin c t0) \<and> counters_fit t0" "ws_relay_step c" "relay_ok c t0"
  for c t0
proof
  fix a assume "a = (rc_start c, relay_begin c t0) \<and> counters_fit t0"
  then show "relay_ok c t0 a"
    by (simp add: relay_ok_def relay_begin_def handed_on_def counters_fit_mod [simplified])
next
  fix a b assume "relay_ok c t0 a" "ws_relay_step c a b"
  then show "relay_ok c t0 b"
    by (elim ws_relay_stepE) (auto simp: relay_ok_event, auto simp: relay_ok_def)
qed

section \<open>Properties\<close>


lemma rtranclp_three: "r x y \<Longrightarrow> r y z \<Longrightarrow> r z w \<Longrightarrow> r\<^sup>*\<^sup>* x w"
  by simp

definition demo_relay_cfg :: relay_cfg where
  "demo_relay_cfg = \<lparr> rc_egress = Vercel, rc_idle = Some 30, rc_absolute = None, rc_start = 5 \<rparr>"

definition demo_traffic :: traffic where
  "demo_traffic = \<lparr> cf_up = 0, cf_down = 0, vercel_up = 10, vercel_down = 0, rn_up = 0, rn_down = 0 \<rparr>"

definition demo_relay_end :: ws_relay where
  "demo_relay_end = relay_event_step demo_relay_cfg 35 IdleFires
     (relay_event_step demo_relay_cfg 5 (ClientRead ''hello'' True) (relay_begin demo_relay_cfg demo_traffic))"


end
