(* ===== verification/TunnelConnect.thy ===== *)
theory TunnelConnect
  imports ConnectAuth Gatekeeper UpstreamProxy WsTunnel
begin

text \<open>
  CONNECT requests at the server (\<open>crates/server/src/connect.rs\<close>): configuration of the
  tunnel, authentication with the brute-force guard, choice of the exit, and the attempts to
  open a tunnel, up to the relay.
\<close>

section \<open>Repeated prefixes and suffixes\<close>

text \<open>\<open>trim_start_matches\<close> and \<open>trim_end_matches\<close> with a text.\<close>

function trim_start_str :: "string \<Rightarrow> string \<Rightarrow> string" where
  "trim_start_str p s =
     (if p = [] then s else case strip_prefix p s of Some r \<Rightarrow> trim_start_str p r | None \<Rightarrow> s)"
  by pat_completeness auto
termination
  by (relation "measure (length \<circ> snd)") auto

declare trim_start_str.simps [simp del]

definition trim_end_str :: "string \<Rightarrow> string \<Rightarrow> string" where
  "trim_end_str p s = rev (trim_start_str (rev p) (rev s))"

definition trim_start_char :: "char \<Rightarrow> string \<Rightarrow> string" where
  "trim_start_char c s = dropWhile (\<lambda>x. x = c) s"

section \<open>Configuration\<close>

definition GATE_WS_URL :: string where
  "GATE_WS_URL = ''wss://gate.example.com/ws''"

definition MAX_ATTEMPTS :: nat where
  "MAX_ATTEMPTS = 5"

definition DEFAULT_ALLOWLIST :: "string list" where
  "DEFAULT_ALLOWLIST = [''google.com'', ''googleapis.com'', ''gstatic.com'', ''googleusercontent.com'',
     ''accounts.google.com'', ''goog'', ''g.co'', ''android.com'', ''golang.org'', ''youtube.com'',
     ''googlevideo.com'', ''ytimg.com'', ''youtu.be'', ''x.com'', ''twitter.com'', ''twimg.com'',
     ''t.co'', ''telegram.org'', ''t.me'', ''telegram.me'', ''telegra.ph'', ''openai.com'',
     ''chatgpt.com'', ''oaistatic.com'', ''oaiusercontent.com'', ''anthropic.com'', ''claude.ai'',
     ''deepmind.google'', ''perplexity.ai'', ''huggingface.co'', ''github.com'',
     ''githubusercontent.com'', ''gitlab.com'', ''docker.com'', ''docker.io'', ''stackoverflow.com'',
     ''wikipedia.org'', ''wikimedia.org'']"

text \<open>The text before the first occurrence of a character, or all of it.\<close>

definition before_char :: "char \<Rightarrow> string \<Rightarrow> string" where
  "before_char c s = (case split_once c s of Some (base, _) \<Rightarrow> base | None \<Rightarrow> s)"

definition gate_scheme :: "string \<Rightarrow> (string \<times> string) option" where
  "gate_scheme trimmed =
     (case strip_prefix ''https://'' trimmed of Some rest \<Rightarrow> Some (''wss'', rest)
      | None \<Rightarrow> (case strip_prefix ''http://'' trimmed of Some rest \<Rightarrow> Some (''ws'', rest)
      | None \<Rightarrow> (case strip_prefix ''wss://'' trimmed of Some rest \<Rightarrow> Some (''wss'', rest)
      | None \<Rightarrow> (case strip_prefix ''ws://'' trimmed of Some rest \<Rightarrow> Some (''ws'', rest)
      | None \<Rightarrow> if \<not> contains_str ''://'' trimmed then Some (''wss'', trimmed) else None))))"

definition derive_gate_url_from_worker :: "string \<Rightarrow> string option" where
  "derive_gate_url_from_worker worker_url =
     (let trimmed = trim_str worker_url in
      if trimmed = [] then None
      else
       (let trimmed = trim_end_matches (CHR ''/'') (before_char (CHR ''#'') (before_char (CHR ''?'') trimmed)) in
        case gate_scheme trimmed of
          None \<Rightarrow> None
        | Some (scheme, host_port_path) \<Rightarrow>
            (let host_port = trim_end_matches (CHR ''/'') (trim_end_str ''/ws'' host_port_path) in
             if host_port = [] then None
             else
              (let derived = scheme @ ''://'' @ host_port @ ''/ws'' in
               if starts_with ''wss://edge.example.com'' derived \<or> starts_with ''ws://edge.example.com'' derived
               then Some GATE_WS_URL else Some derived))))"

definition normalize_host :: "string \<Rightarrow> string" where
  "normalize_host host =
     trim_end_matches (CHR ''.'')
       (trim_start_char (CHR ''.'') (trim_start_char (CHR ''*'') (to_ascii_lowercase (trim_str host))))"

definition allowlist_add :: "string list \<Rightarrow> string \<Rightarrow> string list" where
  "allowlist_add entries item =
     (let trimmed = trim_str item in
      if trimmed = ''*'' \<or> to_ascii_lowercase trimmed = ''all'' then
        (if ''*'' \<in> set entries then entries else entries @ [''*''])
      else
       (let normalized = normalize_host item in
        if normalized \<noteq> [] \<and> normalized \<notin> set entries then entries @ [normalized] else entries))"

definition default_entries :: "string list" where
  "default_entries = filter (\<lambda>s. s \<noteq> []) (map normalize_host DEFAULT_ALLOWLIST)"

definition parse_allowlist :: "string option \<Rightarrow> string list" where
  "parse_allowlist raw =
     (case raw of
        None \<Rightarrow> default_entries
      | Some custom \<Rightarrow> foldl allowlist_add default_entries (split_on (CHR '','') custom))"

definition entry_match :: "string \<Rightarrow> string \<Rightarrow> bool" where
  "entry_match host entry =
     (if entry = [] \<or> \<not> ends_with entry host then False
      else (let rest = take (length host - length entry) host in rest = [] \<or> ends_with ''.'' rest))"

definition allowlist_match :: "string \<Rightarrow> string list \<Rightarrow> bool" where
  "allowlist_match host entries =
     (if list_ex (\<lambda>e. e = ''*'') entries then True
      else (let h = normalize_host host in
            if h = [] then False else list_ex (\<lambda>e. entry_match h (normalize_host e)) entries))"

record tunnel_config =
  tc_gate_url :: string
  tc_token :: string
  tc_allowlist :: "string list"

definition some_text :: "string option \<Rightarrow> string option" where
  "some_text s = (case s of Some t \<Rightarrow> if trim_str t = [] then None else Some (trim_str t) | None \<Rightarrow> None)"

definition tunnel_build :: "string option \<Rightarrow> string option \<Rightarrow> string option \<Rightarrow> tunnel_config option" where
  "tunnel_build url token allowlist =
     (case (some_text url, some_text token) of
        (Some u, Some t) \<Rightarrow>
          if \<not> starts_with ''wss://'' u then None
          else Some \<lparr> tc_gate_url = u, tc_token = t, tc_allowlist = parse_allowlist allowlist \<rparr>
      | _ \<Rightarrow> None)"

text \<open>The environment variables the module reads.\<close>

record tunnel_env =
  te_gate_url :: "string option"
  te_token_data :: "string option"
  te_token :: "string option"
  te_allowlist :: "string option"
  te_youtube_proxy :: "string option"
  te_conserve_vercel :: "string option"
  te_relay_idle_ms :: "string option"
  te_relay_absolute_ms :: "string option"

definition or_else :: "'a option \<Rightarrow> 'a option \<Rightarrow> 'a option" where
  "or_else a b = (case a of Some x \<Rightarrow> Some x | None \<Rightarrow> b)"

definition from_pool_config_and_env :: "string option \<Rightarrow> string option \<Rightarrow> tunnel_env \<Rightarrow> tunnel_config option" where
  "from_pool_config_and_env worker_url worker_secret env =
     tunnel_build
       (or_else (te_gate_url env) (Option.bind worker_url derive_gate_url_from_worker))
       (or_else (or_else (te_token_data env) (te_token env)) worker_secret)
       (te_allowlist env)"

section \<open>The target of a request\<close>

definition split_host_port :: "string \<Rightarrow> (string \<times> nat) option" where
  "split_host_port authority =
     (case strip_prefix ''['' authority of
        Some stripped \<Rightarrow>
          (case split_once (CHR '']'') stripped of
             None \<Rightarrow> None
           | Some (h, rest) \<Rightarrow>
               (case strip_prefix '':'' rest of
                  None \<Rightarrow> None
                | Some p \<Rightarrow> map_option (Pair h) (parse_uint 10 65535 p)))
      | None \<Rightarrow>
          (case rsplit_once (CHR '':'') authority of
             None \<Rightarrow> None
           | Some (h, p) \<Rightarrow> map_option (Pair h) (parse_uint 10 65535 p)))"

definition connect_head_target :: "string \<Rightarrow> (string \<times> nat) option" where
  "connect_head_target head =
     (case str_lines head of
        [] \<Rightarrow> None
      | first # _ \<Rightarrow>
          (case strip_prefix ''CONNECT '' first of
             None \<Rightarrow> None
           | Some rest \<Rightarrow> split_host_port (hd (split_on (CHR '' '') rest))))"

section \<open>Authentication\<close>

definition has_forwarded :: "string \<Rightarrow> bool" where
  "has_forwarded head =
     list_ex (\<lambda>l. let low = to_ascii_lowercase l in
                starts_with ''x-forwarded-for:'' low \<or> starts_with ''x-real-ip:'' low \<or> starts_with ''forwarded:'' low)
       (str_lines head)"

definition connect_auth_allowed :: "crypto \<Rightarrow> nat \<Rightarrow> ip_addr \<Rightarrow> string \<Rightarrow> services \<Rightarrow> bool \<times> services" where
  "connect_auth_allowed K now client_ip head s =
     (if ip_is_loopback client_ip \<and> \<not> has_forwarded head then (True, s)
      else verify_connect_credentials K now None head s)"

section \<open>Opening a tunnel\<close>

datatype establish_error = Denied string | Network string

definition bind_target_srv :: "ws_peer \<Rightarrow> nat \<Rightarrow> string \<Rightarrow> nat \<Rightarrow> establish_error + nat" where
  "bind_target_srv P ws host port =
     (case bind_target P ws host port of
        Inr w \<Rightarrow> Inr w
      | Inl s \<Rightarrow> Inl (if contains_str ''denied:'' s then Denied (trim_str (trim_start_str ''denied:'' s)) else Network s))"

text \<open>The loop over the endpoints, with the last error.  The client and the peer stand for the
  world during this attempt.\<close>

fun establish_loop ::
  "ws_client \<Rightarrow> ws_peer \<Rightarrow> string \<Rightarrow> string \<Rightarrow> nat \<Rightarrow> string list \<Rightarrow> establish_error option
   \<Rightarrow> establish_error + nat \<times> string" where
  "establish_loop C P token host port [] last_err =
     Inl (case last_err of Some e \<Rightarrow> e | None \<Rightarrow> Network ''no valid gate endpoints configured'')"
| "establish_loop C P token host port (endpoint # endpoints) last_err =
     (case connect_ws C endpoint token of
        Inr ws \<Rightarrow>
          (case bind_target_srv P ws host port of
             Inr w \<Rightarrow> Inr (w, endpoint)
           | Inl e \<Rightarrow> establish_loop C P token host port endpoints (Some e))
      | Inl e \<Rightarrow> establish_loop C P token host port endpoints (Some (Network e)))"

definition establish_with_endpoints ::
  "ws_client \<Rightarrow> ws_peer \<Rightarrow> tunnel_config \<Rightarrow> string list \<Rightarrow> string \<Rightarrow> nat \<Rightarrow> establish_error + nat \<times> string" where
  "establish_with_endpoints C P cfg endpoints host port = establish_loop C P (tc_token cfg) host port endpoints None"

definition checkout_ordered :: "crypto \<Rightarrow> nat \<Rightarrow> tunnel_config \<Rightarrow> string list \<Rightarrow> pool \<Rightarrow> (nat \<times> string) option \<times> pool" where
  "checkout_ordered K now cfg ordered p =
     (case checkout now ordered (Some (token_fp8_of K (tc_token cfg))) p of
        (r, _, p') \<Rightarrow> (map_option (\<lambda>(s, u). (is_ws s, u)) r, p'))"

text \<open>The pause after a failed attempt, in milliseconds; \<open>r\<close> is the random number drawn.\<close>

definition backoff :: "nat \<Rightarrow> nat \<Rightarrow> nat" where
  "backoff attempt r = 50 * 2 ^ (min attempt 6) + r mod 50"

text \<open>One attempt: a pooled session first, and a fresh one when there is none or it does not
  bind.\<close>

definition attempt_once ::
  "ws_client \<times> ws_peer \<Rightarrow> tunnel_config \<Rightarrow> string list \<Rightarrow> string \<Rightarrow> nat \<Rightarrow> (nat \<times> string) option
   \<Rightarrow> establish_error + nat \<times> string" where
  "attempt_once W cfg endpoints host port pooled =
     (case W of (C, P) \<Rightarrow>
        (case pooled of
           Some (ws, u) \<Rightarrow>
             (case bind_target_srv P ws host port of
                Inr w \<Rightarrow> Inr (w, u)
              | Inl _ \<Rightarrow> establish_with_endpoints C P cfg endpoints host port)
         | None \<Rightarrow> establish_with_endpoints C P cfg endpoints host port))"

text \<open>The loop over the attempts, with the pauses made; \<open>n\<close> attempts are left.\<close>

fun attempt_loop ::
  "(nat \<Rightarrow> ws_client \<times> ws_peer) \<Rightarrow> (nat \<Rightarrow> nat) \<Rightarrow> tunnel_config \<Rightarrow> string list \<Rightarrow> string \<Rightarrow> nat
   \<Rightarrow> nat \<Rightarrow> nat \<Rightarrow> (nat \<times> string) option \<Rightarrow> nat list \<Rightarrow> (nat \<times> string) option \<times> nat list" where
  "attempt_loop W rnd cfg endpoints host port attempt 0 pooled sleeps = (None, sleeps)"
| "attempt_loop W rnd cfg endpoints host port attempt (Suc n) pooled sleeps =
     (case attempt_once (W attempt) cfg endpoints host port pooled of
        Inr r \<Rightarrow> (Some r, sleeps)
      | Inl e \<Rightarrow>
          (case e of
             Denied _ \<Rightarrow> (None, sleeps)
           | Network _ \<Rightarrow>
               if attempt + 1 \<ge> MAX_ATTEMPTS then (None, sleeps)
               else attempt_loop W rnd cfg endpoints host port (attempt + 1) n None
                      (sleeps @ [backoff attempt (rnd attempt)])))"

section \<open>A request\<close>

definition relay_timeout_from_env :: "string option \<Rightarrow> nat \<Rightarrow> nat" where
  "relay_timeout_from_env raw default_ms =
     (case raw of
        None \<Rightarrow> default_ms
      | Some t \<Rightarrow> (case parse_uint 10 u64_max (trim_str t) of
                     Some v \<Rightarrow> if v > 0 then v else default_ms
                   | None \<Rightarrow> default_ms))"

definition RELAY_IDLE_DEFAULT_MS :: nat where
  "RELAY_IDLE_DEFAULT_MS = 30000"

definition RELAY_ABSOLUTE_DEFAULT_MS :: nat where
  "RELAY_ABSOLUTE_DEFAULT_MS = 21600000"

definition relay_limits :: "tunnel_env \<Rightarrow> nat \<times> nat" where
  "relay_limits env =
     (relay_timeout_from_env (te_relay_idle_ms env) RELAY_IDLE_DEFAULT_MS,
      relay_timeout_from_env (te_relay_absolute_ms env) RELAY_ABSOLUTE_DEFAULT_MS)"

text \<open>What becomes of a request.  The dedicated proxies carry the bytes written to them first and
  what they send; a tunnel its session, endpoint, first payload and the idle and absolute
  limits of its relay.\<close>

datatype connect_outcome =
    Locked429 | AuthRequired407 | BadTarget400 | NotConfigured403 | PortNotAllowed403
  | NoCompliantEgress502 | TunnelFailed502
  | ViaSocks string string string | ViaHttp string string "read_event list"
  | TunnelUp nat string string "(nat \<times> nat) option"

text \<open>What the world does during a request.\<close>

record connect_world =
  cw_instant :: nat
  cw_now :: nat
  cw_attempts :: "nat \<Rightarrow> ws_client \<times> ws_peer"
  cw_rnd :: "nat \<Rightarrow> nat"
  cw_socks :: "string \<Rightarrow> bool \<times> bool \<times> bool \<times> string"
  cw_http :: "string \<Rightarrow> bool \<times> bool \<times> read_event list"

record connect_state =
  cs_records :: gk_records
  cs_services :: services
  cs_tunnel :: "(tunnel_config \<times> pool) option"
  cs_counter :: nat

definition youtube_route :: "tunnel_env \<Rightarrow> connect_world \<Rightarrow> string \<Rightarrow> string \<Rightarrow> connect_outcome option" where
  "youtube_route env W host leftover =
     (if \<not> is_youtube_host host then None
      else (case te_youtube_proxy env of
        None \<Rightarrow> None
      | Some raw \<Rightarrow>
          (let proxy_addr = trim_str raw in
           if proxy_addr = [] then None
           else if starts_with ''socks5://'' proxy_addr then
             (let addr = trim_start_str ''socks5://'' proxy_addr in
              case cw_socks W addr of (connected, greeted, requested, input) \<Rightarrow>
                (case socks5_connect connected greeted requested input of
                   Inr rest \<Rightarrow> Some (ViaSocks addr leftover rest)
                 | Inl _ \<Rightarrow> None))
           else
             (let addr = trim_start_str ''http://'' proxy_addr in
              case cw_http W addr of (connected, written, evs) \<Rightarrow>
                (case http_connect_ext connected written evs of
                   Inr (_, evs') \<Rightarrow> Some (ViaHttp addr leftover evs')
                 | Inl _ \<Rightarrow> None)))))"

text \<open>The endpoints a request may use, or none when the target needs an exit that is not
  configured.\<close>

definition request_endpoints :: "string \<Rightarrow> string list \<Rightarrow> string list option" where
  "request_endpoints host ordered =
     (if requires_compliant_egress host
      then (let vercel_only = compliant_egress_endpoints ordered in if vercel_only = [] then None else Some vercel_only)
      else Some ordered)"

definition may_use_pool :: "string \<Rightarrow> string list \<Rightarrow> bool" where
  "may_use_pool host endpoints \<longleftrightarrow>
     \<not> requires_compliant_egress host \<or> list_ex (\<lambda>ep. \<not> is_vercel_endpoint ep) endpoints"

text \<open>The part after authentication and the checks of the target.\<close>

definition open_tunnel ::
  "crypto \<Rightarrow> tunnel_env \<Rightarrow> connect_world \<Rightarrow> string \<Rightarrow> nat \<Rightarrow> string \<Rightarrow> tunnel_config \<Rightarrow> pool \<Rightarrow> connect_state
   \<Rightarrow> connect_outcome \<times> nat list \<times> connect_state" where
  "open_tunnel K env W host port leftover cfg p st =
     (case ordered_gate_urls (te_conserve_vercel env) (tc_gate_url cfg) host (cs_counter st) of
        (ordered, counter) \<Rightarrow>
          (let st = st\<lparr> cs_counter := counter \<rparr> in
           case request_endpoints host ordered of
             None \<Rightarrow> (NoCompliantEgress502, [], st)
           | Some endpoints \<Rightarrow>
               (let (pooled, p') = (if may_use_pool host endpoints
                                    then checkout_ordered K (cw_instant W) cfg endpoints p else (None, p));
                    st = st\<lparr> cs_tunnel := Some (cfg, p') \<rparr>
                in case attempt_loop (cw_attempts W) (cw_rnd W) cfg endpoints host port 0 MAX_ATTEMPTS pooled [] of
                     (Some (ws, u), sleeps) \<Rightarrow>
                       (TunnelUp ws u leftover (Some (relay_limits env)), sleeps, st)
                   | (None, sleeps) \<Rightarrow> (TunnelFailed502, sleeps, st))))"

definition connect_target_stage ::
  "crypto \<Rightarrow> tunnel_env \<Rightarrow> connect_world \<Rightarrow> (string \<times> nat) option \<Rightarrow> string \<Rightarrow> connect_state
   \<Rightarrow> connect_outcome \<times> nat list \<times> connect_state" where
  "connect_target_stage K env W target leftover st =
     (case target of
        None \<Rightarrow> (BadTarget400, [], st)
      | Some (host, port) \<Rightarrow>
          (case cs_tunnel st of
             None \<Rightarrow> (NotConfigured403, [], st)
           | Some (cfg, p) \<Rightarrow>
               if port \<noteq> 443 then (PortNotAllowed403, [], st)
               else (case youtube_route env W host leftover of
                       Some out \<Rightarrow> (out, [], st)
                     | None \<Rightarrow> open_tunnel K env W host port leftover cfg p st)))"

definition handle_connect_raw ::
  "crypto \<Rightarrow> gk_config \<Rightarrow> tunnel_env \<Rightarrow> connect_world \<Rightarrow> ip_addr \<Rightarrow> string \<Rightarrow> string \<Rightarrow> connect_state
   \<Rightarrow> connect_outcome \<times> nat list \<times> connect_state" where
  "handle_connect_raw K gcfg env W client_ip head leftover st =
     (case gk_check (cw_instant W) client_ip (cs_records st) of
        (Inl _, m) \<Rightarrow> (Locked429, [], st\<lparr> cs_records := m \<rparr>)
      | (Inr _, m) \<Rightarrow>
          (case connect_auth_allowed K (cw_now W) client_ip head (cs_services st) of
             (False, sv) \<Rightarrow>
               (AuthRequired407, [], st\<lparr> cs_records := record_failure gcfg (cw_instant W) client_ip m, cs_services := sv \<rparr>)
           | (True, sv) \<Rightarrow>
               connect_target_stage K env W (connect_head_target head) leftover
                 (st\<lparr> cs_records := record_success client_ip m, cs_services := sv \<rparr>)))"

text \<open>The answers on the wire.\<close>

definition answer :: "string \<Rightarrow> string list \<Rightarrow> nat \<Rightarrow> string \<Rightarrow> string" where
  "answer status headers content_length body =
     concat (map (\<lambda>l. l @ map char_of [13, 10 :: nat])
       (status # headers @ [''content-type: application/json'', ''content-length: '' @ show_nat content_length, []])) @ body"

definition FORBIDDEN :: string where
  \<open>FORBIDDEN = ''{"error":"connect_forbidden"}''\<close>

definition FAILED :: string where
  \<open>FAILED = ''{"error":"tunnel_failed"}''\<close>

definition answer_429 :: string where
  \<open>answer_429 = answer ''HTTP/1.1 429 Too Many Requests'' [] 54
     ''{"error":"ip_temporarily_locked_due_to_auth_failures"}''\<close>

definition answer_407 :: string where
  \<open>answer_407 = answer ''HTTP/1.1 407 Proxy Authentication Required''
     [''proxy-authenticate: Basic realm="Pony Proxy"''] 41 ''{"error":"proxy_authentication_required"}''\<close>

fun connect_answer :: "connect_outcome \<Rightarrow> string" where
  "connect_answer Locked429 = answer_429"
| "connect_answer AuthRequired407 = answer_407"
| "connect_answer BadTarget400 = answer ''HTTP/1.1 400 Bad Request'' [''x-pproxy-reason: bad_target''] 29 FORBIDDEN"
| "connect_answer NotConfigured403 =
     answer ''HTTP/1.1 403 Forbidden'' [''x-pproxy-reason: tunnel_not_configured''] 29 FORBIDDEN"
| "connect_answer PortNotAllowed403 =
     answer ''HTTP/1.1 403 Forbidden'' [''x-pproxy-reason: port_not_allowed''] 29 FORBIDDEN"
| "connect_answer NoCompliantEgress502 =
     answer ''HTTP/1.1 502 Bad Gateway'' [''x-pproxy-reason: no_compliant_egress''] 25 FAILED"
| "connect_answer TunnelFailed502 =
     answer ''HTTP/1.1 502 Bad Gateway'' [''x-pproxy-reason: tunnel_failed''] 25 FAILED"
| "connect_answer _ = ''HTTP/1.1 200 Connection Established'' @ CRLF2"

section \<open>Lemmas\<close>

fun admitted :: "connect_outcome \<Rightarrow> bool" where
  "admitted (TunnelUp _ _ _ _) = True"
| "admitted (ViaSocks _ _ _) = True"
| "admitted (ViaHttp _ _ _) = True"
| "admitted _ = False"

lemma bind_target_srv_Inr [simp]: "bind_target_srv P ws host port = Inr w \<longleftrightarrow> bind_target P ws host port = Inr w"
  by (auto simp: bind_target_srv_def split: sum.splits)

lemma establish_loop_Inr:
  "establish_loop C P token host port eps le = Inr (w, u) \<Longrightarrow>
   u \<in> set eps \<and> (\<exists>ws. connect_ws C u token = Inr ws \<and> bind_target P ws host port = Inr w)"
  by (induction eps arbitrary: le) (auto split: sum.splits)

lemma establish_loop_succeeds:
  "u \<in> set eps \<Longrightarrow> connect_ws C u token = Inr ws \<Longrightarrow> bind_target P ws host port = Inr w \<Longrightarrow>
   \<exists>r. establish_loop C P token host port eps le = Inr r"
proof (induction eps arbitrary: le)
  case (Cons e eps)
  show ?case
  proof (cases "e = u")
    case True
    have b: "bind_target_srv P ws host port = Inr w" using Cons.prems by simp
    show ?thesis using True Cons.prems(2) by (simp add: b del: bind_target_srv_Inr)
  next
    case False
    with Cons show ?thesis by (auto split: sum.splits)
  qed
qed simp

lemma attempt_once_Inr:
  assumes "attempt_once (C, P) cfg eps host port pooled = Inr (w, u)"
  shows "\<exists>ws. bind_target P ws host port = Inr w
    \<and> (u \<in> set eps \<and> connect_ws C u (tc_token cfg) = Inr ws \<or> pooled = Some (ws, u))"
proof (cases "\<exists>ws. pooled = Some (ws, u) \<and> bind_target P ws host port = Inr w")
  case False
  with assms have "establish_loop C P (tc_token cfg) host port eps None = Inr (w, u)"
    by (auto simp: attempt_once_def establish_with_endpoints_def split: option.splits sum.splits)
  then show ?thesis using establish_loop_Inr by blast
qed blast

lemma attempt_once_succeeds:
  assumes "u \<in> set eps" "connect_ws C u (tc_token cfg) = Inr ws" "bind_target P ws host port = Inr w"
  shows "\<exists>r. attempt_once (C, P) cfg eps host port pooled = Inr r"
  using establish_loop_succeeds [OF assms, of None]
  by (auto simp: attempt_once_def establish_with_endpoints_def split: option.splits sum.splits)

lemma attempt_loop_Some:
  "attempt_loop W rnd cfg eps host port k n pooled sl = (Some (w, u), sl') \<Longrightarrow>
   \<exists>i < k + n. \<exists>ws. bind_target (snd (W i)) ws host port = Inr w
     \<and> (u \<in> set eps \<and> connect_ws (fst (W i)) u (tc_token cfg) = Inr ws \<or> pooled = Some (ws, u))"
proof (induction n arbitrary: k pooled sl)
  case (Suc n)
  obtain C P where W: "W k = (C, P)" by fastforce
  show ?case
  proof (cases "attempt_once (W k) cfg eps host port pooled")
    case (Inr r)
    with Suc.prems have "attempt_once (C, P) cfg eps host port pooled = Inr (w, u)" by (simp add: W)
    from attempt_once_Inr [OF this] W show ?thesis by (intro exI [of _ k]) auto
  next
    case (Inl e)
    with Suc.prems obtain sl2 where "attempt_loop W rnd cfg eps host port (k + 1) n None sl2 = (Some (w, u), sl')"
      by (auto split: establish_error.splits if_splits)
    from Suc.IH [OF this] obtain i ws where "i < k + 1 + n" "bind_target (snd (W i)) ws host port = Inr w"
      "u \<in> set eps \<and> connect_ws (fst (W i)) u (tc_token cfg) = Inr ws" by auto
    then show ?thesis by (intro exI [of _ i]) auto
  qed
qed simp

text \<open>The pauses: one fewer than the attempts, each at most twice the one before and 49 ms.\<close>

fun pause_bound :: "nat \<Rightarrow> nat \<Rightarrow> nat" where
  "pause_bound k 0 = 0"
| "pause_bound k (Suc n) = (if k + 1 \<ge> MAX_ATTEMPTS then 0 else 50 * 2 ^ min k 6 + 49 + pause_bound (k + 1) n)"

lemma attempt_loop_sleeps:
  "attempt_loop W rnd cfg eps host port k n pooled sl = (r, sl') \<Longrightarrow> k + n = MAX_ATTEMPTS \<Longrightarrow>
   length sl' \<le> length sl + (n - 1) \<and> sum_list sl' \<le> sum_list sl + pause_bound k n"
proof (induction n arbitrary: k pooled sl)
  case (Suc n)
  show ?case
  proof (cases "\<exists>e. attempt_once (W k) cfg eps host port pooled = Inl (Network e) \<and> k + 1 < MAX_ATTEMPTS")
    case False
    with Suc.prems have "sl' = sl" by (auto split: sum.splits establish_error.splits if_splits)
    then show ?thesis by simp
  next
    case True
    with Suc.prems have "attempt_loop W rnd cfg eps host port (k + 1) n None (sl @ [backoff k (rnd k)]) = (r, sl')" by auto
    from Suc.IH [OF this] Suc.prems
    have *: "length sl' \<le> length sl + 1 + (n - 1)" "sum_list sl' \<le> sum_list sl + backoff k (rnd k) + pause_bound (k + 1) n"
      by auto
    have "rnd k mod 50 < 50" by simp
    then have "backoff k (rnd k) \<le> 50 * 2 ^ min k 6 + 49" by (simp add: backoff_def)
    moreover have "n \<noteq> 0" using True Suc.prems(2) by auto
    ultimately show ?thesis using * True by auto
  qed
qed simp

lemma pause_bound_total: "pause_bound 0 MAX_ATTEMPTS = 946"
  by (simp add: MAX_ATTEMPTS_def numeral_eq_Suc)

lemma set_order_endpoints: "set (order_endpoints_with_offset urls host cons k) = set urls"
proof -
  have "u \<in> set (order_endpoints_with_offset urls host cons k) \<longleftrightarrow> u \<in> set urls" for u
    by (cases "classify_egress u") (auto simp: order_endpoints_groups Let_def)
  then show ?thesis by blast
qed

lemma request_endpoints_iff:
  assumes "request_endpoints host (order_endpoints_with_offset urls h cons k) = Some eps"
  shows "u \<in> set eps \<longleftrightarrow> u \<in> set urls \<and>
    (requires_compliant_egress host \<longrightarrow> is_native_vps_endpoint u \<or> is_vercel_endpoint u)"
  using assms by (auto simp: request_endpoints_def compliant_egress_endpoints_def set_order_endpoints Let_def split: if_splits)

lemma request_endpoints_Some:
  assumes "u \<in> set urls" "requires_compliant_egress host \<longrightarrow> is_native_vps_endpoint u \<or> is_vercel_endpoint u"
  shows "\<exists>eps. request_endpoints host (order_endpoints_with_offset urls h cons k) = Some eps"
proof -
  have "u \<in> set (order_endpoints_with_offset urls h cons k)" using assms(1) by (simp add: set_order_endpoints)
  then show ?thesis using assms(2)
    by (auto simp: request_endpoints_def compliant_egress_endpoints_def Let_def filter_empty_conv)
qed

lemma checkout_ordered_Some:
  assumes "checkout_ordered K now cfg eps p = (Some (ws, u), p')"
  shows "u \<in> set eps"
proof -
  obtain r wake q where c: "checkout now eps (Some (token_fp8_of K (tc_token cfg))) p = (r, wake, q)" by (metis prod_cases3)
  with assms obtain s where "r = Some (s, u)" by (auto simp: checkout_ordered_def)
  with checkout_after(2) [OF c] show ?thesis by (auto simp: checkout_ok_def)
qed

lemma relay_timeout_pos: "0 < d \<Longrightarrow> 0 < relay_timeout_from_env raw d"
  by (auto simp: relay_timeout_from_env_def split: option.splits)

lemma open_tunnel_up:
  assumes "open_tunnel K env W host port leftover cfg p st = (out, sleeps, st')" "admitted out"
  obtains ws u i ws0 where "out = TunnelUp ws u leftover (Some (relay_limits env))"
    "u \<in> set (split_gate_urls (tc_gate_url cfg))"
    "requires_compliant_egress host \<longrightarrow> is_native_vps_endpoint u \<or> is_vercel_endpoint u"
    "i < MAX_ATTEMPTS" "bind_target (snd (cw_attempts W i)) ws0 host port = Inr ws"
proof -
  let ?ord = "order_endpoints_with_offset (split_gate_urls (tc_gate_url cfg)) host (te_conserve_vercel env \<noteq> Some ''0'') (cs_counter st)"
  from assms obtain eps where e: "request_endpoints host ?ord = Some eps"
    by (auto simp: open_tunnel_def ordered_gate_urls_def Let_def split: option.splits)
  obtain pooled p' where pp: "(if may_use_pool host eps then checkout_ordered K (cw_instant W) cfg eps p else (None, p)) = (pooled, p')"
    by fastforce
  obtain r sl where l: "attempt_loop (cw_attempts W) (cw_rnd W) cfg eps host port 0 MAX_ATTEMPTS pooled [] = (r, sl)" by fastforce
  have o: "open_tunnel K env W host port leftover cfg p st = (case (r, sl) of
      (Some (ws, u), sleeps) \<Rightarrow> (TunnelUp ws u leftover (Some (relay_limits env)), sleeps,
          st\<lparr> cs_counter := wrap_add64 (cs_counter st) 1, cs_tunnel := Some (cfg, p') \<rparr>)
    | (None, sleeps) \<Rightarrow> (TunnelFailed502, sleeps, st\<lparr> cs_counter := wrap_add64 (cs_counter st) 1, cs_tunnel := Some (cfg, p') \<rparr>))"
    using pp l by (simp add: open_tunnel_def ordered_gate_urls_def e Let_def split: option.split)
  from o assms obtain ws u where r: "r = Some (ws, u)" by (auto split: option.splits)
  from attempt_loop_Some [OF l [unfolded r]] obtain i ws0 where i: "i < MAX_ATTEMPTS"
    "bind_target (snd (cw_attempts W i)) ws0 host port = Inr ws" "u \<in> set eps \<or> pooled = Some (ws0, u)" by auto
  have "u \<in> set eps" using i(3) pp checkout_ordered_Some by (auto split: if_splits)
  with request_endpoints_iff [OF e] i that [of ws u i ws0] o assms(1) r show ?thesis by auto
qed

lemma handle_connect_admitted:
  assumes "handle_connect_raw K gcfg env W ip head leftover st = (out, sleeps, st')" "admitted out"
  obtains host cfg p st1 where "fst (gk_check (cw_instant W) ip (cs_records st)) = Inr ()"
    "fst (connect_auth_allowed K (cw_now W) ip head (cs_services st))"
    "connect_head_target head = Some (host, 443)" "cs_tunnel st = Some (cfg, p)"
    "youtube_route env W host leftover = Some out
     \<or> youtube_route env W host leftover = None \<and> open_tunnel K env W host 443 leftover cfg p st1 = (out, sleeps, st')"
proof -
  obtain g m where g: "gk_check (cw_instant W) ip (cs_records st) = (g, m)" by fastforce
  obtain b sv where b: "connect_auth_allowed K (cw_now W) ip head (cs_services st) = (b, sv)" by fastforce
  from assms g have g': "g = Inr ()" by (cases g) (auto simp: handle_connect_raw_def)
  with assms g b have b': b by (cases b) (auto simp: handle_connect_raw_def)
  let ?st = "st\<lparr> cs_records := record_success ip m, cs_services := sv \<rparr>"
  have t: "connect_target_stage K env W (connect_head_target head) leftover ?st = (out, sleeps, st')"
    using assms(1) g b g' b' by (simp add: handle_connect_raw_def)
  from t assms(2) obtain host port where h: "connect_head_target head = Some (host, port)"
    by (cases "connect_head_target head") (auto simp: connect_target_stage_def)
  from t assms(2) h obtain cfg p where c: "cs_tunnel st = Some (cfg, p)"
    by (cases "cs_tunnel st") (auto simp: connect_target_stage_def)
  from t assms(2) h c have port: "port = 443" by (auto simp: connect_target_stage_def split: if_splits)
  show ?thesis
    by (rule that [of host cfg p ?st]) (use g b g' b' h c port t in \<open>auto simp: connect_target_stage_def split: option.splits\<close>)
qed

lemma connect_admits:
  assumes "fst (gk_check (cw_instant W) client_ip (cs_records st)) = Inr ()"
    and "fst (connect_auth_allowed K (cw_now W) client_ip head (cs_services st))"
    and "connect_head_target head = Some (host, 443)" "cs_tunnel st = Some (cfg, p)"
    and "youtube_route env W host leftover = None"
    and "u \<in> set (split_gate_urls (tc_gate_url cfg))"
    and "requires_compliant_egress host \<longrightarrow> is_native_vps_endpoint u \<or> is_vercel_endpoint u"
    and "connect_ws (fst (cw_attempts W 0)) u (tc_token cfg) = Inr ws"
    and "bind_target (snd (cw_attempts W 0)) ws host 443 = Inr w"
  shows "admitted (fst (handle_connect_raw K gcfg env W client_ip head leftover st))"
proof -
  obtain m where m: "gk_check (cw_instant W) client_ip (cs_records st) = (Inr (), m)"
    using assms(1) by (cases "gk_check (cw_instant W) client_ip (cs_records st)") auto
  obtain sv where sv: "connect_auth_allowed K (cw_now W) client_ip head (cs_services st) = (True, sv)"
    using assms(2) by (cases "connect_auth_allowed K (cw_now W) client_ip head (cs_services st)") auto
  define st1 where "st1 = st\<lparr> cs_records := record_success client_ip m, cs_services := sv \<rparr>"
  have h: "handle_connect_raw K gcfg env W client_ip head leftover st = open_tunnel K env W host 443 leftover cfg p st1"
    using m sv assms(3-5) by (simp add: handle_connect_raw_def connect_target_stage_def st1_def)
  obtain eps where e: "request_endpoints host (order_endpoints_with_offset (split_gate_urls (tc_gate_url cfg)) host
      (te_conserve_vercel env \<noteq> Some ''0'') (cs_counter st1)) = Some eps"
    using request_endpoints_Some [OF assms(6,7)] by blast
  have "u \<in> set eps" using request_endpoints_iff [OF e] assms(6,7) by blast
  then have "\<exists>r. attempt_once (cw_attempts W 0) cfg eps host 443 pooled = Inr r" for pooled
    using attempt_once_succeeds [of u eps "fst (cw_attempts W 0)"] assms(8,9) by (metis prod.collapse)
  then have "\<exists>ws u. attempt_loop (cw_attempts W) (cw_rnd W) cfg eps host 443 0 MAX_ATTEMPTS pooled [] = (Some (ws, u), [])" for pooled
  proof -
    have max: "MAX_ATTEMPTS = Suc 4" by (simp add: MAX_ATTEMPTS_def)
    assume "\<And>pooled. \<exists>r. attempt_once (cw_attempts W 0) cfg eps host 443 pooled = Inr r"
    then obtain ws u where "attempt_once (cw_attempts W 0) cfg eps host 443 pooled = Inr (ws, u)" by fastforce
    then show ?thesis unfolding max attempt_loop.simps by simp
  qed
  moreover obtain pooled p' where "(if may_use_pool host eps
      then checkout_ordered K (cw_instant W) cfg eps p else (None, p)) = (pooled, p')" by fastforce
  moreover obtain ws u where "attempt_loop (cw_attempts W) (cw_rnd W) cfg eps host 443 0 MAX_ATTEMPTS pooled [] = (Some (ws, u), [])"
    using calculation(1) by blast
  ultimately show ?thesis unfolding h open_tunnel_def ordered_gate_urls_def by (simp add: e Let_def)
qed

section \<open>Properties\<close>

text \<open>C22: bytes are relayed for a CONNECT request only when its address is not locked out, it
  comes from a loopback address without traces of a proxy or carries valid credentials, it
  asks for port 443, and a tunnel is configured.  A tunnel is one in which a gate confirmed
  exactly the requested host and port, over a configured endpoint, which for a target that
  needs a compliant exit is never a Cloudflare one; it carries the payload read with the
  head first and has positive time limits.  Only streaming targets take the dedicated
  proxy.\<close>

theorem connect_authorized:
  assumes "handle_connect_raw K gcfg env W client_ip head leftover st = (out, sleeps, st')" "admitted out"
  shows "\<exists>host cfg p. connect_head_target head = Some (host, 443) \<and> cs_tunnel st = Some (cfg, p)
    \<and> fst (gk_check (cw_instant W) client_ip (cs_records st)) = Inr ()
    \<and> (ip_is_loopback client_ip \<and> \<not> has_forwarded head
       \<or> fst (verify_connect_credentials K (cw_now W) None head (cs_services st)))
    \<and> (case out of
         TunnelUp ws u first limits \<Rightarrow>
           u \<in> set (split_gate_urls (tc_gate_url cfg)) \<and> first = leftover
           \<and> (\<exists>idle_ms > 0. \<exists>absolute_ms > 0. limits = Some (idle_ms, absolute_ms))
           \<and> (requires_compliant_egress host \<longrightarrow> is_native_vps_endpoint u \<or> is_vercel_endpoint u)
           \<and> (\<exists>i < MAX_ATTEMPTS. \<exists>ws0. bind_target (snd (cw_attempts W i)) ws0 host 443 = Inr ws)
       | _ \<Rightarrow> is_youtube_host host)"
proof -
  obtain host cfg p st1 where h: "fst (gk_check (cw_instant W) client_ip (cs_records st)) = Inr ()"
    "fst (connect_auth_allowed K (cw_now W) client_ip head (cs_services st))"
    "connect_head_target head = Some (host, 443)" "cs_tunnel st = Some (cfg, p)"
    "youtube_route env W host leftover = Some out
     \<or> youtube_route env W host leftover = None \<and> open_tunnel K env W host 443 leftover cfg p st1 = (out, sleeps, st')"
    using assms by (rule handle_connect_admitted)
  have auth: "ip_is_loopback client_ip \<and> \<not> has_forwarded head
      \<or> fst (verify_connect_credentials K (cw_now W) None head (cs_services st))"
    using h(2) by (auto simp: connect_auth_allowed_def split: if_splits)
  show ?thesis
  proof (cases "youtube_route env W host leftover")
    case (Some out')
    with h(5) have "out' = out" by simp
    with Some have "is_youtube_host host" "\<forall>a b c d. out \<noteq> TunnelUp a b c d"
      by (auto simp: youtube_route_def Let_def split: if_splits option.splits prod.splits sum.splits)
    with h auth show ?thesis by (auto split: connect_outcome.splits)
  next
    case None
    with h(5) have "open_tunnel K env W host 443 leftover cfg p st1 = (out, sleeps, st')" by simp
    from open_tunnel_up [OF this assms(2)] obtain ws u i ws0 where
      "out = TunnelUp ws u leftover (Some (relay_limits env))"
      "u \<in> set (split_gate_urls (tc_gate_url cfg))"
      "requires_compliant_egress host \<longrightarrow> is_native_vps_endpoint u \<or> is_vercel_endpoint u"
      "i < MAX_ATTEMPTS" "bind_target (snd (cw_attempts W i)) ws0 host 443 = Inr ws" .
    with h auth relay_timeout_pos [of RELAY_IDLE_DEFAULT_MS "te_relay_idle_ms env"]
      relay_timeout_pos [of RELAY_ABSOLUTE_DEFAULT_MS "te_relay_absolute_ms env"]
    show ?thesis by (auto simp: relay_limits_def RELAY_IDLE_DEFAULT_MS_def RELAY_ABSOLUTE_DEFAULT_MS_def)
  qed
qed

definition demo_world :: connect_world where
  "demo_world = \<lparr> cw_instant = 0, cw_now = 0,
     cw_attempts = (\<lambda>_. (\<lparr> wc_url_error = (\<lambda>_. None), wc_header_error = (\<lambda>_. None),
                            wc_upgrade = (\<lambda>u _. if u = ''wss://b'' then Upgraded 7 else UpgradeTimeout) \<rparr>,
                         \<lparr> wp_send_error = (\<lambda>_ _. None), wp_answers = (\<lambda>_ _. [BindOther, BindText ''ok'']),
                            wp_parse = (\<lambda>_. Inr (JObject [(''ok'', JBool True)])), wp_quote = id \<rparr>)),
     cw_rnd = (\<lambda>_. 0), cw_socks = (\<lambda>_. (False, False, False, [])), cw_http = (\<lambda>_. (False, False, [])) \<rparr>"

definition demo_tunnel_env :: tunnel_env where
  "demo_tunnel_env = \<lparr> te_gate_url = None, te_token_data = None, te_token = None, te_allowlist = None,
     te_youtube_proxy = None, te_conserve_vercel = None, te_relay_idle_ms = Some ''500'', te_relay_absolute_ms = None \<rparr>"

definition demo_connect_state :: "services \<Rightarrow> connect_state" where
  "demo_connect_state sv = \<lparr> cs_records = Map.empty, cs_services = sv,
     cs_tunnel = Some (\<lparr> tc_gate_url = ''wss://a, wss://b'', tc_token = ''tok'', tc_allowlist = [] \<rparr>, demo_pool),
     cs_counter = 0 \<rparr>"

definition demo_connect_head :: string where
  "demo_connect_head = ''CONNECT x.org:443 HTTP/1.1'' @ CRLF2"

lemma demo_connect_facts:
  "connect_head_target demo_connect_head = Some (''x.org'', 443)" "\<not> has_forwarded demo_connect_head"
  "split_gate_urls ''wss://a, wss://b'' = [''wss://a'', ''wss://b'']" "requires_compliant_egress ''x.org'' = False"
  "ip_is_loopback (V4 (Ipv4 127 0 0 1))" "is_youtube_host ''x.org'' = False"
  "connect_ws (fst (cw_attempts demo_world 0)) ''wss://b'' ''tok'' = Inr 7"
  "bind_target (snd (cw_attempts demo_world 0)) 7 ''x.org'' 443 = Inr 7"
  by code_simp+

theorem connect_authorized_witness:
  "\<forall>sv. \<exists>host cfg p. connect_head_target demo_connect_head = Some (host, 443)
     \<and> cs_tunnel (demo_connect_state sv) = Some (cfg, p)"
proof
  fix sv
  let ?cfg = "\<lparr> tc_gate_url = ''wss://a, wss://b'', tc_token = ''tok'', tc_allowlist = [] \<rparr>"
  let ?r = "handle_connect_raw demo gk_config_default demo_tunnel_env demo_world (V4 (Ipv4 127 0 0 1))
     demo_connect_head ''hi'' (demo_connect_state sv)"
  have t: "cs_tunnel (demo_connect_state sv) = Some (?cfg, demo_pool)" by (simp add: demo_connect_state_def)
  have adm: "admitted (fst ?r)"
    by (rule connect_admits [where u = "''wss://b''" and ws = 7 and w = 7, OF _ _ demo_connect_facts(1) t])
      (simp_all add: demo_connect_state_def gk_check_def connect_auth_allowed_def youtube_route_def demo_connect_facts)
  obtain out sleeps st' where r: "?r = (out, sleeps, st')" by (metis prod_cases3)
  from connect_authorized [OF r] adm r
  show "\<exists>host cfg p. connect_head_target demo_connect_head = Some (host, 443) \<and> cs_tunnel (demo_connect_state sv) = Some (cfg, p)"
    by fastforce
qed

text \<open>One working endpoint is enough.  A request that is authorized, asks for port 443 and
  does not take the dedicated proxy gets its tunnel whenever some configured endpoint, of a
  class the target may use, lets the server in and confirms the target, however many other
  endpoints and pooled sessions fail.\<close>

theorem connect_succeeds:
  assumes "fst (gk_check (cw_instant W) client_ip (cs_records st)) = Inr ()"
    and "fst (connect_auth_allowed K (cw_now W) client_ip head (cs_services st))"
    and "connect_head_target head = Some (host, 443)" "cs_tunnel st = Some (cfg, p)"
    and "youtube_route env W host leftover = None"
    and "u \<in> set (split_gate_urls (tc_gate_url cfg))"
    and "requires_compliant_egress host \<longrightarrow> is_native_vps_endpoint u \<or> is_vercel_endpoint u"
    and "connect_ws (fst (cw_attempts W 0)) u (tc_token cfg) = Inr ws"
    and "bind_target (snd (cw_attempts W 0)) ws host 443 = Inr w"
  shows "admitted (fst (handle_connect_raw K gcfg env W client_ip head leftover st))"
  using assms by (rule connect_admits)

theorem connect_succeeds_witness:
  "\<forall>sv. admitted (fst (handle_connect_raw demo gk_config_default demo_tunnel_env demo_world (V4 (Ipv4 127 0 0 1))
     demo_connect_head ''hi'' (demo_connect_state sv)))"
proof
  fix sv
  let ?cfg = "\<lparr> tc_gate_url = ''wss://a, wss://b'', tc_token = ''tok'', tc_allowlist = [] \<rparr>"
  have t: "cs_tunnel (demo_connect_state sv) = Some (?cfg, demo_pool)" by (simp add: demo_connect_state_def)
  show "admitted (fst (handle_connect_raw demo gk_config_default demo_tunnel_env demo_world (V4 (Ipv4 127 0 0 1))
     demo_connect_head ''hi'' (demo_connect_state sv)))"
    by (rule connect_succeeds [where u = "''wss://b''" and ws = 7 and w = 7, OF _ _ demo_connect_facts(1) t])
      (simp_all add: demo_connect_state_def gk_check_def connect_auth_allowed_def youtube_route_def demo_connect_facts)
qed


text \<open>Every refusal is a well-formed answer: a status line, header lines and an empty line
  followed by a body whose length is the announced one.\<close>

theorem connect_answer_length:
  "admitted out \<or> (\<exists>status headers body. connect_answer out = answer status headers (length body) body)"
proof -
  have l: "length FORBIDDEN = 29" "length FAILED = 25" by (simp_all add: FORBIDDEN_def FAILED_def)
  have ex: "\<exists>status headers body. answer s h n b = answer status headers (length body) body" if "length b = n" for s h n b
    using that by blast
  show ?thesis
    by (cases out) (simp_all add: ex l answer_429_def answer_407_def)
qed

end
