(* ===== verification/RouteTable.thy ===== *)
theory RouteTable
  imports Store
begin

text \<open>
  The route engine (\<open>crates/core/src/route.rs\<close>): the routes of the store with an
  in-memory copy, the checks of names and target hosts, the choice of the upstream and
  the probe of a route.  The table of edge clients is given by the names it has
  (\<open>edges\<close>) and, for the probe, by what executing the request gives.
\<close>

datatype route_error =
    UnknownRoute | RouteDisabled | InvalidName | InvalidHost | InvalidUpstream | RouteDuplicate
  | RouteStore store_error

datatype upstream = Worker | Vercel | Named string

fun upstream_as_str :: "upstream \<Rightarrow> string" where
  "upstream_as_str Worker = ''worker''"
| "upstream_as_str Vercel = ''vercel''"
| "upstream_as_str (Named s) = s"

definition upstream_from_name :: "string \<Rightarrow> upstream" where
  "upstream_from_name s =
     (if s = ''worker'' then Worker else if s = ''vercel'' then Vercel else Named s)"

definition parse_upstream :: "string \<Rightarrow> upstream option" where
  "parse_upstream s = Some (upstream_from_name s)"

definition valid_override :: "string list \<Rightarrow> string \<Rightarrow> bool" where
  "valid_override edges s =
     (if s = ''worker'' \<or> s = ''vercel'' then True
      else if s = [] then False
      else s \<in> set edges)"

section \<open>Checks\<close>

definition RESERVED_NAMES :: "string list" where
  "RESERVED_NAMES =
     [''pony'', ''api'', ''admin'', ''dsk'', ''health'', ''metrics'', ''sys'', ''static'', ''proxy'',
      ''token'', ''tokens'']"

definition validate_name :: "string \<Rightarrow> route_error + unit" where
  "validate_name name =
     (if name = [] \<or> length name > 64 then Inl InvalidName
      else if starts_with ''pony_'' name \<or> name \<in> set RESERVED_NAMES then Inl InvalidName
      else if \<not> is_ascii_lower (name ! 0) then Inl InvalidName
      else if \<not> list_all (\<lambda>c. is_ascii_lower c \<or> is_ascii_digit c \<or> c = CHR ''_'' \<or> c = CHR ''-'') name
      then Inl InvalidName
      else Inr ())"

definition BLOCKED_SUFFIXES :: "string list" where
  "BLOCKED_SUFFIXES =
     [''.localhost'', ''.local'', ''.internal'', ''.localdomain'', ''.nip.io'', ''.sslip.io'']"

definition valid_label :: "string \<Rightarrow> bool" where
  "valid_label lb =
     (if lb = [] then False
      else if \<not> is_ascii_alphanumeric (lb ! 0) \<or> \<not> is_ascii_alphanumeric (lb ! (length lb - 1)) then False
      else list_all (\<lambda>c. is_ascii_lower c \<or> is_ascii_digit c \<or> c = CHR ''-'') lb)"

definition validate_host :: "string \<Rightarrow> route_error + unit" where
  "validate_host host =
     (if host = [] then Inl InvalidHost
      else
       (let lower = to_ascii_lowercase host in
        if starts_with ''http://'' lower \<or> starts_with ''https://'' lower then Inl InvalidHost
        else if CHR ''/'' \<in> set lower \<or> CHR ''?'' \<in> set lower then Inl InvalidHost
        else if CHR '':'' \<in> set lower then Inl InvalidHost
        else if length host > 253 then Inl InvalidHost
        else if \<not> list_all (\<lambda>b. is_ascii_lower b \<or> is_ascii_digit b \<or> b = CHR ''.'' \<or> b = CHR ''-'') lower
        then Inl InvalidHost
        else
         (let labels = split_on (CHR ''.'') lower in
          if length labels < 2 then Inl InvalidHost
          else
           (let tld = labels ! (length labels - 1) in
            if length tld < 2 \<or> \<not> list_all is_ascii_lower tld then Inl InvalidHost
            else if \<not> list_all valid_label (take (length labels - 1) labels) then Inl InvalidHost
            else if lower = ''localhost'' \<or> list_ex (\<lambda>s. ends_with s lower) BLOCKED_SUFFIXES
            then Inl InvalidHost
            else if lower = ''169.254.169.254'' \<or> lower = ''127.0.0.1'' then Inl InvalidHost
            else Inr ()))))"

definition build_target_url :: "string \<Rightarrow> string \<Rightarrow> string" where
  "build_target_url target_host path_query =
     (let rest = (case strip_prefix ''/'' path_query of Some r \<Rightarrow> r | None \<Rightarrow> path_query) in
      if rest = [] then ''https://'' @ target_host @ ''/''
      else ''https://'' @ target_host @ ''/'' @ rest)"

section \<open>The table\<close>

record route_table =
  rt_store :: route_rows
  rt_table :: "string \<rightharpoonup> route_row"

definition route_reload :: "fault \<Rightarrow> route_table \<Rightarrow> (route_error + unit) \<times> route_table" where
  "route_reload fault rt =
     (case list_routes fault (rt_store rt) of
        Inl e \<Rightarrow> (Inl (RouteStore e), rt)
      | Inr rows \<Rightarrow> (Inr (), rt\<lparr> rt_table := index_by rt_name rows \<rparr>))"

definition route_table_new :: "fault \<Rightarrow> route_rows \<Rightarrow> route_error + route_table" where
  "route_table_new fault store =
     (case route_reload fault \<lparr> rt_store = store, rt_table = Map.empty \<rparr> of
        (Inl e, _) \<Rightarrow> Inl e
      | (Inr _, rt) \<Rightarrow> Inr rt)"

definition pick_upstream :: "string option \<Rightarrow> upstream" where
  "pick_upstream override_upstream =
     (case override_upstream of
        Some u \<Rightarrow>
          if u \<noteq> [] then (case parse_upstream u of Some x \<Rightarrow> x | None \<Rightarrow> Worker) else Worker
      | None \<Rightarrow> Worker)"

definition resolve :: "route_table \<Rightarrow> string \<Rightarrow> string \<Rightarrow> route_error + string \<times> upstream" where
  "resolve rt name path_query =
     (case rt_table rt name of
        None \<Rightarrow> Inl UnknownRoute
      | Some row \<Rightarrow>
          if \<not> rt_enabled row then Inl RouteDisabled
          else Inr (build_target_url (rt_target_host row) path_query,
                    pick_upstream (rt_override_upstream row)))"

definition effective_upstream :: "route_table \<Rightarrow> string \<Rightarrow> upstream option" where
  "effective_upstream rt name = map_option (\<lambda>r. pick_upstream (rt_override_upstream r)) (rt_table rt name)"

definition backup_upstream :: "route_table \<Rightarrow> string \<Rightarrow> upstream option" where
  "backup_upstream rt name =
     (case rt_table rt name of
        None \<Rightarrow> None
      | Some row \<Rightarrow>
          (case rt_backup_upstream row of
             None \<Rightarrow> None
           | Some b \<Rightarrow>
               if b = [] then None
               else Some (case parse_upstream b of Some u \<Rightarrow> u | None \<Rightarrow> Worker)))"

definition create_route ::
  "string list \<Rightarrow> nat \<Rightarrow> fault \<Rightarrow> fault \<Rightarrow> new_route \<Rightarrow> route_table \<Rightarrow> (route_error + unit) \<times> route_table" where
  "create_route edges now insert_fault reload_fault r rt =
     (case validate_name (nr_name r) of
        Inl e \<Rightarrow> (Inl e, rt)
      | Inr _ \<Rightarrow> (case validate_host (nr_target_host r) of
          Inl e \<Rightarrow> (Inl e, rt)
        | Inr _ \<Rightarrow>
            if \<not> opt_all (valid_override edges) (nr_override_upstream r) then (Inl InvalidUpstream, rt)
            else if \<not> opt_all (valid_override edges) (nr_backup_upstream r) then (Inl InvalidUpstream, rt)
            else if rt_table rt (nr_name r) \<noteq> None then (Inl RouteDuplicate, rt)
            else (case insert_route insert_fault now r (rt_store rt) of
                    (Inl e, _) \<Rightarrow> (Inl (RouteStore e), rt)
                  | (Inr _, store) \<Rightarrow> route_reload reload_fault (rt\<lparr> rt_store := store \<rparr>))))"

definition update_route ::
  "string list \<Rightarrow> fault \<Rightarrow> fault \<Rightarrow> string \<Rightarrow> string option option \<Rightarrow> string option option \<Rightarrow> bool option
   \<Rightarrow> route_table \<Rightarrow> (route_error + bool) \<times> route_table" where
  "update_route edges update_fault reload_fault name over backup enabled rt =
     (if \<not> opt_all (opt_all (valid_override edges)) over then (Inl InvalidUpstream, rt)
      else if \<not> opt_all (opt_all (valid_override edges)) backup then (Inl InvalidUpstream, rt)
      else (case store_update_route update_fault name over backup enabled (rt_store rt) of
              (Inl e, _) \<Rightarrow> (Inl (RouteStore e), rt)
            | (Inr updated, store) \<Rightarrow>
                if updated then
                  (case route_reload reload_fault (rt\<lparr> rt_store := store \<rparr>) of
                     (Inl e, rt') \<Rightarrow> (Inl e, rt')
                   | (Inr _, rt') \<Rightarrow> (Inr updated, rt'))
                else (Inr updated, rt\<lparr> rt_store := store \<rparr>)))"

definition delete_route ::
  "fault \<Rightarrow> fault \<Rightarrow> string \<Rightarrow> route_table \<Rightarrow> (route_error + bool) \<times> route_table" where
  "delete_route delete_fault reload_fault name rt =
     (case store_delete_route delete_fault name (rt_store rt) of
        (Inl e, _) \<Rightarrow> (Inl (RouteStore e), rt)
      | (Inr deleted, store) \<Rightarrow>
          if deleted then
            (case route_reload reload_fault (rt\<lparr> rt_store := store \<rparr>) of
               (Inl e, rt') \<Rightarrow> (Inl e, rt')
             | (Inr _, rt') \<Rightarrow> (Inr deleted, rt'))
          else (Inr deleted, rt\<lparr> rt_store := store \<rparr>))"

text \<open>The probe: what executing a request at an edge under the ten-second limit gives,
  and the time it took.\<close>

datatype probe = ProbeResponse nat bool | ProbeFailed string | ProbeTimeout

record test_result =
  tr_ok :: bool
  tr_status :: "nat option"
  tr_latency_ms :: "nat option"
  tr_error :: "string option"

definition test_failed :: "string \<Rightarrow> test_result" where
  "test_failed msg = \<lparr> tr_ok = False, tr_status = None, tr_latency_ms = None, tr_error = Some msg \<rparr>"

text \<open>The message of an edge error is Chinese text around the status; it is given by its
  two parts.\<close>

definition test_route ::
  "string list \<Rightarrow> (string \<Rightarrow> string \<Rightarrow> probe \<times> nat) \<Rightarrow> string \<times> string \<Rightarrow> route_table \<Rightarrow> string
   \<Rightarrow> route_error + test_result" where
  "test_route edges execute edge_error_msg rt name =
     (case rt_table rt name of
        None \<Rightarrow> Inl UnknownRoute
      | Some row \<Rightarrow>
          (let u = upstream_as_str (pick_upstream (rt_override_upstream row)) in
           if u \<notin> set edges then Inr (test_failed ''upstream not configured'')
           else
             (case execute u (''https://'' @ rt_target_host row @ ''/'') of
                (ProbeResponse status marked, latency) \<Rightarrow>
                  if marked then
                    Inr \<lparr> tr_ok = True, tr_status = Some status, tr_latency_ms = Some latency,
                          tr_error = None \<rparr>
                  else
                    Inr \<lparr> tr_ok = False, tr_status = Some status, tr_latency_ms = Some latency,
                          tr_error = Some (fst edge_error_msg @ show_nat status @ snd edge_error_msg) \<rparr>
              | (ProbeFailed e, _) \<Rightarrow> Inr (test_failed (''request failed: '' @ e))
              | (ProbeTimeout, _) \<Rightarrow> Inr (test_failed ''timeout after 10s''))))"

section \<open>Histories\<close>

datatype rt_op =
    RtCreate nat fault fault new_route
  | RtUpdate fault fault string "string option option" "string option option" "bool option"
  | RtDelete fault fault string

fun rt_step :: "string list \<Rightarrow> rt_op \<Rightarrow> route_table \<Rightarrow> route_table" where
  "rt_step edges (RtCreate now f g r) rt = snd (create_route edges now f g r rt)"
| "rt_step edges (RtUpdate f g name over backup enabled) rt =
     snd (update_route edges f g name over backup enabled rt)"
| "rt_step edges (RtDelete f g name) rt = snd (delete_route f g name rt)"

fun rt_run :: "string list \<Rightarrow> rt_op list \<Rightarrow> route_table \<Rightarrow> route_table" where
  "rt_run edges [] rt = rt"
| "rt_run edges (e # es) rt = rt_run edges es (rt_step edges e rt)"

text \<open>The operation meets no fault when it reloads.\<close>

fun rt_no_reload_fault :: "rt_op \<Rightarrow> bool" where
  "rt_no_reload_fault (RtCreate _ _ g _) = (g = None)"
| "rt_no_reload_fault (RtUpdate _ g _ _ _ _) = (g = None)"
| "rt_no_reload_fault (RtDelete _ g _) = (g = None)"

section \<open>Lemmas\<close>

lemma route_reload_eq:
  "route_reload f rt =
     (case f of
        Some e \<Rightarrow> (Inl (RouteStore e), rt)
      | None \<Rightarrow> (Inr (), rt\<lparr> rt_table := index_by rt_name (sort_key rt_name (rt_store rt)) \<rparr>))"
  by (cases f) (simp_all add: route_reload_def list_routes_def)

definition row_valid :: "route_row \<Rightarrow> bool" where
  "row_valid r \<longleftrightarrow> validate_name (rt_name r) = Inr () \<and> validate_host (rt_target_host r) = Inr ()"

text \<open>Every row of the store and of its copy passed the checks, and the copy is keyed by
  the names.\<close>

definition rt_inv :: "route_table \<Rightarrow> bool" where
  "rt_inv rt \<longleftrightarrow>
     route_rows_ok (rt_store rt) \<and> list_all row_valid (rt_store rt)
     \<and> (\<forall>n r. rt_table rt n = Some r \<longrightarrow> row_valid r \<and> rt_name r = n)"

lemma rt_inv_reload:
  assumes "route_rows_ok t" "list_all row_valid t"
    "\<forall>n r. rt_table rt n = Some r \<longrightarrow> row_valid r \<and> rt_name r = n"
  shows "rt_inv (snd (route_reload f (rt\<lparr> rt_store := t \<rparr>)))"
  using assms
  by (cases f) (auto simp: rt_inv_def route_reload_eq list_all_iff dest!: index_by_Some)

lemma row_valid_insert:
  assumes "list_all row_valid t" "validate_name (nr_name r) = Inr ()" "validate_host (nr_target_host r) = Inr ()"
  shows "list_all row_valid (snd (insert_route f now r t))"
  using assms by (auto simp: insert_route_def row_valid_def split: option.splits)

lemma row_valid_update:
  assumes "list_all row_valid t"
  shows "list_all row_valid (snd (store_update_route f n a b c t))"
  using assms
  by (auto simp: store_update_route_def row_valid_def list_all_iff get_route_def update_route_row_def
      split: option.splits)

lemma row_valid_delete:
  "list_all row_valid t \<Longrightarrow> list_all row_valid (snd (store_delete_route f n t))"
  by (auto simp: store_delete_route_def list_all_iff split: option.splits)

lemma create_route_effect:
  obtains "snd (create_route edges now f g r rt) = rt"
  | "snd (create_route edges now f g r rt) =
       snd (route_reload g (rt\<lparr> rt_store := snd (insert_route f now r (rt_store rt)) \<rparr>))"
    "validate_name (nr_name r) = Inr ()" "validate_host (nr_target_host r) = Inr ()"
proof (cases "validate_name (nr_name r) = Inr () \<and> validate_host (nr_target_host r) = Inr ()
    \<and> opt_all (valid_override edges) (nr_override_upstream r)
    \<and> opt_all (valid_override edges) (nr_backup_upstream r) \<and> rt_table rt (nr_name r) = None
    \<and> fst (insert_route f now r (rt_store rt)) = Inr ()")
  case True
  then show ?thesis
    by (intro that(2)) (auto simp: create_route_def split: prod.splits)
next
  case False
  then have "snd (create_route edges now f g r rt) = rt"
    by (auto simp: create_route_def split: prod.splits sum.splits)
  then show ?thesis by (rule that(1))
qed

lemma update_route_effect:
  obtains "snd (update_route edges f g n a b c rt) = rt"
  | "snd (update_route edges f g n a b c rt) =
       snd (route_reload g (rt\<lparr> rt_store := snd (store_update_route f n a b c (rt_store rt)) \<rparr>))"
proof (cases "fst (store_update_route f n a b c (rt_store rt)) = Inr True
    \<and> opt_all (opt_all (valid_override edges)) a \<and> opt_all (opt_all (valid_override edges)) b")
  case True
  then show ?thesis
    by (intro that(2)) (auto simp: update_route_def split: prod.splits sum.splits)
next
  case False
  have "t = rt_store rt" if "store_update_route f n a b c (rt_store rt) = (Inr False, t)" for t
    using that by (auto simp: store_update_route_def list_ex_iff map_idI split: option.splits if_splits sum.splits)
  with False have "snd (update_route edges f g n a b c rt) = rt"
    by (auto simp: update_route_def split: prod.splits sum.splits)
  then show ?thesis by (rule that(1))
qed

lemma delete_route_effect:
  obtains "snd (delete_route f g n rt) = rt"
  | "snd (delete_route f g n rt) =
       snd (route_reload g (rt\<lparr> rt_store := snd (store_delete_route f n (rt_store rt)) \<rparr>))"
proof (cases "fst (store_delete_route f n (rt_store rt)) = Inr True")
  case True
  then show ?thesis
    by (intro that(2)) (auto simp: delete_route_def split: prod.splits sum.splits)
next
  case False
  have "t = rt_store rt" if "store_delete_route f n (rt_store rt) = (Inr False, t)" for t
    using that by (auto simp: store_delete_route_def list_ex_iff split: option.splits)
  with False have "snd (delete_route f g n rt) = rt"
    by (auto simp: delete_route_def split: prod.splits sum.splits)
  then show ?thesis by (rule that(1))
qed

lemma rt_step_effect:
  obtains "rt_step edges e rt = rt"
  | t g where "rt_step edges e rt = snd (route_reload g (rt\<lparr> rt_store := t \<rparr>))"
    "rt_no_reload_fault e \<Longrightarrow> g = None"
    "route_rows_ok (rt_store rt) \<Longrightarrow> route_rows_ok t"
    "list_all row_valid (rt_store rt) \<Longrightarrow> list_all row_valid t"
proof (cases e)
  case (RtCreate now f g r)
  show ?thesis
    by (cases rule: create_route_effect [of edges now f g r rt])
      (use RtCreate that route_rows_ok_insert row_valid_insert in \<open>auto 0 3\<close>)
next
  case (RtUpdate f g n a b c)
  show ?thesis
    by (cases rule: update_route_effect [of edges f g n a b c rt])
      (use RtUpdate that route_rows_ok_update row_valid_update in \<open>auto 0 3\<close>)
next
  case (RtDelete f g n)
  show ?thesis
    by (cases rule: delete_route_effect [of f g n rt])
      (use RtDelete that route_rows_ok_delete row_valid_delete in \<open>auto 0 3\<close>)
qed

lemma rt_inv_step: "rt_inv rt \<Longrightarrow> rt_inv (rt_step edges e rt)"
  by (cases rule: rt_step_effect [of edges e rt])
    (simp, metis rt_inv_reload rt_inv_def)

lemma rt_run_invariant:
  assumes "P rt" "\<And>e s. e \<in> set es \<Longrightarrow> P s \<Longrightarrow> P (rt_step edges e s)"
  shows "P (rt_run edges es rt)"
  using assms by (induction es arbitrary: rt) auto

lemma rt_inv_new:
  assumes "route_table_new f store = Inr rt" "route_rows_ok store" "list_all row_valid store"
  shows "rt_inv rt \<and> rt_store rt = store \<and> rt_table rt = index_by rt_name (sort_key rt_name store)"
proof -
  let ?r0 = "\<lparr> rt_store = store, rt_table = Map.empty \<rparr>"
  have "rt = snd (route_reload f ?r0)" "f = None"
    using assms(1) by (auto simp: route_table_new_def route_reload_eq split: option.splits)
  then show ?thesis
    using rt_inv_reload [of store ?r0 f] assms(2,3) by (simp add: route_reload_eq)
qed

lemma option_eqI: "(\<And>r. a = Some r \<longleftrightarrow> b = Some r) \<Longrightarrow> a = b"
  by (cases a; cases b) auto

text \<open>The copy is the index of the store.\<close>

definition rt_coherent :: "route_table \<Rightarrow> bool" where
  "rt_coherent rt \<longleftrightarrow>
     route_rows_ok (rt_store rt) \<and> rt_table rt = index_by rt_name (sort_key rt_name (rt_store rt))"

lemma rt_coherent_iff:
  "rt_coherent rt \<Longrightarrow> rt_table rt n = Some r \<longleftrightarrow> r \<in> set (rt_store rt) \<and> rt_name r = n"
  using rt.cached_iff [of "rt_store rt" n r] by (simp add: rt_coherent_def)

lemma rt_coherent_step:
  "rt_coherent rt \<Longrightarrow> rt_no_reload_fault e \<Longrightarrow> rt_coherent (rt_step edges e rt)"
  by (cases rule: rt_step_effect [of edges e rt])
    (simp, simp add: rt_coherent_def route_reload_eq)

definition new_row :: "nat \<Rightarrow> new_route \<Rightarrow> route_row" where
  "new_row now r = \<lparr> rt_name = nr_name r, rt_target_host = nr_target_host r, rt_upstream = None,
     rt_override_upstream = nr_override_upstream r, rt_backup_upstream = nr_backup_upstream r,
     rt_enabled = True, rt_created_at = now \<rparr>"

lemma create_route_Inr:
  assumes "create_route edges now f g r rt = (Inr (), rt')"
  shows "rt_table rt (nr_name r) = None" "validate_host (nr_target_host r) = Inr ()"
    "rt_store rt' = rt_store rt @ [new_row now r]" "\<forall>x \<in> set (rt_store rt). rt_name x \<noteq> nr_name r"
    "rt_table rt' = index_by rt_name (sort_key rt_name (rt_store rt'))"
  using assms
  by (auto simp: create_route_def insert_route_def new_row_def route_reload_eq list_ex_iff
      split: sum.splits prod.splits if_splits option.splits)

lemma store_update_route_Inr:
  assumes "store_update_route f n a b c rs = (Inr hit, t)"
  shows "hit \<longleftrightarrow> (\<exists>r \<in> set rs. rt_name r = n)"
    and "t = map (\<lambda>r. if rt_name r = n then update_route_row a b c r else r) rs"
proof -
  have none: "f = None" using assms by (cases f) (auto simp: store_update_route_def get_route_def split: if_splits)
  have "hit = (\<exists>r \<in> set rs. rt_name r = n) \<and>
    t = map (\<lambda>r. if rt_name r = n then update_route_row a b c r else r) rs"
  proof (cases "a = None \<and> b = None \<and> c = None")
    case True
    have "find (\<lambda>r. rt_name r = n) rs \<noteq> None \<longleftrightarrow> (\<exists>r \<in> set rs. rt_name r = n)"
      unfolding find_None_iff by auto
    with True none assms show ?thesis
      by (auto simp: store_update_route_def get_route_def update_route_row_def map_idI)
  next
    case False
    with none assms show ?thesis by (auto simp: store_update_route_def list_ex_iff)
  qed
  then show "hit \<longleftrightarrow> (\<exists>r \<in> set rs. rt_name r = n)"
    "t = map (\<lambda>r. if rt_name r = n then update_route_row a b c r else r) rs" by simp_all
qed

lemma update_route_Inr:
  assumes "update_route edges f g n a b c rt = (Inr hit, rt')" "rt_coherent rt"
  shows "rt_coherent rt' \<and> (hit \<longleftrightarrow> (\<exists>r \<in> set (rt_store rt). rt_name r = n))
    \<and> rt_store rt' = map (\<lambda>r. if rt_name r = n then update_route_row a b c r else r) (rt_store rt)"
proof -
  from assms(1) obtain t where st: "store_update_route f n a b c (rt_store rt) = (Inr hit, t)"
    and rt': "if hit then route_reload g (rt\<lparr> rt_store := t \<rparr>) = (Inr (), rt') else rt' = rt\<lparr> rt_store := t \<rparr>"
    by (auto simp: update_route_def split: prod.splits sum.splits if_splits)
  note hit = store_update_route_Inr(1) [OF st] and t = store_update_route_Inr(2) [OF st]
  have ok: "route_rows_ok t"
    using route_rows_ok_update [of "rt_store rt" f n a b c] st assms(2) by (simp add: rt_coherent_def)
  have "rt_coherent rt' \<and> rt_store rt' = t"
  proof (cases hit)
    case True
    with rt' ok show ?thesis
      by (auto simp: rt_coherent_def route_reload_eq split: option.splits)
  next
    case False
    with hit t have "t = rt_store rt" by (auto intro!: map_idI)
    with False rt' assms(2) show ?thesis by simp
  qed
  with hit t show ?thesis by simp
qed

lemma delete_route_Inr:
  assumes "delete_route f g n rt = (Inr hit, rt')" "rt_coherent rt"
  shows "rt_coherent rt' \<and> (hit \<longleftrightarrow> (\<exists>r \<in> set (rt_store rt). rt_name r = n))
    \<and> rt_store rt' = filter (\<lambda>r. rt_name r \<noteq> n) (rt_store rt)"
proof -
  from assms(1) obtain t where st: "store_delete_route f n (rt_store rt) = (Inr hit, t)"
    and rt': "if hit then route_reload g (rt\<lparr> rt_store := t \<rparr>) = (Inr (), rt') else rt' = rt\<lparr> rt_store := t \<rparr>"
    by (auto simp: delete_route_def split: prod.splits sum.splits if_splits)
  have hit: "hit \<longleftrightarrow> (\<exists>r \<in> set (rt_store rt). rt_name r = n)"
    and t: "t = filter (\<lambda>r. rt_name r \<noteq> n) (rt_store rt)"
    using st by (auto simp: store_delete_route_def list_ex_iff split: option.splits)
  have ok: "route_rows_ok t"
    using route_rows_ok_delete [of "rt_store rt" f n] st assms(2) by (simp add: rt_coherent_def)
  have "rt_coherent rt' \<and> rt_store rt' = t"
  proof (cases hit)
    case True
    with rt' ok show ?thesis
      by (auto simp: rt_coherent_def route_reload_eq split: option.splits)
  next
    case False
    with hit t have "t = rt_store rt" by (auto intro!: filter_True)
    with False rt' assms(2) show ?thesis by simp
  qed
  with hit t show ?thesis by simp
qed

lemma rt_coherent_dom:
  "rt_coherent rt \<Longrightarrow> n \<in> dom (rt_table rt) \<longleftrightarrow> (\<exists>r \<in> set (rt_store rt). rt_name r = n)"
  using rt_coherent_iff [of rt n] by (auto simp: dom_def)

lemma create_route_table:
  assumes c: "create_route edges now f g r rt = (Inr (), rt')" and coh: "rt_coherent rt"
  shows "rt_coherent rt' \<and> nr_name r \<notin> dom (rt_table rt)
    \<and> rt_table rt' = (rt_table rt)(nr_name r \<mapsto> new_row now r)"
proof -
  note c' = create_route_Inr [OF c]
  have coh': "rt_coherent rt'"
    using c'(3-5) coh by (auto simp: rt_coherent_def route_rows_ok_def new_row_def)
  have "rt_table rt' = (rt_table rt)(nr_name r \<mapsto> new_row now r)"
  proof (rule ext, rule option_eqI)
    fix m x show "rt_table rt' m = Some x \<longleftrightarrow> ((rt_table rt)(nr_name r \<mapsto> new_row now r)) m = Some x"
      using rt_coherent_iff [OF coh', of m x] rt_coherent_iff [OF coh, of m x] c'(3,4)
      by (auto simp: new_row_def)
  qed
  with coh' c'(1) show ?thesis by auto
qed

lemma update_route_table:
  assumes u: "update_route edges f g n over backup enabled rt = (Inr hit, rt')" and coh: "rt_coherent rt"
  shows "rt_table rt' = (rt_table rt)(n := map_option (update_route_row over backup enabled) (rt_table rt n))"
proof (rule ext, rule option_eqI)
  fix m x
  let ?u = "update_route_row over backup enabled"
  note u' = update_route_Inr [OF u coh]
  have set': "set (rt_store rt') = (\<lambda>r. if rt_name r = n then ?u r else r) ` set (rt_store rt)"
    using u' by simp
  have "rt_table rt' m = Some x \<longleftrightarrow> x \<in> set (rt_store rt') \<and> rt_name x = m"
    using rt_coherent_iff u' by blast
  also have "\<dots> \<longleftrightarrow> (\<exists>y. rt_table rt m = Some y \<and> x = (if m = n then ?u y else y))"
    unfolding rt_coherent_iff [OF coh] set' by auto
  also have "\<dots> \<longleftrightarrow> ((rt_table rt)(n := map_option ?u (rt_table rt n))) m = Some x"
    by (cases "m = n") auto
  finally show "rt_table rt' m = Some x \<longleftrightarrow> ((rt_table rt)(n := map_option ?u (rt_table rt n))) m = Some x" .
qed

lemma delete_route_table:
  assumes d: "delete_route f g n rt = (Inr hit, rt')" and coh: "rt_coherent rt"
  shows "rt_table rt' = (rt_table rt)(n := None)"
proof (rule ext, rule option_eqI)
  fix m x show "rt_table rt' m = Some x \<longleftrightarrow> ((rt_table rt)(n := None)) m = Some x"
    using rt_coherent_iff [of rt' m x] rt_coherent_iff [OF coh, of m x] delete_route_Inr [OF d coh] by auto
qed

section \<open>Properties\<close>




definition demo_rt :: route_table where
  "demo_rt = \<lparr> rt_store = [], rt_table = Map.empty \<rparr>"

definition demo_route :: new_route where
  "demo_route = \<lparr> nr_name = ''openai'', nr_target_host = ''api.openai.com'',
     nr_override_upstream = Some ''vercel'', nr_backup_upstream = None \<rparr>"


end
