(* ===== verification/Edge.thy ===== *)
theory Edge
  imports Http
begin

text \<open>
  The client of the edge workers (\<open>crates/core/src/edge.rs\<close>): the headers it passes on, the
  request it makes of one to be forwarded, and the attempts with their pauses.  The URL
  library and the HTTP client are parameters.
\<close>

section \<open>Definitions\<close>

definition HOP_BY_HOP :: "string list" where
  "HOP_BY_HOP = [''host'', ''connection'', ''keep-alive'', ''proxy-authenticate'', ''proxy-authorization'', ''te'',
     ''trailer'', ''transfer-encoding'', ''upgrade'', ''content-length'', ''x-proxy-secret'']"

record edge_client =
  ec_worker_url :: string
  ec_secret :: string

definition edge_client_new :: "bool \<Rightarrow> string \<Rightarrow> string \<Rightarrow> edge_client option" where
  "edge_client_new built worker_url secret =
     (if built then Some \<lparr> ec_worker_url = trim_end_matches (CHR ''/'') worker_url, ec_secret = secret \<rparr> else None)"

record forward_request =
  fr_method :: string
  fr_target_url :: string
  fr_headers :: headers
  fr_body :: "string option"

definition sanitize_headers :: "headers \<Rightarrow> headers" where
  "sanitize_headers hs = copy_headers (\<lambda>name. name \<notin> set HOP_BY_HOP) hs"

text \<open>What the HTTP client is asked to send.\<close>

record edge_request =
  er_method :: string
  er_url :: string
  er_headers :: headers
  er_body :: "string option"

text \<open>The answer of an edge, its body as the chunks that arrive (or the error that ends it), and
  how sending ends: an answer, an error (with whether it was met before anything was sent), or
  no answer within 120 seconds.\<close>

record edge_response =
  es_status :: nat
  es_headers :: headers
  es_chunks :: "(string + string) list"

datatype send_result = SendOk edge_response | SendErr bool string | SendTimeout

record edge_world =
  ew_url :: "string \<Rightarrow> string \<Rightarrow> string option"
  ew_send :: "nat \<Rightarrow> edge_request \<Rightarrow> send_result"
  ew_rnd :: "nat \<Rightarrow> nat"

text \<open>\<open>RequestBuilder::headers\<close> replaces the values of the names it is given.\<close>

definition replace_headers :: "headers \<Rightarrow> headers \<Rightarrow> headers" where
  "replace_headers dst src = filter (\<lambda>(k, _). \<not> contains_key k src) dst @ src"

definition edge_prepare :: "edge_client \<Rightarrow> forward_request \<Rightarrow> string \<Rightarrow> edge_request" where
  "edge_prepare C req url =
     \<lparr> er_method = fr_method req, er_url = url,
       er_headers = replace_headers [(''x-proxy-secret'', ec_secret C)] (fr_headers req),
       er_body = fr_body req \<rparr>"

definition retryable_method :: "forward_request \<Rightarrow> bool" where
  "retryable_method req \<longleftrightarrow>
     fr_method req \<in> {''GET'', ''HEAD'', ''OPTIONS''}
     \<or> contains_key ''idempotency-key'' (fr_headers req) \<or> contains_key ''x-idempotency-key'' (fr_headers req)
     \<or> contains_key ''idempotency_key'' (fr_headers req) \<or> contains_key ''x-idempotency_key'' (fr_headers req)"

definition edge_backoff :: "nat \<Rightarrow> nat \<Rightarrow> nat" where
  "edge_backoff attempt r = 50 * 2 ^ attempt + r mod 50"

datatype edge_error = InvalidWorkerUrl | EdgeFailed string | EdgeTimeout

text \<open>May an attempt that ended so be repeated?\<close>

fun transient :: "bool \<Rightarrow> send_result \<Rightarrow> bool" where
  "transient retryable (SendOk resp) = (retryable \<and> es_status resp \<in> {502, 503, 504})"
| "transient retryable (SendErr is_connect e) = (is_connect \<or> retryable)"
| "transient retryable SendTimeout = False"

fun send_value :: "send_result \<Rightarrow> edge_error + edge_response" where
  "send_value (SendOk resp) = Inr resp"
| "send_value (SendErr _ e) = Inl (EdgeFailed e)"
| "send_value SendTimeout = Inl EdgeTimeout"

text \<open>The loop; \<open>made\<close> attempts have been made.  Besides the result it gives what was sent, with
  how that ended, and the pauses in milliseconds.\<close>

function edge_loop ::
  "edge_world \<Rightarrow> edge_client \<Rightarrow> forward_request \<Rightarrow> nat \<Rightarrow> nat
   \<Rightarrow> (edge_error + edge_response) \<times> (edge_request \<times> send_result) list \<times> nat list" where
  "edge_loop W C req max_attempts made =
     (let attempt = made + 1 in
      (case ew_url W (ec_worker_url C) (fr_target_url req) of
        None \<Rightarrow> (Inl InvalidWorkerUrl, [], [])
      | Some url \<Rightarrow>
          (let q = edge_prepare C req url; out = ew_send W attempt q in
           if transient (retryable_method req) out \<and> attempt < max_attempts
           then (case edge_loop W C req max_attempts attempt of
                   (r, sends, pauses) \<Rightarrow> (r, (q, out) # sends, edge_backoff attempt (ew_rnd W attempt) # pauses))
           else (send_value out, [(q, out)], []))))"
  by pat_completeness auto
termination by (relation "measure (\<lambda>(W, C, req, m, made). m - made)") auto

declare edge_loop.simps [simp del]

definition execute_with_attempts ::
  "edge_world \<Rightarrow> edge_client \<Rightarrow> forward_request \<Rightarrow> nat
   \<Rightarrow> (edge_error + edge_response) \<times> (edge_request \<times> send_result) list \<times> nat list" where
  "execute_with_attempts W C req max_attempts = edge_loop W C req max_attempts 0"

definition execute ::
  "edge_world \<Rightarrow> edge_client \<Rightarrow> forward_request
   \<Rightarrow> (edge_error + edge_response) \<times> (edge_request \<times> send_result) list \<times> nat list" where
  "execute W C req = execute_with_attempts W C req 5"

section \<open>The interface to the gateways\<close>

text \<open>What a gateway relies on: a bounded number of sends, each of them the prepared request of
  that edge, and of a request that may not be repeated at most one that could have reached it.\<close>

locale edge_service =
  fixes exec :: "'w \<Rightarrow> 'edge \<Rightarrow> 'req \<Rightarrow> nat \<Rightarrow> 'res \<times> ('sent \<times> 'out) list \<times> nat list"
    and prepared :: "'w \<Rightarrow> 'edge \<Rightarrow> 'req \<Rightarrow> 'sent \<Rightarrow> bool"
    and undelivered :: "'out \<Rightarrow> bool"
    and repeatable :: "'req \<Rightarrow> bool"
  assumes exec_count: "exec w e r n = (res, sends, ps) \<Longrightarrow> length sends \<le> max 1 n"
    and exec_prepared: "exec w e r n = (res, sends, ps) \<Longrightarrow> x \<in> set sends \<Longrightarrow> prepared w e r (fst x)"
    and exec_once: "exec w e r n = (res, sends, ps) \<Longrightarrow> \<not> repeatable r \<Longrightarrow> x \<in> set (butlast sends) \<Longrightarrow> undelivered (snd x)"
begin

lemma delivered_le_1:
  assumes "exec w e r n = (res, sends, ps)" "\<not> repeatable r"
  shows "length (filter (\<lambda>x. \<not> undelivered (snd x)) sends) \<le> 1"
proof (cases sends rule: rev_cases)
  case (snoc xs x)
  have "filter (\<lambda>x. \<not> undelivered (snd x)) xs = []"
    using exec_once [OF assms] snoc by (auto simp: filter_empty_conv)
  then show ?thesis by (simp add: snoc)
qed simp

text \<open>A second edge is tried after the first.\<close>

lemma failover_count:
  assumes "exec w e r n = (res, sends, ps)" "exec w' e' r m = (res', sends', ps')"
  shows "length (sends @ sends') \<le> max 1 n + max 1 m"
    and "x \<in> set (sends @ sends') \<Longrightarrow> prepared w e r (fst x) \<or> prepared w' e' r (fst x)"
    and "\<not> repeatable r \<Longrightarrow> length (filter (\<lambda>x. \<not> undelivered (snd x)) (sends @ sends')) \<le> 2"
proof -
  show "length (sends @ sends') \<le> max 1 n + max 1 m"
    using exec_count [OF assms(1)] exec_count [OF assms(2)] by simp
  show "x \<in> set (sends @ sends') \<Longrightarrow> prepared w e r (fst x) \<or> prepared w' e' r (fst x)"
    using exec_prepared [OF assms(1), of x] exec_prepared [OF assms(2), of x] by auto
  show "\<not> repeatable r \<Longrightarrow> length (filter (\<lambda>x. \<not> undelivered (snd x)) (sends @ sends')) \<le> 2"
    using delivered_le_1 [OF assms(1)] delivered_le_1 [OF assms(2)] by simp
qed

end

section \<open>Lemmas\<close>

lemma sanitize_headers_mem:
  "(k, v) \<in> set (sanitize_headers hs) \<longleftrightarrow> to_ascii_lowercase k \<notin> set HOP_BY_HOP \<and> last_value hs k = Some v"
  by (simp add: sanitize_headers_def copy_headers_mem)

definition edge_prepared :: "edge_world \<Rightarrow> edge_client \<Rightarrow> forward_request \<Rightarrow> edge_request \<Rightarrow> bool" where
  "edge_prepared W C req q \<longleftrightarrow>
     (\<exists>url. ew_url W (ec_worker_url C) (fr_target_url req) = Some url \<and> q = edge_prepare C req url)"

fun before_sending :: "send_result \<Rightarrow> bool" where
  "before_sending (SendErr is_connect e) = is_connect"
| "before_sending _ = False"

text \<open>The history of a request: every attempt but the last ended so that it may be repeated, and
  the last one gives the result and was not to be repeated, unless it used up the budget.\<close>

definition edge_history ::
  "edge_world \<Rightarrow> edge_client \<Rightarrow> forward_request \<Rightarrow> nat \<Rightarrow> nat
   \<Rightarrow> (edge_error + edge_response) \<times> (edge_request \<times> send_result) list \<times> nat list \<Rightarrow> bool" where
  "edge_history W C req m made h \<longleftrightarrow>
     (case h of (r, sends, pauses) \<Rightarrow>
        (case ew_url W (ec_worker_url C) (fr_target_url req) of
          None \<Rightarrow> r = Inl InvalidWorkerUrl \<and> sends = [] \<and> pauses = []
        | Some url \<Rightarrow>
            sends = map (\<lambda>i. (edge_prepare C req url, ew_send W i (edge_prepare C req url)))
                      [made + 1..<made + 1 + length sends]
            \<and> sends \<noteq> [] \<and> made + length sends \<le> max m (made + 1)
            \<and> list_all (\<lambda>x. transient (retryable_method req) (snd x)) (butlast sends)
            \<and> r = send_value (snd (last sends))
            \<and> (transient (retryable_method req) (snd (last sends)) \<longrightarrow> m \<le> made + length sends)
            \<and> pauses = map (\<lambda>i. edge_backoff i (ew_rnd W i)) [made + 1..<made + length sends]))"

lemma edge_loop_history: "edge_history W C req m made (edge_loop W C req m made)"
proof (induction W C req m made rule: edge_loop.induct)
  case (1 W C req m made)
  show ?case
  proof (cases "ew_url W (ec_worker_url C) (fr_target_url req)")
    case None
    then show ?thesis by (subst edge_loop.simps) (simp add: edge_history_def)
  next
    case (Some url)
    let ?q = "edge_prepare C req url"
    let ?out = "ew_send W (made + 1) ?q"
    show ?thesis
    proof (cases "transient (retryable_method req) ?out \<and> made + 1 < m")
      case False
      with Some show ?thesis by (subst edge_loop.simps) (auto simp: edge_history_def Let_def)
    next
      case True
      obtain r sends pauses where l: "edge_loop W C req m (made + 1) = (r, sends, pauses)" by (metis prod_cases3)
      have "edge_history W C req m (made + 1) (r, sends, pauses)"
        using "1.IH" [OF refl Some refl refl True] l by simp
      then have ih: "sends = map (\<lambda>i. (?q, ew_send W i ?q)) [made + 2..<made + 2 + length sends]"
        "sends \<noteq> []" "made + 1 + length sends \<le> m"
        "list_all (\<lambda>x. transient (retryable_method req) (snd x)) (butlast sends)" "r = send_value (snd (last sends))"
        "transient (retryable_method req) (snd (last sends)) \<longrightarrow> m \<le> made + 1 + length sends"
        "pauses = map (\<lambda>i. edge_backoff i (ew_rnd W i)) [made + 2..<made + 1 + length sends]"
        using Some True by (auto simp: edge_history_def)
      have up: "[made + 1..<made + 1 + Suc n] = (made + 1) # [made + 2..<made + 2 + n]" for n
        by (simp add: upt_conv_Cons)
      have e: "edge_loop W C req m made
          = (r, (?q, ?out) # sends, edge_backoff (made + 1) (ew_rnd W (made + 1)) # pauses)"
        using Some True l by (subst edge_loop.simps) (simp add: Let_def)
      have "(?q, ?out) # sends = map (\<lambda>i. (?q, ew_send W i ?q)) [made + 1..<made + 1 + Suc (length sends)]"
        unfolding up list.map using ih(1) by simp
      moreover have "[made + 1..<made + 1 + length sends] = (made + 1) # [made + 2..<made + 1 + length sends]"
        using ih(2) by (subst upt_conv_Cons) simp_all
      ultimately show ?thesis
        using Some True ih(2-7) unfolding e edge_history_def by simp
    qed
  qed
qed

lemma execute_history: "edge_history W C req m 0 (execute_with_attempts W C req m)"
  unfolding execute_with_attempts_def by (rule edge_loop_history)

lemma transient_once: "transient False out \<Longrightarrow> before_sending out"
  by (cases out) auto

interpretation edge: edge_service execute_with_attempts edge_prepared before_sending retryable_method
proof
  fix W C req n res sends ps x
  assume e: "execute_with_attempts W C req n = (res, sends, ps)"
  note h = execute_history [of W C req n, unfolded e edge_history_def]
  show "length sends \<le> max 1 n" using h by (auto split: option.splits)
  show "edge_prepared W C req (fst x)" if "x \<in> set sends"
  proof (cases "ew_url W (ec_worker_url C) (fr_target_url req)")
    case None
    with h that show ?thesis by simp
  next
    case (Some url)
    with h have "sends = map (\<lambda>i. (edge_prepare C req url, ew_send W i (edge_prepare C req url))) [0 + 1..<0 + 1 + length sends]"
      by simp
    with that have "fst x = edge_prepare C req url" by (metis (no_types, lifting) fst_conv imageE list.set_map)
    with Some show ?thesis by (auto simp: edge_prepared_def)
  qed
  show "before_sending (snd x)" if "\<not> retryable_method req" "x \<in> set (butlast sends)"
    using h that by (auto simp: list_all_iff intro: transient_once split: option.splits)
qed

lemma filter_key_absent: "\<not> contains_key name hs \<Longrightarrow> filter (\<lambda>(k, _). k = name) hs = []"
  by (auto simp: contains_key_iff filter_empty_conv image_iff)

lemma prepared_secret:
  assumes "\<not> contains_key ''x-proxy-secret'' (fr_headers req)" "edge_prepared W C req q"
  shows "filter (\<lambda>(k, _). k = ''x-proxy-secret'') (er_headers q) = [(''x-proxy-secret'', ec_secret C)]"
  using assms filter_key_absent [OF assms(1)]
  by (auto simp: edge_prepared_def edge_prepare_def replace_headers_def)

lemma sanitize_headers_key:
  "contains_key k (sanitize_headers hs) \<longleftrightarrow> to_ascii_lowercase k \<notin> set HOP_BY_HOP \<and> contains_key k hs"
  by (simp add: contains_key_iff sanitize_headers_def copy_headers_key)

lemma sanitized_no_secret: "\<not> contains_key ''x-proxy-secret'' (sanitize_headers hs)"
proof -
  have "to_ascii_lowercase ''x-proxy-secret'' \<in> set HOP_BY_HOP" by code_simp
  then show ?thesis by (simp add: sanitize_headers_key)
qed

text \<open>An answered request that may not be repeated was delivered once.\<close>

lemma answered_once:
  assumes "execute_with_attempts W C req m = (Inr r, sends, ps)" "\<not> retryable_method req"
  shows "length (filter (\<lambda>x. \<not> before_sending (snd x)) sends) = 1"
proof -
  have "sends \<noteq> []" "Inr r = send_value (snd (last sends))"
    using execute_history [of W C req m] assms(1) by (auto simp: edge_history_def split: option.splits)
  then have "last sends \<in> set (filter (\<lambda>x. \<not> before_sending (snd x)) sends)"
    by (cases "snd (last sends)") auto
  with edge.delivered_le_1 [OF assms] show ?thesis
    by (metis One_nat_def le_SucE le_zero_eq length_0_conv list.set(1) empty_iff)
qed

section \<open>Properties\<close>

text \<open>C25: a request that may not be repeated (not GET, HEAD or OPTIONS, and without an idempotency
  key) reaches the edge at most once, within the budget of attempts; the last attempt gives
  the result, and each carries the configured secret once and no other, whatever the client
  sent.\<close>

theorem edge_at_most_once:
  assumes "execute_with_attempts W C req m = (r, sends, pauses)"
    and "fr_headers req = sanitize_headers hs" "\<not> retryable_method req"
  shows "length (filter (\<lambda>x. \<not> before_sending (snd x)) sends) \<le> 1 \<and> length sends \<le> max 1 m
    \<and> (\<forall>x \<in> set sends. filter (\<lambda>(k, _). k = ''x-proxy-secret'') (er_headers (fst x)) = [(''x-proxy-secret'', ec_secret C)])
    \<and> (if ew_url W (ec_worker_url C) (fr_target_url req) = None then r = Inl InvalidWorkerUrl
       else sends \<noteq> [] \<and> r = send_value (snd (last sends)))"
proof (intro conjI ballI)
  show "length (filter (\<lambda>x. \<not> before_sending (snd x)) sends) \<le> 1" by (rule edge.delivered_le_1 [OF assms(1,3)])
  show "length sends \<le> max 1 m" by (rule edge.exec_count [OF assms(1)])
  show "filter (\<lambda>(k, _). k = ''x-proxy-secret'') (er_headers (fst x)) = [(''x-proxy-secret'', ec_secret C)]" if "x \<in> set sends" for x
    using prepared_secret [OF _ edge.exec_prepared [OF assms(1) that]] sanitized_no_secret assms(2) by simp
  show "if ew_url W (ec_worker_url C) (fr_target_url req) = None then r = Inl InvalidWorkerUrl
     else sends \<noteq> [] \<and> r = send_value (snd (last sends))"
    using execute_history [of W C req m] assms(1) by (auto simp: edge_history_def split: option.splits)
qed

definition demo_edge :: edge_client where
  "demo_edge = \<lparr> ec_worker_url = ''https://e.io'', ec_secret = ''s3'' \<rparr>"

text \<open>An edge that cannot be reached at first and then answers 502.\<close>

definition demo_edge_world :: edge_world where
  "demo_edge_world = \<lparr> ew_url = (\<lambda>w t. Some (w @ ''?url='' @ t)),
     ew_send = (\<lambda>n q. if n = 1 then SendErr True ''refused''
                      else SendOk \<lparr> es_status = 502, es_headers = [], es_chunks = [] \<rparr>),
     ew_rnd = (\<lambda>_. 0) \<rparr>"

definition demo_post :: forward_request where
  "demo_post = \<lparr> fr_method = ''POST'', fr_target_url = ''https://api.io/v1'',
     fr_headers = sanitize_headers [(''accept'', ''*/*''), (''x-proxy-secret'', ''guess'')], fr_body = Some ''hi'' \<rparr>"

theorem edge_at_most_once_witness:
  "case execute_with_attempts demo_edge_world demo_edge demo_post 5 of
     (r, sends, pauses) \<Rightarrow> length (filter (\<lambda>x. \<not> before_sending (snd x)) sends) \<le> 1 \<and> length sends = 2"
proof -
  have n: "\<not> retryable_method demo_post" "fr_headers demo_post = sanitize_headers [(''accept'', ''*/*''), (''x-proxy-secret'', ''guess'')]"
    by code_simp+
  have l: "length (fst (snd (execute_with_attempts demo_edge_world demo_edge demo_post 5))) = 2" by code_simp
  obtain r sends pauses where e: "execute_with_attempts demo_edge_world demo_edge demo_post 5 = (r, sends, pauses)"
    by (metis prod_cases3)
  from edge_at_most_once [OF e n(2,1)] l show ?thesis by (simp add: e)
qed

end
