(* ===== verification/Gateway.thy ===== *)
theory Gateway
  imports TunnelConnect RouteTable Usage Edge
begin

text \<open>
  The data plane of the server (\<open>crates/server/src/gateway.rs\<close>): the accept loop with its
  limit on connections, the first bytes of a connection, authentication of a request by a
  path or header token, and the handler that forwards it to an edge, with the backup edge and
  the usage counts.  The files of \<open>crates/server/src/dsk.rs\<close> and the tunnel settings of
  \<open>crates/server/src/tunnel.rs\<close> are here too.
\<close>

section \<open>The limit on connections\<close>

definition MAX_CONCURRENT_CONNECTIONS :: nat where
  [const_defs]: "MAX_CONCURRENT_CONNECTIONS = 256"

definition max_connections_from_env :: "string option \<Rightarrow> nat" where
  "max_connections_from_env raw =
     (case raw of
        Some t \<Rightarrow> (case parse_uint 10 u64_max (trim_str t) of
                     Some v \<Rightarrow> if v > 0 then v else MAX_CONCURRENT_CONNECTIONS
                   | None \<Rightarrow> MAX_CONCURRENT_CONNECTIONS)
      | None \<Rightarrow> MAX_CONCURRENT_CONNECTIONS)"

text \<open>The accept loop: the free permits, the connections being served, the counter behind the
  connection ids and the connections turned away.\<close>

record acceptor =
  ap_cap :: nat
  ap_free :: nat
  ap_seq :: nat
  ap_active :: "nat list"
  ap_rejected :: "nat list"

definition acceptor_new :: "string option \<Rightarrow> acceptor" where
  "acceptor_new raw =
     (let cap = max_connections_from_env raw
      in \<lparr> ap_cap = cap, ap_free = cap, ap_seq = 0, ap_active = [], ap_rejected = [] \<rparr>)"

definition accept_conn :: "acceptor \<Rightarrow> acceptor" where
  "accept_conn a =
     (let conn = ap_seq a + 1; a = a\<lparr> ap_seq := conn \<rparr> in
      if ap_free a > 0 then a\<lparr> ap_free := ap_free a - 1, ap_active := conn # ap_active a \<rparr>
      else a\<lparr> ap_rejected := conn # ap_rejected a \<rparr>)"

definition end_conn :: "nat \<Rightarrow> acceptor \<Rightarrow> acceptor" where
  "end_conn conn a = a\<lparr> ap_free := ap_free a + 1, ap_active := remove1 conn (ap_active a) \<rparr>"

inductive accept_step :: "acceptor \<Rightarrow> acceptor \<Rightarrow> bool" where
  accept: "accept_step a (accept_conn a)"
| finish: "conn \<in> set (ap_active a) \<Longrightarrow> accept_step a (end_conn conn a)"

inductive_cases accept_stepE: "accept_step a b"

definition saturation_answer :: string where
  "saturation_answer =
     ''HTTP/1.1 503 Service Unavailable'' @ map char_of [13, 10 :: nat] @ ''connection: close'' @ map char_of [13, 10 :: nat]
     @ ''x-pproxy-reason: saturation'' @ map char_of [13, 10 :: nat] @ ''content-length: 0'' @ CRLF2"

section \<open>The first bytes of a connection\<close>

definition is_connect_method :: "string \<Rightarrow> bool" where
  "is_connect_method first \<longleftrightarrow> length first \<ge> 7 \<and> eq_ignore_ascii_case (take 7 first) ''CONNECT''"

text \<open>The bytes up to the empty line, or the first more than 16 KiB; a connection that ends,
  fails or takes more than thirty seconds before that is dropped.\<close>

fun collect_head :: "string \<Rightarrow> read_event list \<Rightarrow> string option" where
  "collect_head buf (Bytes chunk # evs) =
     (if chunk = [] then None
      else (let buf' = buf @ chunk in
            if contains_str CRLF2 buf' \<or> length buf' > 16 * 1024 then Some buf' else collect_head buf' evs))"
| "collect_head buf _ = None"

definition split_connect_head :: "string \<Rightarrow> string \<times> string" where
  "split_connect_head buf =
     (case find_sub CRLF2 buf of
        Some pos \<Rightarrow> (take (pos + 4) buf, drop (pos + 4) buf)
      | None \<Rightarrow> (buf, []))"

datatype conn_result = ConnDropped | ConnConnect connect_outcome "nat list" | ConnHttp

text \<open>\<open>peeked\<close> is what \<open>peek\<close> sees of at most sixteen bytes, if anything within thirty
  seconds.\<close>

definition handle_conn ::
  "crypto \<Rightarrow> gk_config \<Rightarrow> tunnel_env \<Rightarrow> connect_world \<Rightarrow> ip_addr \<Rightarrow> string option \<Rightarrow> read_event list \<Rightarrow> connect_state
   \<Rightarrow> conn_result \<times> connect_state" where
  "handle_conn K gcfg env W peer peeked evs st =
     (case peeked of
        None \<Rightarrow> (ConnDropped, st)
      | Some first \<Rightarrow>
          if first = [] then (ConnDropped, st)
          else if is_connect_method first then
            (case collect_head [] evs of
               None \<Rightarrow> (ConnDropped, st)
             | Some buf \<Rightarrow>
                 (case split_connect_head buf of
                    (head_bytes, leftover) \<Rightarrow>
                      (case handle_connect_raw K gcfg env W peer (from_utf8_lossy head_bytes) leftover st of
                         (out, sleeps, st') \<Rightarrow> (ConnConnect out sleeps, st'))))
          else (ConnHttp, st))"

section \<open>Requests and answers\<close>

text \<open>A request as the handlers see it; the body is absent when it cannot be read.\<close>

record gw_request =
  gq_scheme :: "string option"
  gq_authority :: "string option"
  gq_path :: string
  gq_query :: "string option"
  gq_method :: string
  gq_headers :: headers
  gq_body :: "string option"

definition json_response :: "nat \<Rightarrow> string \<Rightarrow> http_response" where
  "json_response st body = \<lparr> rs_status = st, rs_headers = [(''content-type'', ''application/json'')], rs_body = body \<rparr>"

definition text_response :: "nat \<Rightarrow> string \<Rightarrow> http_response" where
  "text_response st body = \<lparr> rs_status = st, rs_headers = [(''content-type'', ''text/plain; charset=utf-8'')], rs_body = body \<rparr>"

definition unauthorized :: http_response where
  \<open>unauthorized = json_response 401 ''{"error":"unauthorized"}''\<close>

definition not_found :: http_response where
  \<open>not_found = text_response 404 ''{"error":"unknown_route"}''\<close>

definition body_too_large :: http_response where
  \<open>body_too_large = text_response 413 ''{"error":"body_too_large"}''\<close>

definition upstream_error :: http_response where
  \<open>upstream_error = text_response 502 ''{"error":"upstream_error"}''\<close>

definition forward_proxy_unsupported :: "gw_request \<Rightarrow> http_response" where
  \<open>forward_proxy_unsupported req =
     json_response 501
       (''{"error":"forward_proxy_unsupported","message":"plain-HTTP forward proxying is not implemented; this listener only tunnels CONNECT (443). Add the target host to no_proxy instead of routing it here.","target":"''
        @ (case gq_authority req of Some a \<Rightarrow> a | None \<Rightarrow> []) @ ''"}'')\<close>

section \<open>Authentication\<close>

definition X_PONY_TOKEN :: string where
  "X_PONY_TOKEN = ''x-pony-token''"

record auth_context =
  ax_token_id :: int
  ax_route :: string
  ax_path_query :: string

definition split_first_segment :: "string \<Rightarrow> string \<times> string" where
  "split_first_segment s = (case split_once (CHR ''/'') s of Some p \<Rightarrow> p | None \<Rightarrow> (s, []))"

definition query_suffix :: "gw_request \<Rightarrow> string" where
  "query_suffix req = (case gq_query req of Some q \<Rightarrow> ''?'' @ q | None \<Rightarrow> [])"

definition without_slash :: "string \<Rightarrow> string" where
  "without_slash path = (case strip_prefix ''/'' path of Some r \<Rightarrow> r | None \<Rightarrow> path)"

text \<open>The token and the path that follows it: the first segment when it looks like a token, the
  header otherwise.\<close>

definition presented_token :: "gw_request \<Rightarrow> (string \<times> string) option" where
  "presented_token req =
     (let rest = without_slash (gq_path req); (first_seg, remaining) = split_first_segment rest in
      if starts_with TOKEN_PREFIX first_seg then Some (first_seg, remaining)
      else (case header_str X_PONY_TOKEN (gq_headers req) of
              Some t \<Rightarrow> if t \<noteq> [] then Some (t, rest) else None
            | None \<Rightarrow> None))"

definition token_checked :: "touch_job \<Rightarrow> token_svc \<Rightarrow> services \<Rightarrow> services" where
  "token_checked job tokens s =
     s\<lparr> sv_tokens := tokens, sv_token_jobs := sv_token_jobs s @ (case job of None \<Rightarrow> [] | Some j \<Rightarrow> [j]) \<rparr>"

datatype 'c middleware = Answer http_response | Next "'c option" gw_request

definition is_public_path :: "string \<Rightarrow> bool" where
  "is_public_path path \<longleftrightarrow> path = ''/'' \<or> path = ''/clash'' \<or> path = ''/clash.yaml'' \<or> starts_with ''/dsk/'' path"

definition auth_middleware :: "crypto \<Rightarrow> nat \<Rightarrow> gw_request \<Rightarrow> services \<Rightarrow> auth_context middleware \<times> services" where
  "auth_middleware K now req s =
     (if gq_scheme req \<noteq> None \<or> gq_authority req \<noteq> None then (Answer (forward_proxy_unsupported req), s)
      else if is_public_path (gq_path req) then (Next None req, s)
      else (case presented_token req of
        None \<Rightarrow> (Answer unauthorized, s)
      | Some (token_plaintext, route_path) \<Rightarrow>
          if route_path = [] then (Answer unauthorized, s)
          else (case split_first_segment route_path of
            (route_name, rest_path) \<Rightarrow>
              if route_name = [] then (Answer unauthorized, s)
              else (case verify K now token_plaintext (sv_tokens s) of
                (Inl _, job, tokens) \<Rightarrow> (Answer unauthorized, token_checked job tokens s)
              | (Inr row, job, tokens) \<Rightarrow>
                  (Next (Some \<lparr> ax_token_id = tk_id row, ax_route = route_name,
                                ax_path_query = ''/'' @ rest_path @ query_suffix req \<rparr>)
                     (req\<lparr> gq_headers := remove_header X_PONY_TOKEN (gq_headers req) \<rparr>),
                   token_checked job tokens s)))))"

section \<open>Forwarding\<close>

definition MAX_BODY_SIZE :: nat where
  [const_defs]: "MAX_BODY_SIZE = 32 * 1024 * 1024"

definition PRIMARY_ATTEMPTS :: nat where
  "PRIMARY_ATTEMPTS = 3"

definition to_bytes :: "nat \<Rightarrow> string option \<Rightarrow> string option" where
  "to_bytes limit body = (case body of Some b \<Rightarrow> if length b \<le> limit then Some b else None | None \<Rightarrow> None)"

record gateway =
  gw_connect :: connect_state
  gw_edges :: "(string \<times> edge_client) list"
  gw_routes :: route_table
  gw_usage :: live

text \<open>What happens on the way to an edge, for the first and for the backup execution.\<close>

type_synonym edge_worlds = "bool \<Rightarrow> string \<Rightarrow> edge_world"

type_synonym edge_trace = "(edge_client \<times> (edge_request \<times> send_result) list) list"

definition should_failover :: "edge_error + edge_response \<Rightarrow> bool" where
  "should_failover resp = (case resp of Inl _ \<Rightarrow> True | Inr r \<Rightarrow> 500 \<le> es_status r \<and> es_status r < 600)"

definition execute_failover ::
  "edge_worlds \<Rightarrow> (string \<times> edge_client) list \<Rightarrow> route_table \<Rightarrow> string \<Rightarrow> string \<Rightarrow> edge_client \<Rightarrow> forward_request
   \<Rightarrow> (edge_error + edge_response) \<times> edge_trace" where
  "execute_failover W edges routes route upstream primary_edge fwd =
     (case execute_with_attempts (W False upstream) primary_edge fwd PRIMARY_ATTEMPTS of
        (resp, sends, _) \<Rightarrow>
          if \<not> should_failover resp then (resp, [(primary_edge, sends)])
          else (case backup_upstream routes route of
            None \<Rightarrow> (resp, [(primary_edge, sends)])
          | Some backup \<Rightarrow>
              (case map_of edges (upstream_as_str backup) of
                 None \<Rightarrow> (resp, [(primary_edge, sends)])
               | Some backup_edge \<Rightarrow>
                   (case execute_with_attempts (W True (upstream_as_str backup)) backup_edge fwd 5 of
                      (resp', sends', _) \<Rightarrow> (resp', [(primary_edge, sends), (backup_edge, sends')])))))"

definition RESPONSE_DROPPED :: "string list" where
  "RESPONSE_DROPPED = [''transfer-encoding'', ''connection'', ''content-length'']"

datatype gw_answer = Plain http_response | Streamed nat headers "(string + string) list"

definition edge_answer :: "edge_response \<Rightarrow> gw_answer" where
  "edge_answer resp =
     Streamed (if 100 \<le> es_status resp \<and> es_status resp < 1000 then es_status resp else 502)
       (copy_headers (\<lambda>name. name \<notin> set RESPONSE_DROPPED) (es_headers resp)) (es_chunks resp)"

definition forward_of :: "gw_request \<Rightarrow> headers \<Rightarrow> string \<Rightarrow> string \<Rightarrow> forward_request" where
  "forward_of req hs target_url body =
     \<lparr> fr_method = gq_method req, fr_target_url = target_url, fr_headers = sanitize_headers hs,
       fr_body = (if body = [] then None else Some body) \<rparr>"

definition forward_handler ::
  "edge_worlds \<Rightarrow> auth_context option \<Rightarrow> gw_request \<Rightarrow> gateway \<Rightarrow> gw_answer \<times> edge_trace \<times> gateway" where
  "forward_handler W ctx req g =
     (case ctx of
        None \<Rightarrow> (Plain unauthorized, [], g)
      | Some c \<Rightarrow>
          (case resolve (gw_routes g) (ax_route c) (ax_path_query c) of
             Inl _ \<Rightarrow> (Plain not_found, [], g)
           | Inr (target_url, upstream) \<Rightarrow>
               (case to_bytes MAX_BODY_SIZE (gq_body req) of
                  None \<Rightarrow> (Plain body_too_large, [], g)
                | Some body \<Rightarrow>
                    (let g = g\<lparr> gw_usage := record_request (ax_route c, ax_token_id c) (length body) (gw_usage g) \<rparr>
                     in case map_of (gw_edges g) (upstream_as_str upstream) of
                          None \<Rightarrow> (Plain upstream_error, [], g)
                        | Some edge \<Rightarrow>
                            (case execute_failover W (gw_edges g) (gw_routes g) (ax_route c) (upstream_as_str upstream) edge
                                    (forward_of req (remove_header X_PONY_TOKEN (gq_headers req)) target_url body) of
                               (Inl _, trace) \<Rightarrow> (Plain upstream_error, trace, g)
                             | (Inr resp, trace) \<Rightarrow> (edge_answer resp, trace, g))))))"

text \<open>The body is counted as it streams to the client.\<close>

fun count_stream :: "usage_key \<Rightarrow> (string + string) list \<Rightarrow> live \<Rightarrow> live" where
  "count_stream k [] l = l"
| "count_stream k (Inr chunk # cs) l = count_stream k cs (record_bytes_out k (length chunk) l)"
| "count_stream k (Inl _ # cs) l = count_stream k cs l"

section \<open>The router\<close>

datatype gw_page = InfoPage | ClashPage | DskPage string | ForwardPage | MethodNotAllowed | NoPage

definition is_get :: "string \<Rightarrow> bool" where
  "is_get m \<longleftrightarrow> m = ''GET'' \<or> m = ''HEAD''"

definition data_route :: "string \<Rightarrow> string \<Rightarrow> gw_page" where
  "data_route m path =
     (if path = ''/'' then (if is_get m then InfoPage else MethodNotAllowed)
      else if path = ''/clash'' \<or> path = ''/clash.yaml'' then (if is_get m then ClashPage else MethodNotAllowed)
      else (case strip_prefix ''/dsk/'' path of
        Some name \<Rightarrow>
          if name \<noteq> [] \<and> CHR ''/'' \<notin> set name then (if is_get m then DskPage name else MethodNotAllowed)
          else if m \<in> {''GET'', ''POST'', ''PUT'', ''PATCH'', ''DELETE'', ''HEAD'', ''OPTIONS''} then ForwardPage else MethodNotAllowed
      | None \<Rightarrow>
          if \<not> starts_with ''/'' path then NoPage
          else if m \<in> {''GET'', ''POST'', ''PUT'', ''PATCH'', ''DELETE'', ''HEAD'', ''OPTIONS''} then ForwardPage else MethodNotAllowed))"

text \<open>A request at the data plane: the middleware, and behind it the page.  The pages that are
  not forwarded are left open here.\<close>

datatype gw_outcome = Answered gw_answer | Page gw_page

definition serve_request ::
  "crypto \<Rightarrow> nat \<Rightarrow> edge_worlds \<Rightarrow> gw_request \<Rightarrow> gateway \<Rightarrow> gw_outcome \<times> edge_trace \<times> gateway" where
  "serve_request K now W req g =
     (case auth_middleware K now req (cs_services (gw_connect g)) of
        (m, s) \<Rightarrow>
          (let g = g\<lparr> gw_connect := (gw_connect g)\<lparr> cs_services := s \<rparr> \<rparr> in
           case m of
             Answer r \<Rightarrow> (Answered (Plain r), [], g)
           | Next ctx req' \<Rightarrow>
               (case data_route (gq_method req') (gq_path req') of
                  ForwardPage \<Rightarrow> (case forward_handler W ctx req' g of (a, trace, g') \<Rightarrow> (Answered a, trace, g'))
                | page \<Rightarrow> (Page page, [], g))))"

section \<open>Release files\<close>

definition MAX_NAME_LEN :: nat where
  "MAX_NAME_LEN = 100"

definition DEFAULT_DIST_DIR :: string where
  "DEFAULT_DIST_DIR = ''/opt/pony-desktop-releases''"

definition dist_dir :: "string option \<Rightarrow> string" where
  "dist_dir env = (case env of Some v \<Rightarrow> if v \<noteq> [] then v else DEFAULT_DIST_DIR | None \<Rightarrow> DEFAULT_DIST_DIR)"

definition sanitize_filename :: "string \<Rightarrow> string option" where
  "sanitize_filename raw =
     (if raw = [] \<or> length raw > MAX_NAME_LEN
         \<or> \<not> list_all (\<lambda>b. is_ascii_alphanumeric b \<or> b \<in> {CHR ''.'', CHR ''_'', CHR ''-''}) raw then None
      else if contains_str ''..'' raw \<or> starts_with ''.'' raw then None
      else Some raw)"

definition content_type_of :: "string \<Rightarrow> string" where
  "content_type_of name =
     (if ends_with ''.json'' name then ''application/json''
      else if ends_with ''.sig'' name then ''text/plain; charset=utf-8''
      else ''application/octet-stream'')"

text \<open>\<open>PathBuf::join\<close> with a relative name, and reading a file (\<open>None\<close> on any error).\<close>

definition path_join :: "string \<Rightarrow> string \<Rightarrow> string" where
  "path_join dir name = (if ends_with ''/'' dir then dir @ name else dir @ ''/'' @ name)"

definition dsk_file_handler :: "(string \<Rightarrow> string option) \<Rightarrow> string option \<Rightarrow> string \<Rightarrow> http_response" where
  "dsk_file_handler read env raw =
     (case sanitize_filename raw of
        None \<Rightarrow> text_response 400 ''invalid filename''
      | Some name \<Rightarrow>
          (case read (path_join (dist_dir env) name) of
             Some bytes \<Rightarrow> \<lparr> rs_status = 200, rs_headers = [(''content-type'', content_type_of name)], rs_body = bytes \<rparr>
           | None \<Rightarrow> text_response 404 ''not found''))"

definition dsk_read :: "(string \<Rightarrow> string option) \<Rightarrow> string option \<Rightarrow> string option \<Rightarrow> string \<Rightarrow> string option" where
  "dsk_read read env home name =
     (let file_path = path_join (dist_dir env) name in
      case read file_path of
        Some bytes \<Rightarrow> Some bytes
      | None \<Rightarrow>
          (case home of
             None \<Rightarrow> None
           | Some h \<Rightarrow>
               (let home_fallback = path_join (path_join h ''pony-desktop-releases'') name in
                if home_fallback \<noteq> file_path then read home_fallback else None)))"

definition dsk_file_public :: "(string \<Rightarrow> string option) \<Rightarrow> string option \<Rightarrow> string option \<Rightarrow> string \<Rightarrow> http_response" where
  "dsk_file_public read env home raw =
     (case sanitize_filename raw of
        None \<Rightarrow> text_response 400 ''invalid filename''
      | Some name \<Rightarrow>
          (case dsk_read read env home name of
             Some bytes \<Rightarrow>
               \<lparr> rs_status = 200,
                 rs_headers = [(''content-type'', if ends_with ''.json'' name then ''application/json''
                                                 else if ends_with ''.sig'' name then ''text/plain''
                                                 else ''application/octet-stream'')],
                 rs_body = bytes \<rparr>
           | None \<Rightarrow> text_response 404 ''not found''))"

section \<open>Tunnel settings for the desktop\<close>

record tunnel_provision =
  tp_url :: string
  tp_token :: string

definition provision_from_pool_config_and_env ::
  "string option \<Rightarrow> string option \<Rightarrow> tunnel_env \<Rightarrow> tunnel_provision option" where
  "provision_from_pool_config_and_env worker_url worker_secret env =
     (case (or_else (te_gate_url env) (Option.bind worker_url derive_gate_url_from_worker),
            or_else (te_token env) worker_secret) of
        (Some url, Some token) \<Rightarrow>
          (let url = trim_str url; token = trim_str token in
           if url = [] \<or> token = [] \<or> \<not> starts_with ''wss://'' url \<and> \<not> starts_with ''ws://'' url then None
           else Some \<lparr> tp_url = url, tp_token = token \<rparr>)
      | _ \<Rightarrow> None)"

section \<open>Lemmas\<close>

text \<open>Every permit is free or held by a connection being served, and ids are not reused.\<close>

definition acceptor_ok :: "acceptor \<Rightarrow> bool" where
  "acceptor_ok a \<longleftrightarrow>
     length (ap_active a) + ap_free a = ap_cap a \<and> distinct (ap_active a) \<and> distinct (ap_rejected a)
     \<and> set (ap_active a) \<inter> set (ap_rejected a) = {}
     \<and> (\<forall>c \<in> set (ap_active a) \<union> set (ap_rejected a). c \<le> ap_seq a)"

lemma acceptor_ok_step: "acceptor_ok a \<Longrightarrow> accept_step a b \<Longrightarrow> acceptor_ok b"
proof (elim accept_stepE)
  assume ok: "acceptor_ok a" and b: "b = accept_conn a"
  have "ap_seq a + 1 \<notin> set (ap_active a) \<union> set (ap_rejected a)" using ok unfolding acceptor_ok_def by (metis Suc_eq_plus1 not_less_eq_eq order_refl)
  with ok show "acceptor_ok b" unfolding b by (auto simp: acceptor_ok_def accept_conn_def Let_def intro: le_SucI)
next
  fix conn assume a: "acceptor_ok a" "b = end_conn conn a" "conn \<in> set (ap_active a)"
  then have "length (remove1 conn (ap_active a)) + 1 = length (ap_active a)"
    using length_pos_if_in_set [of conn "ap_active a"] by (simp add: length_remove1)
  with a show "acceptor_ok b" by (auto simp: acceptor_ok_def end_conn_def)
qed

lemma accept_step_cap: "accept_step a b \<Longrightarrow> ap_cap b = ap_cap a"
  by (auto elim!: accept_stepE simp: accept_conn_def end_conn_def Let_def)

lemma acceptor_new_ok: "acceptor_ok (acceptor_new raw) \<and> ap_cap (acceptor_new raw) = max_connections_from_env raw"
  by (simp add: acceptor_new_def acceptor_ok_def Let_def)

interpretation accept_loop: machine "\<lambda>a. a = acceptor_new raw" accept_step
  "\<lambda>a. acceptor_ok a \<and> ap_cap a = max_connections_from_env raw"
  by unfold_locales (use acceptor_new_ok acceptor_ok_step accept_step_cap in auto)

lemma max_connections_pos: "0 < max_connections_from_env raw"
  by (auto simp: max_connections_from_env_def const_defs split: option.splits)

lemma auth_middleware_Next:
  assumes "auth_middleware K now req s = (Next (Some c) req', s')"
  obtains token path row rest where "presented_token req = Some (token, path)"
    "fst (verify K now token (sv_tokens s)) = Inr row" "split_first_segment path = (ax_route c, rest)"
    "ax_token_id c = tk_id row" "ax_path_query c = ''/'' @ rest @ query_suffix req"
    "req' = req\<lparr> gq_headers := remove_header X_PONY_TOKEN (gq_headers req) \<rparr>"
  using assms that
  by (auto simp: auth_middleware_def split: if_splits option.splits prod.splits sum.splits)

lemma forward_handler_trace:
  assumes "forward_handler W ctx req g = (a, trace, g')" "trace \<noteq> []"
  obtains c url up body edge where "ctx = Some c" "resolve (gw_routes g) (ax_route c) (ax_path_query c) = Inr (url, up)"
    "gq_body req = Some body" "length body \<le> MAX_BODY_SIZE" "map_of (gw_edges g) (upstream_as_str up) = Some edge"
    "trace = snd (execute_failover W (gw_edges g) (gw_routes g) (ax_route c) (upstream_as_str up) edge
       (forward_of req (remove_header X_PONY_TOKEN (gq_headers req)) url body))"
    "g' = g\<lparr> gw_usage := record_request (ax_route c, ax_token_id c) (length body) (gw_usage g) \<rparr>"
  using assms that
  by (auto simp: forward_handler_def to_bytes_def Let_def split: option.splits sum.splits prod.splits if_splits)

text \<open>Every request of a failover is the prepared request of a configured edge, three at most for
  the first and five for the backup.\<close>

lemma execute_failover_trace:
  assumes "map_of edges up = Some edge" "(e, sends) \<in> set (snd (execute_failover W edges routes route up edge fwd))"
  shows "e \<in> snd ` set edges \<and> length sends \<le> 5 \<and> (\<forall>x \<in> set sends. \<exists>b name. edge_prepared (W b name) e fwd (fst x))"
proof -
  have in_edges: "e \<in> snd ` set edges" if "map_of edges n = Some e" for n e
    using map_of_SomeD [OF that] by (force simp: image_iff)
  obtain r s ps where 1: "execute_with_attempts (W False up) edge fwd PRIMARY_ATTEMPTS = (r, s, ps)" by (metis prod_cases3)
  have P: "edge \<in> snd ` set edges \<and> length s \<le> 5 \<and> (\<forall>x \<in> set s. \<exists>b name. edge_prepared (W b name) edge fwd (fst x))"
    using in_edges [OF assms(1)] edge.exec_count [OF 1] edge.exec_prepared [OF 1] by (auto simp: PRIMARY_ATTEMPTS_def)
  show ?thesis
  proof (cases "\<exists>b be. should_failover r \<and> backup_upstream routes route = Some b \<and> map_of edges (upstream_as_str b) = Some be")
    case False
    with assms(2) 1 P show ?thesis
      by (cases "backup_upstream routes route") (auto simp: execute_failover_def split: if_splits option.splits)
  next
    case True
    then obtain b be where b: "should_failover r" "backup_upstream routes route = Some b" "map_of edges (upstream_as_str b) = Some be"
      by blast
    obtain r' s' ps' where 2: "execute_with_attempts (W True (upstream_as_str b)) be fwd 5 = (r', s', ps')" by (metis prod_cases3)
    have "be \<in> snd ` set edges \<and> length s' \<le> 5 \<and> (\<forall>x \<in> set s'. \<exists>b name. edge_prepared (W b name) be fwd (fst x))"
      using in_edges [OF b(3)] edge.exec_count [OF 2] edge.exec_prepared [OF 2] by auto
    with assms(2) 1 2 b P show ?thesis by (auto simp: execute_failover_def)
  qed
qed

lemma execute_failover_length: "length (snd (execute_failover W edges routes route up edge fwd)) \<le> 2"
  by (auto simp: execute_failover_def split: prod.splits option.splits)

lemma forwarded_no_token:
  "\<not> contains_key X_PONY_TOKEN (fr_headers (forward_of req (remove_header X_PONY_TOKEN hs) url body))"
  by (simp add: forward_of_def sanitize_headers_key) (auto simp: contains_key_iff remove_header_def)

text \<open>What a request sent to an edge looks like.\<close>

definition forwarded_ok :: "edge_worlds \<Rightarrow> edge_client \<Rightarrow> string \<Rightarrow> gw_request \<Rightarrow> string \<Rightarrow> edge_request \<Rightarrow> bool" where
  "forwarded_ok W e url req body q \<longleftrightarrow>
     (\<exists>b name. ew_url (W b name) (ec_worker_url e) url = Some (er_url q))
     \<and> er_method q = gq_method req \<and> er_body q = (if body = [] then None else Some body)
     \<and> filter (\<lambda>(k, _). k = ''x-proxy-secret'') (er_headers q) = [(''x-proxy-secret'', ec_secret e)]
     \<and> \<not> contains_key X_PONY_TOKEN (er_headers q)"

lemma prepared_ok:
  assumes "edge_prepared (W b name) e (forward_of req (remove_header X_PONY_TOKEN hs) url body) q"
  shows "forwarded_ok W e url req body q"
proof -
  let ?fwd = "forward_of req (remove_header X_PONY_TOKEN hs) url body"
  have "\<not> contains_key ''x-proxy-secret'' (fr_headers ?fwd)" by (simp add: forward_of_def sanitized_no_secret)
  note secret = prepared_secret [OF this assms]
  from assms obtain u where u: "ew_url (W b name) (ec_worker_url e) (fr_target_url ?fwd) = Some u" "q = edge_prepare e ?fwd u"
    by (auto simp: edge_prepared_def)
  have "\<not> contains_key X_PONY_TOKEN (er_headers q)"
    using forwarded_no_token [of req hs url body] unfolding u(2)
    by (simp add: edge_prepare_def replace_headers_def contains_key_iff X_PONY_TOKEN_def)
  with secret u show ?thesis unfolding forwarded_ok_def by (auto simp: edge_prepare_def forward_of_def)
qed

lemma count_stream_out:
  "aval BytesOutM k (count_stream k cs l) = (aval BytesOutM k l + sum_list [length c. Inr c \<leftarrow> cs]) mod 2 ^ 64"
  if "aval BytesOutM k l \<le> u64_max"
  using that
proof (induction k cs l rule: count_stream.induct)
  case (2 k chunk cs l)
  have w: "wrap_add64 a n + m = (a + n) mod 2 ^ 64 + m" for a n m by (simp add: wrap_add64_def)
  have "aval BytesOutM k (record_bytes_out k (length chunk) l) = wrap_add64 (aval BytesOutM k l) (length chunk)"
    by (simp add: record_bytes_out_def aval_entry_add)
  with 2 show ?case by (simp add: wrap_add64_def mod_add_left_eq add.assoc)
qed auto

section \<open>Properties\<close>

text \<open>However connections come and go, at most the configured number of them is served at
  the same time, no permit is lost, and a new connection is served exactly while there is room;
  otherwise it is turned away at once and takes no permit.\<close>

theorem accept_bounded:
  assumes "accept_step\<^sup>*\<^sup>* (acceptor_new raw) a"
  shows "0 < max_connections_from_env raw
    \<and> length (ap_active a) + ap_free a = max_connections_from_env raw
    \<and> (if length (ap_active a) < max_connections_from_env raw
       then ap_active (accept_conn a) = (ap_seq a + 1) # ap_active a \<and> ap_rejected (accept_conn a) = ap_rejected a
       else ap_active (accept_conn a) = ap_active a \<and> ap_rejected (accept_conn a) = (ap_seq a + 1) # ap_rejected a
         \<and> ap_free (accept_conn a) = ap_free a)"
  using accept_loop.reachable_inv [OF refl assms] max_connections_pos [of raw]
  by (auto simp: acceptor_ok_def accept_conn_def Let_def)

theorem accept_bounded_witness:
  "ap_rejected (accept_conn (accept_conn (acceptor_new (Some ''1'')))) = [2]"
proof -
  have "accept_step\<^sup>*\<^sup>* (acceptor_new (Some ''1'')) (accept_conn (acceptor_new (Some ''1'')))"
    by (intro r_into_rtranclp accept_step.accept)
  from accept_bounded [OF this] show ?thesis by code_simp
qed

text \<open>C26: a request leaves the server for an edge only with a token, from the path or the header,
  that the token service accepts, on a route that resolves and with a body within the limit.
  Everything sent goes to a configured edge and asks for the resolved URL with the method and
  body of the request; it carries that edge's secret and no other, and never the client's token.
  The request is counted exactly once, with the length of its body, under the route and the
  token's id.\<close>

theorem gateway_forward_authorized:
  assumes "serve_request K now W req g = (out, trace, g')" "trace \<noteq> []"
  shows "\<exists>token path row route rest url up body.
    presented_token req = Some (token, path) \<and> split_first_segment path = (route, rest)
    \<and> fst (verify K now token (sv_tokens (cs_services (gw_connect g)))) = Inr row
    \<and> resolve (gw_routes g) route (''/'' @ rest @ query_suffix req) = Inr (url, up)
    \<and> gq_body req = Some body \<and> length body \<le> MAX_BODY_SIZE
    \<and> gw_usage g' = record_request (route, tk_id row) (length body) (gw_usage g)
    \<and> length trace \<le> 2
    \<and> (\<forall>(e, sends) \<in> set trace. e \<in> snd ` set (gw_edges g) \<and> length sends \<le> 5
         \<and> (\<forall>x \<in> set sends.
              (\<exists>b name. ew_url (W b name) (ec_worker_url e) url = Some (er_url (fst x)))
              \<and> er_method (fst x) = gq_method req \<and> er_body (fst x) = (if body = [] then None else Some body)
              \<and> filter (\<lambda>(k, _). k = ''x-proxy-secret'') (er_headers (fst x)) = [(''x-proxy-secret'', ec_secret e)]
              \<and> \<not> contains_key X_PONY_TOKEN (er_headers (fst x))))"
proof -
  obtain m s where m: "auth_middleware K now req (cs_services (gw_connect g)) = (m, s)" by fastforce
  let ?g = "g\<lparr> gw_connect := (gw_connect g)\<lparr> cs_services := s \<rparr> \<rparr>"
  from assms m obtain ctx req' where n: "m = Next ctx req'"
    by (cases m) (auto simp: serve_request_def)
  with assms m obtain a where f: "forward_handler W ctx req' ?g = (a, trace, g')"
    by (auto simp: serve_request_def Let_def split: gw_page.splits prod.splits)
  from forward_handler_trace [OF f assms(2)] obtain c url up body edge where
    "ctx = Some c" "resolve (gw_routes ?g) (ax_route c) (ax_path_query c) = Inr (url, up)"
    "gq_body req' = Some body" "length body \<le> MAX_BODY_SIZE" "map_of (gw_edges ?g) (upstream_as_str up) = Some edge"
    "trace = snd (execute_failover W (gw_edges ?g) (gw_routes ?g) (ax_route c) (upstream_as_str up) edge
       (forward_of req' (remove_header X_PONY_TOKEN (gq_headers req')) url body))"
    "g' = ?g\<lparr> gw_usage := record_request (ax_route c, ax_token_id c) (length body) (gw_usage ?g) \<rparr>" .
  note c = this [simplified]
  from auth_middleware_Next [OF m [unfolded n c(1)]] obtain token path row rest where t:
    "presented_token req = Some (token, path)" "fst (verify K now token (sv_tokens (cs_services (gw_connect g)))) = Inr row"
    "split_first_segment path = (ax_route c, rest)" "ax_token_id c = tk_id row"
    "ax_path_query c = ''/'' @ rest @ query_suffix req"
    "req' = req\<lparr> gq_headers := remove_header X_PONY_TOKEN (gq_headers req) \<rparr>" .
  let ?fwd = "forward_of req' (remove_header X_PONY_TOKEN (gq_headers req')) url body"
  have "e \<in> snd ` set (gw_edges g) \<and> length sends \<le> 5 \<and> (\<forall>x \<in> set sends. forwarded_ok W e url req body (fst x))"
    if "(e, sends) \<in> set trace" for e sends
  proof -
    note T = execute_failover_trace [OF c(5) that [unfolded c(6)]]
    have "forwarded_ok W e url req body (fst x)" if "x \<in> set sends" for x
    proof -
      from T that obtain b name where "edge_prepared (W b name) e ?fwd (fst x)" by blast
      from prepared_ok [of W b name e req' "gq_headers req'" url body, OF this] show ?thesis
        by (simp add: forwarded_ok_def t(6))
    qed
    with T show ?thesis by blast
  qed
  then have A: "\<forall>(e, sends) \<in> set trace. e \<in> snd ` set (gw_edges g) \<and> length sends \<le> 5
      \<and> (\<forall>x \<in> set sends. forwarded_ok W e url req body (fst x))" by blast
  have B: "gw_usage g' = record_request (ax_route c, tk_id row) (length body) (gw_usage g)" using c(7) t(4) by simp
  have C: "length trace \<le> 2" unfolding c(6) by (rule execute_failover_length)
  have D: "resolve (gw_routes g) (ax_route c) (''/'' @ rest @ query_suffix req) = Inr (url, up)" using c(2) t(5) by simp
  have E: "gq_body req = Some body" using c(3) t(6) by simp
  show ?thesis
    by (rule exI [of _ token], rule exI [of _ path], rule exI [of _ row], rule exI [of _ "ax_route c"], rule exI [of _ rest],
        rule exI [of _ url], rule exI [of _ up], rule exI [of _ body], intro conjI)
      (fact t(1) t(3) t(2) D E c(4) B C A [unfolded forwarded_ok_def])+
qed

definition demo_gateway :: gateway where
  "demo_gateway =
     \<lparr> gw_connect = demo_connect_state \<lparr> sv_users = None, sv_tokens = demo_svc1, sv_token_jobs = [], sv_user_jobs = [] \<rparr>,
       gw_edges = [(''worker'', demo_edge), (''b'', demo_edge)],
       gw_routes = \<lparr> rt_store = [],
         rt_table = [''openai'' \<mapsto> \<lparr> rt_name = ''openai'', rt_target_host = ''api.openai.com'', rt_upstream = None,
            rt_override_upstream = None, rt_backup_upstream = Some ''b'', rt_enabled = True, rt_created_at = 1 \<rparr>] \<rparr>,
       gw_usage = [] \<rparr>"

definition demo_gw_request :: gw_request where
  "demo_gw_request =
     \<lparr> gq_scheme = None, gq_authority = None, gq_path = ''/pony_6162/openai/v1/chat'', gq_query = Some ''a=1'',
       gq_method = ''POST'', gq_headers = [(''accept'', ''*/*''), (''x-pony-token'', ''t'')], gq_body = Some ''hi'' \<rparr>"

definition demo_worlds :: edge_worlds where
  "demo_worlds b name = demo_edge_world"

theorem gateway_forward_authorized_witness:
  "case serve_request demo 200 demo_worlds demo_gw_request demo_gateway of
     (out, trace, g') \<Rightarrow> trace \<noteq> [] \<and> length trace \<le> 2
       \<and> (\<forall>(e, sends) \<in> set trace. \<forall>x \<in> set sends. \<not> contains_key ''x-pony-token'' (er_headers (fst x)))"
proof -
  obtain out trace g' where s: "serve_request demo 200 demo_worlds demo_gw_request demo_gateway = (out, trace, g')"
    by (metis prod_cases3)
  have "fst (snd (serve_request demo 200 demo_worlds demo_gw_request demo_gateway)) \<noteq> []" by code_simp
  with s have "trace \<noteq> []" by simp
  from gateway_forward_authorized [OF s this] this s show ?thesis by (fastforce simp: X_PONY_TOKEN_def)
qed

text \<open>The backup edge breaks the care the edge client takes.  A request that may not be
  repeated, for instance a POST without an idempotency key, is delivered a second time when the
  first edge has already answered it with a server error and the route has a backup.\<close>

theorem failover_delivers_twice:
  assumes "\<not> retryable_method fwd"
    and "execute_with_attempts (W False up) edge fwd PRIMARY_ATTEMPTS = (Inr r, sends, ps)" "500 \<le> es_status r" "es_status r < 600"
    and "backup_upstream routes route = Some b" "map_of edges (upstream_as_str b) = Some be"
    and "execute_with_attempts (W True (upstream_as_str b)) be fwd 5 = (Inr r', sends', ps')"
  shows "length (filter (\<lambda>x. \<not> before_sending (snd x))
    (concat (map snd (snd (execute_failover W edges routes route up edge fwd))))) = 2"
  using assms answered_once [OF assms(2,1)] answered_once [OF assms(7,1)]
  by (simp add: execute_failover_def should_failover_def)

theorem failover_delivers_twice_witness:
  "length (filter (\<lambda>x. \<not> before_sending (snd x)) (concat (map snd (snd (execute_failover demo_worlds
     (gw_edges demo_gateway) (gw_routes demo_gateway) ''openai'' ''worker'' demo_edge demo_post))))) = 2"
proof -
  let ?r = "\<lparr> es_status = 502, es_headers = [], es_chunks = [] \<rparr>"
  have "fst (execute_with_attempts (demo_worlds False ''worker'') demo_edge demo_post PRIMARY_ATTEMPTS) = Inr ?r"
    "fst (execute_with_attempts (demo_worlds True (upstream_as_str (Named ''b''))) demo_edge demo_post 5) = Inr ?r"
    by code_simp+
  then obtain s1 p1 s2 p2 where
    "execute_with_attempts (demo_worlds False ''worker'') demo_edge demo_post PRIMARY_ATTEMPTS = (Inr ?r, s1, p1)"
    "execute_with_attempts (demo_worlds True (upstream_as_str (Named ''b''))) demo_edge demo_post 5 = (Inr ?r, s2, p2)"
    by (metis prod.collapse)
  moreover have "\<not> retryable_method demo_post" by code_simp
  moreover have "backup_upstream (gw_routes demo_gateway) ''openai'' = Some (Named ''b'')" by code_simp
  moreover have "map_of (gw_edges demo_gateway) (upstream_as_str (Named ''b'')) = Some demo_edge"
    by (simp add: demo_gateway_def)
  ultimately show ?thesis using failover_delivers_twice by fastforce
qed

text \<open>The name of a release file is accepted only when it is a single path segment of at most
  a hundred letters, digits, dots, dashes and underscores that neither starts with a dot nor has
  two in a row, so the file read lies directly in one of the two release directories.\<close>

theorem dsk_reads_inside:
  assumes "rs_status (dsk_file_public read env home raw) = 200"
  shows "CHR ''/'' \<notin> set raw \<and> raw \<noteq> [] \<and> length raw \<le> 100 \<and> \<not> starts_with ''.'' raw \<and> \<not> contains_str ''..'' raw
    \<and> (Some (rs_body (dsk_file_public read env home raw)) = read (path_join (dist_dir env) raw)
       \<or> (\<exists>h. home = Some h \<and> Some (rs_body (dsk_file_public read env home raw))
            = read (path_join (path_join h ''pony-desktop-releases'') raw)))"
proof -
  from assms have s: "sanitize_filename raw = Some raw"
    by (auto simp: dsk_file_public_def text_response_def sanitize_filename_def split: option.splits if_splits)
  moreover from this have "\<not> (raw = [] \<or> length raw > MAX_NAME_LEN \<or> \<not> list_all (\<lambda>b. is_ascii_alphanumeric b
      \<or> b \<in> {CHR ''.'', CHR ''_'', CHR ''-''}) raw)" "\<not> (contains_str ''..'' raw \<or> starts_with ''.'' raw)"
    by (auto simp: sanitize_filename_def split: if_splits)
  moreover from this have "CHR ''/'' \<notin> set raw" by (auto simp: list_all_iff ascii_defs byte_def)
  ultimately show ?thesis using assms
    by (auto simp: dsk_file_public_def dsk_read_def text_response_def Let_def MAX_NAME_LEN_def split: option.splits if_splits)
qed

theorem dsk_reads_inside_witness:
  "CHR ''/'' \<notin> set ''latest.json'' \<and> length ''latest.json'' \<le> 100"
proof -
  have "rs_status (dsk_file_public (\<lambda>p. if p = ''/d/latest.json'' then Some ''{}'' else None) (Some ''/d'') None ''latest.json'') = 200"
    by code_simp
  from dsk_reads_inside [OF this] show ?thesis by simp
qed

end
