(* ===== verification/HaForwarder.thy ===== *)
theory HaForwarder
  imports ConnectAuth GateAcl
begin

unbundle bit_operations_syntax

text \<open>
  The local high-availability forwarder (\<open>crates/core/src/ha_forwarder.rs\<close>): it checks the
  client, sends the request to the local engine or, when that is down, to a remote node of
  the cluster, and signs remote requests with a cluster ticket.
\<close>

section \<open>Configuration\<close>

type_synonym sock = "ip_addr \<times> nat"

record ha_forwarder =
  ha_listen :: sock
  ha_local_target :: sock
  ha_remotes :: "sock list"
  ha_cluster_auth_key :: string
  ha_node_id :: string
  ha_client_token :: "string option"
  ha_allow_loopback :: bool
  ha_local_healthy :: bool

definition ha_new :: "sock \<Rightarrow> sock \<Rightarrow> sock list \<Rightarrow> ha_forwarder" where
  "ha_new listen_addr local_target remotes =
     \<lparr> ha_listen = listen_addr, ha_local_target = local_target, ha_remotes = remotes,
       ha_cluster_auth_key = [], ha_node_id = [], ha_client_token = None,
       ha_allow_loopback = True, ha_local_healthy = True \<rparr>"

definition with_cluster_identity :: "string \<Rightarrow> string \<Rightarrow> ha_forwarder \<Rightarrow> ha_forwarder" where
  "with_cluster_identity key node f = f\<lparr> ha_cluster_auth_key := key, ha_node_id := node \<rparr>"

definition with_client_token :: "string \<Rightarrow> ha_forwarder \<Rightarrow> ha_forwarder" where
  "with_client_token token f = f\<lparr> ha_client_token := if token = [] then None else Some token \<rparr>"

definition allow_loopback_without_token :: "bool \<Rightarrow> ha_forwarder \<Rightarrow> ha_forwarder" where
  "allow_loopback_without_token allow f = f\<lparr> ha_allow_loopback := allow \<rparr>"

definition update_remotes :: "sock list \<Rightarrow> ha_forwarder \<Rightarrow> ha_forwarder" where
  "update_remotes remotes f = f\<lparr> ha_remotes := remotes \<rparr>"

section \<open>Header lines\<close>

definition CRLF :: string where
  "CRLF = [char_of (13::nat), char_of (10::nat)]"

definition byte_space :: "char \<Rightarrow> bool" where
  "byte_space c \<longleftrightarrow> c = CHR '' '' \<or> c = char_of (9::nat)"

definition trim_byte_spaces :: "string \<Rightarrow> string" where
  "trim_byte_spaces b = rev (dropWhile byte_space (rev (dropWhile byte_space b)))"

definition find_header_end :: "string \<Rightarrow> nat option" where
  "find_header_end buf = find_sub (CRLF @ CRLF) buf"

section \<open>Authentication of the client\<close>

definition constant_time_equal :: "string \<Rightarrow> string \<Rightarrow> bool" where
  "constant_time_equal left right =
     (if length left \<noteq> length right then False
      else foldl (\<lambda>diff (a, b). diff OR (byte a XOR byte b)) 0 (zip left right) = 0)"

definition parse_basic_token :: "crypto \<Rightarrow> string \<Rightarrow> string option" where
  "parse_basic_token K v =
     (case (case strip_prefix ''Basic '' v of Some e \<Rightarrow> Some e | None \<Rightarrow> strip_prefix ''basic '' v) of
        None \<Rightarrow> None
      | Some encoded \<Rightarrow>
          (case b64std_decode K (trim_str encoded) of
             None \<Rightarrow> None
           | Some decoded \<Rightarrow>
               (case from_utf8 decoded of
                  None \<Rightarrow> None
                | Some text \<Rightarrow> map_option snd (split_once (CHR '':'') text))))"

text \<open>One line of the header loop, on the token and the Basic password found so far.\<close>

definition ha_scan_line ::
  "crypto \<Rightarrow> string option \<times> string option \<Rightarrow> string \<Rightarrow> string option \<times> string option" where
  "ha_scan_line K tb raw =
     (let line = chomp_cr raw in
      case split_once (CHR '':'') line of
        None \<Rightarrow> tb
      | Some (n, v) \<Rightarrow>
          (let name = trim_byte_spaces n; val = trim_byte_spaces v in
           if eq_ignore_ascii_case name ''x-pony-token'' then (from_utf8 val, snd tb)
           else if eq_ignore_ascii_case name ''proxy-authorization'' \<or> eq_ignore_ascii_case name ''authorization''
           then (fst tb, case from_utf8 val of None \<Rightarrow> None | Some s \<Rightarrow> parse_basic_token K s)
           else tb))"

definition client_request_allowed :: "crypto \<Rightarrow> ha_forwarder \<Rightarrow> ip_addr \<Rightarrow> string \<Rightarrow> bool" where
  "client_request_allowed K f peer raw_headers =
     (case ha_client_token f of
        None \<Rightarrow> ip_is_loopback peer \<and> ha_allow_loopback f
      | Some expected \<Rightarrow>
          (case foldl (ha_scan_line K) (None, None) (split_on (char_of (10::nat)) raw_headers) of
             (token, basic) \<Rightarrow>
               (case token of Some c \<Rightarrow> constant_time_equal c expected | None \<Rightarrow> False)
             \<or> (case basic of Some c \<Rightarrow> constant_time_equal c expected | None \<Rightarrow> False)))"

section \<open>Choice of the upstream\<close>

text \<open>\<open>local_ok\<close> and \<open>remote_ok\<close> are the outcomes of the connection attempts.\<close>

definition ha_pick_upstream :: "bool \<Rightarrow> (sock \<Rightarrow> bool) \<Rightarrow> ha_forwarder \<Rightarrow> (sock \<times> bool) option \<times> ha_forwarder" where
  "ha_pick_upstream local_ok remote_ok f =
     (if ha_local_healthy f \<and> local_ok then (Some (ha_local_target f, False), f)
      else (let f' = (if ha_local_healthy f then f\<lparr> ha_local_healthy := False \<rparr> else f)
            in (map_option (\<lambda>r. (r, True)) (find remote_ok (ha_remotes f)), f')))"

text \<open>One round of the health prober, with its count of failures (an \<open>i32\<close>).\<close>

definition health_probe :: "bool \<Rightarrow> int \<times> ha_forwarder \<Rightarrow> int \<times> ha_forwarder" where
  "health_probe probe_ok s =
     (case s of (failed_count, f) \<Rightarrow>
        if probe_ok then (0, f\<lparr> ha_local_healthy := True \<rparr>)
        else (let n = (if failed_count = 2 ^ 31 - 1 then - (2 ^ 31) else failed_count + 1)
              in (n, if n \<ge> 2 \<and> ha_local_healthy f then f\<lparr> ha_local_healthy := False \<rparr> else f)))"

section \<open>The forwarded head\<close>

definition named_line :: "string \<Rightarrow> string \<Rightarrow> bool" where
  "named_line header_name line =
     (case split_once (CHR '':'') (trim_byte_spaces line) of
        None \<Rightarrow> False
      | Some (k, _) \<Rightarrow> eq_ignore_ascii_case (trim_byte_spaces k) header_name)"

function sanitize_lines :: "string \<Rightarrow> string \<Rightarrow> string" where
  "sanitize_lines header_name cursor =
     (case find_sub CRLF cursor of
        Some pos \<Rightarrow>
          (let line = take pos cursor in
           (if named_line header_name line then [] else line @ CRLF)
             @ sanitize_lines header_name (drop (pos + 2) cursor))
      | None \<Rightarrow> if cursor = [] \<or> named_line header_name cursor then [] else cursor @ CRLF)"
  by pat_completeness auto
termination
  by (relation "measure (length \<circ> snd)") (auto simp: CRLF_def dest!: find_sub_Some)

declare sanitize_lines.simps [simp del]

definition sanitize_and_inject_ticket :: "string \<Rightarrow> string \<Rightarrow> string option \<Rightarrow> string" where
  "sanitize_and_inject_ticket raw_headers header_name ticket_val =
     sanitize_lines header_name raw_headers
     @ (case ticket_val of Some ticket \<Rightarrow> header_name @ '': '' @ ticket @ CRLF | None \<Rightarrow> [])
     @ CRLF"

section \<open>One connection\<close>

datatype ha_head = HaHead string string "read_event list" | HaHeadClosed | HaHeadFailed | HaHeadTooLarge

fun ha_read_head :: "string \<Rightarrow> read_event list \<Rightarrow> ha_head" where
  "ha_read_head buf (Bytes chunk # evs) =
     (if chunk = [] then HaHeadClosed
      else (let buf' = buf @ chunk in
            if length buf' > 64 * 1024 then HaHeadTooLarge
            else (case find_header_end buf' of
                    Some pos \<Rightarrow> HaHead (take pos buf') (drop (pos + 4) buf') evs
                  | None \<Rightarrow> ha_read_head buf' evs)))"
| "ha_read_head buf _ = HaHeadFailed"

text \<open>What a connection comes to: closed or failed while reading, refused, nowhere to go, or
  forwarded to an upstream with the bytes written to it before the relay.\<close>

datatype ha_result =
    HaClosed | HaFailed | HaTooLarge | HaRefused | HaUnreachable
  | HaForward sock bool string string "read_event list"

definition ha_ticket :: "crypto \<Rightarrow> nat \<Rightarrow> bool \<Rightarrow> ha_forwarder \<Rightarrow> string option" where
  "ha_ticket K now is_remote f =
     (if is_remote \<and> ha_cluster_auth_key f \<noteq> [] \<and> ha_node_id f \<noteq> []
      then (case create_ticket K now (ha_cluster_auth_key f) (ha_node_id f) of Inr t \<Rightarrow> Some t | Inl _ \<Rightarrow> None)
      else None)"

definition ha_handle_conn ::
  "crypto \<Rightarrow> nat \<Rightarrow> bool \<Rightarrow> (sock \<Rightarrow> bool) \<Rightarrow> ip_addr \<Rightarrow> read_event list \<Rightarrow> ha_forwarder \<Rightarrow> ha_result \<times> ha_forwarder" where
  "ha_handle_conn K now local_ok remote_ok peer evs f =
     (case ha_read_head [] evs of
        HaHeadClosed \<Rightarrow> (HaClosed, f)
      | HaHeadFailed \<Rightarrow> (HaFailed, f)
      | HaHeadTooLarge \<Rightarrow> (HaTooLarge, f)
      | HaHead raw_headers leftover_payload evs' \<Rightarrow>
          if \<not> client_request_allowed K f peer raw_headers then (HaRefused, f)
          else (case ha_pick_upstream local_ok remote_ok f of
                  (None, f') \<Rightarrow> (HaUnreachable, f')
                | (Some (target, is_remote), f') \<Rightarrow>
                    (HaForward target is_remote
                       (sanitize_and_inject_ticket raw_headers CLUSTER_TICKET_HEADER (ha_ticket K now is_remote f'))
                       leftover_payload evs', f')))"

section \<open>Runs\<close>

text \<open>The prober and the requests share the health flag.\<close>

datatype ha_event = Probe bool | Pick bool "sock \<Rightarrow> bool" | UpdateRemotes "sock list"

fun ha_event_step :: "ha_event \<Rightarrow> int \<times> ha_forwarder \<Rightarrow> int \<times> ha_forwarder" where
  "ha_event_step (Probe ok) s = health_probe ok s"
| "ha_event_step (Pick local_ok remote_ok) (n, f) = (n, snd (ha_pick_upstream local_ok remote_ok f))"
| "ha_event_step (UpdateRemotes remotes) (n, f) = (n, update_remotes remotes f)"

text \<open>Events are kept latest first.\<close>

fun ha_run :: "ha_forwarder \<Rightarrow> ha_event list \<Rightarrow> int \<times> ha_forwarder" where
  "ha_run f [] = (0, f)"
| "ha_run f (e # es) = ha_event_step e (ha_run f es)"

section \<open>Lemmas\<close>

lemma constant_time_equal_iff [simp]: "constant_time_equal a b \<longleftrightarrow> a = b"
proof -
  have "foldl (\<lambda>diff (a, b). diff OR (byte a XOR byte b)) d ps = ct_diff d ps" for d ps
    by (induction d ps rule: ct_diff.induct) auto
  then have "constant_time_equal a b = constant_time_eq a b"
    unfolding constant_time_equal_def constant_time_eq_def by presburger
  then show ?thesis by simp
qed

lemma ha_read_head_HaHead:
  "ha_read_head buf evs = HaHead raw leftover evs' \<Longrightarrow>
   raw @ CRLF @ CRLF @ leftover @ stream_bytes evs' = buf @ stream_bytes evs"
proof (induction buf evs rule: ha_read_head.induct)
  case (1 buf chunk evs)
  show ?case
  proof (cases "find_header_end (buf @ chunk)")
    case None
    with 1 show ?thesis by (auto simp: Let_def split: if_splits)
  next
    case (Some pos)
    with 1(2) have r: "raw = take pos (buf @ chunk)" "leftover = drop (pos + 4) (buf @ chunk)" "evs' = evs"
      by (auto simp: Let_def split: if_splits)
    have "pos + 4 \<le> length (buf @ chunk)" "take 4 (drop pos (buf @ chunk)) = CRLF @ CRLF"
      using find_sub_Some [OF Some [unfolded find_header_end_def]] by (simp_all add: CRLF_def numeral_eq_Suc)
    then have "take pos (buf @ chunk) @ (CRLF @ CRLF) @ drop (pos + 4) (buf @ chunk) = buf @ chunk"
      by (metis append_take_drop_id drop_drop add.commute)
    then show ?thesis by (simp add: r)
  qed
qed auto

text \<open>A header line that carries the client token.\<close>

definition token_line :: "string \<Rightarrow> string \<Rightarrow> bool" where
  "token_line tok line \<longleftrightarrow>
     (\<exists>n v. split_once (CHR '':'') (chomp_cr line) = Some (n, v)
        \<and> eq_ignore_ascii_case (trim_byte_spaces n) ''x-pony-token'' \<and> from_utf8 (trim_byte_spaces v) = Some tok)"

definition basic_line :: "crypto \<Rightarrow> string \<Rightarrow> string \<Rightarrow> bool" where
  "basic_line K tok line \<longleftrightarrow>
     (\<exists>n v s. split_once (CHR '':'') (chomp_cr line) = Some (n, v)
        \<and> (eq_ignore_ascii_case (trim_byte_spaces n) ''proxy-authorization''
           \<or> eq_ignore_ascii_case (trim_byte_spaces n) ''authorization'')
        \<and> from_utf8 (trim_byte_spaces v) = Some s \<and> parse_basic_token K s = Some tok)"

lemma ha_scan_line_step:
  assumes "ha_scan_line K tb l = (t, b)"
  shows "(t = fst tb \<or> (\<forall>c. t = Some c \<longrightarrow> token_line c l)) \<and> (b = snd tb \<or> (\<forall>c. b = Some c \<longrightarrow> basic_line K c l))"
proof (cases "split_once (CHR '':'') (chomp_cr l)")
  case None
  with assms show ?thesis by (auto simp: ha_scan_line_def)
next
  case (Some nv)
  then obtain n v where nv: "split_once (CHR '':'') (chomp_cr l) = Some (n, v)" by (cases nv) auto
  let ?name = "trim_byte_spaces n"
  show ?thesis
  proof (cases "eq_ignore_ascii_case ?name ''x-pony-token''")
    case True
    with assms nv have "t = from_utf8 (trim_byte_spaces v)" "b = snd tb" by (simp_all add: ha_scan_line_def)
    with True nv show ?thesis unfolding token_line_def by auto
  next
    case no_token: False
    show ?thesis
    proof (cases "eq_ignore_ascii_case ?name ''proxy-authorization'' \<or> eq_ignore_ascii_case ?name ''authorization''")
      case True
      with assms nv no_token have "t = fst tb"
        "b = (case from_utf8 (trim_byte_spaces v) of None \<Rightarrow> None | Some s \<Rightarrow> parse_basic_token K s)"
        by (simp_all add: ha_scan_line_def)
      with True nv show ?thesis unfolding basic_line_def by (cases "from_utf8 (trim_byte_spaces v)") auto
    next
      case False
      with assms nv no_token show ?thesis by (simp add: ha_scan_line_def)
    qed
  qed
qed

lemma ha_scan_found:
  assumes "foldl (ha_scan_line K) tb ls = (t, b)"
  shows "(t = fst tb \<or> (\<forall>c. t = Some c \<longrightarrow> (\<exists>l \<in> set ls. token_line c l)))
    \<and> (b = snd tb \<or> (\<forall>c. b = Some c \<longrightarrow> (\<exists>l \<in> set ls. basic_line K c l)))"
  using assms
proof (induction ls arbitrary: tb)
  case (Cons l ls)
  obtain t1 b1 where 1: "ha_scan_line K tb l = (t1, b1)" by (cases "ha_scan_line K tb l")
  from Cons.IH [of "(t1, b1)"] Cons.prems 1 ha_scan_line_step [OF 1] show ?case by auto
qed auto

lemma sanitize_lines_shape: "sanitize_lines h c = [] \<or> (\<exists>b. sanitize_lines h c = b @ CRLF)"
proof (induction h c rule: sanitize_lines.induct)
  case (1 h c)
  show ?case
  proof (cases "find_sub CRLF c")
    case None
    then show ?thesis by (subst (1 2) sanitize_lines.simps) simp
  next
    case (Some pos)
    let ?line = "if named_line h (take pos c) then [] else take pos c @ CRLF"
    have "sanitize_lines h c = ?line @ sanitize_lines h (drop (pos + 2) c)"
      using Some by (subst sanitize_lines.simps) (simp add: Let_def)
    with 1 [OF Some refl] show ?thesis by (auto simp flip: append_assoc)
  qed
qed

lemma find_sub_first:
  assumes "\<And>i. i < length a \<Longrightarrow> \<not> starts_with p (drop i (a @ p @ b))"
  shows "find_sub p (a @ p @ b) = Some (length a)"
  using assms
proof (induction a)
  case Nil
  then show ?case by (cases "p @ b") (simp, metis append_Nil find_sub.simps(2) list.size(3) starts_with_append)
next
  case (Cons c a)
  have "\<not> starts_with p (c # a @ p @ b)" using Cons.prems [of 0] by simp
  moreover have "find_sub p (a @ p @ b) = Some (length a)"
    by (rule Cons.IH) (use Cons.prems [of "Suc i" for i] in auto)
  ultimately show ?case by simp
qed

text \<open>A line without CRLF, followed by CRLF, ends at that CRLF.\<close>

lemma find_CRLF:
  assumes "\<not> contains_str CRLF l"
  shows "find_sub CRLF (l @ CRLF @ r) = Some (length l)"
proof (rule find_sub_first)
  fix i assume i: "i < length l"
  show "\<not> starts_with CRLF (drop i (l @ CRLF @ r))"
  proof
    assume "starts_with CRLF (drop i (l @ CRLF @ r))"
    then obtain t where t: "drop i l @ CRLF @ r = CRLF @ t" using i by (auto simp: starts_with_iff)
    from i obtain c d where cd: "drop i l = c # d" by (cases "drop i l") auto
    show False
    proof (cases d)
      case Nil
      with t cd show False by (simp add: CRLF_def)
    next
      case (Cons e d')
      with t cd have "l = take i l @ CRLF @ d'" by (metis CRLF_def append_Cons append_Nil append_take_drop_id list.inject)
      with assms show False unfolding contains_str_iff by blast
    qed
  qed
qed

lemma sanitize_lines_Cons:
  assumes "\<not> contains_str CRLF l"
  shows "sanitize_lines h (l @ CRLF @ r) = (if named_line h l then [] else l @ CRLF) @ sanitize_lines h r"
  using find_CRLF [OF assms, of r]
  by (subst sanitize_lines.simps) (simp add: CRLF_def)

lemma sanitize_lines_last:
  assumes "\<not> contains_str CRLF l" "l \<noteq> []"
  shows "sanitize_lines h l = (if named_line h l then [] else l @ CRLF)"
proof -
  have "find_sub CRLF l = None" using assms(1) by (simp add: contains_str_def)
  then show ?thesis using assms(2) by (subst sanitize_lines.simps) simp
qed

text \<open>Lines joined by CRLF.\<close>

fun join_crlf :: "string list \<Rightarrow> string" where
  "join_crlf [] = []"
| "join_crlf [l] = l"
| "join_crlf (l # ls) = l @ CRLF @ join_crlf ls"

lemma sanitize_join:
  assumes "\<And>l. l \<in> set ls \<Longrightarrow> \<not> contains_str CRLF l" "ls \<noteq> []" "last ls \<noteq> []"
  shows "sanitize_lines h (join_crlf ls) = concat (map (\<lambda>l. l @ CRLF) (filter (\<lambda>l. \<not> named_line h l) ls))"
  using assms
proof (induction ls rule: join_crlf.induct)
  case (2 l)
  then show ?case by (simp add: sanitize_lines_last)
next
  case (3 l l' ls)
  then show ?case by (simp add: sanitize_lines_Cons)
qed simp

section \<open>Tickets at the receiver\<close>

lemma trim_str_space: "trim_str (CHR '' '' # s) = trim_str s"
proof -
  have c: "char_of (9::nat) \<noteq> CHR '' ''" "char_of (10::nat) \<noteq> CHR '' ''" "char_of (11::nat) \<noteq> CHR '' ''"
    "char_of (12::nat) \<noteq> CHR '' ''" "char_of (13::nat) \<noteq> CHR '' ''" "char_of (32::nat) = CHR '' ''"
    by code_simp+
  have "strip_any ws_encodings (CHR '' '' # s) = Some s" unfolding ws_encodings_def by (simp add: c)
  then have "trim_left ws_encodings (CHR '' '' # s) = trim_left ws_encodings s"
    by (subst trim_left.simps) simp
  then show ?thesis by (simp add: trim_str_def trim_start_def)
qed

lemma created_ticket:
  assumes "hex_law K" "trim_start n = n" "create_ticket K now key n = Inr t"
  shows "t \<noteq> []" "trim_str t = t" "graphic (last t)" "char_of (10::nat) \<notin> set t"
proof -
  from assms(3) obtain u where san: "sanitize_node_id n = Inr u" and t: "t = create_ticket_at K key n now"
    by (auto simp: create_ticket_def split: sum.splits if_splits)
  let ?mac = "hex_encode K (hmac_sha256 K key (ticket_payload n now))"
  have n: "n \<noteq> []" "char_of (10::nat) \<notin> set n" using san by (auto simp: sanitize_node_id_Inr)
  have d: "t = n @ CHR ''|'' # show_nat now @ CHR ''|'' # ?mac"
    by (simp add: t create_ticket_at_def ticket_payload_def)
  then show "t \<noteq> []" by simp
  show "trim_str t = t" using trim_ticket [OF assms(1,2) n(1)] by (simp add: t)
  have mac: "\<forall>c \<in> set ?mac. graphic c" using assms(1) unfolding hex_law_def by (metis hex_char_graphic)
  then show "graphic (last t)" unfolding d by (cases ?mac rule: rev_cases) auto
  have g: "\<not> graphic (char_of (10::nat))" by (simp add: graphic_def)
  have "char_of (10::nat) \<notin> set ?mac" using mac g by blast
  moreover have "char_of (10::nat) \<notin> set (show_nat now)" using show_nat_digits digit_graphic g by blast
  moreover have "char_of (10::nat) \<noteq> CHR ''|''" using g bar_graphic by metis
  ultimately show "char_of (10::nat) \<notin> set t" unfolding d using n(2) by simp
qed

lemma scan_ticket_line:
  assumes "trim_str t = t" "graphic (last t)" "t \<noteq> []"
  shows "scan_line K h (CLUSTER_TICKET_HEADER @ '': '' @ t) = h\<lparr> ch_ticket := Some t \<rparr>"
proof -
  let ?l = "CLUSTER_TICKET_HEADER @ '': '' @ t"
  have "trim_str ?l = ?l"
  proof -
    have "trim_start CLUSTER_TICKET_HEADER = CLUSTER_TICKET_HEADER" "CLUSTER_TICKET_HEADER \<noteq> []" "graphic (CHR '':'')"
      by code_simp+
    then show ?thesis
      using trim_str_append [of CLUSTER_TICKET_HEADER "CHR '':''" "CHR '' '' # t"] assms(2,3) by simp
  qed
  moreover have "to_ascii_lowercase ?l = CLUSTER_TICKET_HEADER @ '': '' @ to_ascii_lowercase t"
  proof -
    have "to_ascii_lowercase (CLUSTER_TICKET_HEADER @ '': '') = CLUSTER_TICKET_HEADER @ '': ''" by code_simp
    then show ?thesis by (metis append_assoc to_ascii_lowercase_append)
  qed
  moreover have "split_once (CHR '':'') ?l = Some (CLUSTER_TICKET_HEADER, CHR '' '' # t)"
    by (simp add: CLUSTER_TICKET_HEADER_def)
  ultimately show ?thesis
    using assms(1) trim_str_space [of t]
    by (simp add: scan_line_def Let_def CLUSTER_TICKET_HEADER_def starts_with_def)
qed

lemma chomp_cr_snoc: "chomp_cr (s @ [char_of (13::nat)]) = s"
proof -
  have "strip_suffix [char_of (13::nat)] (s @ [char_of (13::nat)]) = Some s" by (simp only: strip_suffix_Some_iff)
  then show ?thesis by (simp only: chomp_cr_def option.case)
qed

lemma scan_injected:
  assumes "trim_str t = t" "graphic (last t)" "t \<noteq> []" "char_of (10::nat) \<notin> set t"
  shows "ch_ticket (scan_headers K (sanitize_and_inject_ticket raw CLUSTER_TICKET_HEADER (Some t))) = Some t"
proof -
  let ?b = "sanitize_lines CLUSTER_TICKET_HEADER raw" and ?l = "CLUSTER_TICKET_HEADER @ '': '' @ t"
  have out: "sanitize_and_inject_ticket raw CLUSTER_TICKET_HEADER (Some t)
      = (?b @ ?l @ [char_of (13::nat)]) @ char_of (10::nat) # [char_of (13::nat), char_of (10::nat)]"
    by (simp add: sanitize_and_inject_ticket_def CRLF_def)
  have no_lf: "char_of (10::nat) \<notin> set (?l @ [char_of (13::nat)])"
  proof -
    have "char_of (10::nat) \<notin> set (CLUSTER_TICKET_HEADER @ '': '' @ [char_of (13::nat)])" by code_simp
    with assms(4) show ?thesis by auto
  qed
  have chomp: "chomp_cr (?l @ [char_of (13::nat)]) = ?l"
    by (rule chomp_cr_snoc)
  obtain ls where ls: "map chomp_cr (split_on (char_of (10::nat)) (?b @ ?l @ [char_of (13::nat)])) = ls @ [?l]"
  proof (cases "?b = []")
    case True
    with no_lf chomp that [of "[]"] show ?thesis by simp
  next
    case False
    with sanitize_lines_shape obtain b where "?b = b @ CRLF" by blast
    then have eq: "?b @ ?l @ [char_of (13::nat)] = (b @ [char_of (13::nat)]) @ char_of (10::nat) # ?l @ [char_of (13::nat)]"
      by (simp add: CRLF_def)
    have "split_on (char_of (10::nat)) (?b @ ?l @ [char_of (13::nat)])
        = split_on (char_of (10::nat)) (b @ [char_of (13::nat)]) @ [?l @ [char_of (13::nat)]]"
      unfolding eq split_on_append_sep split_on_no_sep [OF no_lf] by simp
    with chomp that show ?thesis by simp
  qed
  have "str_lines [char_of (13::nat), char_of (10::nat)] = [[]]" by code_simp
  then have "str_lines (sanitize_and_inject_ticket raw CLUSTER_TICKET_HEADER (Some t)) = ls @ [?l, []]"
    unfolding out str_lines_append ls by simp
  moreover have "scan_line K h [] = h" for h
    by (simp add: scan_line_def starts_with_def CLUSTER_TICKET_HEADER_def to_ascii_lowercase_def)
  ultimately show ?thesis
    using scan_ticket_line [OF assms(1-3)] by (simp add: scan_headers_def)
qed

lemma client_request_allowed_sound:
  assumes "client_request_allowed K f peer raw"
  shows "case ha_client_token f of
      None \<Rightarrow> ip_is_loopback peer \<and> ha_allow_loopback f
    | Some tok \<Rightarrow> \<exists>l \<in> set (split_on (char_of (10::nat)) raw). token_line tok l \<or> basic_line K tok l"
proof (cases "ha_client_token f")
  case None
  with assms show ?thesis by (simp add: client_request_allowed_def)
next
  case (Some tok)
  obtain t b where tb: "foldl (ha_scan_line K) (None, None) (split_on (char_of (10::nat)) raw) = (t, b)" by fastforce
  with assms Some have "t = Some tok \<or> b = Some tok"
    by (auto simp: client_request_allowed_def split: option.splits)
  with ha_scan_found [OF tb] Some show ?thesis by auto
qed

lemma ha_pick_upstream_target:
  "ha_pick_upstream lo ro f = (Some (target, remote), f') \<Longrightarrow>
   (if remote then target \<in> set (ha_remotes f) \<and> ro target else target = ha_local_target f \<and> ha_local_healthy f \<and> lo)
   \<and> ha_cluster_auth_key f' = ha_cluster_auth_key f \<and> ha_node_id f' = ha_node_id f"
  by (auto simp: ha_pick_upstream_def Let_def find_Some_iff split: if_splits)

lemma ha_forward_parts:
  assumes "ha_handle_conn K now lo ro peer evs f = (HaForward target remote out leftover evs', f')"
  obtains raw where "raw @ CRLF @ CRLF @ leftover @ stream_bytes evs' = stream_bytes evs"
    "client_request_allowed K f peer raw" "ha_pick_upstream lo ro f = (Some (target, remote), f')"
    "out = sanitize_and_inject_ticket raw CLUSTER_TICKET_HEADER (ha_ticket K now remote f')"
proof (cases "ha_read_head [] evs")
  case (HaHead raw left evs1)
  with assms have "client_request_allowed K f peer raw" "ha_pick_upstream lo ro f = (Some (target, remote), f')"
    "out = sanitize_and_inject_ticket raw CLUSTER_TICKET_HEADER (ha_ticket K now remote f')" "left = leftover" "evs1 = evs'"
    by (auto simp: ha_handle_conn_def split: if_splits prod.splits option.splits)
  with ha_read_head_HaHead [OF HaHead] that show ?thesis by simp
qed (use assms in \<open>auto simp: ha_handle_conn_def\<close>)

text \<open>The events since the last successful probe.\<close>

definition since_ok :: "ha_event list \<Rightarrow> ha_event list" where
  "since_ok es = takeWhile (\<lambda>e. e \<noteq> Probe True) es"

definition failed_probes :: "ha_event list \<Rightarrow> nat" where
  "failed_probes es = length (filter (\<lambda>e. e = Probe False) (since_ok es))"

definition failed_picks :: "ha_event list \<Rightarrow> bool" where
  "failed_picks es = list_ex (\<lambda>e. case e of Pick False _ \<Rightarrow> True | _ \<Rightarrow> False) (since_ok es)"

lemma since_ok_simps [simp]:
  "failed_probes [] = 0" "failed_probes (Probe True # es) = 0" "failed_probes (Probe False # es) = Suc (failed_probes es)"
  "failed_probes (Pick lo ro # es) = failed_probes es" "failed_probes (UpdateRemotes rs # es) = failed_probes es"
  "\<not> failed_picks []" "\<not> failed_picks (Probe True # es)" "failed_picks (Probe False # es) = failed_picks es"
  "failed_picks (Pick lo ro # es) \<longleftrightarrow> \<not> lo \<or> failed_picks es" "failed_picks (UpdateRemotes rs # es) = failed_picks es"
  by (auto simp: failed_probes_def failed_picks_def since_ok_def split: bool.splits)

lemma ha_run_health:
  assumes "ha_local_healthy f"
  shows "(ha_local_healthy (snd (ha_run f es)) \<longleftrightarrow> failed_probes es < 2 \<and> \<not> failed_picks es)
    \<and> (failed_probes es < 2 \<longrightarrow> fst (ha_run f es) = int (failed_probes es))"
proof (induction es)
  case Nil
  show ?case using assms by simp
next
  case (Cons e es)
  obtain n g where ng: "ha_run f es = (n, g)" by fastforce
  show ?case
  proof (cases e)
    case (Probe ok)
    with Cons ng show ?thesis
      by (cases ok) (auto simp: health_probe_def Let_def)
  next
    case (Pick lo ro)
    with Cons ng show ?thesis
      by (cases lo) (auto simp: ha_pick_upstream_def Let_def)
  next
    case (UpdateRemotes rs)
    with Cons ng show ?thesis
      by (auto simp: update_remotes_def)
  qed
qed

section \<open>Properties\<close>


definition demo_ha :: ha_forwarder where
  "demo_ha = with_client_token ''tok'' (with_cluster_identity ''key'' ''node-1''
     (ha_new (V4 (Ipv4 127 0 0 1), 1080) (V4 (Ipv4 127 0 0 1), 1081) [(V4 (Ipv4 10 0 0 2), 1080)]))"

definition demo_ha_events :: "read_event list" where
  "demo_ha_events = [Bytes (''CONNECT a:443 HTTP/1.1'' @ CRLF @ ''X-Pony-Token: tok'' @ CRLF), Bytes (CRLF @ ''hi'')]"

definition demo_ha_out :: string where
  "demo_ha_out = sanitize_and_inject_ticket (''CONNECT a:443 HTTP/1.1'' @ CRLF @ ''X-Pony-Token: tok'')
     CLUSTER_TICKET_HEADER (Some (create_ticket_at demo ''key'' ''node-1'' 1000))"

lemma demo_ha_run:
  "ha_handle_conn demo 1000 False (\<lambda>_. True) (V4 (Ipv4 192 168 0 9)) demo_ha_events demo_ha
     = (HaForward (V4 (Ipv4 10 0 0 2), 1080) True demo_ha_out ''hi'' [], demo_ha\<lparr> ha_local_healthy := False \<rparr>)"
  by code_simp


text \<open>A request handed to a remote node of a configured cluster is accepted there: the head
  it sends authenticates at a node that has the same cluster key, within two minutes on the
  receiver's clock, whatever ticket lines, repeated, misspelt or hidden behind bare line
  feeds, the client put into its own head.\<close>

theorem forwarded_ticket_accepted:
  assumes "hex_law K" "now \<le> u64_max" "trim_start (ha_node_id f) = ha_node_id f"
    and "create_ticket K now (ha_cluster_auth_key f) (ha_node_id f) = Inr ticket"
    and "ha_handle_conn K now local_ok remote_ok peer evs f = (HaForward target True out leftover evs', f')"
    and "abs_diff later now \<le> TICKET_MAX_AGE_SECS"
  shows "fst (verify_connect_credentials K later (Some (ha_cluster_auth_key f)) out s)"
proof -
  obtain raw where r: "ha_pick_upstream local_ok remote_ok f = (Some (target, True), f')"
    "out = sanitize_and_inject_ticket raw CLUSTER_TICKET_HEADER (ha_ticket K now True f')"
    using assms(5) by (rule ha_forward_parts)
  have "ha_cluster_auth_key f \<noteq> []" "ha_node_id f \<noteq> []"
    using assms(4) by (auto simp: create_ticket_def sanitize_node_id_def split: if_splits)
  with ha_pick_upstream_target [OF r(1)] assms(4) have "ha_ticket K now True f' = Some ticket" by (simp add: ha_ticket_def)
  with r(2) have "ch_ticket (scan_headers K out) = Some ticket"
    using scan_injected created_ticket [OF assms(1,3,4)] by simp
  moreover have "verify_ticket K (ha_cluster_auth_key f) ticket later = Inr (ha_node_id f)"
    using verify_created_ticket [OF assms(1-4), of later] assms(6) by simp
  ultimately show ?thesis by (simp add: verify_connect_credentials_def ticket_is_ok_def Let_def)
qed

theorem forwarded_ticket_accepted_witness:
  "\<exists>s. fst (verify_connect_credentials demo 1100 (Some ''key'') demo_ha_out s)"
proof -
  have d: "ha_node_id demo_ha = ''node-1''" "ha_cluster_auth_key demo_ha = ''key''"
    by (simp_all add: demo_ha_def with_client_token_def with_cluster_identity_def)
  have t: "create_ticket demo 1000 (ha_cluster_auth_key demo_ha) (ha_node_id demo_ha)
      = Inr (create_ticket_at demo ''key'' ''node-1'' 1000)" unfolding d by code_simp
  have n: "trim_start (ha_node_id demo_ha) = ha_node_id demo_ha" unfolding d by code_simp
  have a: "abs_diff 1100 1000 \<le> TICKET_MAX_AGE_SECS" by (simp add: abs_diff_def TICKET_MAX_AGE_SECS_def)
  from forwarded_ticket_accepted [OF demo_laws(2) _ n t demo_ha_run a] d show ?thesis by auto
qed

text \<open>The head sent on consists of the lines of the client's head, in order and byte for
  byte, except those whose name, in any case and with blanks around it, is that of the
  ticket header; then the forwarder's own ticket line, if it has one; then the empty line.
  So of the CRLF-separated lines of the result none but the forwarder's is a ticket
  line.\<close>

theorem sanitize_exact:
  assumes "\<And>l. l \<in> set ls \<Longrightarrow> \<not> contains_str CRLF l" "ls \<noteq> []" "last ls \<noteq> []"
  shows "sanitize_and_inject_ticket (join_crlf ls) header_name ticket_val =
    concat (map (\<lambda>l. l @ CRLF) (filter (\<lambda>l. \<not> named_line header_name l) ls
      @ (case ticket_val of None \<Rightarrow> [] | Some t \<Rightarrow> [header_name @ '': '' @ t]) @ [[]]))"
  using sanitize_join [OF assms, of header_name]
  by (simp add: sanitize_and_inject_ticket_def split: option.splits)

theorem sanitize_exact_witness:
  "sanitize_and_inject_ticket (''GET /'' @ CRLF @ '' X-Pony-Cluster-Ticket : evil'' @ CRLF @ ''Host: a'')
     CLUSTER_TICKET_HEADER (Some ''T'')
   = ''GET /'' @ CRLF @ ''Host: a'' @ CRLF @ ''x-pony-cluster-ticket: T'' @ CRLF @ CRLF"
proof -
  let ?ls = "[''GET /'', '' X-Pony-Cluster-Ticket : evil'', ''Host: a'']"
  have "\<not> contains_str CRLF l" if "l \<in> set ?ls" for l
  proof -
    have "list_all (\<lambda>l. \<not> contains_str CRLF l) ?ls" by code_simp
    with that show ?thesis by (auto simp: list_all_iff)
  qed
  note e = sanitize_exact [of ?ls CLUSTER_TICKET_HEADER "Some ''T''", OF this]
  have "filter (\<lambda>l. \<not> named_line CLUSTER_TICKET_HEADER l) ?ls = [''GET /'', ''Host: a'']" by code_simp
  with e show ?thesis by (simp add: CLUSTER_TICKET_HEADER_def)
qed

text \<open>The local engine is tried exactly while, since its last successful probe (or the
  start), fewer than two probes and no request's own connection attempt have failed, in
  every interleaving of the prober with requests and changes of the node list; so one
  successful probe brings it back and two failures in a row take it out.\<close>

theorem ha_health_iff:
  "ha_local_healthy (snd (ha_run (ha_new listen_addr local_target remotes) es)) \<longleftrightarrow>
     failed_probes es < 2 \<and> \<not> failed_picks es"
  using ha_run_health [of "ha_new listen_addr local_target remotes" es] by (simp add: ha_new_def)

end
