(* ===== verification/EngineConnect.thy ===== *)
theory EngineConnect
  imports TunnelConnect HaForwarder
begin

text \<open>
  CONNECT requests at the engine (\<open>crates/engine/src/connect.rs\<close>), a second implementation
  of the same module: it also accepts cluster tickets, reads the request line and the
  configuration in its own way, and relays without time limits.
\<close>

section \<open>Configuration\<close>

definition engine_tunnel_build :: "string \<Rightarrow> string \<Rightarrow> string list option \<Rightarrow> tunnel_config" where
  "engine_tunnel_build gate_url token custom_allowlist =
     \<lparr> tc_gate_url = trim_str gate_url, tc_token = trim_str token,
       tc_allowlist = (case custom_allowlist of
                         None \<Rightarrow> default_entries
                       | Some custom \<Rightarrow> foldl allowlist_add default_entries custom) \<rparr>"

definition engine_gate_url :: "string \<Rightarrow> string" where
  "engine_gate_url w =
     (let clean = trim_end_matches (CHR ''/'') (trim_start_str ''http://'' (trim_start_str ''https://'' w));
          derived = ''wss://'' @ clean @ ''/ws''
      in if starts_with ''wss://edge.example.com'' derived \<or> starts_with ''ws://edge.example.com'' derived
         then GATE_WS_URL else derived)"

definition engine_from_pool_config_and_env ::
  "string option \<Rightarrow> string option \<Rightarrow> tunnel_env \<Rightarrow> tunnel_config option" where
  "engine_from_pool_config_and_env worker_url worker_secret env =
     (case (or_else (te_gate_url env) (map_option engine_gate_url worker_url),
            or_else (te_token env) worker_secret) of
        (Some u, Some t) \<Rightarrow>
          Some (engine_tunnel_build u t
                  (map_option (\<lambda>s. map trim_str (split_on (CHR '','') s)) (te_allowlist env)))
      | _ \<Rightarrow> None)"

section \<open>The target of a request\<close>

definition engine_split_host_port :: "string \<Rightarrow> (string \<times> nat) option" where
  "engine_split_host_port authority =
     (case strip_prefix ''['' authority of
        Some stripped \<Rightarrow>
          (case split_once (CHR '']'') stripped of
             None \<Rightarrow> None
           | Some (h, rest) \<Rightarrow>
               (case strip_prefix '':'' rest of
                  None \<Rightarrow> None
                | Some p \<Rightarrow> map_option (Pair h) (parse_uint 10 65535 p)))
      | None \<Rightarrow>
          (case rsplit_once (CHR '':'') authority of
             None \<Rightarrow> None
           | Some (h, p) \<Rightarrow>
               (case parse_uint 10 65535 p of
                  None \<Rightarrow> None
                | Some port \<Rightarrow>
                    (let host = normalize_host h in if host = [] then None else Some (host, port)))))"

definition engine_head_target :: "string \<Rightarrow> (string \<times> nat) option" where
  "engine_head_target head =
     (case str_lines head of
        [] \<Rightarrow> None
      | l # _ \<Rightarrow>
          (case split_whitespace (trim_str l) of
             method # target # _ \<Rightarrow>
               if eq_ignore_ascii_case method ''CONNECT'' then engine_split_host_port target else None
           | _ \<Rightarrow> None))"

section \<open>Opening a tunnel\<close>

fun connect_any :: "ws_client \<Rightarrow> string \<Rightarrow> string list \<Rightarrow> string option \<Rightarrow> establish_error + nat" where
  "connect_any C token [] last_err =
     Inl (Network (case last_err of Some e \<Rightarrow> e | None \<Rightarrow> ''no valid gate endpoints configured''))"
| "connect_any C token (endpoint # endpoints) last_err =
     (case connect_ws C endpoint token of
        Inr ws \<Rightarrow> Inr ws
      | Inl e \<Rightarrow> connect_any C token endpoints (Some e))"

definition engine_connect_ws :: "ws_client \<Rightarrow> tunnel_config \<Rightarrow> establish_error + nat" where
  "engine_connect_ws C cfg = connect_any C (tc_token cfg) (split_gate_urls (tc_gate_url cfg)) None"

definition establish :: "ws_client \<Rightarrow> ws_peer \<Rightarrow> tunnel_config \<Rightarrow> string \<Rightarrow> nat \<Rightarrow> establish_error + nat \<times> string" where
  "establish C P cfg host port =
     establish_with_endpoints C P cfg (split_gate_urls (tc_gate_url cfg)) host port"

text \<open>The attempts differ from the server's in one point: there is no pause after an attempt
  that had a pooled session.\<close>

fun engine_attempt_loop ::
  "(nat \<Rightarrow> ws_client \<times> ws_peer) \<Rightarrow> (nat \<Rightarrow> nat) \<Rightarrow> tunnel_config \<Rightarrow> string list \<Rightarrow> string \<Rightarrow> nat
   \<Rightarrow> nat \<Rightarrow> nat \<Rightarrow> (nat \<times> string) option \<Rightarrow> nat list \<Rightarrow> (nat \<times> string) option \<times> nat list" where
  "engine_attempt_loop W rnd cfg endpoints host port attempt 0 pooled sleeps = (None, sleeps)"
| "engine_attempt_loop W rnd cfg endpoints host port attempt (Suc n) pooled sleeps =
     (case attempt_once (W attempt) cfg endpoints host port pooled of
        Inr r \<Rightarrow> (Some r, sleeps)
      | Inl e \<Rightarrow>
          (case e of
             Denied _ \<Rightarrow> (None, sleeps)
           | Network _ \<Rightarrow>
               if attempt + 1 \<ge> MAX_ATTEMPTS then (None, sleeps)
               else engine_attempt_loop W rnd cfg endpoints host port (attempt + 1) n None
                      (if pooled = None then sleeps @ [backoff attempt (rnd attempt)] else sleeps)))"

section \<open>A request\<close>

definition engine_open_tunnel ::
  "crypto \<Rightarrow> tunnel_env \<Rightarrow> connect_world \<Rightarrow> string \<Rightarrow> nat \<Rightarrow> string \<Rightarrow> tunnel_config \<Rightarrow> pool \<Rightarrow> connect_state
   \<Rightarrow> connect_outcome \<times> nat list \<times> connect_state" where
  "engine_open_tunnel K env W host port leftover cfg p st =
     (case ordered_gate_urls (te_conserve_vercel env) (tc_gate_url cfg) host (cs_counter st) of
        (ordered, counter) \<Rightarrow>
          (let st = st\<lparr> cs_counter := counter \<rparr> in
           case request_endpoints host ordered of
             None \<Rightarrow> (NoCompliantEgress502, [], st)
           | Some endpoints \<Rightarrow>
               (let (pooled, p') = (if may_use_pool host endpoints
                                    then checkout_ordered K (cw_instant W) cfg endpoints p else (None, p));
                    st = st\<lparr> cs_tunnel := Some (cfg, p') \<rparr>
                in case engine_attempt_loop (cw_attempts W) (cw_rnd W) cfg endpoints host port 0 MAX_ATTEMPTS pooled [] of
                     (Some (ws, u), sleeps) \<Rightarrow> (TunnelUp ws u leftover None, sleeps, st)
                   | (None, sleeps) \<Rightarrow> (TunnelFailed502, sleeps, st))))"

definition engine_auth :: "crypto \<Rightarrow> nat \<Rightarrow> string option \<Rightarrow> ip_addr \<Rightarrow> string \<Rightarrow> services \<Rightarrow> bool \<times> services" where
  "engine_auth K now cluster_auth_key client_ip head s =
     (if ip_is_loopback client_ip \<and> \<not> has_forwarded head then (True, s)
      else verify_connect_credentials K now cluster_auth_key head s)"

definition engine_handle_connect ::
  "crypto \<Rightarrow> gk_config \<Rightarrow> string option \<Rightarrow> tunnel_env \<Rightarrow> connect_world \<Rightarrow> ip_addr \<Rightarrow> string \<Rightarrow> string \<Rightarrow> connect_state
   \<Rightarrow> connect_outcome \<times> nat list \<times> connect_state" where
  "engine_handle_connect K gcfg cluster_auth_key env W client_ip head leftover st =
     (case gk_check (cw_instant W) client_ip (cs_records st) of
        (Inl _, m) \<Rightarrow> (Locked429, [], st\<lparr> cs_records := m \<rparr>)
      | (Inr _, m) \<Rightarrow>
          (case engine_auth K (cw_now W) cluster_auth_key client_ip head (cs_services st) of
             (False, sv) \<Rightarrow>
               (AuthRequired407, [], st\<lparr> cs_records := record_failure gcfg (cw_instant W) client_ip m, cs_services := sv \<rparr>)
           | (True, sv) \<Rightarrow>
               (let st = st\<lparr> cs_records := record_success client_ip m, cs_services := sv \<rparr> in
                case engine_head_target head of
                  None \<Rightarrow> (BadTarget400, [], st)
                | Some (host, port) \<Rightarrow>
                    (case cs_tunnel st of
                       None \<Rightarrow> (NotConfigured403, [], st)
                     | Some (cfg, p) \<Rightarrow>
                         if port \<noteq> 443 then (PortNotAllowed403, [], st)
                         else (case youtube_route env W host leftover of
                                 Some out \<Rightarrow> (out, [], st)
                               | None \<Rightarrow> engine_open_tunnel K env W host port leftover cfg p st)))))"

text \<open>The answers that differ from the server's.\<close>

fun engine_answer :: "connect_outcome \<Rightarrow> string" where
  \<open>engine_answer Locked429 = answer ''HTTP/1.1 429 Too Many Requests'' [] 59
     ''{"error":"ip_temporarily_locked_due_to_auth_failures"}''\<close>
| \<open>engine_answer AuthRequired407 = answer ''HTTP/1.1 407 Proxy Authentication Required''
     [''proxy-authenticate: Basic realm="Pony Proxy"''] 43 ''{"error":"proxy_authentication_required"}''\<close>
| \<open>engine_answer out = connect_answer out\<close>

section \<open>Lemmas\<close>

fun unlimited :: "connect_outcome \<Rightarrow> connect_outcome" where
  "unlimited (TunnelUp ws u first limits) = TunnelUp ws u first None"
| "unlimited out = out"

lemma engine_attempt_loop_same:
  "fst (engine_attempt_loop W rnd cfg eps host port k n pooled sl) = fst (attempt_loop W rnd cfg eps host port k n pooled sl')"
  by (induction n arbitrary: k pooled sl sl') (auto split: sum.splits establish_error.splits)

lemma engine_attempt_loop_sleeps:
  "\<exists>xs ys. snd (engine_attempt_loop W rnd cfg eps host port k n pooled sl) = sl @ xs
     \<and> snd (attempt_loop W rnd cfg eps host port k n pooled sl') = sl' @ ys \<and> sum_list xs \<le> sum_list ys"
proof (induction n arbitrary: k pooled sl sl')
  case (Suc n)
  show ?case
  proof (cases "\<exists>e. attempt_once (W k) cfg eps host port pooled = Inl (Network e) \<and> k + 1 < MAX_ATTEMPTS")
    case False
    then show ?thesis by (auto split: sum.splits establish_error.splits)
  next
    case True
    let ?b = "backoff k (rnd k)" and ?sl = "if pooled = None then sl @ [backoff k (rnd k)] else sl"
    from Suc.IH [of "k + 1" None ?sl "sl' @ [?b]"] obtain xs ys where
      "snd (engine_attempt_loop W rnd cfg eps host port (k + 1) n None ?sl) = ?sl @ xs"
      "snd (attempt_loop W rnd cfg eps host port (k + 1) n None (sl' @ [?b])) = (sl' @ [?b]) @ ys" "sum_list xs \<le> sum_list ys"
      by blast
    then show ?thesis using True
      by (intro exI [of _ "(if pooled = None then [?b] else []) @ xs"] exI [of _ "?b # ys"]) auto
  qed
qed simp

lemma engine_open_tunnel_same:
  assumes "open_tunnel K env W host port leftover cfg p st = (out, sl, st')"
    "engine_open_tunnel K env W host port leftover cfg p st = (out2, sl2, st2)"
  shows "out2 = unlimited out \<and> st2 = st' \<and> sum_list sl2 \<le> sum_list sl"
proof -
  obtain ord c where o: "ordered_gate_urls (te_conserve_vercel env) (tc_gate_url cfg) host (cs_counter st) = (ord, c)" by fastforce
  show ?thesis
  proof (cases "request_endpoints host ord")
    case None
    with assms o show ?thesis by (auto simp: open_tunnel_def engine_open_tunnel_def)
  next
    case (Some eps)
    obtain pooled p' where pp: "(if may_use_pool host eps then checkout_ordered K (cw_instant W) cfg eps p else (None, p)) = (pooled, p')"
      by fastforce
    let ?l = "attempt_loop (cw_attempts W) (cw_rnd W) cfg eps host port 0 MAX_ATTEMPTS pooled []"
    let ?e = "engine_attempt_loop (cw_attempts W) (cw_rnd W) cfg eps host port 0 MAX_ATTEMPTS pooled []"
    obtain r sa where l: "?l = (r, sa)" by fastforce
    moreover obtain sb where e: "?e = (r, sb)" using engine_attempt_loop_same l by (metis fst_conv prod.collapse)
    ultimately have "sum_list sb \<le> sum_list sa"
      using engine_attempt_loop_sleeps [of "cw_attempts W" "cw_rnd W" cfg eps host port 0 MAX_ATTEMPTS pooled "[]" "[]"] by auto
    with assms o Some pp l e show ?thesis
      by (cases r) (auto simp: open_tunnel_def engine_open_tunnel_def Let_def)
  qed
qed

lemma youtube_route_unlimited:
  "youtube_route env W host leftover = Some out \<Longrightarrow> unlimited out = out"
  by (auto simp: youtube_route_def Let_def split: if_splits option.splits sum.splits prod.splits)

lemma open_tunnel_records:
  "engine_open_tunnel K env W host port leftover cfg p st = (out, sleeps, st')
   \<Longrightarrow> cs_records st' = cs_records st \<and> out \<noteq> Locked429 \<and> out \<noteq> AuthRequired407"
  by (auto simp: engine_open_tunnel_def Let_def split: prod.splits option.splits if_splits)

text \<open>Once authentication has succeeded, the outcome is no refusal for lack of it and the
  address starts afresh.\<close>

lemma engine_after_auth:
  assumes "engine_handle_connect K gcfg key env W ip head leftover st = (out, sleeps, st')"
    and "gk_check (cw_instant W) ip (cs_records st) = (Inr (), m)" "engine_auth K (cw_now W) key ip head (cs_services st) = (True, sv)"
  shows "out \<noteq> Locked429 \<and> out \<noteq> AuthRequired407 \<and> cs_records st' ip = None"
proof -
  let ?st = "st\<lparr> cs_records := record_success ip m, cs_services := sv \<rparr>"
  have y: "youtube_route env W host leftover = Some out' \<Longrightarrow> out' \<noteq> Locked429 \<and> out' \<noteq> AuthRequired407" for host out'
    by (auto simp: youtube_route_def Let_def split: if_splits option.splits sum.splits prod.splits)
  consider "out = BadTarget400 \<or> out = NotConfigured403 \<or> out = PortNotAllowed403" "st' = ?st"
    | host where "youtube_route env W host leftover = Some out" "st' = ?st"
    | host port cfg p where "engine_open_tunnel K env W host port leftover cfg p ?st = (out, sleeps, st')"
    using assms by (auto simp: engine_handle_connect_def Let_def split: option.splits prod.splits if_splits)
  then show ?thesis
    by cases (auto dest!: open_tunnel_records y simp: record_success_def)
qed

section \<open>Properties\<close>

text \<open>C24: the two implementations agree.  Without a cluster key, and on a request whose first line
  both read alike, the engine answers as the server does and leaves the same state; it only
  pauses less between attempts and sets no time limits on the relay.\<close>

theorem engine_agrees_with_server:
  assumes "engine_head_target head = connect_head_target head"
    and "handle_connect_raw K gcfg env W client_ip head leftover st = (out, sleeps, st')"
  shows "\<exists>sleeps2. engine_handle_connect K gcfg None env W client_ip head leftover st = (unlimited out, sleeps2, st')
    \<and> sum_list sleeps2 \<le> sum_list sleeps"
proof -
  obtain g m where g: "gk_check (cw_instant W) client_ip (cs_records st) = (g, m)" by fastforce
  obtain b sv where b: "connect_auth_allowed K (cw_now W) client_ip head (cs_services st) = (b, sv)" by fastforce
  then have b2: "engine_auth K (cw_now W) None client_ip head (cs_services st) = (b, sv)"
    by (simp add: engine_auth_def connect_auth_allowed_def)
  let ?st = "st\<lparr> cs_records := record_success client_ip m, cs_services := sv \<rparr>"
  show ?thesis
  proof (cases "g = Inr () \<and> b")
    case False
    with assms(2) g b b2 show ?thesis
      by (cases g; cases b) (auto simp: handle_connect_raw_def engine_handle_connect_def)
  next
    case gb: True
    note d = handle_connect_raw_def engine_handle_connect_def connect_target_stage_def assms(1) g b b2 gb
    show ?thesis
    proof (cases "\<exists>host cfg p. connect_head_target head = Some (host, 443) \<and> cs_tunnel st = Some (cfg, p)
        \<and> youtube_route env W host leftover = None")
      case False
      with assms(2) show ?thesis
        by (cases "connect_head_target head"; cases "cs_tunnel st"; cases "youtube_route env W (fst (the (connect_head_target head))) leftover")
          (auto simp: d Let_def intro: youtube_route_unlimited [symmetric] split: if_splits)
    next
      case True
      then obtain host cfg p where t: "connect_head_target head = Some (host, 443)" "cs_tunnel st = Some (cfg, p)"
        "youtube_route env W host leftover = None" by blast
      obtain out2 sl2 st2 where e: "engine_open_tunnel K env W host 443 leftover cfg p ?st = (out2, sl2, st2)" by (metis prod_cases3)
      have "open_tunnel K env W host 443 leftover cfg p ?st = (out, sleeps, st')" using assms(2) t by (simp add: d)
      from engine_open_tunnel_same [OF this e] e t show ?thesis by (auto simp: d)
    qed
  qed
qed

theorem engine_agrees_with_server_witness:
  "\<forall>sv.
     fst (engine_handle_connect demo gk_config_default None demo_tunnel_env demo_world (V4 (Ipv4 127 0 0 1))
            demo_connect_head ''hi'' (demo_connect_state sv))
     = unlimited (fst (handle_connect_raw demo gk_config_default demo_tunnel_env demo_world (V4 (Ipv4 127 0 0 1))
            demo_connect_head ''hi'' (demo_connect_state sv)))"
proof
  fix sv
  let ?r = "handle_connect_raw demo gk_config_default demo_tunnel_env demo_world (V4 (Ipv4 127 0 0 1))
     demo_connect_head ''hi'' (demo_connect_state sv)"
  obtain out sleeps st' where r: "?r = (out, sleeps, st')" by (metis prod_cases3)
  have "engine_head_target demo_connect_head = connect_head_target demo_connect_head" by code_simp
  from engine_agrees_with_server [OF this r] r
  show "fst (engine_handle_connect demo gk_config_default None demo_tunnel_env demo_world (V4 (Ipv4 127 0 0 1))
            demo_connect_head ''hi'' (demo_connect_state sv)) = unlimited (fst ?r)"
    by auto
qed

end
