(* ===== verification/EngineGateway.thy ===== *)
theory EngineGateway
  imports Gateway EngineConnect
begin

unbundle bit_operations_syntax

text \<open>
  The embedded engine: its HTTP data plane (\<open>crates/engine/src/gateway.rs\<close> and \<open>auth.rs\<close>), the
  upstream in its two modes (\<open>upstream.rs\<close>) and the connections (\<open>server.rs\<close>).  Requests and
  answers are those of the server's gateway.
\<close>

section \<open>Credentials\<close>

datatype auth_subject = SubjUser int string | SubjToken int string | SubjCluster int string

fun subject_id :: "auth_subject \<Rightarrow> int" where
  "subject_id (SubjUser i _) = i"
| "subject_id (SubjToken i _) = i"
| "subject_id (SubjCluster i _) = i"

record engine_context =
  ex_subject :: auth_subject
  ex_route :: string
  ex_path_query :: string

definition extract_credentials :: "crypto \<Rightarrow> headers \<Rightarrow> (string \<times> string) option \<times> string option" where
  "extract_credentials K hs =
     ((case or_else (map_of hs ''proxy-authorization'') (map_of hs ''authorization'') of
         None \<Rightarrow> None
       | Some v \<Rightarrow> if visible_ascii v then parse_basic_auth K v else None),
      (case header_str X_PONY_TOKEN hs of
         None \<Rightarrow> None
       | Some v \<Rightarrow> if trim_str v \<noteq> [] then Some (trim_str v) else None))"

definition engine_split_first_segment :: "string \<Rightarrow> string \<times> string" where
  "engine_split_first_segment path =
     (let clean = trim_start_char (CHR ''/'') path in
      case split_once (CHR ''/'') clean of Some p \<Rightarrow> p | None \<Rightarrow> (clean, []))"

text \<open>The wrapping product and sum of \<open>i64\<close>, and the mask that keeps the result positive.\<close>

definition hash_node_id :: "string \<Rightarrow> int" where
  "hash_node_id node_id =
     uint (foldl (\<lambda>h b. h * 31 + of_nat (byte b)) (0 :: 64 word) node_id AND 0x7FFFFFFF)"

section \<open>Authentication\<close>

definition proxy_auth_required :: http_response where
  \<open>proxy_auth_required =
     \<lparr> rs_status = 407,
       rs_headers = [(''proxy-authenticate'', ''Basic realm="Pony Proxy"''), (''content-type'', ''application/json'')],
       rs_body = ''{"error":"proxy_authentication_required"}'' \<rparr>\<close>

definition rate_limited_lockout :: http_response where
  \<open>rate_limited_lockout = json_response 429 ''{"error":"ip_temporarily_locked_due_to_auth_failures"}''\<close>

definition engine_public_path :: "string \<Rightarrow> bool" where
  "engine_public_path path \<longleftrightarrow>
     path = ''/'' \<or> path = ''/__pproxy_health'' \<or> path = ''/clash'' \<or> path = ''/clash.yaml'' \<or> starts_with ''/dsk/'' path"

definition has_forwarded_headers :: "headers \<Rightarrow> bool" where
  "has_forwarded_headers hs \<longleftrightarrow>
     contains_key ''x-forwarded-for'' hs \<or> contains_key ''x-real-ip'' hs \<or> contains_key ''forwarded'' hs"

text \<open>The node a ticket header vouches for.\<close>

definition relay_node :: "crypto \<Rightarrow> nat \<Rightarrow> string option \<Rightarrow> headers \<Rightarrow> string option" where
  "relay_node K now cluster_auth_key hs =
     (case cluster_auth_key of
        None \<Rightarrow> None
      | Some key \<Rightarrow>
          (case header_str CLUSTER_TICKET_HEADER hs of
             None \<Rightarrow> None
           | Some ticket \<Rightarrow> (case verify_ticket K key ticket now of Inr node_id \<Rightarrow> Some node_id | Inl _ \<Rightarrow> None)))"

text \<open>How checking credentials ends: an answer at once, a context, or a failure.\<close>

datatype credential_result = AnswerNow http_response | Granted engine_context | Refused

definition token_context ::
  "crypto \<Rightarrow> nat \<Rightarrow> string \<Rightarrow> string \<Rightarrow> string \<Rightarrow> services \<Rightarrow> credential_result \<times> services" where
  "token_context K now plaintext route path_query s =
     (case verify K now plaintext (sv_tokens s) of
        (r, job, tokens) \<Rightarrow>
          ((case r of
              Inl _ \<Rightarrow> Refused
            | Inr row \<Rightarrow>
                if route = [] then Refused
                else Granted \<lparr> ex_subject = SubjToken (tk_id row) (tk_name row), ex_route = route, ex_path_query = path_query \<rparr>),
           token_checked job tokens s))"

definition user_context ::
  "crypto \<Rightarrow> nat \<Rightarrow> string \<Rightarrow> string \<Rightarrow> string \<Rightarrow> string \<Rightarrow> services \<Rightarrow> credential_result \<times> services" where
  "user_context K now username password route path_query s =
     (case sv_users s of
        None \<Rightarrow> (Refused, s)
      | Some users \<Rightarrow>
          (case verify_user K (as_i64 now) username password users of
             (r, job, users') \<Rightarrow>
               ((case r of
                   None \<Rightarrow> Refused
                 | Some user \<Rightarrow>
                     if route = [] then AnswerNow unauthorized
                     else Granted \<lparr> ex_subject = SubjUser (us_id user) (us_username user), ex_route = route, ex_path_query = path_query \<rparr>),
                s\<lparr> sv_users := Some users', sv_user_jobs := sv_user_jobs s @ (case job of None \<Rightarrow> [] | Some j \<Rightarrow> [j]) \<rparr>)))"

definition check_credentials ::
  "crypto \<Rightarrow> nat \<Rightarrow> gw_request \<Rightarrow> string \<Rightarrow> string \<Rightarrow> services \<Rightarrow> credential_result \<times> services" where
  "check_credentials K now req first_seg remaining s =
     (case extract_credentials K (gq_headers req) of
        (Some (username, password), _) \<Rightarrow>
          user_context K now username password first_seg (remaining @ query_suffix req) s
      | (None, token_header) \<Rightarrow>
          if starts_with TOKEN_PREFIX first_seg then
            (case engine_split_first_segment remaining of
               (route_name, sub_path) \<Rightarrow> token_context K now first_seg route_name (sub_path @ query_suffix req) s)
          else (case token_header of
                  Some tok \<Rightarrow> token_context K now tok first_seg (remaining @ query_suffix req) s
                | None \<Rightarrow> (Refused, s)))"

definition engine_auth_middleware ::
  "crypto \<Rightarrow> gk_config \<Rightarrow> nat \<Rightarrow> nat \<Rightarrow> string option \<Rightarrow> ip_addr \<Rightarrow> gw_request \<Rightarrow> connect_state
   \<Rightarrow> engine_context middleware \<times> connect_state" where
  "engine_auth_middleware K gcfg instant now cluster_auth_key client_ip req st =
     (if engine_public_path (gq_path req) then (Next None req, st)
      else (case gk_check instant client_ip (cs_records st) of
        (Inl _, m) \<Rightarrow> (Answer rate_limited_lockout, st\<lparr> cs_records := m \<rparr>)
      | (Inr _, m) \<Rightarrow>
          (case engine_split_first_segment (without_slash (gq_path req)) of
             (first_seg, remaining) \<Rightarrow>
               (let as = (\<lambda>subject. Next (Some \<lparr> ex_subject = subject, ex_route = first_seg,
                                          ex_path_query = remaining @ query_suffix req \<rparr>) req)
                in if ip_is_loopback client_ip \<and> \<not> has_forwarded_headers (gq_headers req) then
                     (as (SubjCluster 0 ''loopback-trusted''), st\<lparr> cs_records := record_success client_ip m \<rparr>)
                   else (case relay_node K now cluster_auth_key (gq_headers req) of
                     Some node_id \<Rightarrow>
                       (as (SubjCluster (hash_node_id node_id) node_id), st\<lparr> cs_records := record_success client_ip m \<rparr>)
                   | None \<Rightarrow>
                       (case check_credentials K now req first_seg remaining (cs_services st) of
                          (AnswerNow r, s) \<Rightarrow> (Answer r, st\<lparr> cs_records := m, cs_services := s \<rparr>)
                        | (Granted ctx, s) \<Rightarrow>
                            (Next (Some ctx) req, st\<lparr> cs_records := record_success client_ip m, cs_services := s \<rparr>)
                        | (Refused, s) \<Rightarrow>
                            (Answer (if contains_key ''proxy-authorization'' (gq_headers req) then proxy_auth_required else unauthorized),
                             st\<lparr> cs_records := record_failure gcfg instant client_ip m, cs_services := s \<rparr>)))))))"

section \<open>The upstream\<close>

record remote_proxy_config =
  rp_server_url :: string
  rp_username :: "string option"
  rp_password :: "string option"

datatype upstream_mode = Direct "(string \<times> edge_client) list" | Chained remote_proxy_config

definition switch_to_direct :: "(string \<times> edge_client) list \<Rightarrow> upstream_mode \<Rightarrow> upstream_mode" where
  "switch_to_direct edges mode = Direct edges"

text \<open>The client is built first; when that fails the mode stays as it was.\<close>

definition switch_to_chained :: "bool \<Rightarrow> remote_proxy_config \<Rightarrow> upstream_mode \<Rightarrow> bool \<times> upstream_mode" where
  "switch_to_chained built config mode = (if built then (True, Chained config) else (False, mode))"

definition CHAINED_DROPPED :: "string list" where
  "CHAINED_DROPPED = [''host'', ''content-length'', ''connection'', ''proxy-authorization'', ''keep-alive'', ''proxy-authenticate'',
     ''te'', ''trailer'', ''transfer-encoding'', ''upgrade'', ''x-proxy-secret'']"

fun edge_error_text :: "edge_error \<Rightarrow> string" where
  "edge_error_text InvalidWorkerUrl = ''invalid worker_url''"
| "edge_error_text (EdgeFailed _) = ''edge request failed''"
| "edge_error_text EdgeTimeout = ''edge request timeout after 120s''"

definition upstream_answer :: "edge_response \<Rightarrow> gw_answer" where
  "upstream_answer resp =
     Streamed (es_status resp) (copy_headers (\<lambda>name. name \<notin> set RESPONSE_DROPPED) (es_headers resp)) (es_chunks resp)"

definition chained_request :: "crypto \<Rightarrow> remote_proxy_config \<Rightarrow> string \<Rightarrow> string \<Rightarrow> string \<Rightarrow> headers \<Rightarrow> string \<Rightarrow> edge_request" where
  "chained_request K config route_name path_and_query m hs body =
     \<lparr> er_method = m,
       er_url = trim_end_matches (CHR ''/'') (rp_server_url config) @ ''/'' @ route_name @ ''/'' @ path_and_query,
       er_headers =
         (case (rp_username config, rp_password config) of
            (Some u, Some p) \<Rightarrow> [(''proxy-authorization'', ''Basic '' @ b64std_encode K (u @ '':'' @ p))]
          | _ \<Rightarrow> [])
         @ filter (\<lambda>(k, _). to_ascii_lowercase k \<notin> set CHAINED_DROPPED) hs,
       er_body = (if body = [] then None else Some body) \<rparr>"

text \<open>What was sent, and to whom: an edge, or the remote proxy.\<close>

datatype upstream_send = ToEdge edge_client "(edge_request \<times> send_result) list" | ToRemote edge_request

definition upstream_forward ::
  "crypto \<Rightarrow> (string \<Rightarrow> edge_world) \<Rightarrow> (edge_request \<Rightarrow> string + edge_response) \<Rightarrow> route_table \<Rightarrow> upstream_mode
   \<Rightarrow> string \<Rightarrow> string \<Rightarrow> string \<Rightarrow> headers \<Rightarrow> string \<Rightarrow> gw_answer \<times> upstream_send list" where
  \<open>upstream_forward K W remote routes mode route_name path_and_query m hs body =
     (case mode of
        Direct edges \<Rightarrow>
          (case resolve routes route_name path_and_query of
             Inl _ \<Rightarrow> (Plain (json_response 404 ''{"error":"route_not_found_or_disabled"}''), [])
           | Inr (target_url, upstream) \<Rightarrow>
               (case map_of edges (upstream_as_str upstream) of
                  None \<Rightarrow> (Plain (json_response 503 ''{"error":"upstream_client_not_configured"}''), [])
                | Some edge \<Rightarrow>
                    (case execute (W (upstream_as_str upstream)) edge
                            \<lparr> fr_method = m, fr_target_url = target_url, fr_headers = sanitize_headers hs,
                              fr_body = (if body = [] then None else Some body) \<rparr> of
                       (Inr resp, sends, _) \<Rightarrow> (upstream_answer resp, [ToEdge edge sends])
                     | (Inl e, sends, _) \<Rightarrow>
                         (Plain (json_response 502 (''{"error":"upstream_failed","detail":"'' @ edge_error_text e @ ''"}'')),
                          [ToEdge edge sends]))))
      | Chained config \<Rightarrow>
          (let q = chained_request K config route_name path_and_query m hs body in
           case remote q of
             Inr resp \<Rightarrow> (upstream_answer resp, [ToRemote q])
           | Inl e \<Rightarrow>
               (Plain (json_response 502 (''{"error":"remote_proxy_unreachable","detail":"'' @ e @ ''"}'')), [ToRemote q])))\<close>

section \<open>Requests\<close>

record engine =
  en_connect :: connect_state
  en_mode :: upstream_mode
  en_routes :: route_table
  en_usage :: live
  en_cluster_auth_key :: "string option"
  en_instance_uuid :: string

record engine_world =
  nw_instant :: nat
  nw_now :: nat
  nw_edges :: "string \<Rightarrow> edge_world"
  nw_remote :: "edge_request \<Rightarrow> string + edge_response"

definition payload_too_large :: http_response where
  \<open>payload_too_large = json_response 413 ''{"error":"payload_too_large"}''\<close>

definition health_endpoint :: "engine \<Rightarrow> http_response" where
  \<open>health_endpoint e =
     \<lparr> rs_status = 200,
       rs_headers = [(''content-type'', ''application/json''), (''x-pproxy-instance-uuid'', en_instance_uuid e)],
       rs_body = ''{"status":"ok","instance_uuid":"'' @ en_instance_uuid e @ ''"}'' \<rparr>\<close>

definition engine_forward_handler ::
  "crypto \<Rightarrow> engine_world \<Rightarrow> engine_context option \<Rightarrow> gw_request \<Rightarrow> engine \<Rightarrow> gw_answer \<times> upstream_send list \<times> engine" where
  "engine_forward_handler K W ctx req e =
     (case ctx of
        None \<Rightarrow> (Plain unauthorized, [], e)
      | Some auth \<Rightarrow>
          (case to_bytes MAX_BODY_SIZE (gq_body req) of
             None \<Rightarrow> (Plain payload_too_large, [], e)
           | Some body \<Rightarrow>
               (case upstream_forward K (nw_edges W) (nw_remote W) (en_routes e) (en_mode e) (ex_route auth)
                       (ex_path_query auth) (gq_method req) (gq_headers req) body of
                  (resp, sends) \<Rightarrow>
                    (resp, sends,
                     e\<lparr> en_usage := record_request (ex_route auth, subject_id (ex_subject auth)) (length body) (en_usage e) \<rparr>))))"

text \<open>The routes: the public pages by GET, everything else to the forward handler.\<close>

datatype engine_page = EnginePublic | EngineForward | EngineMethodNotAllowed | EngineNoPage

definition engine_route :: "string \<Rightarrow> string \<Rightarrow> engine_page" where
  "engine_route m path =
     (if path = ''/'' \<or> path = ''/__pproxy_health'' \<or> path = ''/clash'' \<or> path = ''/clash.yaml''
      then (if is_get m then EnginePublic else EngineMethodNotAllowed)
      else if \<not> starts_with ''/'' path then EngineNoPage
      else if m \<in> {''GET'', ''POST'', ''PUT'', ''PATCH'', ''DELETE'', ''HEAD'', ''OPTIONS''} then EngineForward
      else EngineMethodNotAllowed)"

definition engine_serve_request ::
  "crypto \<Rightarrow> gk_config \<Rightarrow> engine_world \<Rightarrow> ip_addr \<Rightarrow> gw_request \<Rightarrow> engine
   \<Rightarrow> (gw_answer + engine_page) \<times> upstream_send list \<times> engine" where
  "engine_serve_request K gcfg W client_ip req e =
     (case engine_auth_middleware K gcfg (nw_instant W) (nw_now W) (en_cluster_auth_key e) client_ip req (en_connect e) of
        (m, st) \<Rightarrow>
          (let e = e\<lparr> en_connect := st \<rparr> in
           case m of
             Answer r \<Rightarrow> (Inl (Plain r), [], e)
           | Next ctx req' \<Rightarrow>
               (case engine_route (gq_method req') (gq_path req') of
                  EngineForward \<Rightarrow>
                    (case engine_forward_handler K W ctx req' e of (a, sends, e') \<Rightarrow> (Inl a, sends, e'))
                | page \<Rightarrow> (Inr page, [], e))))"

section \<open>Connections\<close>

definition ENGINE_MAX_CONNECTIONS :: nat where
  "ENGINE_MAX_CONNECTIONS = 512"

text \<open>The accept loop of the engine keeps permits as the server's does; what it turns away it
  closes without an answer.\<close>

definition engine_acceptor_new :: "nat \<Rightarrow> acceptor" where
  "engine_acceptor_new cap = \<lparr> ap_cap = cap, ap_free = cap, ap_seq = 0, ap_active = [], ap_rejected = [] \<rparr>"

definition engine_handle_conn ::
  "crypto \<Rightarrow> gk_config \<Rightarrow> string option \<Rightarrow> tunnel_env \<Rightarrow> connect_world \<Rightarrow> ip_addr \<Rightarrow> string option \<Rightarrow> read_event list
   \<Rightarrow> connect_state \<Rightarrow> conn_result \<times> connect_state" where
  "engine_handle_conn K gcfg cluster_auth_key env W peer peeked evs st =
     (case peeked of
        None \<Rightarrow> (ConnDropped, st)
      | Some first \<Rightarrow>
          if first = [] then (ConnDropped, st)
          else if is_connect_method first then
            (case collect_head [] evs of
               None \<Rightarrow> (ConnDropped, st)
             | Some buf \<Rightarrow>
                 (case split_connect_head buf of
                    (head_bytes, leftover) \<Rightarrow>
                      (case engine_handle_connect K gcfg cluster_auth_key env W peer (from_utf8_lossy head_bytes) leftover st of
                         (out, sleeps, st') \<Rightarrow> (ConnConnect out sleeps, st'))))
          else (ConnHttp, st))"

section \<open>Lemmas\<close>

lemma hash_node_id_bounds: "0 \<le> hash_node_id n" "hash_node_id n < 2 ^ 31"
proof -
  have m: "(0x7FFFFFFF :: int) = mask 31" by (simp add: mask_eq_exp_minus_1)
  have "hash_node_id n = take_bit 31 (uint (foldl (\<lambda>h b. h * 31 + of_nat (byte b)) (0 :: 64 word) n))"
    by (simp add: hash_node_id_def unsigned_and_eq m flip: take_bit_eq_mask)
  then show "0 \<le> hash_node_id n" "hash_node_id n < 2 ^ 31"
    by (simp_all only: take_bit_nonnegative take_bit_int_less_exp)
qed

text \<open>What stands behind a subject.\<close>

fun subject_ok :: "crypto \<Rightarrow> nat \<Rightarrow> string option \<Rightarrow> ip_addr \<Rightarrow> gw_request \<Rightarrow> services \<Rightarrow> auth_subject \<Rightarrow> bool" where
  "subject_ok K now key ip req s (SubjCluster i name) \<longleftrightarrow>
     ip_is_loopback ip \<and> \<not> has_forwarded_headers (gq_headers req) \<and> i = 0
     \<or> (\<exists>k t. key = Some k \<and> header_str CLUSTER_TICKET_HEADER (gq_headers req) = Some t
          \<and> verify_ticket K k t now = Inr name \<and> i = hash_node_id name)"
| "subject_ok K now key ip req s (SubjUser i name) \<longleftrightarrow>
     (\<exists>u p users user. fst (extract_credentials K (gq_headers req)) = Some (u, p) \<and> sv_users s = Some users
        \<and> fst (verify_user K (as_i64 now) u p users) = Some user \<and> us_id user = i)"
| "subject_ok K now key ip req s (SubjToken i name) \<longleftrightarrow>
     (\<exists>tok row. (tok = fst (engine_split_first_segment (without_slash (gq_path req)))
                 \<or> snd (extract_credentials K (gq_headers req)) = Some tok)
        \<and> fst (verify K now tok (sv_tokens s)) = Inr row \<and> tk_id row = i)"

lemma token_context_Granted:
  assumes "token_context K now tok route pq s = (Granted ctx, s')"
  obtains row where "fst (verify K now tok (sv_tokens s)) = Inr row" "ex_subject ctx = SubjToken (tk_id row) (tk_name row)"
  using assms that by (auto simp: token_context_def split: prod.splits sum.splits if_splits)

lemma user_context_Granted:
  assumes "user_context K now u p route pq s = (Granted ctx, s')"
  obtains users user where "sv_users s = Some users" "fst (verify_user K (as_i64 now) u p users) = Some user"
    "ex_subject ctx = SubjUser (us_id user) (us_username user)"
  using assms that by (auto simp: user_context_def split: prod.splits option.splits if_splits)

lemma check_credentials_Granted:
  assumes "check_credentials K now req first_seg remaining s = (Granted ctx, s')"
    "first_seg = fst (engine_split_first_segment (without_slash (gq_path req)))"
  shows "subject_ok K now key ip req s (ex_subject ctx)"
proof (cases "fst (extract_credentials K (gq_headers req))")
  case (Some up)
  then obtain u p where up: "fst (extract_credentials K (gq_headers req)) = Some (u, p)" by (cases up) auto
  with assms(1) have "user_context K now u p first_seg (remaining @ query_suffix req) s = (Granted ctx, s')"
    by (cases "extract_credentials K (gq_headers req)") (simp add: check_credentials_def)
  then show ?thesis by (rule user_context_Granted) (use up in auto)
next
  case None
  with assms(1) obtain tok route pq where t: "token_context K now tok route pq s = (Granted ctx, s')"
    "tok = first_seg \<or> snd (extract_credentials K (gq_headers req)) = Some tok"
    by (cases "extract_credentials K (gq_headers req)")
      (auto simp: check_credentials_def split: if_splits option.splits prod.splits)
  from t(1) show ?thesis by (rule token_context_Granted) (use t(2) assms(2) in auto)
qed

lemma engine_auth_middleware_Next:
  assumes "engine_auth_middleware K gcfg instant now key ip req st = (Next (Some ctx) req', st')"
  shows "fst (gk_check instant ip (cs_records st)) = Inr () \<and> req' = req
    \<and> subject_ok K now key ip req (cs_services st) (ex_subject ctx)"
proof -
  obtain g m where g: "gk_check instant ip (cs_records st) = (g, m)" by fastforce
  obtain f r where f: "engine_split_first_segment (without_slash (gq_path req)) = (f, r)" by fastforce
  have p: "\<not> engine_public_path (gq_path req)"
    using assms by (cases "engine_public_path (gq_path req)") (simp_all add: engine_auth_middleware_def)
  with assms g have g': "g = Inr ()" by (cases g) (simp_all add: engine_auth_middleware_def)
  note d = engine_auth_middleware_def p g g' f Let_def
  consider (loop) "ip_is_loopback ip \<and> \<not> has_forwarded_headers (gq_headers req)"
    | (node) n where "\<not> (ip_is_loopback ip \<and> \<not> has_forwarded_headers (gq_headers req))" "relay_node K now key (gq_headers req) = Some n"
    | (creds) "\<not> (ip_is_loopback ip \<and> \<not> has_forwarded_headers (gq_headers req))" "relay_node K now key (gq_headers req) = None"
    by blast
  then show ?thesis
  proof cases
    case loop
    with assms have "req' = req" "ex_subject ctx = SubjCluster 0 ''loopback-trusted''" by (auto simp: d)
    with loop g g' show ?thesis by simp
  next
    case node
    with assms have "req' = req" "ex_subject ctx = SubjCluster (hash_node_id n) n" by (auto simp: d)
    with node(2) g g' show ?thesis by (auto simp: relay_node_def split: option.splits sum.splits)
  next
    case creds
    obtain r' s' where c: "check_credentials K now req f r (cs_services st) = (r', s')" by fastforce
    have "engine_auth_middleware K gcfg instant now key ip req st =
        (case r' of
           AnswerNow a \<Rightarrow> (Answer a, st\<lparr> cs_records := m, cs_services := s' \<rparr>)
         | Granted ctx \<Rightarrow> (Next (Some ctx) req, st\<lparr> cs_records := record_success ip m, cs_services := s' \<rparr>)
         | Refused \<Rightarrow> (Answer (if contains_key ''proxy-authorization'' (gq_headers req) then proxy_auth_required else unauthorized),
             st\<lparr> cs_records := record_failure gcfg instant ip m, cs_services := s' \<rparr>))"
      unfolding d using creds(2) by (simp only: creds(1) c p if_False option.case prod.case sum.case)
    with assms have "r' = Granted ctx" "req' = req" by (auto split: credential_result.splits)
    moreover have "f = fst (engine_split_first_segment (without_slash (gq_path req)))" by (simp add: f)
    from check_credentials_Granted [OF c [unfolded calculation(1)] this]
    have "subject_ok K now key ip req (cs_services st) (ex_subject ctx)" .
    ultimately show ?thesis by (simp add: g g')
  qed
qed

lemma engine_serve_sends:
  assumes "engine_serve_request K gcfg W ip req e = (out, sends, e')" "sends \<noteq> []"
  obtains ctx st body resp where
    "engine_auth_middleware K gcfg (nw_instant W) (nw_now W) (en_cluster_auth_key e) ip req (en_connect e) = (Next (Some ctx) req, st)"
    "gq_body req = Some body" "length body \<le> MAX_BODY_SIZE"
    "upstream_forward K (nw_edges W) (nw_remote W) (en_routes e) (en_mode e) (ex_route ctx) (ex_path_query ctx)
       (gq_method req) (gq_headers req) body = (resp, sends)"
    "en_usage e' = record_request (ex_route ctx, subject_id (ex_subject ctx)) (length body) (en_usage e)"
proof -
  obtain m st where m: "engine_auth_middleware K gcfg (nw_instant W) (nw_now W) (en_cluster_auth_key e) ip req (en_connect e) = (m, st)"
    by fastforce
  let ?e = "e\<lparr> en_connect := st \<rparr>"
  from assms m obtain ctx req' where n: "m = Next ctx req'"
    by (cases m) (auto simp: engine_serve_request_def)
  with assms m obtain a where f: "engine_forward_handler K W ctx req' ?e = (a, sends, e')"
    by (auto simp: engine_serve_request_def Let_def split: engine_page.splits prod.splits)
  with assms(2) obtain c where c: "ctx = Some c"
    by (cases ctx) (auto simp: engine_forward_handler_def)
  with engine_auth_middleware_Next [OF m [unfolded n c]] have r: "req' = req" by simp
  from f assms(2) c obtain body where b: "gq_body req = Some body" "length body \<le> MAX_BODY_SIZE"
    by (auto simp: engine_forward_handler_def to_bytes_def r split: option.splits if_splits)
  obtain resp sends' where u: "upstream_forward K (nw_edges W) (nw_remote W) (en_routes e) (en_mode e) (ex_route c) (ex_path_query c)
       (gq_method req) (gq_headers req) body = (resp, sends')" by fastforce
  with f c b have "sends' = sends"
    "en_usage e' = record_request (ex_route c, subject_id (ex_subject c)) (length body) (en_usage e)"
    by (auto simp: engine_forward_handler_def to_bytes_def r)
  with that [OF m [unfolded n c r] b] u show ?thesis by blast
qed

lemma upstream_forward_edge:
  assumes "upstream_forward K W remote routes mode route pq m hs body = (resp, sends)" "ToEdge edge sent \<in> set sends" "x \<in> set sent"
    and "last_value hs k = Some v" "to_ascii_lowercase k \<notin> set HOP_BY_HOP"
  shows "(k, v) \<in> set (er_headers (fst x))"
proof -
  obtain edges where e: "mode = Direct edges" using assms(1,2)
    by (cases mode) (auto simp: upstream_forward_def Let_def split: sum.splits)
  let ?fwd = "\<lambda>url. \<lparr> fr_method = m, fr_target_url = url, fr_headers = sanitize_headers hs,
         fr_body = (if body = [] then None else Some body) \<rparr>"
  from e assms(1,2) obtain w url r ps where "execute_with_attempts w edge (?fwd url) 5 = (r, sent, ps)"
    by (auto simp: upstream_forward_def execute_def split: sum.splits option.splits prod.splits)
  from edge.exec_prepared [OF this assms(3)] obtain u where "fst x = edge_prepare edge (?fwd url) u"
    by (auto simp: edge_prepared_def)
  with assms(4,5) show ?thesis by (simp add: edge_prepare_def replace_headers_def sanitize_headers_mem)
qed

section \<open>Properties\<close>

text \<open>C27: the engine sends a request on only for an address that is not locked out and a subject
  it can justify: a loopback client without traces of a proxy, a node with a valid cluster
  ticket, a user with a valid password or a holder of a valid token.  The body is within the
  limit, and the request is counted once under the route and the subject's id.\<close>

theorem engine_forward_authorized:
  assumes "engine_serve_request K gcfg W ip req e = (out, sends, e')" "sends \<noteq> []"
  shows "fst (gk_check (nw_instant W) ip (cs_records (en_connect e))) = Inr ()
    \<and> (\<exists>subject route body. subject_ok K (nw_now W) (en_cluster_auth_key e) ip req (cs_services (en_connect e)) subject
         \<and> gq_body req = Some body \<and> length body \<le> MAX_BODY_SIZE
         \<and> en_usage e' = record_request (route, subject_id subject) (length body) (en_usage e))"
proof -
  from engine_serve_sends [OF assms] obtain ctx st body where
    m: "engine_auth_middleware K gcfg (nw_instant W) (nw_now W) (en_cluster_auth_key e) ip req (en_connect e) = (Next (Some ctx) req, st)"
    and b: "gq_body req = Some body" "length body \<le> MAX_BODY_SIZE"
    "en_usage e' = record_request (ex_route ctx, subject_id (ex_subject ctx)) (length body) (en_usage e)" by metis
  from engine_auth_middleware_Next [OF m] b show ?thesis by blast
qed

text \<open>The engine passes the caller's own credentials on.  Where the server removes the token
  header, everything the engine sends to an edge still carries the value of \<open>x-pony-token\<close>, of
  \<open>authorization\<close> and of the cluster ticket that the client presented to the proxy.\<close>

theorem engine_leaks_credentials:
  assumes "engine_serve_request K gcfg W ip req e = (out, sends, e')"
    and "ToEdge edge sent \<in> set sends" "x \<in> set sent"
    and "last_value (gq_headers req) k = Some v" "k \<in> {''x-pony-token'', ''authorization'', ''x-pony-cluster-ticket''}"
  shows "(k, v) \<in> set (er_headers (fst x))"
proof -
  from assms(2) have "sends \<noteq> []" by auto
  from engine_serve_sends [OF assms(1) this] obtain ctx :: engine_context and body resp where
    u: "upstream_forward K (nw_edges W) (nw_remote W) (en_routes e) (en_mode e) (ex_route ctx) (ex_path_query ctx)
       (gq_method req) (gq_headers req) body = (resp, sends)" by metis
  have "to_ascii_lowercase k \<notin> set HOP_BY_HOP" using assms(5) by (elim insertE) (simp_all, code_simp+)
  from upstream_forward_edge [OF u assms(2-4) this] show ?thesis .
qed

definition demo_engine :: engine where
  "demo_engine =
     \<lparr> en_connect = gw_connect demo_gateway, en_mode = Direct [(''worker'', demo_edge)], en_routes = gw_routes demo_gateway,
       en_usage = [], en_cluster_auth_key = None, en_instance_uuid = ''u'' \<rparr>"

definition demo_engine_world :: engine_world where
  "demo_engine_world =
     \<lparr> nw_instant = 0, nw_now = 200, nw_edges = (\<lambda>_. demo_edge_world), nw_remote = (\<lambda>_. Inl ''off'') \<rparr>"

theorem engine_forward_authorized_witness:
  "fst (gk_check 0 (V4 (Ipv4 10 0 0 9)) (cs_records (en_connect demo_engine))) = Inr ()
   \<and> fst (snd (engine_serve_request demo gk_config_default demo_engine_world (V4 (Ipv4 10 0 0 9)) demo_gw_request demo_engine)) \<noteq> []"
proof -
  let ?s = "engine_serve_request demo gk_config_default demo_engine_world (V4 (Ipv4 10 0 0 9)) demo_gw_request demo_engine"
  obtain out sends e' where s: "?s = (out, sends, e')" by (metis prod_cases3)
  have n: "fst (snd ?s) \<noteq> []" by code_simp
  with s have "sends \<noteq> []" by simp
  from engine_forward_authorized [OF s this] n show ?thesis by (simp add: demo_engine_world_def)
qed

theorem engine_leaks_credentials_witness:
  "\<exists>edge sent x. ToEdge edge sent \<in> set (fst (snd (engine_serve_request demo gk_config_default demo_engine_world
      (V4 (Ipv4 10 0 0 9)) demo_gw_request demo_engine))) \<and> x \<in> set sent \<and> (''x-pony-token'', ''t'') \<in> set (er_headers (fst x))"
proof -
  let ?s = "engine_serve_request demo gk_config_default demo_engine_world (V4 (Ipv4 10 0 0 9)) demo_gw_request demo_engine"
  obtain out sends e' where s: "?s = (out, sends, e')" by (metis prod_cases3)
  have "(case fst (snd ?s) of [] \<Rightarrow> False | u # _ \<Rightarrow> (case u of ToEdge edge sent \<Rightarrow> sent \<noteq> [] | ToRemote _ \<Rightarrow> False))"
    by code_simp
  with s obtain edge x xs us where e: "sends = ToEdge edge (x # xs) # us"
    by (cases sends) (auto simp: neq_Nil_conv split: upstream_send.splits)
  have l: "last_value (gq_headers demo_gw_request) ''x-pony-token'' = Some ''t''" by code_simp
  have "(''x-pony-token'', ''t'') \<in> set (er_headers (fst x))"
    by (rule engine_leaks_credentials [OF s _ _ l]) (use e in auto)
  then show ?thesis using s e by (intro exI [of _ edge] exI [of _ "x # xs"] exI [of _ x]) simp
qed

text \<open>On a loopback connection the engine takes the first path segment for the route even when
  it is a token, so a client on the same machine that puts its token into the path is answered
  404: whatever happened to the route table, no route can have such a name.\<close>

theorem engine_loopback_path_token:
  assumes "route_table_new f store = Inr rt0" "route_rows_ok store" "list_all row_valid store"
    and "en_routes e = rt_run edges es rt0" "en_mode e = Direct clients"
    and "ip_is_loopback ip" "\<not> has_forwarded_headers (gq_headers req)"
    and "fst (gk_check (nw_instant W) ip (cs_records (en_connect e))) = Inr ()"
    and "engine_split_first_segment (without_slash (gq_path req)) = (token, rest)" "starts_with TOKEN_PREFIX token"
    and "\<not> engine_public_path (gq_path req)" "engine_route (gq_method req) (gq_path req) = EngineForward"
    and "gq_body req = Some body" "length body \<le> MAX_BODY_SIZE"
  shows \<open>\<exists>e'. engine_serve_request K gcfg W ip req e
      = (Inl (Plain (json_response 404 ''{"error":"route_not_found_or_disabled"}'')), [], e')\<close>
proof -
  have "rt_inv (rt_run edges es rt0)"
    by (rule rt_run_invariant [where P = rt_inv]) (use rt_inv_new [OF assms(1-3)] rt_inv_step in auto)
  moreover have "validate_name token \<noteq> Inr ()"
    using assms(10) by (simp add: validate_name_def TOKEN_PREFIX_def)
  ultimately have "rt_table (en_routes e) token = None"
    unfolding rt_inv_def row_valid_def assms(4) by (metis not_Some_eq)
  then have r: "resolve (en_routes e) token pq = Inl UnknownRoute" for pq by (simp add: resolve_def)
  obtain m where g: "gk_check (nw_instant W) ip (cs_records (en_connect e)) = (Inr (), m)"
    using assms(8) by (metis prod.collapse)
  show ?thesis using assms(5-7,9,11-14) g r
    by (simp add: engine_serve_request_def engine_auth_middleware_def engine_forward_handler_def to_bytes_def upstream_forward_def)
qed

theorem engine_loopback_path_token_witness:
  \<open>\<exists>e'. engine_serve_request demo gk_config_default demo_engine_world (V4 (Ipv4 127 0 0 1)) demo_gw_request
       (demo_engine\<lparr> en_routes := \<lparr> rt_store = [], rt_table = Map.empty \<rparr> \<rparr>)
     = (Inl (Plain (json_response 404 ''{"error":"route_not_found_or_disabled"}'')), [], e')\<close>
proof -
  let ?rt = "\<lparr> rt_store = [], rt_table = Map.empty \<rparr>"
  have n: "route_table_new None [] = Inr ?rt" by (simp add: route_table_new_def route_reload_eq)
  have ok: "route_rows_ok []" "list_all row_valid []" by (simp_all add: route_rows_ok_def)
  have f: "engine_split_first_segment (without_slash (gq_path demo_gw_request)) = (''pony_6162'', ''openai/v1/chat'')"
    "starts_with TOKEN_PREFIX ''pony_6162''" "\<not> engine_public_path (gq_path demo_gw_request)"
    "engine_route (gq_method demo_gw_request) (gq_path demo_gw_request) = EngineForward"
    "gq_body demo_gw_request = Some ''hi''" "length ''hi'' \<le> MAX_BODY_SIZE" "\<not> has_forwarded_headers (gq_headers demo_gw_request)"
    "ip_is_loopback (V4 (Ipv4 127 0 0 1))"
    by code_simp+
  show ?thesis
    by (rule engine_loopback_path_token [OF n ok, where edges = "[]" and es = "[]", OF _ _ f(8,7) _ f(1-6)])
      (simp_all add: demo_engine_def demo_gateway_def demo_connect_state_def gk_check_def)
qed

end
