(* ===== verification/AdminApi.thy ===== *)
theory AdminApi
  imports Gateway Monitor
begin

text \<open>
  The administration API (\<open>crates/server/src/api.rs\<close>): the check of the admin token and the
  handlers for tokens, routes, usage, alerts, quota and tunnel settings, over the services that
  the data plane uses.  Request bodies and queries are as \<open>serde\<close> reads them (absent when it
  cannot), answers are a status with a JSON value.  Every call takes the faults that the store
  meets.  Handlers run in a thread pool; that a thread panics is left out.
\<close>

section \<open>State and answers\<close>

record admin_state =
  ad_tokens :: token_svc
  ad_routes :: route_table
  ad_usage :: tracker
  ad_monitor :: monitor
  ad_tunnel :: "tunnel_provision option"

type_synonym api_answer = "nat \<times> json"

definition err_body :: "nat \<Rightarrow> string \<Rightarrow> api_answer" where
  "err_body status msg = (status, JObject [(''error'', JString msg)])"

definition ERR_UNAUTHORIZED :: string where "ERR_UNAUTHORIZED = ''unauthorized''"
definition ERR_NOT_FOUND :: string where "ERR_NOT_FOUND = ''not_found''"
definition ERR_INTERNAL :: string where "ERR_INTERNAL = ''internal''"
definition ERR_INVALID_NAME :: string where "ERR_INVALID_NAME = ''invalid token name''"
definition ERR_NAME_EXISTS :: string where "ERR_NAME_EXISTS = ''name already exists''"
definition ERR_INVALID_EXPIRY :: string where "ERR_INVALID_EXPIRY = ''invalid expires_days''"
definition ERR_CANNOT_REVOKE_ADMIN :: string where "ERR_CANNOT_REVOKE_ADMIN = ''cannot revoke admin''"
definition ERR_INVALID_ROUTE_NAME :: string where "ERR_INVALID_ROUTE_NAME = ''invalid route name''"
definition ERR_INVALID_HOST :: string where "ERR_INVALID_HOST = ''invalid target host''"
definition ERR_INVALID_UPSTREAM :: string where "ERR_INVALID_UPSTREAM = ''invalid upstream''"
definition ERR_ROUTE_EXISTS :: string where "ERR_ROUTE_EXISTS = ''route name already exists''"
definition ERR_BAD_REQUEST :: string where "ERR_BAD_REQUEST = ''bad_request''"

fun map_token_error :: "token_error \<Rightarrow> api_answer" where
  "map_token_error TokNotFound = err_body 401 ERR_UNAUTHORIZED"
| "map_token_error TokRevoked = err_body 401 ERR_UNAUTHORIZED"
| "map_token_error TokExpired = err_body 401 ERR_UNAUTHORIZED"
| "map_token_error TokDuplicate = err_body 400 ERR_NAME_EXISTS"
| "map_token_error TokInvalidName = err_body 400 ERR_INVALID_NAME"
| "map_token_error TokInvalidExpiry = err_body 400 ERR_INVALID_EXPIRY"
| "map_token_error (TokStore _) = err_body 500 ERR_INTERNAL"

fun map_route_error :: "route_error \<Rightarrow> api_answer" where
  "map_route_error UnknownRoute = err_body 404 ERR_NOT_FOUND"
| "map_route_error RouteDisabled = err_body 404 ERR_NOT_FOUND"
| "map_route_error InvalidName = err_body 400 ERR_INVALID_ROUTE_NAME"
| "map_route_error InvalidHost = err_body 400 ERR_INVALID_HOST"
| "map_route_error InvalidUpstream = err_body 400 ERR_INVALID_UPSTREAM"
| "map_route_error RouteDuplicate = err_body 400 ERR_ROUTE_EXISTS"
| "map_route_error (RouteStore _) = err_body 500 ERR_INTERNAL"

definition json_opt :: "('a \<Rightarrow> json) \<Rightarrow> 'a option \<Rightarrow> json" where
  "json_opt f x = (case x of Some y \<Rightarrow> f y | None \<Rightarrow> JNull)"

abbreviation json_nat :: "nat \<Rightarrow> json" where
  "json_nat n \<equiv> JInt (int n)"

section \<open>Tokens\<close>

definition bearer_token :: "headers \<Rightarrow> string option" where
  "bearer_token hs =
     (case header_str ''authorization'' hs of
        None \<Rightarrow> None
      | Some s \<Rightarrow> (case strip_prefix ''Bearer '' s of
                     Some t \<Rightarrow> if t \<noteq> [] then Some t else None
                   | None \<Rightarrow> None))"

definition create_token_handler ::
  "crypto \<Rightarrow> nat \<Rightarrow> string \<Rightarrow> fault \<Rightarrow> fault \<Rightarrow> (string \<times> nat option) option \<Rightarrow> admin_state \<Rightarrow> api_answer \<times> admin_state" where
  "create_token_handler K now rnd f g body ad =
     (case body of
        None \<Rightarrow> (err_body 400 ERR_BAD_REQUEST, ad)
      | Some (name, expires_days) \<Rightarrow>
          if name = ADMIN_NAME then (err_body 400 ERR_INVALID_NAME, ad)
          else (case create_token K now rnd f g name expires_days (ad_tokens ad) of
            (Inl e, svc) \<Rightarrow> (map_token_error e, ad\<lparr> ad_tokens := svc \<rparr>)
          | (Inr (tid, plaintext), svc) \<Rightarrow>
              ((201, JObject [(''id'', JInt tid), (''name'', JString name), (''token'', JString plaintext),
                       (''expires_at'', json_opt (\<lambda>d. json_nat (now + d * 86400)) expires_days)]),
               ad\<lparr> ad_tokens := svc \<rparr>)))"

definition token_status :: "nat \<Rightarrow> token_row \<Rightarrow> string" where
  "token_status now row =
     (if tk_revoked_at row \<noteq> None then ''revoked''
      else (case tk_expires_at row of
              Some e \<Rightarrow> if e < now then ''expired'' else ''active''
            | None \<Rightarrow> ''active''))"

definition token_row_json :: "nat \<Rightarrow> token_row \<Rightarrow> json" where
  "token_row_json now r =
     JObject [(''id'', JInt (tk_id r)), (''name'', JString (tk_name r)), (''created_at'', json_nat (tk_created_at r)),
       (''expires_at'', json_opt json_nat (tk_expires_at r)), (''revoked_at'', json_opt json_nat (tk_revoked_at r)),
       (''last_used_at'', json_opt json_nat (tk_last_used_at r)), (''status'', JString (token_status now r))]"

definition list_tokens_handler :: "nat \<Rightarrow> fault \<Rightarrow> admin_state \<Rightarrow> api_answer" where
  "list_tokens_handler now f ad =
     (case list_tokens f (ts_store (ad_tokens ad)) of
        Inl e \<Rightarrow> map_token_error (TokStore e)
      | Inr rows \<Rightarrow> (200, JObject [(''tokens'', JArray (map (token_row_json now) rows))]))"

definition revoke_token_handler ::
  "nat \<Rightarrow> fault \<Rightarrow> fault \<Rightarrow> fault \<Rightarrow> nat \<Rightarrow> admin_state \<Rightarrow> api_answer \<times> admin_state" where
  "revoke_token_handler now list_fault f g raw_id ad =
     (let tid = as_i64 raw_id;
          is_admin = (case list_tokens list_fault (ts_store (ad_tokens ad)) of
                        Inl _ \<Rightarrow> None
                      | Inr rows \<Rightarrow> map_option (\<lambda>r. tk_name r = ADMIN_NAME) (find (\<lambda>r. tk_id r = tid) rows))
      in case is_admin of
           None \<Rightarrow> (err_body 404 ERR_NOT_FOUND, ad)
         | Some admin \<Rightarrow>
             if admin then (err_body 400 ERR_CANNOT_REVOKE_ADMIN, ad)
             else (case revoke_token now f g tid (ad_tokens ad) of
                     (Inl e, svc) \<Rightarrow> (map_token_error e, ad\<lparr> ad_tokens := svc \<rparr>)
                   | (Inr outcome, svc) \<Rightarrow>
                       ((if outcome = RevokeNotFound then err_body 404 ERR_NOT_FOUND
                         else (200, JObject [(''revoked'', JBool True)])),
                        ad\<lparr> ad_tokens := svc \<rparr>)))"

section \<open>Routes\<close>

definition route_row_json :: "route_row \<Rightarrow> upstream \<Rightarrow> json" where
  "route_row_json r eff =
     JObject [(''name'', JString (rt_name r)), (''target_host'', JString (rt_target_host r)),
       (''upstream'', json_opt JString (rt_upstream r)), (''override_upstream'', json_opt JString (rt_override_upstream r)),
       (''backup_upstream'', json_opt JString (rt_backup_upstream r)), (''enabled'', JBool (rt_enabled r)),
       (''created_at'', json_nat (rt_created_at r)), (''effective_upstream'', JString (upstream_as_str eff))]"

definition effective_or_worker :: "route_table \<Rightarrow> string \<Rightarrow> upstream" where
  "effective_or_worker rt name = (case effective_upstream rt name of Some u \<Rightarrow> u | None \<Rightarrow> Worker)"

definition list_routes_handler :: "fault \<Rightarrow> admin_state \<Rightarrow> api_answer" where
  "list_routes_handler f ad =
     (case list_routes f (rt_store (ad_routes ad)) of
        Inl e \<Rightarrow> map_route_error (RouteStore e)
      | Inr rows \<Rightarrow>
          (200, JObject [(''routes'', JArray (map (\<lambda>r. route_row_json r (effective_or_worker (ad_routes ad) (rt_name r))) rows))]))"

definition create_route_handler ::
  "string list \<Rightarrow> nat \<Rightarrow> fault \<Rightarrow> fault \<Rightarrow> new_route option \<Rightarrow> admin_state \<Rightarrow> api_answer \<times> admin_state" where
  "create_route_handler edges now f g body ad =
     (case body of
        None \<Rightarrow> (err_body 400 ERR_BAD_REQUEST, ad)
      | Some r \<Rightarrow>
          (case create_route edges now f g r (ad_routes ad) of
             (Inl e, rt) \<Rightarrow> (map_route_error e, ad\<lparr> ad_routes := rt \<rparr>)
           | (Inr _, rt) \<Rightarrow>
               ((201, JObject [(''name'', JString (nr_name r)), (''upstream'', JString (upstream_as_str (effective_or_worker rt (nr_name r))))]),
                ad\<lparr> ad_routes := rt \<rparr>)))"

record update_route_req =
  ur_override :: "string option option"
  ur_backup :: "string option option"
  ur_enabled :: "bool option"
  ur_upstream :: "json option"

definition update_route_handler ::
  "string list \<Rightarrow> fault \<Rightarrow> fault \<Rightarrow> fault \<Rightarrow> string \<Rightarrow> update_route_req option \<Rightarrow> admin_state \<Rightarrow> api_answer \<times> admin_state" where
  "update_route_handler edges f g list_fault name body ad =
     (case body of
        None \<Rightarrow> (err_body 400 ERR_BAD_REQUEST, ad)
      | Some req \<Rightarrow>
          if ur_upstream req \<noteq> None then (err_body 400 ERR_INVALID_UPSTREAM, ad)
          else (case update_route edges f g name (ur_override req) (ur_backup req) (ur_enabled req) (ad_routes ad) of
            (Inl e, rt) \<Rightarrow> (map_route_error e, ad\<lparr> ad_routes := rt \<rparr>)
          | (Inr updated, rt) \<Rightarrow>
              ((if updated then
                  (200, JObject [(''name'', JString name),
                     (''enabled'', JBool (case list_routes list_fault (rt_store rt) of
                         Inl _ \<Rightarrow> False
                       | Inr rows \<Rightarrow> (case find (\<lambda>r. rt_name r = name) rows of Some r \<Rightarrow> rt_enabled r | None \<Rightarrow> False)))])
                else err_body 404 ERR_NOT_FOUND),
               ad\<lparr> ad_routes := rt \<rparr>)))"

definition delete_route_handler :: "fault \<Rightarrow> fault \<Rightarrow> string \<Rightarrow> admin_state \<Rightarrow> api_answer \<times> admin_state" where
  "delete_route_handler f g name ad =
     (case delete_route f g name (ad_routes ad) of
        (Inl e, rt) \<Rightarrow> (map_route_error e, ad\<lparr> ad_routes := rt \<rparr>)
      | (Inr deleted, rt) \<Rightarrow>
          ((if deleted then (200, JObject [(''deleted'', JBool True)]) else err_body 404 ERR_NOT_FOUND), ad\<lparr> ad_routes := rt \<rparr>))"

definition test_route_handler ::
  "string list \<Rightarrow> (string \<Rightarrow> string \<Rightarrow> probe \<times> nat) \<Rightarrow> string \<times> string \<Rightarrow> string \<Rightarrow> admin_state \<Rightarrow> api_answer" where
  "test_route_handler edges run_probe edge_error_msg name ad =
     (if effective_upstream (ad_routes ad) name = None then err_body 404 ERR_NOT_FOUND
      else (case test_route edges run_probe edge_error_msg (ad_routes ad) name of
              Inl e \<Rightarrow> map_route_error e
            | Inr t \<Rightarrow>
                (200, JObject [(''ok'', JBool (tr_ok t)), (''status'', json_opt json_nat (tr_status t)),
                   (''latency_ms'', json_opt json_nat (tr_latency_ms t)), (''error'', json_opt JString (tr_error t))])))"

section \<open>Usage and health\<close>

record usage_query =
  uq_hours :: "nat option"
  uq_route :: "string option"
  uq_token_id :: "int option"

definition usage_row_json :: "usage_key \<times> usage_delta \<Rightarrow> json" where
  "usage_row_json r =
     JObject [(''route'', JString (fst (fst r))), (''token_id'', JInt (snd (fst r))), (''requests'', json_nat (d_requests (snd r))),
       (''bytes_in'', json_nat (d_bytes_in (snd r))), (''bytes_out'', json_nat (d_bytes_out (snd r)))]"

definition total64 :: "nat list \<Rightarrow> nat" where
  "total64 xs = foldl wrap_add64 0 xs"

definition usage_since :: "nat \<Rightarrow> nat \<Rightarrow> nat" where
  "usage_since now hours = (hour_floor now + (u64_max + 1) - hours * 3600) mod (u64_max + 1)"

definition usage_handler :: "nat \<Rightarrow> fault \<Rightarrow> usage_query \<Rightarrow> admin_state \<Rightarrow> api_answer" where
  "usage_handler now f q ad =
     (let hours = (case uq_hours q of Some h \<Rightarrow> h | None \<Rightarrow> 24) in
      if hours = 0 \<or> hours > 720 then err_body 400 ERR_BAD_REQUEST
      else (let since_hour = usage_since now hours in
        case query f since_hour (uq_route q) (uq_token_id q) (ad_usage ad) of
          Inl _ \<Rightarrow> err_body 500 ERR_INTERNAL
        | Inr rows \<Rightarrow>
            (200, JObject [(''hours'', json_nat hours), (''since_hour'', json_nat since_hour), (''rows'', JArray (map usage_row_json rows)),
               (''total'', JObject [(''requests'', json_nat (total64 (map (d_requests \<circ> snd) rows))),
                  (''bytes_in'', json_nat (total64 (map (d_bytes_in \<circ> snd) rows))),
                  (''bytes_out'', json_nat (total64 (map (d_bytes_out \<circ> snd) rows)))])])))"

definition health_handler :: "nat \<Rightarrow> fault \<Rightarrow> fault \<Rightarrow> admin_state \<Rightarrow> api_answer" where
  "health_handler now f g ad =
     (case list_tokens f (ts_store (ad_tokens ad)) of
        Inl _ \<Rightarrow> err_body 500 ERR_INTERNAL
      | Inr rows \<Rightarrow>
          (let tokens_active = length (filter (\<lambda>r. tk_revoked_at r = None
                 \<and> (case tk_expires_at r of Some e \<Rightarrow> e \<ge> now | None \<Rightarrow> True)) rows);
               route_rows = (case list_routes g (rt_store (ad_routes ad)) of Inr rs \<Rightarrow> rs | Inl _ \<Rightarrow> []);
               routes_json = foldl (\<lambda>m r. AList.update (rt_name r)
                   (JObject [(''enabled'', JBool (rt_enabled r)),
                      (''upstream'', JString (upstream_as_str (effective_or_worker (ad_routes ad) (rt_name r))))]) m) [] route_rows
           in (200, JObject [(''status'', JString ''ok''), (''routes'', JObject routes_json),
                 (''tokens_active'', json_nat tokens_active), (''db'', JString ''ok'')])))"

section \<open>Alerts, quota and tunnel settings\<close>

definition level_str :: "level \<Rightarrow> string" where
  "level_str lv = (case lv of Warning \<Rightarrow> ''warning'' | Critical \<Rightarrow> ''critical'')"

definition alert_row_json :: "alert_row \<Rightarrow> json" where
  "alert_row_json r =
     JObject [(''id'', JInt (al_id r)), (''ts'', json_nat (al_ts r)), (''level'', JString (level_str (al_level r))),
       (''message'', JString (al_message r)), (''read_at'', json_opt json_nat (al_read_at r))]"

definition alerts_handler :: "fault \<Rightarrow> nat option \<Rightarrow> nat option \<Rightarrow> admin_state \<Rightarrow> api_answer" where
  "alerts_handler f unread n ad =
     (let unread_only = (case unread of Some v \<Rightarrow> v \<noteq> 0 | None \<Rightarrow> False);
          limit = max 1 (min 500 (case n of Some l \<Rightarrow> l | None \<Rightarrow> 50))
      in case list_alerts f unread_only limit (mo_alerts (ad_monitor ad)) of
           Inl _ \<Rightarrow> err_body 500 ERR_INTERNAL
         | Inr rows \<Rightarrow> (200, JObject [(''alerts'', JArray (map alert_row_json rows))]))"

definition mark_alert_read_handler :: "nat \<Rightarrow> fault \<Rightarrow> int \<Rightarrow> admin_state \<Rightarrow> api_answer \<times> admin_state" where
  "mark_alert_read_handler now f i ad =
     (case mark_alert_read f now i (mo_alerts (ad_monitor ad)) of
        (Inl _, t) \<Rightarrow> (err_body 500 ERR_INTERNAL, ad\<lparr> ad_monitor := (ad_monitor ad)\<lparr> mo_alerts := t \<rparr> \<rparr>)
      | (Inr outcome, t) \<Rightarrow>
          ((if outcome = NotFoundAlert then err_body 404 ERR_NOT_FOUND else (200, JObject [(''read'', JBool True)])),
           ad\<lparr> ad_monitor := (ad_monitor ad)\<lparr> mo_alerts := t \<rparr> \<rparr>))"

text \<open>The rows and source states are serialized by \<open>serde\<close>, which is a parameter here.\<close>

definition quota_handler :: "(quota_row \<Rightarrow> json) \<Rightarrow> (sources \<Rightarrow> json) \<Rightarrow> fault \<Rightarrow> admin_state \<Rightarrow> api_answer" where
  "quota_handler row_json sources_json f ad =
     (case latest_quota_snapshots f (mo_snaps (ad_monitor ad)) of
        Inl _ \<Rightarrow> err_body 500 ERR_INTERNAL
      | Inr snapshots \<Rightarrow>
          (200, JObject [(''snapshots'', JArray (map row_json snapshots)),
             (''sources'', sources_json (statuses (mo_sources (ad_monitor ad))))]))"

definition tunnel_config_handler :: "admin_state \<Rightarrow> api_answer" where
  "tunnel_config_handler ad =
     (200, (case ad_tunnel ad of
        Some t \<Rightarrow> JObject [(''url'', JString (tp_url t)), (''token'', JString (tp_token t))]
      | None \<Rightarrow> JObject [(''url'', JNull), (''token'', JNull)]))"

section \<open>The router\<close>

datatype admin_call =
    CreateToken "(string \<times> nat option) option" | ListTokens | RevokeToken nat
  | ListRoutes | CreateRoute "new_route option" | UpdateRoute string "update_route_req option" | DeleteRoute string
  | TestRoute string | UsageOf usage_query | Health | Alerts "nat option" "nat option" | MarkRead int
  | Quota | MonitorConfig | TunnelConfigCall | DskFile string

text \<open>What surrounds a call: the clock, random bytes, the names of the edges, the faults of up to
  three statements, and the parts that are parameters.\<close>

record admin_world =
  aw_now :: nat
  aw_rnd :: string
  aw_edges :: "string list"
  aw_faults :: "fault \<times> fault \<times> fault"
  aw_probe :: "string \<Rightarrow> string \<Rightarrow> probe \<times> nat"
  aw_edge_error :: "string \<times> string"
  aw_quota_json :: "quota_row \<Rightarrow> json"
  aw_sources_json :: "sources \<Rightarrow> json"
  aw_monitor_config :: json
  aw_read_file :: "string \<Rightarrow> string option"
  aw_dist_dir :: "string option"

datatype admin_answer = ApiAnswer api_answer | FileAnswer http_response

definition admin_dispatch :: "crypto \<Rightarrow> admin_world \<Rightarrow> admin_call \<Rightarrow> admin_state \<Rightarrow> admin_answer \<times> admin_state" where
  "admin_dispatch K W c ad =
     (case aw_faults W of (f1, f2, f3) \<Rightarrow>
        (case c of
           CreateToken body \<Rightarrow> apfst ApiAnswer (create_token_handler K (aw_now W) (aw_rnd W) f1 f2 body ad)
         | ListTokens \<Rightarrow> (ApiAnswer (list_tokens_handler (aw_now W) f1 ad), ad)
         | RevokeToken tid \<Rightarrow> apfst ApiAnswer (revoke_token_handler (aw_now W) f1 f2 f3 tid ad)
         | ListRoutes \<Rightarrow> (ApiAnswer (list_routes_handler f1 ad), ad)
         | CreateRoute body \<Rightarrow> apfst ApiAnswer (create_route_handler (aw_edges W) (aw_now W) f1 f2 body ad)
         | UpdateRoute name body \<Rightarrow> apfst ApiAnswer (update_route_handler (aw_edges W) f1 f2 f3 name body ad)
         | DeleteRoute name \<Rightarrow> apfst ApiAnswer (delete_route_handler f1 f2 name ad)
         | TestRoute name \<Rightarrow> (ApiAnswer (test_route_handler (aw_edges W) (aw_probe W) (aw_edge_error W) name ad), ad)
         | UsageOf q \<Rightarrow> (ApiAnswer (usage_handler (aw_now W) f1 q ad), ad)
         | Health \<Rightarrow> (ApiAnswer (health_handler (aw_now W) f1 f2 ad), ad)
         | Alerts unread n \<Rightarrow> (ApiAnswer (alerts_handler f1 unread n ad), ad)
         | MarkRead i \<Rightarrow> apfst ApiAnswer (mark_alert_read_handler (aw_now W) f1 i ad)
         | Quota \<Rightarrow> (ApiAnswer (quota_handler (aw_quota_json W) (aw_sources_json W) f1 ad), ad)
         | MonitorConfig \<Rightarrow> (ApiAnswer (200, aw_monitor_config W), ad)
         | TunnelConfigCall \<Rightarrow> (ApiAnswer (tunnel_config_handler ad), ad)
         | DskFile name \<Rightarrow> (FileAnswer (dsk_file_handler (aw_read_file W) (aw_dist_dir W) name), ad)))"

text \<open>Only the release files are under \<open>/dsk/\<close>, which the middleware lets through.\<close>

definition is_dsk :: "admin_call \<Rightarrow> bool" where
  "is_dsk c = (case c of DskFile _ \<Rightarrow> True | _ \<Rightarrow> False)"

definition serve_admin ::
  "crypto \<Rightarrow> admin_world \<Rightarrow> headers \<Rightarrow> admin_call \<Rightarrow> admin_state \<Rightarrow> admin_answer \<times> touch_job \<times> admin_state" where
  "serve_admin K W hs c ad =
     (if is_dsk c then (case admin_dispatch K W c ad of (a, ad') \<Rightarrow> (a, None, ad'))
      else (case bearer_token hs of
        None \<Rightarrow> (ApiAnswer (err_body 401 ERR_UNAUTHORIZED), None, ad)
      | Some token \<Rightarrow>
          (case verify_admin K (aw_now W) token (ad_tokens ad) of
             (Inl _, job, svc) \<Rightarrow> (ApiAnswer (err_body 401 ERR_UNAUTHORIZED), job, ad\<lparr> ad_tokens := svc \<rparr>)
           | (Inr _, job, svc) \<Rightarrow>
               (case admin_dispatch K W c (ad\<lparr> ad_tokens := svc \<rparr>) of (a, ad') \<Rightarrow> (a, job, ad')))))"

section \<open>Lemmas\<close>

text \<open>A call changes the token table in at most one way: as the creation of a data token, or
  as the revocation of a row that is not the admin's.\<close>

definition spares_admin :: "token_table \<Rightarrow> int \<Rightarrow> bool" where
  "spares_admin t tid \<longleftrightarrow> (\<exists>r \<in> set (tk_rows t). tk_id r = tid \<and> tk_name r \<noteq> ADMIN_NAME)"

lemma create_token_handler_tokens:
  "ad_tokens (snd (create_token_handler K now rnd f g body ad)) = ad_tokens ad
   \<or> (\<exists>name days. ad_tokens (snd (create_token_handler K now rnd f g body ad)) =
        tok_step K (now, OpCreate rnd f g name days) (ad_tokens ad))"
proof (cases "\<exists>name days. body = Some (name, days) \<and> name \<noteq> ADMIN_NAME")
  case True
  then obtain name days where b: "body = Some (name, days)" "name \<noteq> ADMIN_NAME" by blast
  obtain res svc where "create_token K now rnd f g name days (ad_tokens ad) = (res, svc)" by fastforce
  with b have "ad_tokens (snd (create_token_handler K now rnd f g body ad)) =
      tok_step K (now, OpCreate rnd f g name days) (ad_tokens ad)"
    by (cases res) (simp_all add: create_token_handler_def split: prod.split)
  then show ?thesis by blast
next
  case False
  then show ?thesis by (cases body) (auto simp: create_token_handler_def)
qed

lemma revoke_token_handler_tokens:
  "ad_tokens (snd (revoke_token_handler now lf f g raw ad)) = ad_tokens ad
   \<or> spares_admin (ts_store (ad_tokens ad)) (as_i64 raw)
     \<and> ad_tokens (snd (revoke_token_handler now lf f g raw ad)) =
         tok_step K (now, OpRevoke f g (as_i64 raw)) (ad_tokens ad)"
proof (cases "\<exists>r. find (\<lambda>r. tk_id r = as_i64 raw) (tk_rows (ts_store (ad_tokens ad))) = Some r \<and> tk_name r \<noteq> ADMIN_NAME")
  case True
  then obtain r where r: "find (\<lambda>r. tk_id r = as_i64 raw) (tk_rows (ts_store (ad_tokens ad))) = Some r"
    "tk_name r \<noteq> ADMIN_NAME" by blast
  then have "spares_admin (ts_store (ad_tokens ad)) (as_i64 raw)"
    unfolding spares_admin_def find_Some_iff by (auto intro!: bexI [of _ r])
  moreover have "ad_tokens (snd (revoke_token_handler now None f g raw ad)) =
      snd (revoke_token now f g (as_i64 raw) (ad_tokens ad))"
    using r by (simp add: revoke_token_handler_def list_tokens_def split: prod.split sum.split)
  moreover have "snd (revoke_token_handler now (Some x) f g raw ad) = ad" for x
    by (simp add: revoke_token_handler_def list_tokens_def)
  ultimately show ?thesis by (cases lf) simp_all
next
  case False
  then have "snd (revoke_token_handler now lf f g raw ad) = ad"
    by (cases lf; cases "find (\<lambda>r. tk_id r = as_i64 raw) (tk_rows (ts_store (ad_tokens ad)))")
      (simp_all add: revoke_token_handler_def list_tokens_def)
  then show ?thesis by simp
qed

lemma other_handlers_tokens [simp]:
  "ad_tokens (snd (create_route_handler es now f g body ad)) = ad_tokens ad"
  "ad_tokens (snd (update_route_handler es f g lf name ubody ad)) = ad_tokens ad"
  "ad_tokens (snd (delete_route_handler f g name ad)) = ad_tokens ad"
  "ad_tokens (snd (mark_alert_read_handler now f i ad)) = ad_tokens ad"
  by (auto simp: create_route_handler_def update_route_handler_def delete_route_handler_def
      mark_alert_read_handler_def split: option.split prod.split sum.split)

lemma admin_dispatch_tokens:
  obtains "ad_tokens (snd (admin_dispatch K W c ad)) = ad_tokens ad"
  | e where "ad_tokens (snd (admin_dispatch K W c ad)) = tok_step K e (ad_tokens ad)"
    "\<And>now f g tid. e = (now, OpRevoke f g tid) \<Longrightarrow> spares_admin (ts_store (ad_tokens ad)) tid"
proof -
  obtain f1 f2 f3 where "aw_faults W = (f1, f2, f3)" by (metis prod_cases3)
  note dispatch = admin_dispatch_def this
  show ?thesis
  proof (cases c)
    case (CreateToken body)
    then have d: "snd (admin_dispatch K W c ad) = snd (create_token_handler K (aw_now W) (aw_rnd W) f1 f2 body ad)"
      by (simp add: dispatch)
    from create_token_handler_tokens [of K "aw_now W" "aw_rnd W" f1 f2 body ad] show ?thesis
    proof (elim disjE exE)
      fix name days
      assume "ad_tokens (snd (create_token_handler K (aw_now W) (aw_rnd W) f1 f2 body ad)) =
        tok_step K (aw_now W, OpCreate (aw_rnd W) f1 f2 name days) (ad_tokens ad)"
      then show ?thesis by (intro that(2) [of "(aw_now W, OpCreate (aw_rnd W) f1 f2 name days)"]) (simp_all add: d)
    qed (use that(1) d in simp)
  next
    case (RevokeToken tid)
    then have d: "snd (admin_dispatch K W c ad) = snd (revoke_token_handler (aw_now W) f1 f2 f3 tid ad)"
      by (simp add: dispatch)
    from revoke_token_handler_tokens [of "aw_now W" f1 f2 f3 tid ad K] show ?thesis
      by (elim disjE conjE) (use that(1) that(2) [of "(aw_now W, OpRevoke f2 f3 (as_i64 tid))"] d in auto)
  qed (use that(1) in \<open>simp_all add: dispatch\<close>)
qed

text \<open>Authentication: the state is that of the dispatched call, or nothing happens.\<close>

lemma serve_admin_cases:
  obtains "serve_admin K W hs c ad = (ApiAnswer (err_body 401 ERR_UNAUTHORIZED), None, ad)" "\<not> is_dsk c"
  | token row where "bearer_token hs = Some token" "\<not> is_dsk c"
    "fst (verify_admin K (aw_now W) token (ad_tokens ad)) = Inr row"
    "snd (snd (serve_admin K W hs c ad)) = snd (admin_dispatch K W c
       (ad\<lparr> ad_tokens := tok_step K (aw_now W, OpVerifyAdmin token) (ad_tokens ad) \<rparr>))"
    "fst (serve_admin K W hs c ad) = fst (admin_dispatch K W c
       (ad\<lparr> ad_tokens := tok_step K (aw_now W, OpVerifyAdmin token) (ad_tokens ad) \<rparr>))"
  | "is_dsk c" "snd (snd (serve_admin K W hs c ad)) = ad"
proof (cases "is_dsk c")
  case True
  then have "snd (admin_dispatch K W c ad) = ad"
    by (auto simp: is_dsk_def admin_dispatch_def split: admin_call.splits prod.split)
  with True show ?thesis by (intro that(3)) (auto simp: serve_admin_def split: prod.split)
next
  case no_dsk: False
  show ?thesis
  proof (cases "bearer_token hs")
    case None
    with no_dsk show ?thesis by (intro that(1)) (simp_all add: serve_admin_def)
  next
    case (Some token)
    obtain res job svc where v: "verify_admin K (aw_now W) token (ad_tokens ad) = (res, job, svc)"
      by (metis prod_cases3)
    show ?thesis
    proof (cases res)
      case (Inl e)
      with v have "job = None" "svc = ad_tokens ad"
        by (auto simp: verify_admin_def split: sum.splits if_splits prod.splits)
      with Inl v no_dsk Some show ?thesis by (intro that(1)) (simp_all add: serve_admin_def)
    next
      case (Inr row)
      with v no_dsk Some show ?thesis
        by (intro that(2) [of token row]) (auto simp: serve_admin_def split: prod.split)
    qed
  qed
qed

text \<open>The administration plane at work: its calls, and what other parts do to the shared token
  service (verification by the data plane, the deferred writes of \<open>last_used_at\<close>).\<close>

inductive admin_step :: "crypto \<Rightarrow> admin_state \<Rightarrow> admin_state \<Rightarrow> bool" for K where
  call: "serve_admin K W hs c ad = (a, job, ad') \<Longrightarrow> admin_step K ad ad'"
| data: "admin_step K ad (ad\<lparr> ad_tokens := tok_step K (now, OpVerify p) (ad_tokens ad) \<rparr>)"
| touch: "admin_step K ad (ad\<lparr> ad_tokens := tok_step K (now, OpTouch f tid ts) (ad_tokens ad) \<rparr>)"

definition admin_kept :: "int \<Rightarrow> token_row \<Rightarrow> bool" where
  "admin_kept i r \<longleftrightarrow> tk_id r = i \<and> tk_name r = ADMIN_NAME \<and> tk_revoked_at r = None \<and> tk_expires_at r = None"

abbreviation admin_has :: "int \<Rightarrow> string \<Rightarrow> admin_state \<Rightarrow> bool" where
  "admin_has i h ad \<equiv> row_has (admin_kept i) h (ts_store (ad_tokens ad)) (ts_cache (ad_tokens ad))"

lemma admin_kept_step:
  assumes "row_has (admin_kept i) h (ts_store svc) (ts_cache svc)"
    and "\<And>now f g tid. e = (now, OpRevoke f g tid) \<Longrightarrow> spares_admin (ts_store svc) tid"
  shows "row_has (admin_kept i) h (ts_store (tok_step K e svc)) (ts_cache (tok_step K e svc))"
proof (rule row_has_step [OF assms(1)])
  obtain a where a: "a \<in> set (tk_rows (ts_store svc))" "tk_id a = i" "tk_name a = ADMIN_NAME"
    and ok: "token_table_ok (ts_store svc)"
    using assms(1) by (auto simp: row_has_def admin_kept_def)
  show "admin_kept i (revoke_row now tid r)" if e: "e = (now, OpRevoke f g tid)" and r: "admin_kept i r" for r now f g tid
  proof -
    obtain b where "b \<in> set (tk_rows (ts_store svc))" "tk_id b = tid" "tk_name b \<noteq> ADMIN_NAME"
      using assms(2) [OF e] by (auto simp: spares_admin_def)
    with a ok have "tid \<noteq> i"
      unfolding token_table_ok_def by (metis (mono_tags, lifting) distinct_map inj_onD)
    with r show ?thesis by (auto simp: revoke_row_def admin_kept_def)
  qed
qed (auto simp: admin_kept_def)

lemma admin_has_dispatch: "admin_has i h ad \<Longrightarrow> admin_has i h (snd (admin_dispatch K W c ad))"
  by (rule admin_dispatch_tokens [of K W c ad]) (use admin_kept_step in auto)

lemma admin_has_step:
  assumes "admin_has i h ad" "admin_step K ad ad'"
  shows "admin_has i h ad'"
  using assms(2)
proof cases
  case (call W hs c a job)
  then have ad': "ad' = snd (snd (serve_admin K W hs c ad))" by simp
  show ?thesis
  proof (rule serve_admin_cases [of K W hs c ad])
    fix token row
    assume "snd (snd (serve_admin K W hs c ad)) = snd (admin_dispatch K W c
       (ad\<lparr> ad_tokens := tok_step K (aw_now W, OpVerifyAdmin token) (ad_tokens ad) \<rparr>))"
    moreover have "admin_has i h (ad\<lparr> ad_tokens := tok_step K (aw_now W, OpVerifyAdmin token) (ad_tokens ad) \<rparr>)"
      using assms(1) by simp
    ultimately show ?thesis unfolding ad' by (metis admin_has_dispatch)
  qed (use assms(1) ad' in simp_all)
next
  case (touch now f tid ts)
  then show ?thesis using admin_kept_step [OF assms(1), of "(now, OpTouch f tid ts)" K] by simp
qed (use assms(1) in simp)

interpretation admin_plane: machine "admin_has i h" "admin_step K" "admin_has i h"
  by unfold_locales (auto intro: admin_has_step)

section \<open>Properties\<close>

definition demo_admin_world :: admin_world where
  "demo_admin_world = \<lparr> aw_now = 120, aw_rnd = ''cd'', aw_edges = [], aw_faults = (None, None, None),
     aw_probe = (\<lambda>_ _. (ProbeTimeout, 0)), aw_edge_error = (''t'', ''e''), aw_quota_json = (\<lambda>_. JNull), aw_sources_json = (\<lambda>_. JNull),
     aw_monitor_config = JNull, aw_read_file = (\<lambda>_. None), aw_dist_dir = None \<rparr>"

text \<open>C29: a call outside \<open>/dsk/\<close> that gets anything but the fixed 401, or that changes anything,
  bears a token whose hash is that of a row of the table which belongs to the admin, is not revoked
  and not expired.  So no data token administers, and a rejected call leaves the state as it was.\<close>

theorem admin_requires_token:
  assumes "\<not> is_dsk c" "coherent (ts_store (ad_tokens ad)) (ts_cache (ad_tokens ad))"
    and "serve_admin K W hs c ad \<noteq> (ApiAnswer (err_body 401 ERR_UNAUTHORIZED), None, ad)"
  shows "\<exists>token. header_str ''authorization'' hs = Some (''Bearer '' @ token)
    \<and> (\<exists>r \<in> set (tk_rows (ts_store (ad_tokens ad))).
         live_row (aw_now W) (sha256_hex K token) r \<and> tk_name r = ADMIN_NAME)"
proof (rule serve_admin_cases [of K W hs c ad])
  fix token row
  assume b: "bearer_token hs = Some token" and v: "fst (verify_admin K (aw_now W) token (ad_tokens ad)) = Inr row"
  from v have "\<exists>row. lookup_verified K (aw_now W) token (ad_tokens ad) = Inr row \<and> tk_name row \<in> {ADMIN_NAME}"
    by (auto simp: verify_admin_def split: sum.splits if_splits)
  with b show ?thesis
    unfolding coherent_lookup [OF assms(2)]
    by (auto simp: bearer_token_def split: option.splits if_splits)
qed (use assms in simp_all)

text \<open>C30: the administrator cannot be locked out.  From a state whose table and cache hold the
  admin's row, neither revoked nor expiring, every sequence of calls of the API (with any store faults),
  of verifications by the data plane and of deferred writes leads to a state in which the admin's token
  still authenticates: the call is dispatched.\<close>

theorem admin_never_locked_out:
  assumes "row_has (admin_kept i) (sha256_hex K p) (ts_store (ad_tokens ad)) (ts_cache (ad_tokens ad))"
    and "(admin_step K)\<^sup>*\<^sup>* ad ad'" "bearer_token hs = Some p" "\<not> is_dsk c"
  shows "fst (serve_admin K W hs c ad') = fst (admin_dispatch K W c
      (ad'\<lparr> ad_tokens := snd (snd (verify_admin K (aw_now W) p (ad_tokens ad'))) \<rparr>))
    \<and> (\<exists>row. fst (verify_admin K (aw_now W) p (ad_tokens ad')) = Inr row)"
proof -
  from admin_plane.reachable_inv [OF assms(1,2)]
  obtain r where "ts_cache (ad_tokens ad') (sha256_hex K p) = Some r" "admin_kept i r"
    by (auto simp: row_has_def)
  then obtain job svc where "verify_admin K (aw_now W) p (ad_tokens ad') = (Inr r, job, svc)"
    by (cases "throttle_touch (aw_now W) r (ad_tokens ad')")
      (auto simp: verify_admin_def lookup_verified_def admin_kept_def)
  then show ?thesis
    using assms(3,4) by (auto simp: serve_admin_def split: prod.split)
qed

text \<open>A plane that \<open>token_service_new\<close> has set up on an empty table.\<close>

definition demo_admin :: admin_state where
  "demo_admin = \<lparr> ad_tokens = (case fst (token_service_new demo 100 ''ab'' None None None None empty_tokens) of
       Inr svc \<Rightarrow> svc | Inl _ \<Rightarrow> demo_svc),
     ad_routes = \<lparr> rt_store = [], rt_table = Map.empty \<rparr>, ad_usage = tracker_new, ad_monitor = monitor_new, ad_tunnel = None \<rparr>"

definition demo_headers :: headers where
  "demo_headers = [(''authorization'', ''Bearer pony_admin_6162'')]"

lemma demo_admin_cached:
  "map_option (\<lambda>r. admin_kept 1 r \<and> r \<in> set (tk_rows (ts_store (ad_tokens demo_admin))) \<and> tk_hash r = sha256_hex demo ''pony_admin_6162'')
     (ts_cache (ad_tokens demo_admin) (sha256_hex demo ''pony_admin_6162'')) = Some True"
  by code_simp

lemma demo_admin_has:
  "row_has (admin_kept 1) (sha256_hex demo ''pony_admin_6162'') (ts_store (ad_tokens demo_admin)) (ts_cache (ad_tokens demo_admin))"
proof -
  have "token_table_ok (ts_store (ad_tokens demo_admin))" by code_simp
  then show ?thesis using demo_admin_cached by (auto simp: row_has_def)
qed

lemma demo_bearer: "bearer_token demo_headers = Some ''pony_admin_6162''" by code_simp

theorem admin_never_locked_out_witness:
  "\<exists>row. fst (verify_admin demo 120 ''pony_admin_6162''
     (ad_tokens (snd (snd (serve_admin demo demo_admin_world demo_headers (RevokeToken 1) demo_admin))))) = Inr row"
proof -
  have "(admin_step demo)\<^sup>*\<^sup>* demo_admin (snd (snd (serve_admin demo demo_admin_world demo_headers (RevokeToken 1) demo_admin)))"
    by (intro r_into_rtranclp admin_step.call [of demo demo_admin_world demo_headers "RevokeToken 1"]) (simp add: prod_eq_iff)
  from admin_never_locked_out [OF demo_admin_has this demo_bearer, of Health demo_admin_world]
  show ?thesis by (simp add: is_dsk_def demo_admin_world_def)
qed

theorem admin_requires_token_witness:
  "\<exists>token. header_str ''authorization'' demo_headers = Some (''Bearer '' @ token)
    \<and> (\<exists>r \<in> set (tk_rows (ts_store (ad_tokens demo_admin))).
         live_row 120 (sha256_hex demo token) r \<and> tk_name r = ADMIN_NAME)"
proof -
  let ?n = "token_service_new demo 100 ''ab'' None None None None empty_tokens"
  have "isl (fst ?n) = False" by code_simp
  then have n: "?n = (Inr (ad_tokens demo_admin), snd ?n)"
    by (cases "fst ?n") (auto simp: demo_admin_def prod_eq_iff)
  have "fst (serve_admin demo demo_admin_world demo_headers TunnelConfigCall demo_admin) \<noteq> ApiAnswer (err_body 401 ERR_UNAUTHORIZED)"
    by code_simp
  then have "serve_admin demo demo_admin_world demo_headers TunnelConfigCall demo_admin \<noteq> (ApiAnswer (err_body 401 ERR_UNAUTHORIZED), None, demo_admin)"
    by auto
  from admin_requires_token [OF _ coherent_new [OF n token_table_ok_empty] this]
  show ?thesis by (simp add: is_dsk_def demo_admin_world_def)
qed

end
