(* ===== verification/ProxyPool.thy ===== *)
theory ProxyPool
  imports Json
begin

text \<open>
  The pool of public proxies (\<open>crates/core/src/pool.rs\<close>, \<open>source.rs\<close>, \<open>check.rs\<close>): reading the two
  lists, checking candidates through a tunnel, choosing one, and the task that keeps the pool
  alive.  The network, \<open>serde_json\<close>, the conversion of a floating point number and
  \<open>to_uppercase\<close> are parameters.
\<close>

section \<open>Records\<close>

record proxy_record =
  pr_ip :: string
  pr_port :: nat
  pr_protocol :: string
  pr_country :: "string option"
  pr_anonymity :: "string option"
  pr_latency_ms :: "nat option"
  pr_last_verified :: "nat option"

definition addr :: "proxy_record \<Rightarrow> string" where
  "addr p = pr_ip p @ '':'' @ show_nat (pr_port p)"

record pool_config =
  pc_static_upstreams :: "string list"
  pc_countries :: "string list"
  pc_pool_ttl_sec :: nat
  pc_verify_concurrency :: nat

section \<open>Sources\<close>

definition str_field :: "string \<Rightarrow> string \<Rightarrow> json \<Rightarrow> string" where
  "str_field k dflt v = (case Option.bind (json_get k v) as_str of Some s \<Rightarrow> s | None \<Rightarrow> dflt)"

definition as_u64_value :: "json \<Rightarrow> nat option" where
  "as_u64_value v = (case v of JInt i \<Rightarrow> if 0 \<le> i \<and> nat i \<le> u64_max then Some (nat i) else None | _ \<Rightarrow> None)"

definition as_u16 :: "nat \<Rightarrow> nat" where
  "as_u16 n = n mod 65536"

definition port_field :: "json \<Rightarrow> nat" where
  "port_field v = as_u16 (case Option.bind (json_get ''port'' v) as_u64_value of Some n \<Rightarrow> n | None \<Rightarrow> 0)"

text \<open>The keys seen are the addresses of what was collected.\<close>

definition collect_record :: "proxy_record \<Rightarrow> proxy_record list \<Rightarrow> proxy_record list" where
  "collect_record r found = (if addr r \<in> addr ` set found then found else found @ [r])"

definition proxyscrape_entry ::
  "(json \<Rightarrow> nat option) \<Rightarrow> string list \<Rightarrow> proxy_record list \<Rightarrow> json \<Rightarrow> proxy_record list" where
  "proxyscrape_entry as_f64 cc_set found v =
     (let ip = str_field ''ip'' [] v; port = port_field v; protocol = str_field ''protocol'' ''http'' v;
          cc = str_field ''country_code'' [] v; anon = str_field ''anonymity'' [] v;
          latency = Option.bind (json_get ''latency_ms'' v) as_f64
      in if protocol \<in> {''http'', ''https'', ''socks5''} \<and> cc \<in> set cc_set \<and> ip \<noteq> [] \<and> port > 0
         then collect_record \<lparr> pr_ip = ip, pr_port = port, pr_protocol = protocol, pr_country = Some cc,
                pr_anonymity = Some anon, pr_latency_ms = latency, pr_last_verified = None \<rparr> found
         else found)"

definition thespeedx_line :: "proxy_record list \<Rightarrow> string \<Rightarrow> proxy_record list" where
  "thespeedx_line found line =
     (case rsplit_once (CHR '':'') (trim_str line) of
        None \<Rightarrow> found
      | Some (ip, port_str) \<Rightarrow>
          (case parse_uint 10 u16_max port_str of
             None \<Rightarrow> found
           | Some port \<Rightarrow>
               if ip \<noteq> [] \<and> port > 0
               then collect_record \<lparr> pr_ip = ip, pr_port = port, pr_protocol = ''http'', pr_country = None,
                      pr_anonymity = None, pr_latency_ms = None, pr_last_verified = None \<rparr> found
               else found))"

text \<open>A source that cannot be fetched or read gives nothing.\<close>

definition fetch_all ::
  "(json \<Rightarrow> nat option) \<Rightarrow> (string \<Rightarrow> string) \<Rightarrow> json list option \<Rightarrow> string option \<Rightarrow> string list \<Rightarrow> proxy_record list" where
  "fetch_all as_f64 to_uppercase raw body countries =
     (let cc_set = map to_uppercase countries;
          found = (case raw of Some vs \<Rightarrow> foldl (proxyscrape_entry as_f64 cc_set) [] vs | None \<Rightarrow> [])
      in case body of Some b \<Rightarrow> foldl thespeedx_line found (str_lines b) | None \<Rightarrow> found)"

section \<open>Checking a candidate\<close>

text \<open>What the network does for one candidate: whether the connection and the two writes succeed in time,
  the first read (absent on error or timeout) and what arrives before the end or the last
  timeout.\<close>

record check_net =
  cn_connected :: bool
  cn_connect_sent :: bool
  cn_first_read :: "string option"
  cn_request_sent :: bool
  cn_body :: string
  cn_now :: nat

definition verify_one :: "(string \<Rightarrow> json option) \<Rightarrow> check_net \<Rightarrow> proxy_record \<Rightarrow> proxy_record option" where
  "verify_one from_str net p =
     (if \<not> cn_connected net \<or> \<not> cn_connect_sent net then None
      else (case cn_first_read net of
        None \<Rightarrow> None
      | Some buf \<Rightarrow>
          if \<not> contains_str ''200'' (from_utf8_lossy buf) then None
          else if \<not> cn_request_sent net then None
          else (case from_str (from_utf8_lossy (cn_body net)) of
                  None \<Rightarrow> None
                | Some j \<Rightarrow>
                    (let country = str_field ''country'' [] j in
                     Some (p\<lparr> pr_country := (if country = [] then None else Some country),
                              pr_last_verified := Some (cn_now net) \<rparr>)))))"

text \<open>The tasks run at once but are awaited in the order of the candidates.\<close>

definition verify_batch :: "(string \<Rightarrow> json option) \<Rightarrow> (proxy_record \<Rightarrow> check_net) \<Rightarrow> proxy_record list \<Rightarrow> proxy_record list" where
  "verify_batch from_str net candidates = List.map_filter (\<lambda>p. verify_one from_str (net p) p) candidates"

section \<open>The pool\<close>

record proxy_pool =
  pp_proxies :: "proxy_record list"
  pp_config :: pool_config
  pp_last_refresh :: nat

text \<open>The surroundings of a refresh.\<close>

record refresh_world =
  rw_as_f64 :: "json \<Rightarrow> nat option"
  rw_upper :: "string \<Rightarrow> string"
  rw_json :: "json list option"
  rw_text :: "string option"
  rw_from_str :: "string \<Rightarrow> json option"
  rw_net :: "proxy_record \<Rightarrow> check_net"
  rw_now :: nat

definition pool_refresh :: "refresh_world \<Rightarrow> proxy_pool \<Rightarrow> proxy_pool" where
  "pool_refresh W p =
     (let countries = pc_countries (pp_config p) in
      if countries = [] then p
      else (let batch = take 500 (fetch_all (rw_as_f64 W) (rw_upper W) (rw_json W) (rw_text W) countries)
            in p\<lparr> pp_proxies := verify_batch (rw_from_str W) (rw_net W) batch, pp_last_refresh := rw_now W \<rparr>))"

definition pool_new :: "refresh_world \<Rightarrow> pool_config \<Rightarrow> proxy_pool" where
  "pool_new W c = pool_refresh W \<lparr> pp_proxies = [], pp_config = c, pp_last_refresh = 0 \<rparr>"

text \<open>\<open>rand_index\<close> with the random number drawn.\<close>

definition rand_index :: "nat \<Rightarrow> nat \<Rightarrow> nat" where
  "rand_index r n = (if n = 0 then 0 else r mod n)"

definition latency_key :: "proxy_record \<Rightarrow> nat" where
  "latency_key p = (case pr_latency_ms p of Some l \<Rightarrow> l | None \<Rightarrow> u64_max)"

definition pool_next :: "nat \<Rightarrow> proxy_pool \<Rightarrow> string option" where
  "pool_next r p =
     (let statics = pc_static_upstreams (pp_config p) in
      if statics \<noteq> [] then Some (statics ! rand_index r (length statics))
      else if pp_proxies p = [] then None
      else (let sorted = sort_key latency_key (pp_proxies p); n = min (length sorted) 10
            in Some (addr (sorted ! rand_index r n))))"

definition mark_failed :: "string \<Rightarrow> proxy_pool \<Rightarrow> proxy_pool" where
  "mark_failed a p = p\<lparr> pp_proxies := filter (\<lambda>q. addr q \<noteq> a) (pp_proxies p) \<rparr>"

record pool_stats =
  ps_dynamic_count :: nat
  ps_static_count :: nat
  ps_countries :: "string list"
  ps_last_refresh :: nat

definition pool_statistics :: "proxy_pool \<Rightarrow> pool_stats" where
  "pool_statistics p = \<lparr> ps_dynamic_count = length (pp_proxies p), ps_static_count = length (pc_static_upstreams (pp_config p)),
     ps_countries = pc_countries (pp_config p), ps_last_refresh = pp_last_refresh p \<rparr>"

text \<open>The parts of a round of \<open>keepalive_loop\<close> between which other tasks run: the refresh when the time is
  up; keeping those of the list taken before that still answer; and a refresh when fewer than
  three are left.\<close>

definition ttl_refresh :: "refresh_world \<Rightarrow> proxy_pool \<Rightarrow> proxy_pool" where
  "ttl_refresh W p = (if rw_now W - pp_last_refresh p > pc_pool_ttl_sec (pp_config p) then pool_refresh W p else p)"

definition keepalive_retain :: "refresh_world \<Rightarrow> proxy_record list \<Rightarrow> proxy_pool \<Rightarrow> proxy_pool" where
  "keepalive_retain W to_verify p =
     (if to_verify = [] then p
      else (let verified_addrs = map addr (verify_batch (rw_from_str W) (rw_net W) to_verify)
            in p\<lparr> pp_proxies := filter (\<lambda>q. addr q \<in> set verified_addrs) (pp_proxies p) \<rparr>))"

definition low_watermark :: "refresh_world \<Rightarrow> proxy_pool \<Rightarrow> proxy_pool" where
  "low_watermark W p = (if length (pp_proxies p) < 3 then pool_refresh W p else p)"

inductive pool_change :: "proxy_pool \<Rightarrow> proxy_pool \<Rightarrow> bool" where
  refresh: "pool_change p (pool_refresh W p)"
| ttl: "pool_change p (ttl_refresh W p)"
| keepalive: "pool_change p (keepalive_retain W to_verify p)"
| low: "pool_change p (low_watermark W p)"
| failed: "pool_change p (mark_failed a p)"

inductive_cases pool_changeE: "pool_change p q"

section \<open>Lemmas\<close>

definition proxy_ok :: "proxy_record \<Rightarrow> bool" where
  "proxy_ok r \<longleftrightarrow> pr_ip r \<noteq> [] \<and> 0 < pr_port r \<and> pr_port r \<le> u16_max"

definition found_ok :: "proxy_record list \<Rightarrow> bool" where
  "found_ok rs \<longleftrightarrow> distinct (map addr rs) \<and> (\<forall>r \<in> set rs. proxy_ok r)"

lemma found_ok_collect: "found_ok rs \<Longrightarrow> proxy_ok r \<Longrightarrow> found_ok (collect_record r rs)"
  by (auto simp: found_ok_def collect_record_def)

lemma found_ok_entry: "found_ok rs \<Longrightarrow> found_ok (proxyscrape_entry f cc rs v)"
  by (auto simp: proxyscrape_entry_def Let_def proxy_ok_def port_field_def as_u16_def intro!: found_ok_collect)

lemma found_ok_line: "found_ok rs \<Longrightarrow> found_ok (thespeedx_line rs l)"
  by (auto simp: thespeedx_line_def proxy_ok_def dest: parse_uint_le split: option.split intro!: found_ok_collect)

lemma found_ok_foldl: "found_ok rs \<Longrightarrow> (\<And>rs x. found_ok rs \<Longrightarrow> found_ok (f rs x)) \<Longrightarrow> found_ok (foldl f rs xs)"
  by (induction xs arbitrary: rs) auto

lemma found_ok_fetch_all: "found_ok (fetch_all f up raw body cs)"
proof -
  have "found_ok []" by (simp add: found_ok_def)
  then show ?thesis
    by (auto simp: fetch_all_def Let_def split: option.split intro!: found_ok_foldl found_ok_entry found_ok_line)
qed

lemma verify_one_Some:
  "verify_one fs net p = Some q \<Longrightarrow> addr q = addr p \<and> pr_last_verified q = Some (cn_now net) \<and> (proxy_ok p \<longrightarrow> proxy_ok q)"
  by (auto simp: verify_one_def Let_def addr_def proxy_ok_def split: if_splits option.splits)

text \<open>What a pool holds: checked records with distinct addresses, at most 500.\<close>

definition pool_ok :: "proxy_pool \<Rightarrow> bool" where
  "pool_ok p \<longleftrightarrow> found_ok (pp_proxies p) \<and> length (pp_proxies p) \<le> 500
     \<and> (\<forall>r \<in> set (pp_proxies p). pr_last_verified r \<noteq> None)"

lemma verify_batch_ok:
  assumes "found_ok cs"
  shows "found_ok (verify_batch fs net cs) \<and> length (verify_batch fs net cs) \<le> length cs
    \<and> (\<forall>r \<in> set (verify_batch fs net cs). pr_last_verified r \<noteq> None)
    \<and> addr ` set (verify_batch fs net cs) \<subseteq> addr ` set cs"
  using assms
proof (induction cs)
  case Nil
  then show ?case by (simp add: verify_batch_def map_filter_def found_ok_def)
next
  case (Cons c cs)
  then have ih: "found_ok (verify_batch fs net cs)" "length (verify_batch fs net cs) \<le> length cs"
    "\<forall>r \<in> set (verify_batch fs net cs). pr_last_verified r \<noteq> None"
    "addr ` set (verify_batch fs net cs) \<subseteq> addr ` set cs" and c: "proxy_ok c" "addr c \<notin> addr ` set cs"
    by (auto simp: found_ok_def)
  have step: "verify_batch fs net (c # cs) =
      (case verify_one fs (net c) c of Some q \<Rightarrow> q # verify_batch fs net cs | None \<Rightarrow> verify_batch fs net cs)"
    by (simp add: verify_batch_def map_filter_def split: option.split)
  show ?case
  proof (cases "verify_one fs (net c) c")
    case None
    with ih step show ?thesis by auto
  next
    case (Some q)
    from verify_one_Some [OF this] c have "addr q = addr c" "pr_last_verified q \<noteq> None" "proxy_ok q" by auto
    with ih step Some c(2) show ?thesis by (auto simp: found_ok_def)
  qed
qed

lemma found_ok_filter: "found_ok rs \<Longrightarrow> found_ok (filter P rs)"
  by (auto simp: found_ok_def distinct_map_filter)

lemma found_ok_take: "found_ok rs \<Longrightarrow> found_ok (take n rs)"
  by (auto simp: found_ok_def take_map [symmetric] dest: in_set_takeD)

lemma pool_ok_refresh: "pool_ok p \<Longrightarrow> pool_ok (pool_refresh W p)"
proof -
  let ?b = "take 500 (fetch_all (rw_as_f64 W) (rw_upper W) (rw_json W) (rw_text W) (pc_countries (pp_config p)))"
  note v = verify_batch_ok [OF found_ok_take [OF found_ok_fetch_all], of "rw_from_str W" "rw_net W" 500
      "rw_as_f64 W" "rw_upper W" "rw_json W" "rw_text W" "pc_countries (pp_config p)"]
  have "length (verify_batch (rw_from_str W) (rw_net W) ?b) \<le> 500"
    using conjunct1 [OF conjunct2 [OF v]] by simp
  then show "pool_ok (pool_refresh W p)" if "pool_ok p"
    using that v by (simp add: pool_ok_def pool_refresh_def Let_def)
qed

lemma pool_ok_filter: "pool_ok p \<Longrightarrow> pool_ok (p\<lparr> pp_proxies := filter P (pp_proxies p) \<rparr>)"
  by (auto simp: pool_ok_def found_ok_filter intro: le_trans [OF length_filter_le])

lemma pool_ok_change: "pool_ok p \<Longrightarrow> pool_change p q \<Longrightarrow> pool_ok q"
  by (elim pool_changeE)
    (auto simp: ttl_refresh_def keepalive_retain_def low_watermark_def mark_failed_def Let_def intro: pool_ok_refresh pool_ok_filter)

lemma pool_ok_new: "pool_ok (pool_new W c)"
  unfolding pool_new_def by (rule pool_ok_refresh) (simp add: pool_ok_def found_ok_def)

interpretation proxies: machine "\<lambda>p. \<exists>W c. p = pool_new W c" pool_change pool_ok
  by unfold_locales (auto intro: pool_ok_new pool_ok_change)


section \<open>Properties\<close>

text \<open>In every interleaving of refreshes, rounds of the keepalive task and failures reported by users, the
  pool has at most 500 records, no address twice, only ports from 1 to 65535, and each was checked.\<close>

theorem proxy_pool_ok:
  assumes "pool_change\<^sup>*\<^sup>* (pool_new W c) p"
  shows "distinct (map addr (pp_proxies p)) \<and> length (pp_proxies p) \<le> 500
    \<and> (\<forall>r \<in> set (pp_proxies p). proxy_ok r \<and> pr_last_verified r \<noteq> None)"
proof -
  have "pool_ok p" using assms proxies.reachable_inv by blast
  then show ?thesis by (simp add: pool_ok_def found_ok_def)
qed

lemma sort_key_prefix_min:
  assumes "i < length xs" "x \<in> set xs" "f x < f (sort_key f xs ! i)"
  shows "x \<in> set (take i (sort_key f xs))"
proof -
  obtain j where j: "j < length xs" "sort_key f xs ! j = x"
    using assms(2) by (metis in_set_conv_nth length_sort set_sort)
  have "j < i"
  proof (rule ccontr)
    assume "\<not> j < i"
    then have "f (sort_key f xs ! i) \<le> f (sort_key f xs ! j)"
      using sorted_nth_mono [OF sorted_sort_key, of i j f xs] j assms(1) by simp
    with assms(3) j show False by simp
  qed
  then show ?thesis using j by (metis in_set_conv_nth length_sort length_take min_less_iff_conj nth_take)
qed

text \<open>\<open>next\<close> gives nothing exactly when there is neither a static upstream nor a record; static upstreams
  come first; a record it gives is one of the ten of lowest latency: fewer than ten others are
  faster.\<close>

theorem pool_next_choice:
  "pool_next r p = None \<longleftrightarrow> pc_static_upstreams (pp_config p) = [] \<and> pp_proxies p = []"
  "pc_static_upstreams (pp_config p) \<noteq> [] \<Longrightarrow> \<exists>u \<in> set (pc_static_upstreams (pp_config p)). pool_next r p = Some u"
  "pc_static_upstreams (pp_config p) = [] \<Longrightarrow> pp_proxies p \<noteq> [] \<Longrightarrow>
     \<exists>q \<in> set (pp_proxies p). pool_next r p = Some (addr q)
       \<and> card {x \<in> set (pp_proxies p). latency_key x < latency_key q} < 10"
proof -
  let ?ps = "pp_proxies p" and ?us = "pc_static_upstreams (pp_config p)"
  show "pool_next r p = None \<longleftrightarrow> ?us = [] \<and> ?ps = []" by (auto simp: pool_next_def Let_def)
  show "\<exists>u \<in> set ?us. pool_next r p = Some u" if "?us \<noteq> []"
    using that by (auto simp: pool_next_def Let_def rand_index_def)
  show "\<exists>q \<in> set ?ps. pool_next r p = Some (addr q) \<and> card {x \<in> set ?ps. latency_key x < latency_key q} < 10"
    if e: "?us = []" "?ps \<noteq> []"
  proof -
    let ?s = "sort_key latency_key ?ps" and ?i = "rand_index r (min (length ?ps) 10)"
    have i: "?i < length ?ps" "?i < 10" using e by (auto simp: rand_index_def intro: less_le_trans [OF mod_less_divisor])
    have "{x \<in> set ?ps. latency_key x < latency_key (?s ! ?i)} \<subseteq> set (take ?i ?s)"
      using sort_key_prefix_min [OF i(1)] by blast
    then have "card {x \<in> set ?ps. latency_key x < latency_key (?s ! ?i)} \<le> card (set (take ?i ?s))"
      by (rule card_mono [OF finite_set])
    also have "\<dots> \<le> ?i" using card_length [of "take ?i ?s"] by simp
    finally have c: "card {x \<in> set ?ps. latency_key x < latency_key (?s ! ?i)} < 10" using i(2) by simp
    have "?s ! ?i \<in> set ?s" using i(1) by (intro nth_mem) simp
    then have "?s ! ?i \<in> set ?ps" by simp
    moreover have "pool_next r p = Some (addr (?s ! ?i))" using e by (simp add: pool_next_def Let_def)
    ultimately show ?thesis using c by blast
  qed
qed

text \<open>A proxy reported as failed is not chosen until a refresh finds it again.\<close>

theorem mark_failed_gone: "a \<notin> addr ` set (pp_proxies (mark_failed a p))"
  by (auto simp: mark_failed_def)


text \<open>No proxy ever passes the check of a real server: the answer is read with its status line and header,
  and a JSON reader refuses a text that begins with a letter other than those of its literals.\<close>

theorem check_never_passes:
  assumes "starts_with ''HTTP/'' (from_utf8_lossy (cn_body net))" "\<forall>r. from_str (''HTTP/'' @ r) = None"
  shows "verify_one from_str net p = None"
  using assms by (auto simp: verify_one_def starts_with_iff split: option.split)

end
