(* ===== verification/Migrate.thy ===== *)
theory Migrate
  imports RouteTable Json
begin

text \<open>
  The one-time import of routes from a configuration file of the old format
  (\<open>crates/core/src/store/migrate.rs\<close>): the routes that pass the checks of the route engine are
  written in one transaction, the file is backed up and rewritten without them.  Reading and printing
  JSON, the clock and the failures of files and store are inputs.
\<close>

section \<open>Files and failures\<close>

text \<open>The configuration, its backup and the temporary file; \<open>None\<close> is a file that does not exist or, for the
  configuration, cannot be read as text.  Writing a file truncates it first, so a failure comes with
  what it leaves of the file.\<close>

type_synonym write_fault = "(store_error \<times> string option) option"

record config_files =
  cf_config :: "string option"
  cf_bak :: "string option"
  cf_tmp :: "string option"

record migrate_env =
  mg_list :: fault
  mg_bak_write :: write_fault
  mg_begin :: fault
  mg_insert :: "string \<Rightarrow> fault"
  mg_now :: "string \<Rightarrow> nat"
  mg_commit :: fault
  mg_tmp_write :: write_fault
  mg_rename :: fault

datatype migration_outcome = Imported nat | AlreadyMigrated | NoLegacyRoutes

section \<open>The import\<close>

fun as_object :: "json \<Rightarrow> (string \<times> json) list option" where
  "as_object (JObject fs) = Some fs"
| "as_object _ = None"

definition validate_upstream_binding :: "string \<Rightarrow> bool" where
  "validate_upstream_binding s \<longleftrightarrow>
     s \<noteq> [] \<and> list_all (\<lambda>b. is_ascii_alphanumeric b \<or> b = CHR ''_'' \<or> b = CHR ''-'') s"

definition route_upstreams :: "json \<Rightarrow> string \<Rightarrow> string option" where
  "route_upstreams cfg name =
     (case json_get ''route_upstreams'' cfg of
        None \<Rightarrow> None
      | Some v \<Rightarrow> (case as_object v of
          None \<Rightarrow> None
        | Some m \<Rightarrow> map_of (List.map_filter (\<lambda>(k, v). map_option (Pair k) (as_str v)) m) name))"

definition legacy_row :: "json \<Rightarrow> nat \<Rightarrow> string \<Rightarrow> string \<Rightarrow> route_row" where
  "legacy_row cfg now name host =
     \<lparr> rt_name = name, rt_target_host = host, rt_upstream = None,
       rt_override_upstream = (case route_upstreams cfg name of
          Some b \<Rightarrow> if validate_upstream_binding b then Some b else None | None \<Rightarrow> None),
       rt_backup_upstream = None, rt_enabled = True, rt_created_at = now \<rparr>"

fun import_loop ::
  "migrate_env \<Rightarrow> json \<Rightarrow> (string \<times> json) list \<Rightarrow> nat \<Rightarrow> route_rows \<Rightarrow> store_error + nat \<times> route_rows" where
  "import_loop E cfg [] count t = Inr (count, t)"
| "import_loop E cfg ((name, target) # routes) count t =
     (case as_str target of
        None \<Rightarrow> import_loop E cfg routes count t
      | Some host \<Rightarrow>
          if validate_name name \<noteq> Inr () \<or> validate_host host \<noteq> Inr () then import_loop E cfg routes count t
          else (case mg_insert E name of
                  Some e \<Rightarrow> Inl e
                | None \<Rightarrow>
                    if list_ex (\<lambda>r. rt_name r = name) t then Inl SqliteConstraint
                    else import_loop E cfg routes (count + 1) (t @ [legacy_row cfg (mg_now E name) name host])))"

definition import_routes ::
  "migrate_env \<Rightarrow> (string \<times> json) list \<Rightarrow> json \<Rightarrow> route_rows \<Rightarrow> (store_error + nat) \<times> route_rows" where
  "import_routes E routes cfg t =
     (case mg_begin E of
        Some e \<Rightarrow> (Inl e, t)
      | None \<Rightarrow>
          (case import_loop E cfg routes 0 t of
             Inl e \<Rightarrow> (Inl e, t)
           | Inr (count, t') \<Rightarrow> (case mg_commit E of Some e \<Rightarrow> (Inl e, t) | None \<Rightarrow> (Inr count, t'))))"

definition backup_config :: "migrate_env \<Rightarrow> string \<Rightarrow> config_files \<Rightarrow> (store_error + unit) \<times> config_files" where
  "backup_config E raw fs =
     (if cf_bak fs \<noteq> None then (Inr (), fs)
      else (case mg_bak_write E of
              Some (e, left) \<Rightarrow> (Inl e, fs\<lparr> cf_bak := left \<rparr>)
            | None \<Rightarrow> (Inr (), fs\<lparr> cf_bak := Some raw \<rparr>)))"

text \<open>The value written back: without \<open>routes\<close> and with the path of the data base.\<close>

fun without_routes :: "string \<Rightarrow> json \<Rightarrow> json" where
  "without_routes db_path (JObject m) =
     JObject (AList.update ''db_path'' (JString db_path) (filter (\<lambda>(k, _). k \<noteq> ''routes'') m))"
| "without_routes db_path v = v"

definition rewrite_config ::
  "migrate_env \<Rightarrow> (json \<Rightarrow> string option) \<Rightarrow> json \<Rightarrow> string \<Rightarrow> config_files \<Rightarrow> (store_error + unit) \<times> config_files" where
  "rewrite_config E to_string_pretty cfg db_path fs =
     (case to_string_pretty (without_routes db_path cfg) of
        None \<Rightarrow> (Inl StoreJson, fs)
      | Some text \<Rightarrow>
          (case mg_tmp_write E of
             Some (e, left) \<Rightarrow> (Inl e, fs\<lparr> cf_tmp := left \<rparr>)
           | None \<Rightarrow>
               (let written = text @ [CHR 0x0A]; fs = fs\<lparr> cf_tmp := Some written \<rparr> in
                case mg_rename E of
                  Some e \<Rightarrow> (Inl e, fs)
                | None \<Rightarrow> (Inr (), fs\<lparr> cf_config := Some written, cf_tmp := None \<rparr>))))"

definition legacy_routes :: "json \<Rightarrow> (string \<times> json) list" where
  "legacy_routes cfg =
     (case json_get ''routes'' cfg of
        None \<Rightarrow> []
      | Some v \<Rightarrow> (case as_object v of None \<Rightarrow> [] | Some routes \<Rightarrow> routes))"

definition migrate_config_if_needed ::
  "(string \<Rightarrow> json option) \<Rightarrow> (json \<Rightarrow> string option) \<Rightarrow> string \<Rightarrow> migrate_env \<Rightarrow> config_files \<times> route_rows
   \<Rightarrow> (store_error + migration_outcome) \<times> config_files \<times> route_rows" where
  "migrate_config_if_needed from_str to_string_pretty db_path E = (\<lambda>(fs, t).
     case list_routes (mg_list E) t of
       Inl e \<Rightarrow> (Inl e, fs, t)
     | Inr rows \<Rightarrow>
         if rows \<noteq> [] then (Inr AlreadyMigrated, fs, t)
         else (case cf_config fs of
           None \<Rightarrow> (Inr NoLegacyRoutes, fs, t)
         | Some raw \<Rightarrow>
             (case from_str raw of
                None \<Rightarrow> (Inl StoreJson, fs, t)
              | Some cfg \<Rightarrow>
                  if legacy_routes cfg = [] then (Inr NoLegacyRoutes, fs, t)
                  else (case backup_config E raw fs of
                    (Inl e, fs) \<Rightarrow> (Inl e, fs, t)
                  | (Inr _, fs) \<Rightarrow>
                      (case import_routes E (legacy_routes cfg) cfg t of
                         (Inl e, t) \<Rightarrow> (Inl e, fs, t)
                       | (Inr count, t) \<Rightarrow>
                           (case rewrite_config E to_string_pretty cfg db_path fs of
                              (Inl e, fs) \<Rightarrow> (Inl e, fs, t)
                            | (Inr _, fs) \<Rightarrow> (Inr (Imported count), fs, t)))))))"

section \<open>Lemmas\<close>

text \<open>The rows that the routes of a file give.\<close>

definition legacy_rows :: "migrate_env \<Rightarrow> json \<Rightarrow> (string \<times> json) list \<Rightarrow> route_rows" where
  "legacy_rows E cfg routes =
     List.map_filter (\<lambda>(name, target). case as_str target of
        Some host \<Rightarrow> if validate_name name = Inr () \<and> validate_host host = Inr ()
          then Some (legacy_row cfg (mg_now E name) name host) else None
      | None \<Rightarrow> None) routes"

lemma legacy_rows_simps [simp]:
  "legacy_rows E cfg [] = []"
  "legacy_rows E cfg ((name, target) # routes) =
     (case as_str target of
        Some host \<Rightarrow> if validate_name name = Inr () \<and> validate_host host = Inr ()
          then [legacy_row cfg (mg_now E name) name host] else []
      | None \<Rightarrow> []) @ legacy_rows E cfg routes"
  by (auto simp: legacy_rows_def map_filter_def split: option.splits)

lemma import_loop_Inr:
  "import_loop E cfg routes count t = Inr (n, t') \<Longrightarrow>
     t' = t @ legacy_rows E cfg routes \<and> n = count + length (legacy_rows E cfg routes)
     \<and> (distinct (map rt_name t) \<longrightarrow> distinct (map rt_name t'))"
proof (induction E cfg routes count t rule: import_loop.induct)
  case (2 E cfg name target routes count t)
  then show ?case
    by (fastforce simp: legacy_row_def list_ex_iff split: option.splits if_splits)
qed simp

lemma legacy_rows_valid: "list_all row_valid (legacy_rows E cfg routes)"
  by (induction routes) (auto simp: row_valid_def legacy_row_def split: option.splits)

lemma import_routes_cases:
  assumes "import_routes E routes cfg t = (r, t')"
  obtains (failed) e where "r = Inl e" "t' = t"
  | (committed) "r = Inr (length (legacy_rows E cfg routes))" "t' = t @ legacy_rows E cfg routes"
      "distinct (map rt_name t) \<longrightarrow> distinct (map rt_name t')"
proof (cases "mg_begin E = None \<and> mg_commit E = None \<and> (\<exists>x. import_loop E cfg routes 0 t = Inr x)")
  case True
  then obtain n u where l: "import_loop E cfg routes 0 t = Inr (n, u)" by auto
  with True assms have "r = Inr n" "t' = u" by (auto simp: import_routes_def)
  with import_loop_Inr [OF l, simplified add_0] show ?thesis by (intro committed) metis+
next
  case False
  with assms have "\<exists>e. r = Inl e \<and> t' = t" by (auto simp: import_routes_def split: option.splits sum.splits)
  with failed show ?thesis by blast
qed

lemma sort_key_Nil_iff [simp]: "sort_key f xs = [] \<longleftrightarrow> xs = []"
  by (metis length_0_conv length_sort)

lemma rewrite_config_bak: "cf_bak (snd (rewrite_config E pretty cfg db fs)) = cf_bak fs"
  by (auto simp: rewrite_config_def Let_def split: option.splits)

section \<open>Properties\<close>

text \<open>The import is all or nothing, whatever fails.  The table is as before, or it was empty and has
  exactly the routes of the file that pass the checks, under distinct names; in the second case the
  backup was there or is the file as it was read.  The file itself changes only when everything
  succeeded, and then to the same value without \<open>routes\<close> and with the path of the data base.\<close>

theorem migrate_all_or_nothing:
  assumes "migrate_config_if_needed from_str pretty db E (fs, t) = (r, fs', t')"
  shows "(t' = t \<or> t = [] \<and> distinct (map rt_name t')
        \<and> (\<exists>raw cfg. cf_config fs = Some raw \<and> from_str raw = Some cfg \<and> t' = legacy_rows E cfg (legacy_routes cfg)
             \<and> cf_bak fs' = Some (case cf_bak fs of Some b \<Rightarrow> b | None \<Rightarrow> raw)))
    \<and> (cf_config fs' = cf_config fs
       \<or> (\<exists>raw cfg text. cf_config fs = Some raw \<and> from_str raw = Some cfg \<and> r = Inr (Imported (length t'))
            \<and> pretty (without_routes db cfg) = Some text \<and> cf_config fs' = Some (text @ [CHR 0x0A])))"
proof (cases "mg_list E = None \<and> t = [] \<and> (\<exists>raw cfg. cf_config fs = Some raw \<and> from_str raw = Some cfg \<and> legacy_routes cfg \<noteq> [])")
  case False
  then have "t' = t \<and> fs' = fs"
    using assms by (auto simp: migrate_config_if_needed_def list_routes_def split: option.splits if_splits)
  then show ?thesis by simp
next
  case True
  then obtain raw cfg where c: "mg_list E = None" "t = []" "cf_config fs = Some raw" "from_str raw = Some cfg" "legacy_routes cfg \<noteq> []"
    by blast
  obtain b fs1 where b: "backup_config E raw fs = (b, fs1)" by fastforce
  obtain i t1 where i: "import_routes E (legacy_routes cfg) cfg [] = (i, t1)" by fastforce
  obtain w fs2 where w: "rewrite_config E pretty cfg db fs1 = (w, fs2)" by fastforce
  have fs1: "cf_config fs1 = cf_config fs" "b = Inr () \<longrightarrow> cf_bak fs1 = Some (case cf_bak fs of Some b \<Rightarrow> b | None \<Rightarrow> raw)"
    using b by (auto simp: backup_config_def split: option.splits if_splits)
  have fs2: "cf_bak fs2 = cf_bak fs1" using rewrite_config_bak [of E pretty cfg db fs1] w by simp
  have w2: "cf_config fs2 = cf_config fs1 \<or> w = Inr () \<and> (\<exists>text. pretty (without_routes db cfg) = Some text \<and> cf_config fs2 = Some (text @ [CHR 0x0A]))"
    using w by (auto simp: rewrite_config_def Let_def split: option.splits)
  have m: "(r, fs', t') = (case b of Inl e \<Rightarrow> (Inl e, fs1, []) | Inr _ \<Rightarrow>
      (case i of Inl e \<Rightarrow> (Inl e, fs1, t1) | Inr count \<Rightarrow>
        (case w of Inl e \<Rightarrow> (Inl e, fs2, t1) | Inr _ \<Rightarrow> (Inr (Imported count), fs2, t1))))"
    using assms c b i w by (auto simp: migrate_config_if_needed_def list_routes_def split: sum.splits)
  from i show ?thesis
  proof (cases rule: import_routes_cases)
    case (failed e)
    with m fs1 c show ?thesis by (auto split: sum.splits)
  next
    case committed
    with m fs1 fs2 w2 c show ?thesis by (auto split: sum.splits)
  qed
qed

text \<open>What the import leaves is a table that the route engine may start from: its names are distinct and
  every row passed the checks (the hypotheses on the store under which every resolved address is
  a checked one).\<close>

theorem migrate_keeps_valid:
  assumes "migrate_config_if_needed from_str pretty db E (fs, t) = (r, fs', t')"
    and "route_rows_ok t" "list_all row_valid t"
  shows "route_rows_ok t' \<and> list_all row_valid t'"
  using migrate_all_or_nothing [OF assms(1)] assms(2,3) legacy_rows_valid by (auto simp: route_rows_ok_def)

text \<open>An import that wrote a route is the last one: any later call says so, changes nothing, and the
  routes are not added again, even when rewriting the file had failed.\<close>

theorem migrate_once:
  assumes "migrate_config_if_needed from_str pretty db E (fs, t) = (r, fs', t')" "t' \<noteq> []" "mg_list E' = None"
  shows "migrate_config_if_needed from_str pretty db E' (fs', t') = (Inr AlreadyMigrated, fs', t')"
  using assms(2,3) by (simp add: migrate_config_if_needed_def list_routes_def)

text \<open>A backup that could be written only in part counts as the backup from then on: the next call takes
  the routes over and the file as it was is kept nowhere.\<close>

theorem partial_backup_kept:
  assumes "mg_list E = None" "cf_config fs = Some raw" "cf_bak fs = None" "from_str raw = Some cfg" "legacy_routes cfg \<noteq> []"
    and "mg_bak_write E = Some (e, Some part)"
    and "migrate_config_if_needed from_str pretty db E (fs, []) = (r, fs', t')"
    and "migrate_config_if_needed from_str pretty db E' (fs', t') = (r', fs'', t'')"
  shows "r = Inl e \<and> t' = [] \<and> cf_bak fs'' = Some part"
proof -
  have r: "r = Inl e" "fs' = fs\<lparr> cf_bak := Some part \<rparr>" "t' = []"
    using assms(1-7) by (auto simp: migrate_config_if_needed_def list_routes_def backup_config_def)
  then have "cf_bak fs'' = Some part" using assms(2,4,5,8) rewrite_config_bak [of E' pretty cfg db fs']
    by (auto simp: migrate_config_if_needed_def list_routes_def backup_config_def split: option.splits if_splits sum.splits prod.splits)
  with r show ?thesis by simp
qed

text \<open>When no route of the file passes the checks, the file loses all of them nevertheless; with a
  backup from before, they are in no file afterwards.\<close>

theorem migrate_drops_invalid:
  assumes "migrate_config_if_needed from_str pretty db E (fs, []) = (Inr (Imported 0), fs', t')"
  shows "t' = [] \<and> (\<exists>raw cfg text. cf_config fs = Some raw \<and> from_str raw = Some cfg \<and> legacy_routes cfg \<noteq> []
    \<and> pretty (without_routes db cfg) = Some text \<and> cf_config fs' = Some (text @ [CHR 0x0A])
    \<and> (\<forall>old. cf_bak fs = Some old \<longrightarrow> cf_bak fs' = Some old))"
proof -
  from assms obtain raw cfg where c: "cf_config fs = Some raw" "from_str raw = Some cfg" "legacy_routes cfg \<noteq> []"
    by (auto simp: migrate_config_if_needed_def list_routes_def split: option.splits if_splits)
  with assms show ?thesis
    by (auto simp: migrate_config_if_needed_def list_routes_def backup_config_def rewrite_config_def Let_def
        split: option.splits if_splits sum.splits prod.splits elim!: import_routes_cases)
qed

end
