(* ===== verification/Whitelist.thy ===== *)
theory Whitelist
  imports Prelude
begin

text \<open>
  What the desktop client sends through the tunnel: the white list
  (\<open>desktop/src-tauri/src/proxy/whitelist.rs\<close>), the PAC script handed to the browser
  (\<open>pac.rs\<close>) and the decision of the local engine (\<open>decide\<close> in \<open>engine.rs\<close>).

  The script is a program of its own; \<open>find_proxy\<close> is its \<open>FindProxyForURL\<close>, statement by
  statement, on host names in ASCII (browsers hand over punycode), with the lists that
  \<open>generate_pac_with_bypass\<close> puts into it.  The browser's \<open>isPlainHostName\<close> is a parameter.
\<close>

section \<open>The white list\<close>

definition wl_normalize_host :: "string \<Rightarrow> string" where
  "wl_normalize_host host = trim_end_matches (CHR ''.'') (to_ascii_lowercase (trim_str host))"

definition BUILTIN_GFW_DOMAINS :: "string list" where
  "BUILTIN_GFW_DOMAINS =
     [''google.com'', ''googleapis.com'', ''gstatic.com'', ''googleusercontent.com'',
      ''googlevideo.com'', ''youtube.com'', ''ytimg.com'', ''ggpht.com'', ''gmail.com'', ''android.com'',
      ''openai.com'', ''chatgpt.com'', ''oaistatic.com'', ''oaiusercontent.com'',
      ''anthropic.com'', ''claude.ai'', ''deepmind.google'', ''huggingface.co'',
      ''cohere.com'', ''groq.com'', ''mistral.ai'', ''x.ai'', ''openrouter.ai'',
      ''github.com'', ''githubassets.com'', ''githubusercontent.com'', ''gitlab.com'',
      ''docker.com'', ''docker.io'', ''npmjs.org'', ''npmjs.com'', ''yarnpkg.com'',
      ''crates.io'', ''golang.org'', ''rust-lang.org'', ''v2ex.com'',
      ''x.com'', ''twitter.com'', ''twimg.com'', ''t.co'', ''telegram.org'', ''t.me'',
      ''discord.com'', ''discord.gg'', ''discordapp.com'', ''reddit.com'', ''redd.it'',
      ''medium.com'', ''notion.so'', ''notion.site'', ''wikipedia.org'', ''wikimedia.org'']"

definition GOOGLE_ALIASES :: "string list" where
  "GOOGLE_ALIASES =
     [''google.com.hk'', ''google.com.ph'', ''google.com.tw'', ''google.com.sg'', ''google.com.au'',
      ''google.co.jp'', ''google.co.uk'', ''google.co.kr'', ''google.de'', ''google.fr'', ''google.it'',
      ''google.es'', ''google.nl'', ''google.com.br'', ''google.ca'', ''google.com.mx'', ''google.com.ar'',
      ''google.ch'', ''google.se'', ''google.be'', ''google.pl'', ''google.com.my'', ''google.co.nz'',
      ''google.co.in'', ''google.com.tr'']"

definition aliases_for :: "string \<Rightarrow> string list" where
  "aliases_for entry = (if entry = ''google.com'' then GOOGLE_ALIASES else [])"

definition wl_suffix_match :: "string \<Rightarrow> string \<Rightarrow> bool" where
  "wl_suffix_match host entry =
     (if entry = [] \<or> \<not> ends_with entry host then False
      else (let rest = take (length host - length entry) host in rest = [] \<or> ends_with ''.'' rest))"

definition alias_match :: "string \<Rightarrow> string \<Rightarrow> bool" where
  "alias_match host entry =
     (if list_ex (wl_suffix_match host) (aliases_for entry) then True
      else if entry = ''google.com'' then
        (case rsplit_once (CHR ''.'') host of
           Some (base, suffix) \<Rightarrow>
             (length suffix = 2 \<or> length suffix = 3) \<and> list_all is_ascii_lower suffix \<and> wl_suffix_match base entry
         | None \<Rightarrow> False)
      else False)"

text \<open>The set of what was seen is that of what was put out.\<close>

definition push_new :: "string list \<Rightarrow> string \<Rightarrow> string list" where
  "push_new out e = (if e \<in> set out then out else out @ [e])"

definition push_entry :: "string list \<Rightarrow> string \<Rightarrow> string list" where
  "push_entry out e =
     (let norm = wl_normalize_host e in foldl push_new (push_new out norm) (map wl_normalize_host (aliases_for norm)))"

definition expand_entries :: "string list \<Rightarrow> string list" where
  "expand_entries entries = foldl push_entry (foldl push_entry [] BUILTIN_GFW_DOMAINS) entries"

definition matches :: "string \<Rightarrow> string list \<Rightarrow> bool" where
  "matches host entries =
     (let h = wl_normalize_host host;
          hit = (\<lambda>e. let ne = wl_normalize_host e in wl_suffix_match h ne \<or> alias_match h ne)
      in if h = [] then False
         else if list_ex hit BUILTIN_GFW_DOMAINS then True
         else list_ex hit entries)"

section \<open>The PAC script\<close>

datatype proxy_mode = Whitelist | Global

definition proxy_mode_from_str :: "string \<Rightarrow> proxy_mode" where
  "proxy_mode_from_str s = (if to_ascii_lowercase s = ''global'' then Global else Whitelist)"

text \<open>\<open>collect_bypass_hosts\<close>: the host of the tunnel's URL, when the settings file has one
  that the URL library reads, those of the update servers, and two fixed names.  The library is a
  parameter; a set is a list without duplicates.\<close>

definition UPDATER_ENDPOINTS :: "string list" where
  "UPDATER_ENDPOINTS = [''https://dl.example.com/latest.json'', ''https://access.example.com/dsk/latest.json'',
     ''http://100.95.193.103:9000/pproxy-releases/dsk/latest.json'']"

definition collect_bypass_hosts :: "(string \<Rightarrow> string option) \<Rightarrow> string option \<Rightarrow> string list" where
  "collect_bypass_hosts url_host tunnel_url =
     (let add = (\<lambda>hs u. case url_host u of Some h \<Rightarrow> push_new hs (to_ascii_lowercase h) | None \<Rightarrow> hs);
          hs = (case tunnel_url of Some u \<Rightarrow> add [] u | None \<Rightarrow> []);
          hs = foldl add hs UPDATER_ENDPOINTS;
          hs = (if hs = [] then [''access.example.com''] else hs)
      in push_new (push_new hs ''ponyjob.top'') ''searchxai.cn'')"

datatype verdict = PacProxy | PacDirect

definition pac_host :: "string \<Rightarrow> string" where
  "pac_host host = trim_end_matches (CHR ''.'') (to_ascii_lowercase host)"

definition is_number :: "string \<Rightarrow> bool" where
  "is_number s \<longleftrightarrow> s \<noteq> [] \<and> list_all is_ascii_digit s"

definition dotted_quad :: "string \<Rightarrow> bool" where
  "dotted_quad t \<longleftrightarrow> length (split_on (CHR ''.'') t) = 4 \<and> list_all is_number (split_on (CHR ''.'') t)"

definition parse_int :: "string \<Rightarrow> nat" where
  "parse_int s = foldl (\<lambda>a c. 10 * a + (byte c - 48)) 0 s"

definition second_part :: "string \<Rightarrow> nat" where
  "second_part t = parse_int (split_on (CHR ''.'') t ! 1)"

definition is_private_host :: "string \<Rightarrow> bool" where
  "is_private_host target =
     (let t = (if starts_with ''['' target \<and> ends_with '']'' target then butlast (tl target) else target)
      in if t \<in> {''localhost'', ''::1'', ''0.0.0.0''} then True
         else (let t = (if starts_with ''::ffff:'' t then drop 7 t else t)
           in if contains_str '':'' t then
                t = ''::1'' \<or> list_ex (\<lambda>p. starts_with p (to_ascii_lowercase t)) [''fc'', ''fd'', ''fe8'', ''fe9'', ''fea'', ''feb'']
              else if \<not> dotted_quad t then False
              else list_ex (\<lambda>p. starts_with p t) [''127.'', ''10.'', ''192.168.'', ''169.254.'']
                \<or> starts_with ''172.'' t \<and> 16 \<le> second_part t \<and> second_part t \<le> 31
                \<or> starts_with ''100.'' t \<and> 64 \<le> second_part t \<and> second_part t \<le> 127))"

definition direct_name :: "(string \<Rightarrow> bool) \<Rightarrow> string \<Rightarrow> bool" where
  "direct_name is_plain h \<longleftrightarrow>
     is_plain h \<or> h = ''localhost'' \<or> is_private_host h \<or> ends_with ''.ts.net'' h \<or> ends_with ''.local'' h \<or> ends_with ''.internal'' h"

definition pac_entry :: "string \<Rightarrow> string \<Rightarrow> bool" where
  "pac_entry h entry =
     (let e = to_ascii_lowercase entry in
      h = e \<or> ends_with (CHR ''.'' # e) h
      \<or> e = ''google.com'' \<and>
        (case rsplit_once (CHR ''.'') h of
           Some (base, tld) \<Rightarrow>
             base \<noteq> [] \<and> 2 \<le> length tld \<and> length tld \<le> 3 \<and> list_all is_ascii_lower tld
             \<and> (base = e \<or> ends_with (CHR ''.'' # e) base)
         | None \<Rightarrow> False))"

definition find_proxy :: "(string \<Rightarrow> bool) \<Rightarrow> string list \<Rightarrow> string list \<Rightarrow> proxy_mode \<Rightarrow> string \<Rightarrow> verdict" where
  "find_proxy is_plain entries bypass mode host =
     (let h = pac_host host in
      if direct_name is_plain h then PacDirect
      else if list_ex (\<lambda>b. h = to_ascii_lowercase b \<or> ends_with (CHR ''.'' # to_ascii_lowercase b) h) bypass then PacDirect
      else (case mode of
              Global \<Rightarrow> PacProxy
            | Whitelist \<Rightarrow> if list_ex (pac_entry h) (expand_entries entries) then PacProxy else PacDirect))"

section \<open>The decision of the engine\<close>

datatype route = Tunnel | Direct

definition decide :: "string list \<Rightarrow> string \<Rightarrow> string list \<Rightarrow> proxy_mode \<Rightarrow> route" where
  "decide bypass_set host whitelist_snapshot mode =
     (let norm = wl_normalize_host host in
      if norm = ''localhost'' \<or> norm = ''127.0.0.1'' \<or> norm = ''::1'' \<or> ends_with ''.ts.net'' norm
        \<or> ends_with ''.local'' norm \<or> ends_with ''.internal'' norm \<or> norm \<in> set bypass_set
      then Direct
      else (case mode of
              Global \<Rightarrow> Tunnel
            | Whitelist \<Rightarrow> if matches norm whitelist_snapshot then Tunnel else Direct))"

section \<open>Lemmas\<close>

lemma wl_suffix_match_iff: "wl_suffix_match h e \<longleftrightarrow> e \<noteq> [] \<and> (h = e \<or> ends_with (CHR ''.'' # e) h)"
proof (cases "\<exists>p. h = p @ e")
  case True
  then obtain p where h: "h = p @ e" by blast
  have "(\<exists>r. p @ e = r @ CHR ''.'' # e) \<longleftrightarrow> (\<exists>r. p = r @ ''.'')" by (auto simp: append_eq_append_conv2)
  then show ?thesis by (auto simp: wl_suffix_match_def ends_with_iff h)
next
  case False
  then show ?thesis by (auto simp: wl_suffix_match_def ends_with_iff)
qed

lemma trim_end_matches_idem [simp]: "trim_end_matches c (trim_end_matches c s) = trim_end_matches c s"
  by (simp add: trim_end_matches_def)

lemma trim_end_matches_not_suffix: "\<not> ends_with [c] (trim_end_matches c s)"
  using trim_end_matches_last [of c s] by (auto simp: ends_with_iff)

lemma lower_normalize_host [simp]: "to_ascii_lowercase (wl_normalize_host e) = wl_normalize_host e"
proof -
  have "list_all (\<lambda>c. ascii_lower_char c = c) (wl_normalize_host e)"
    by (auto simp: wl_normalize_host_def trim_end_matches_def to_ascii_lowercase_def list_all_iff dest!: set_dropWhileD)
  then show ?thesis by (simp add: to_ascii_lowercase_def list_all_iff map_idI)
qed

lemma set_push_new [simp]: "set (push_new out e) = insert e (set out)"
  by (auto simp: push_new_def)

lemma set_foldl_push_new [simp]: "set (foldl push_new out es) = set out \<union> set es"
  by (induction es arbitrary: out) auto

lemma aliases_normalized: "map wl_normalize_host GOOGLE_ALIASES = GOOGLE_ALIASES"
  by code_simp

definition forms_of :: "string \<Rightarrow> string set" where
  "forms_of e = insert (wl_normalize_host e) (set (aliases_for (wl_normalize_host e)))"

lemma set_push_entry [simp]: "set (push_entry out e) = set out \<union> forms_of e"
proof -
  have "map wl_normalize_host (aliases_for n) = aliases_for n" for n
    by (simp add: aliases_for_def aliases_normalized)
  then show ?thesis by (simp add: push_entry_def forms_of_def Let_def)
qed

lemma set_expand_entries: "set (expand_entries es) = (\<Union>e \<in> set BUILTIN_GFW_DOMAINS \<union> set es. forms_of e)"
proof -
  have "set (foldl push_entry out xs) = set out \<union> (\<Union>e \<in> set xs. forms_of e)" for out xs
    by (induction xs arbitrary: out) auto
  then show ?thesis by (auto simp: expand_entries_def)
qed

text \<open>The regional rule, as both programs have it.\<close>

definition google_region :: "string \<Rightarrow> bool" where
  "google_region h = (case rsplit_once (CHR ''.'') h of
     Some (base, tld) \<Rightarrow> (length tld = 2 \<or> length tld = 3) \<and> list_all is_ascii_lower tld \<and> wl_suffix_match base ''google.com''
   | None \<Rightarrow> False)"

lemma alias_match_iff:
  "alias_match h e \<longleftrightarrow> (\<exists>a \<in> set (aliases_for e). wl_suffix_match h a) \<or> e = ''google.com'' \<and> google_region h"
  by (auto simp: alias_match_def google_region_def list_ex_iff)

lemma pac_entry_iff:
  assumes "h \<noteq> []" "\<not> ends_with ''.'' h" "to_ascii_lowercase e = e"
  shows "pac_entry h e \<longleftrightarrow> wl_suffix_match h e \<or> e = ''google.com'' \<and> google_region h"
proof -
  have "(case rsplit_once (CHR ''.'') h of
         Some (base, tld) \<Rightarrow> base \<noteq> [] \<and> 2 \<le> length tld \<and> length tld \<le> 3 \<and> list_all is_ascii_lower tld
             \<and> (base = ''google.com'' \<or> ends_with (CHR ''.'' # ''google.com'') base)
       | None \<Rightarrow> False) \<longleftrightarrow> google_region h"
    by (auto simp: google_region_def wl_suffix_match_iff ends_with_iff split: option.split)
  moreover have "h = e \<or> ends_with (CHR ''.'' # e) h \<longleftrightarrow> wl_suffix_match h e"
    using assms(1,2) by (cases e) (auto simp: wl_suffix_match_iff)
  ultimately show ?thesis using assms(3) by (auto simp: pac_entry_def Let_def)
qed

lemma pac_host_normal: "trim_str host = host \<Longrightarrow> wl_normalize_host host = pac_host host"
  by (simp add: wl_normalize_host_def pac_host_def)

lemma pac_host_not_suffix: "\<not> ends_with ''.'' (pac_host host)"
  by (simp add: pac_host_def trim_end_matches_not_suffix)

lemma alias_not_google: "a \<in> set (aliases_for e) \<Longrightarrow> a \<noteq> ''google.com'' \<and> to_ascii_lowercase a = a"
proof -
  assume "a \<in> set (aliases_for e)"
  moreover have "list_all (\<lambda>a. a \<noteq> ''google.com'' \<and> to_ascii_lowercase a = a) GOOGLE_ALIASES" by code_simp
  ultimately show ?thesis by (auto simp: aliases_for_def list_all_iff split: if_splits)
qed

text \<open>The list in the script covers exactly what \<open>matches\<close> accepts.\<close>

lemma pac_list_iff:
  assumes "wl_normalize_host host = pac_host host" "pac_host host \<noteq> []"
  shows "list_ex (pac_entry (pac_host host)) (expand_entries es) \<longleftrightarrow> matches host es"
proof -
  let ?h = "pac_host host"
  have form: "(\<exists>f \<in> forms_of e. pac_entry ?h f) \<longleftrightarrow>
      wl_suffix_match ?h (wl_normalize_host e) \<or> alias_match ?h (wl_normalize_host e)" for e
    using pac_entry_iff [OF assms(2) pac_host_not_suffix] alias_not_google
    unfolding forms_of_def alias_match_iff by auto
  show ?thesis
    unfolding list_ex_iff set_expand_entries bex_UN form matches_def Let_def assms(1)
    using assms(2) by auto
qed

text \<open>Host names of graphic characters, as a browser has them.\<close>

definition graphic_name :: "string \<Rightarrow> bool" where
  "graphic_name s \<longleftrightarrow> (\<forall>c \<in> set s. graphic c)"

lemma trim_graphic_name: "graphic_name s \<Longrightarrow> trim_str s = s"
  by (cases "s = []") (auto simp: graphic_name_def intro!: trim_str_graphic)

lemma graphic_pac_host: "graphic_name host \<Longrightarrow> graphic_name (pac_host host)"
proof -
  assume g: "graphic_name host"
  have "graphic (ascii_lower_char c)" if "graphic c" for c
    using that by (auto simp: ascii_lower_char_def graphic_def ascii_defs)
  with g show ?thesis
    by (auto simp: graphic_name_def pac_host_def trim_end_matches_def to_ascii_lowercase_def dest!: set_dropWhileD)
qed

lemma lower_pac_host [simp]: "to_ascii_lowercase (pac_host host) = pac_host host"
proof -
  have "\<forall>c \<in> set (pac_host host). ascii_lower_char c = c"
    by (auto simp: pac_host_def trim_end_matches_def to_ascii_lowercase_def dest!: set_dropWhileD)
  then show ?thesis by (simp add: to_ascii_lowercase_def map_idI)
qed

lemma pac_host_idem [simp]: "pac_host (pac_host host) = pac_host host"
  by (simp only: pac_host_def [of "pac_host host"] lower_pac_host) (simp add: pac_host_def)

lemma normalize_graphic: "graphic_name host \<Longrightarrow> wl_normalize_host host = pac_host host"
  by (simp add: wl_normalize_host_def pac_host_def trim_graphic_name)

section \<open>Properties\<close>

text \<open>C31: the script in the browser and the engine agree.  For a host name of graphic characters
  that is not empty or only dots, and entries of the white list of any form, the script sends a
  request to the local proxy exactly when the engine, given the same lists and mode, tunnels it,
  and the name is neither plain nor a private address nor below a name of the bypass list.  So what
  the browser hands over as foreign is never dialled directly from the user's machine.\<close>

theorem pac_agrees_with_engine:
  assumes "graphic_name host" "pac_host host \<noteq> []" "\<forall>b \<in> set bypass. to_ascii_lowercase b = b"
  shows "find_proxy is_plain entries bypass mode host = PacProxy \<longleftrightarrow>
      decide bypass host entries mode = Tunnel
      \<and> \<not> is_plain (pac_host host) \<and> \<not> is_private_host (pac_host host)
      \<and> (\<forall>b \<in> set bypass. \<not> ends_with (CHR ''.'' # b) (pac_host host))"
proof -
  let ?h = "pac_host host"
  note norm = normalize_graphic [OF assms(1)]
  note norm' = normalize_graphic [OF graphic_pac_host [OF assms(1)], simplified]
  have hit: "list_ex (pac_entry ?h) (expand_entries entries) \<longleftrightarrow> matches ?h entries"
    using pac_list_iff [of ?h entries] norm' assms(2) by simp
  have loop: "is_private_host ''127.0.0.1''" "is_private_host ''::1''" by code_simp+
  have by_list: "list_ex (\<lambda>b. ?h = to_ascii_lowercase b \<or> ends_with (CHR ''.'' # to_ascii_lowercase b) ?h) bypass \<longleftrightarrow>
      ?h \<in> set bypass \<or> (\<exists>b \<in> set bypass. ends_with (CHR ''.'' # b) ?h)"
    using assms(3) by (auto simp: list_ex_iff)
  show ?thesis
    unfolding find_proxy_def decide_def Let_def norm by_list hit
    using loop by (auto simp: direct_name_def split: proxy_mode.split)
qed

theorem pac_agrees_with_engine_witness:
  "find_proxy (\<lambda>_. False) [] [''ponyjob.top''] Whitelist ''Accounts.Google.com.hk.'' = PacProxy"
proof -
  have 1: "graphic_name ''Accounts.Google.com.hk.''" "pac_host ''Accounts.Google.com.hk.'' \<noteq> []"
    "\<forall>b \<in> set [''ponyjob.top'']. to_ascii_lowercase b = b"
    unfolding graphic_name_def by code_simp+
  have 2: "decide [''ponyjob.top''] ''Accounts.Google.com.hk.'' [] Whitelist = Tunnel"
    "\<not> is_private_host (pac_host ''Accounts.Google.com.hk.'')"
    "\<forall>b \<in> set [''ponyjob.top'']. \<not> ends_with (CHR ''.'' # b) (pac_host ''Accounts.Google.com.hk.'')"
    by code_simp+
  show ?thesis using pac_agrees_with_engine [OF 1, of "\<lambda>_. False" "[]" Whitelist] 2 by blast
qed

end
