(* ===== verification/DesktopTunnel.thy ===== *)
theory DesktopTunnel
  imports TunnelConnect Whitelist
begin

text \<open>
  How the desktop client reaches a foreign host: the request heads it reads
  (\<open>desktop/src-tauri/src/proxy/engine.rs\<close>), the WebSocket tunnel with its repair of a
  rejected token (\<open>engine_tunnel.rs\<close>), and the user's own upstream proxy (\<open>engine_upstream.rs\<close>).

  Times are in milliseconds.  The settings on disk, the network and the client's socket are the
  parameters of each attempt; requests are served one at a time.
\<close>

section \<open>Request heads\<close>

datatype kind = Connect | Plain

record req_head =
  rq_kind :: kind
  rq_host :: string
  rq_port :: nat

definition desk_split_host_port :: "string \<Rightarrow> nat \<Rightarrow> (string \<times> nat) option" where
  "desk_split_host_port authority default_port =
     (case strip_prefix ''['' authority of
        Some stripped \<Rightarrow>
          (case split_once (CHR '']'') stripped of
             None \<Rightarrow> None
           | Some (h, rest) \<Rightarrow>
               if rest = [] then Some (h, default_port)
               else (case strip_prefix '':'' rest of
                       None \<Rightarrow> None
                     | Some port_str \<Rightarrow> map_option (Pair h) (parse_uint 10 u16_max port_str)))
      | None \<Rightarrow>
          (case rsplit_once (CHR '':'') authority of
             Some (h, p) \<Rightarrow> map_option (Pair h) (parse_uint 10 u16_max p)
           | None \<Rightarrow> Some (authority, default_port)))"

text \<open>\<open>splitn(3, ' ')\<close>, when it gives three parts.\<close>

definition splitn3 :: "string \<Rightarrow> (string \<times> string \<times> string) option" where
  "splitn3 line =
     (case split_once (CHR '' '') line of
        None \<Rightarrow> None
      | Some (a, rest) \<Rightarrow> (case split_once (CHR '' '') rest of None \<Rightarrow> None | Some (b, c) \<Rightarrow> Some (a, b, c)))"

definition until_path :: "string \<Rightarrow> string" where
  "until_path url = takeWhile (\<lambda>c. c \<noteq> CHR ''/'' \<and> c \<noteq> CHR ''?'') url"

definition from_path :: "string \<Rightarrow> string" where
  "from_path url = dropWhile (\<lambda>c. c \<noteq> CHR ''/'' \<and> c \<noteq> CHR ''?'') url"

definition parse_head :: "string \<Rightarrow> req_head option" where
  "parse_head head =
     (case str_lines head of
        [] \<Rightarrow> None
      | first # _ \<Rightarrow>
          (case strip_prefix ''CONNECT '' first of
             Some rest \<Rightarrow>
               map_option (\<lambda>(h, p). \<lparr> rq_kind = Connect, rq_host = h, rq_port = p \<rparr>)
                 (desk_split_host_port (before_char (CHR '' '') rest) 443)
           | None \<Rightarrow>
               (case splitn3 first of
                  None \<Rightarrow> None
                | Some (_, target, _) \<Rightarrow>
                    (case strip_prefix ''http://'' target of
                       None \<Rightarrow> None
                     | Some url \<Rightarrow>
                         map_option (\<lambda>(h, p). \<lparr> rq_kind = Plain, rq_host = h, rq_port = p \<rparr>)
                           (desk_split_host_port (until_path url) 80)))))"

definition CRLF :: string where [const_defs]: "CRLF = map char_of [13, 10 :: nat]"

definition split_first_line :: "string \<Rightarrow> string \<times> string" where
  "split_first_line head =
     (case find_sub CRLF head of
        Some i \<Rightarrow> (take i head, drop (i + 2) head)
      | None \<Rightarrow> (head, CRLF2))"

definition rewrite_with :: "(string \<Rightarrow> string) \<Rightarrow> string \<Rightarrow> string" where
  "rewrite_with path_of first =
     (case splitn3 first of
        None \<Rightarrow> first
      | Some (m, target, v) \<Rightarrow>
          (let after_scheme = (case strip_prefix ''http://'' target of Some u \<Rightarrow> u | None \<Rightarrow> target)
           in m @ '' '' @ path_of (from_path after_scheme) @ '' '' @ v))"

text \<open>The rewriting of the direct path puts a slash before a query, that of the tunnel does
  not.\<close>

definition rewrite_first_line_absolute :: "string \<Rightarrow> string" where
  "rewrite_first_line_absolute =
     rewrite_with (\<lambda>p. case p of [] \<Rightarrow> ''/'' | c # _ \<Rightarrow> if c = CHR ''?'' then CHR ''/'' # p else p)"

definition rewrite_first_line :: "string \<Rightarrow> string" where
  "rewrite_first_line = rewrite_with (\<lambda>p. if p = [] then ''/'' else p)"

definition rebuild_direct :: "string \<Rightarrow> string" where
  "rebuild_direct head =
     (case split_first_line head of (first, rest) \<Rightarrow> rewrite_first_line_absolute first @ CRLF @ rest)"

definition rebuild_tunnel :: "string \<Rightarrow> string" where
  "rebuild_tunnel head =
     (case split_first_line head of (first, rest) \<Rightarrow> rewrite_first_line first @ CRLF @ rest)"

section \<open>Statistics\<close>

record engine_stats =
  es_conns :: nat
  es_tunneled :: nat
  es_direct :: nat
  es_errors :: nat
  es_traffic :: traffic
  es_cf_reqs :: nat
  es_vercel_reqs :: nat
  es_rn_reqs :: nat
  es_upstream_up :: nat
  es_upstream_down :: nat
  es_upstream_reqs :: nat
  es_last_error :: "string option"

definition count_request :: "egress \<Rightarrow> engine_stats \<Rightarrow> engine_stats" where
  "count_request egress s =
     (case egress of
        Cf \<Rightarrow> s\<lparr> es_cf_reqs := wrap_add64 (es_cf_reqs s) 1 \<rparr>
      | Vercel \<Rightarrow> s\<lparr> es_vercel_reqs := wrap_add64 (es_vercel_reqs s) 1 \<rparr>
      | NativeVps \<Rightarrow> s\<lparr> es_rn_reqs := wrap_add64 (es_rn_reqs s) 1 \<rparr>)"

definition count_up :: "egress \<Rightarrow> nat \<Rightarrow> engine_stats \<Rightarrow> engine_stats" where
  "count_up egress n s = s\<lparr> es_traffic := record_up egress n (es_traffic s) \<rparr>"

text \<open>What a connection comes to: a relay to a tunnel session, an upstream proxy or a target, with the
  bytes handed over first; an answer and the end; or an error, with what the client was told.\<close>

datatype desk_result =
    RelayTunnel nat string string
  | RelayUpstream string string
  | RelayDirect string nat string
  | Answered string
  | NothingToDo
  | Failed string string

definition ESTABLISHED :: string where
  "ESTABLISHED = ''HTTP/1.1 200 Connection Established'' @ CRLF2"

definition bad_gateway :: "string \<Rightarrow> string" where
  "bad_gateway msg =
     ''HTTP/1.1 502 Bad Gateway'' @ CRLF @ ''Content-Type: text/plain'' @ CRLF @ ''Content-Length: '' @ show_nat (length msg)
     @ CRLF @ ''Connection: close'' @ CRLF2 @ msg"

section \<open>Opening a tunnel\<close>

definition SELF_HEAL_COOLDOWN :: nat where [const_defs]: "SELF_HEAL_COOLDOWN = 30000"
definition MISSING_REFRESH_COOLDOWN :: nat where [const_defs]: "MISSING_REFRESH_COOLDOWN = 5000"
definition DESK_RETRY :: nat where [const_defs]: "DESK_RETRY = 5"

definition REINPUT_HINT :: string where
  "REINPUT_HINT = map char_of [32, 226, 128, 148, 226, 128, 148, 32, 232, 175, 183, 229, 156, 168, 227, 128, 140, 232, 174, 190, 231, 189, 174, 32, 226, 134, 146, 32, 233, 154, 167, 233, 129, 147, 228, 184, 173, 231, 187, 167, 227, 128, 141, 233, 135, 141, 232, 180, 180, 230, 142, 136, 230, 157, 131, 231, 160, 129 :: nat]"

definition QUOTA_HINT :: string where
  "QUOTA_HINT = map char_of [32, 226, 128, 148, 226, 128, 148, 32, 230, 130, 168, 231, 154, 132, 229, 135, 186, 230, 181, 183, 230, 181, 129, 233, 135, 143, 233, 133, 141, 233, 162, 157, 229, 183, 178, 232, 128, 151, 229, 176, 189, 239, 188, 140, 232, 175, 183, 232, 129, 148, 231, 179, 187, 231, 174, 161, 231, 144, 134, 229, 145, 152, 230, 137, 169, 229, 133, 133, 233, 133, 141, 233, 162, 157 :: nat]"

definition tunnel_io :: "string \<Rightarrow> string" where
  "tunnel_io e = ''tunnel: '' @ e"

definition classify_probe_error :: "string \<Rightarrow> string" where
  "classify_probe_error e =
     (if contains_str AUTH_401_MARKER e then ''auth401''
      else if contains_str ''denied:'' e then ''denied''
      else if contains_str ''timeout'' e \<or> contains_str ''timed out'' e then ''timeout''
      else if contains_str ''closed'' e \<or> contains_str ''close'' e then ''closed''
      else if contains_str ''no token'' e then ''no_token''
      else ''other'')"

definition is_auth_failure :: "string \<Rightarrow> bool" where
  "is_auth_failure e \<longleftrightarrow> contains_str AUTH_401_MARKER e"

text \<open>The watched settings, the pool, the two statics with the time of the last repair and of the
  last reading for want of a token, and the token last written to disk.\<close>

type_synonym settings = "string option \<times> string option"

record desk_tunnel =
  dt_watch :: settings
  dt_pool :: pool
  dt_last_heal :: "nat option"
  dt_last_refresh :: "nat option"
  dt_persisted :: "string option"

text \<open>The surroundings of one attempt: the network, three instants (the start, the check of the
  cooldown of the repair, its end), what the disk holds when it is read for either
  reason, and whether writing it succeeds.\<close>

record desk_world =
  dw_client :: ws_client
  dw_peer :: ws_peer
  dw_now :: nat
  dw_heal :: nat
  dw_healed :: nat
  dw_disk_missing :: settings
  dw_disk_heal :: settings
  dw_persists :: bool
  dw_conserve :: "string option"

definition elapsed_since :: "nat \<Rightarrow> nat \<Rightarrow> nat option \<Rightarrow> bool" where
  "elapsed_since cooldown now since = (case since of Some t \<Rightarrow> now - t \<ge> cooldown | None \<Rightarrow> True)"

definition current_settings :: "desk_world \<Rightarrow> desk_tunnel \<Rightarrow> (string + string \<times> string) \<times> desk_tunnel" where
  "current_settings W st =
     (case dt_watch st of
        (Some u, Some t) \<Rightarrow> (Inr (u, t), st)
      | _ \<Rightarrow>
          if elapsed_since MISSING_REFRESH_COOLDOWN (dw_now W) (dt_last_refresh st) then
            (let st = st\<lparr> dt_last_refresh := Some (dw_now W) \<rparr> in
             case dw_disk_missing W of
               (Some u, Some t) \<Rightarrow>
                 if trim_str t \<noteq> [] then (Inr (u, t), st\<lparr> dt_watch := (Some u, Some t) \<rparr>)
                 else (Inl (tunnel_io ''tunnel token missing''), st)
             | _ \<Rightarrow> (Inl (tunnel_io ''tunnel token missing''), st))
          else (Inl (tunnel_io ''tunnel token missing''), st))"

datatype desk_dial_result =
    DialUp nat string
  | DialQuota string
  | DialNone "string option" "string option" "string option"

text \<open>The loop over the endpoints with the first error, the first refusal of the token and the last
  error; \<open>dials\<close> are the endpoints tried.\<close>

fun dial_loop ::
  "(string \<Rightarrow> string + nat) \<Rightarrow> string list \<Rightarrow> string option \<Rightarrow> string option \<Rightarrow> string option \<Rightarrow> desk_dial_result \<times> string list" where
  "dial_loop open_url [] first_err first_401 last_err = (DialNone first_err first_401 last_err, [])"
| "dial_loop open_url (u # us) first_err first_401 last_err =
     (case open_url u of
        Inr ws \<Rightarrow> (DialUp ws u, [u])
      | Inl msg \<Rightarrow>
          if contains_str ''402'' msg \<or> contains_str ''Quota Exceeded'' msg then (DialQuota msg, [u])
          else apsnd ((#) u) (dial_loop open_url us
                 (or_else first_err (Some (tunnel_io msg)))
                 (if contains_str AUTH_401_MARKER msg then or_else first_401 (Some (tunnel_io msg)) else first_401)
                 (Some msg)))"

fun redial_loop :: "(string \<Rightarrow> string + nat) \<Rightarrow> string list \<Rightarrow> (nat \<times> string) option \<times> string list" where
  "redial_loop open_url [] = (None, [])"
| "redial_loop open_url (u # us) =
     (case open_url u of
        Inr ws \<Rightarrow> (Some (ws, u), [u])
      | Inl _ \<Rightarrow> apsnd ((#) u) (redial_loop open_url us))"

definition egress_filter :: "string \<Rightarrow> string list \<Rightarrow> string list" where
  "egress_filter host urls = (if requires_compliant_egress host then compliant_egress_endpoints urls else urls)"

definition ordered_urls :: "desk_world \<Rightarrow> string \<Rightarrow> string \<Rightarrow> string list" where
  "ordered_urls W raw host = egress_filter host (order_endpoints (dw_conserve W) (split_endpoints raw) host)"

text \<open>The repair after a refusal of the token: the settings on disk, read unless the cooldown
  runs, and taken over when they have another token.\<close>

definition fresh_settings :: "desk_world \<Rightarrow> string \<Rightarrow> desk_tunnel \<Rightarrow> (string \<times> string) option" where
  "fresh_settings W token st =
     (case (if elapsed_since SELF_HEAL_COOLDOWN (dw_heal W) (dt_last_heal st) then dw_disk_heal W else (None, None)) of
        (Some u, Some t) \<Rightarrow>
          if Some t \<noteq> snd (dt_watch st) \<and> t \<noteq> token \<and> trim_str t \<noteq> [] then Some (u, t) else None
      | _ \<Rightarrow> None)"

definition adopt_settings :: "desk_world \<Rightarrow> string \<Rightarrow> string \<Rightarrow> desk_tunnel \<Rightarrow> desk_tunnel" where
  "adopt_settings W u t st =
     st\<lparr> dt_persisted := (if dw_persists W then Some t else dt_persisted st), dt_last_heal := Some (dw_healed W),
         dt_pool := invalidate (dt_pool st), dt_watch := (Some u, Some t) \<rparr>"

definition reinput_error :: "string \<Rightarrow> string \<Rightarrow> string option \<Rightarrow> string" where
  "reinput_error mem_fp8 e401 first_err =
     tunnel_io (''needs-reinput: tunnel token rejected by gate (mem_fp8='' @ mem_fp8 @ ''): '' @ e401 @ ''; first_error: ''
       @ (case first_err of Some e \<Rightarrow> e | None \<Rightarrow> []) @ REINPUT_HINT)"

definition quota_error :: "string \<Rightarrow> string" where
  "quota_error msg = tunnel_io (''402: quota_exceeded'' @ QUOTA_HINT @ '' ('' @ tunnel_io msg @ '')'')"

definition exhausted_error :: "string option \<Rightarrow> string" where
  "exhausted_error last_err =
     (case last_err of
        None \<Rightarrow> tunnel_io ''no valid tunnel urls configured''
      | Some msg \<Rightarrow>
          if contains_str ''402'' msg \<or> contains_str ''Quota Exceeded'' msg
          then tunnel_io (''402: quota_exceeded'' @ QUOTA_HINT) else msg)"

text \<open>\<open>desk_establish\<close>: the session with its endpoint or the error, the endpoints dialled with the token
  used, and the state.\<close>

definition heal_stage ::
  "desk_world \<Rightarrow> string \<Rightarrow> nat \<Rightarrow> string \<Rightarrow> string \<Rightarrow> string \<Rightarrow> string option \<Rightarrow> desk_tunnel
   \<Rightarrow> (string + nat \<times> string) \<times> (string \<times> string) list \<times> desk_tunnel" where
  "heal_stage W host port token mem_fp8 e401 first_err st =
     (case fresh_settings W token st of
        Some (u, t) \<Rightarrow>
          (case redial_loop (\<lambda>ep. try_establish_url (dw_client W) (dw_peer W) ep t host port) (ordered_urls W u host) of
             (Some r, dials) \<Rightarrow> (Inr r, map (\<lambda>d. (d, t)) dials, adopt_settings W u t st)
           | (None, dials) \<Rightarrow>
               (Inl (reinput_error mem_fp8 e401 first_err), map (\<lambda>d. (d, t)) dials, adopt_settings W u t st))
      | None \<Rightarrow> (Inl (reinput_error mem_fp8 e401 first_err), [], st\<lparr> dt_last_heal := Some (dw_healed W) \<rparr>))"

definition dial_stage ::
  "desk_world \<Rightarrow> string \<Rightarrow> nat \<Rightarrow> string list \<Rightarrow> string \<Rightarrow> string \<Rightarrow> desk_tunnel
   \<Rightarrow> (string + nat \<times> string) \<times> (string \<times> string) list \<times> desk_tunnel" where
  "dial_stage W host port urls token mem_fp8 st =
     (case dial_loop (\<lambda>u. try_establish_url (dw_client W) (dw_peer W) u token host port) urls None None None of
        (res, dials) \<Rightarrow>
          (let tried = map (\<lambda>d. (d, token)) dials in
           case res of
             DialUp ws u \<Rightarrow> (Inr (ws, u), tried, st)
           | DialQuota msg \<Rightarrow> (Inl (quota_error msg), tried, st)
           | DialNone first_err (Some e401) last_err \<Rightarrow>
               (case heal_stage W host port token mem_fp8 e401 first_err st of
                  (r, again, st') \<Rightarrow> (r, tried @ again, st'))
           | DialNone first_err None last_err \<Rightarrow> (Inl (exhausted_error last_err), tried, st)))"

definition desk_establish ::
  "crypto \<Rightarrow> desk_world \<Rightarrow> string \<Rightarrow> nat \<Rightarrow> desk_tunnel
   \<Rightarrow> (string + nat \<times> string) \<times> (string \<times> string) list \<times> desk_tunnel" where
  "desk_establish K W host port st =
     (case current_settings W st of
        (Inl e, st) \<Rightarrow> (Inl e, [], st)
      | (Inr (url_raw, token), st) \<Rightarrow>
          (let urls = ordered_urls W url_raw host; mem_fp8 = token_fp8_of K token in
           if requires_compliant_egress host \<and> urls = []
           then (Inl (tunnel_io ''compliant-egress host requires a Vercel gate endpoint; none configured''), [], st)
           else (case checkout (dw_now W) urls (Some mem_fp8) (dt_pool st) of
             (pooled, _, p) \<Rightarrow>
               (let st = st\<lparr> dt_pool := p \<rparr> in
                case pooled of
                  Some (s, used_url) \<Rightarrow>
                    (case bind_target (dw_peer W) (is_ws s) host port of
                       Inr ws \<Rightarrow> (Inr (ws, used_url), [], st)
                     | Inl _ \<Rightarrow> dial_stage W host port urls token mem_fp8 st)
                | None \<Rightarrow> dial_stage W host port urls token mem_fp8 st))))"

section \<open>The tunnel of a request\<close>

text \<open>The attempts, each with its surroundings, and the pauses between them.\<close>

fun establish_attempts ::
  "crypto \<Rightarrow> (nat \<Rightarrow> desk_world) \<Rightarrow> (nat \<Rightarrow> nat) \<Rightarrow> string \<Rightarrow> nat \<Rightarrow> nat \<Rightarrow> nat \<Rightarrow> string option \<Rightarrow> desk_tunnel
   \<Rightarrow> (string option + nat \<times> string) \<times> (string \<times> string) list \<times> nat list \<times> desk_tunnel" where
  "establish_attempts K W rnd host port attempt 0 last_err st = (Inl last_err, [], [], st)"
| "establish_attempts K W rnd host port attempt (Suc n) last_err st =
     (case desk_establish K (W attempt) host port st of
        (Inr r, dials, st') \<Rightarrow> (Inr r, dials, [], st')
      | (Inl msg, dials, st') \<Rightarrow>
          if contains_str ''402'' msg \<or> contains_str ''quota_exceeded'' msg \<or> is_auth_failure msg
          then (Inl (Some msg), dials, [], st')
          else (case establish_attempts K W rnd host port (attempt + 1) n (Some msg) st' of
                  (r, again, sleeps, st'') \<Rightarrow>
                    (r, dials @ again,
                     (if attempt + 1 < DESK_RETRY then backoff attempt (rnd attempt) # sleeps else sleeps), st'')))"

definition tunnel_failure :: "string \<Rightarrow> string \<Rightarrow> desk_result" where
  "tunnel_failure host err =
     Failed err (bad_gateway
       (if starts_with ''needs-reinput:'' err then ''502 Bad Gateway: tunnel token rejected for '' @ host @ REINPUT_HINT
        else ''502 Bad Gateway: tunnel failed for '' @ host @ '': '' @ err))"

text \<open>The errors are those of writing the answer to the client and the first frame.\<close>

definition sent_first :: "string option \<Rightarrow> nat \<Rightarrow> string \<Rightarrow> string \<Rightarrow> string \<Rightarrow> desk_result" where
  "sent_first send_err ws used_url bytes told =
     (case send_err of None \<Rightarrow> RelayTunnel ws used_url bytes | Some e \<Rightarrow> Failed (tunnel_io e) told)"

definition tunnel_connect_and_relay ::
  "crypto \<Rightarrow> (nat \<Rightarrow> desk_world) \<Rightarrow> (nat \<Rightarrow> nat) \<Rightarrow> string option \<Rightarrow> string option \<Rightarrow> req_head \<Rightarrow> string \<Rightarrow> string \<Rightarrow> desk_tunnel \<times> engine_stats
   \<Rightarrow> desk_result \<times> (string \<times> string) list \<times> nat list \<times> desk_tunnel \<times> engine_stats" where
  "tunnel_connect_and_relay K W rnd client_err send_err parsed head preamble s =
     (case s of (st, stats) \<Rightarrow>
      (case establish_attempts K W rnd (rq_host parsed) (rq_port parsed) 0 DESK_RETRY None st of
        (Inl last_err, dials, sleeps, st') \<Rightarrow>
          (tunnel_failure (rq_host parsed) (case last_err of Some e \<Rightarrow> e | None \<Rightarrow> tunnel_io ''tunnel establish failed''),
           dials, sleeps, st', stats)
      | (Inr (ws, used_url), dials, sleeps, st') \<Rightarrow>
          (let egress = classify_egress used_url; stats = count_request egress stats in
           if rq_kind parsed = Connect then
             (case client_err of
                Some e \<Rightarrow> (Failed e [], dials, sleeps, st', stats)
              | None \<Rightarrow>
                  if preamble = [] then (RelayTunnel ws used_url [], dials, sleeps, st', stats)
                  else (sent_first send_err ws used_url preamble ESTABLISHED, dials, sleeps, st',
                        count_up egress (length preamble) stats))
           else (let bytes = rebuild_tunnel head @ preamble in
                 (sent_first send_err ws used_url bytes [], dials, sleeps, st', count_up egress (length bytes) stats)))))"

section \<open>Lemmas\<close>

lemma checkout_url:
  assumes "checkout now urls fp p = (Some (s, u), wake, p')"
  shows "u \<in> set urls"
  using checkout_after(2) [OF assms] by (auto simp: checkout_ok_def)

lemma dial_loop_dials:
  assumes "dial_loop open_url urls fe f4 le = (res, dials)"
  shows "set dials \<subseteq> set urls \<and> (\<forall>ws u. res = DialUp ws u \<longrightarrow> u \<in> set urls)"
  using assms
  by (induction open_url urls fe f4 le arbitrary: res dials rule: dial_loop.induct)
    (fastforce split: sum.splits if_splits prod.splits simp: apsnd_def map_prod_def)+

lemma redial_loop_dials:
  assumes "redial_loop open_url urls = (res, dials)"
  shows "set dials \<subseteq> set urls \<and> (\<forall>ws u. res = Some (ws, u) \<longrightarrow> u \<in> set urls)"
  using assms
  by (induction open_url urls arbitrary: res dials rule: redial_loop.induct)
    (fastforce split: sum.splits if_splits prod.splits simp: apsnd_def map_prod_def)+

lemma redial_loop_succeeds:
  assumes "u \<in> set urls" "open_url u = Inr ws"
  shows "\<exists>r dials. redial_loop open_url urls = (Some r, dials)"
  using assms by (induction open_url urls rule: redial_loop.induct) (auto split: sum.splits simp: apsnd_def map_prod_def)

text \<open>An exit that a host may use.\<close>

definition allowed_exit :: "string \<Rightarrow> string \<Rightarrow> bool" where
  "allowed_exit host u \<longleftrightarrow> requires_compliant_egress host \<longrightarrow> is_native_vps_endpoint u \<or> is_vercel_endpoint u"

lemma ordered_urls_allowed: "u \<in> set (ordered_urls W raw host) \<Longrightarrow> allowed_exit host u"
  by (auto simp: ordered_urls_def egress_filter_def allowed_exit_def compliant_egress_endpoints_def split: if_splits)

lemma heal_stage_allowed:
  assumes "heal_stage W host port token fp e401 fe st = (res, dials, st')"
  shows "(\<forall>d \<in> set dials. allowed_exit host (fst d)) \<and> (\<forall>ws u. res = Inr (ws, u) \<longrightarrow> allowed_exit host u)"
proof (cases "fresh_settings W token st")
  case None
  with assms show ?thesis by (auto simp: heal_stage_def)
next
  case (Some ut)
  obtain u t where ut: "ut = (u, t)" by fastforce
  obtain r ds where l: "redial_loop (\<lambda>ep. try_establish_url (dw_client W) (dw_peer W) ep t host port) (ordered_urls W u host) = (r, ds)"
    by fastforce
  from assms Some ut l show ?thesis
    using redial_loop_dials [OF l] ordered_urls_allowed
    by (auto simp: heal_stage_def split: option.splits)
qed

lemma dial_stage_allowed:
  assumes "dial_stage W host port urls token fp st = (res, dials, st')" "\<And>u. u \<in> set urls \<Longrightarrow> allowed_exit host u"
  shows "(\<forall>d \<in> set dials. allowed_exit host (fst d)) \<and> (\<forall>ws u. res = Inr (ws, u) \<longrightarrow> allowed_exit host u)"
proof -
  obtain r ds where l: "dial_loop (\<lambda>u. try_establish_url (dw_client W) (dw_peer W) u token host port) urls None None None = (r, ds)"
    by fastforce
  note dials = dial_loop_dials [OF l]
  show ?thesis
  proof (cases "\<exists>fe e401 le. r = DialNone fe (Some e401) le")
    case True
    then obtain fe e401 le where r: "r = DialNone fe (Some e401) le" by blast
    obtain r2 d2 s2 where h: "heal_stage W host port token fp e401 fe st = (r2, d2, s2)" by (metis prod_cases3)
    from assms(1) l r h have "res = r2" "dials = map (\<lambda>d. (d, token)) ds @ d2" by (auto simp: dial_stage_def Let_def)
    then show ?thesis using heal_stage_allowed [OF h] dials assms(2) by auto
  next
    case False
    then show ?thesis
      using assms(1) l dials assms(2)
      by (cases r) (auto simp: dial_stage_def Let_def split: option.splits)
  qed
qed

lemma establish_allowed:
  assumes "desk_establish K W host port st = (res, dials, st')"
  shows "(\<forall>d \<in> set dials. allowed_exit host (fst d)) \<and> (\<forall>ws u. res = Inr (ws, u) \<longrightarrow> allowed_exit host u)"
proof -
  obtain cur st1 where c: "current_settings W st = (cur, st1)" by fastforce
  show ?thesis
  proof (cases cur)
    case (Inl e)
    with assms c show ?thesis by (auto simp: desk_establish_def)
  next
    case (Inr ut)
    obtain raw token where ut: "ut = (raw, token)" by fastforce
    let ?urls = "ordered_urls W raw host"
    obtain pooled wake p where co: "checkout (dw_now W) ?urls (Some (token_fp8_of K token)) (dt_pool st1) = (pooled, wake, p)"
      by (metis prod_cases3)
    show ?thesis
    proof (cases "\<exists>s u ws. pooled = Some (s, u) \<and> bind_target (dw_peer W) (is_ws s) host port = Inr ws")
      case True
      then show ?thesis
        using assms c Inr ut co checkout_url ordered_urls_allowed
        by (fastforce simp: desk_establish_def Let_def split: if_splits)
    next
      case False
      then have "desk_establish K W host port st =
          (if requires_compliant_egress host \<and> ?urls = []
           then (Inl (tunnel_io ''compliant-egress host requires a Vercel gate endpoint; none configured''), [], st1)
           else dial_stage W host port ?urls token (token_fp8_of K token) (st1\<lparr> dt_pool := p \<rparr>))"
        using c Inr ut co by (auto simp: desk_establish_def Let_def split: option.splits sum.splits)
      moreover have "?thesis" if "dial_stage W host port ?urls token (token_fp8_of K token) (st1\<lparr> dt_pool := p \<rparr>) = (res, dials, st')"
        by (rule dial_stage_allowed [OF that]) (rule ordered_urls_allowed)
      ultimately show ?thesis using assms by (auto split: if_splits)
    qed
  qed
qed

lemma establish_attempts_allowed:
  assumes "establish_attempts K W rnd host port attempt n last_err st = (res, dials, sleeps, st')" "attempt + n = DESK_RETRY"
  shows "(\<forall>d \<in> set dials. allowed_exit host (fst d)) \<and> (\<forall>ws u. res = Inr (ws, u) \<longrightarrow> allowed_exit host u)
    \<and> length sleeps \<le> n - 1"
  using assms
proof (induction n arbitrary: attempt last_err st res dials sleeps st')
  case 0
  then show ?case by auto
next
  case (Suc n)
  obtain r1 d1 s1 where e: "desk_establish K (W attempt) host port st = (r1, d1, s1)" by (metis prod_cases3)
  note one = establish_allowed [OF e]
  show ?case
  proof (cases "\<exists>msg. r1 = Inl msg \<and> \<not> (contains_str ''402'' msg \<or> contains_str ''quota_exceeded'' msg \<or> is_auth_failure msg)")
    case True
    then obtain msg where msg: "r1 = Inl msg"
      "\<not> (contains_str ''402'' msg \<or> contains_str ''quota_exceeded'' msg \<or> is_auth_failure msg)" by blast
    obtain r2 d2 sl2 s2 where l: "establish_attempts K W rnd host port (attempt + 1) n (Some msg) s1 = (r2, d2, sl2, s2)"
      by (metis prod_cases4)
    from Suc.prems(1) e msg l have "res = r2" "dials = d1 @ d2"
      "sleeps = (if attempt + 1 < DESK_RETRY then backoff attempt (rnd attempt) # sl2 else sl2)" by auto
    then show ?thesis using Suc.IH [OF l] Suc.prems(2) one by auto
  next
    case False
    then show ?thesis using Suc.prems(1) e one by (auto split: sum.splits if_splits)
  qed
qed

section \<open>Properties\<close>

text \<open>C33: the tunnel fails closed.  Whatever the network, the settings on disk and the pool do, every
  endpoint that a request for a host with restricted exits dials, in any attempt and also after the
  repair of the token, and the one its session comes from, is an exit allowed for it; the
  request never ends in a direct connection, and there are at most four pauses.\<close>

theorem tunnel_fails_closed:
  assumes "tunnel_connect_and_relay K W rnd client_err send_err parsed head preamble (st, stats) = (res, dials, sleeps, st', stats')"
    and "requires_compliant_egress (rq_host parsed)"
  shows "(\<forall>(u, t) \<in> set dials. is_native_vps_endpoint u \<or> is_vercel_endpoint u)
    \<and> (\<forall>ws u bytes. res = RelayTunnel ws u bytes \<longrightarrow> is_native_vps_endpoint u \<or> is_vercel_endpoint u)
    \<and> (\<forall>h p bytes. res \<noteq> RelayDirect h p bytes) \<and> length sleeps \<le> 4"
proof -
  obtain r d sl s where e: "establish_attempts K W rnd (rq_host parsed) (rq_port parsed) 0 DESK_RETRY None st = (r, d, sl, s)"
    by (metis prod_cases4)
  have a: "(\<forall>x \<in> set d. allowed_exit (rq_host parsed) (fst x)) \<and> (\<forall>ws u. r = Inr (ws, u) \<longrightarrow> allowed_exit (rq_host parsed) u)
    \<and> length sl \<le> DESK_RETRY - 1"
    using establish_attempts_allowed [OF e] by simp
  have "dials = d" "sleeps = sl"
    using assms(1) e by (auto simp: tunnel_connect_and_relay_def Let_def split: sum.splits option.splits if_splits)
  moreover have "\<exists>ws. r = Inr (ws, u)" if "res = RelayTunnel ws u bytes" for ws u bytes
    using assms(1) e that
    by (auto simp: tunnel_connect_and_relay_def tunnel_failure_def sent_first_def Let_def split: sum.splits option.splits if_splits)
  moreover have "res \<noteq> RelayDirect h p bytes" for h p bytes
    using assms(1) e
    by (auto simp: tunnel_connect_and_relay_def tunnel_failure_def sent_first_def Let_def split: sum.splits option.splits if_splits)
  ultimately show ?thesis
    using a assms(2) by (auto simp: allowed_exit_def const_defs)
qed

text \<open>Endpoints that all refuse the token, and no usable session in the pool.\<close>

definition token_refused :: "crypto \<Rightarrow> desk_world \<Rightarrow> string \<Rightarrow> nat \<Rightarrow> string \<Rightarrow> string \<Rightarrow> pool \<Rightarrow> bool" where
  "token_refused K W host port raw token p \<longleftrightarrow>
     ordered_urls W raw host \<noteq> []
   \<and> (\<forall>u \<in> set (ordered_urls W raw host).
        try_establish_url (dw_client W) (dw_peer W) u token host port = Inl AUTH_401_MARKER)
   \<and> (\<forall>s u. fst (checkout (dw_now W) (ordered_urls W raw host) (Some (token_fp8_of K token)) p) = Some (s, u) \<longrightarrow>
        (\<exists>e. bind_target (dw_peer W) (is_ws s) host port = Inl e))"

lemma marker_not_quota: "\<not> contains_str ''402'' AUTH_401_MARKER" "\<not> contains_str ''Quota Exceeded'' AUTH_401_MARKER"
  by code_simp+

lemma marker_in_marker: "contains_str AUTH_401_MARKER AUTH_401_MARKER"
  unfolding contains_str_iff by (intro exI [of _ "[]"]) simp

lemma dial_loop_401:
  assumes "\<forall>u \<in> set urls. open_url u = Inl AUTH_401_MARKER" "urls \<noteq> []"
  shows "dial_loop open_url urls None None le = (DialNone (Some (tunnel_io AUTH_401_MARKER)) (Some (tunnel_io AUTH_401_MARKER)) (Some AUTH_401_MARKER), urls)"
proof -
  have rest: "dial_loop open_url us (Some e) (Some e) le' =
      (DialNone (Some e) (Some e) (if us = [] then le' else Some AUTH_401_MARKER), us)"
    if "\<forall>u \<in> set us. open_url u = Inl AUTH_401_MARKER" for us e le'
    using that by (induction us arbitrary: le') (auto simp: marker_not_quota marker_in_marker or_else_def)
  from assms(2) obtain u us where "urls = u # us" by (cases urls) auto
  with assms(1) rest [of us "tunnel_io AUTH_401_MARKER" "Some AUTH_401_MARKER"] show ?thesis
    by (auto simp: marker_not_quota marker_in_marker or_else_def)
qed

lemma establish_refused:
  assumes "dt_watch st = (Some raw, Some token)" "token_refused K W host port raw token (dt_pool st)"
    and "checkout (dw_now W) (ordered_urls W raw host) (Some (token_fp8_of K token)) (dt_pool st) = (pooled, wake, p)"
  shows "desk_establish K W host port st =
    (case heal_stage W host port token (token_fp8_of K token) (tunnel_io AUTH_401_MARKER) (Some (tunnel_io AUTH_401_MARKER))
        (st\<lparr> dt_pool := p \<rparr>) of
       (r, dials, st') \<Rightarrow> (r, map (\<lambda>u. (u, token)) (ordered_urls W raw host) @ dials, st'))"
proof -
  have d: "dial_stage W host port (ordered_urls W raw host) token (token_fp8_of K token) (st\<lparr> dt_pool := p \<rparr>) =
    (case heal_stage W host port token (token_fp8_of K token) (tunnel_io AUTH_401_MARKER) (Some (tunnel_io AUTH_401_MARKER))
        (st\<lparr> dt_pool := p \<rparr>) of
       (r, dials, st') \<Rightarrow> (r, map (\<lambda>u. (u, token)) (ordered_urls W raw host) @ dials, st'))"
    using assms(2) unfolding dial_stage_def token_refused_def
    by (subst dial_loop_401) (auto simp: Let_def split: prod.split)
  show ?thesis
  proof (cases pooled)
    case None
    with assms d show ?thesis by (simp add: desk_establish_def current_settings_def token_refused_def)
  next
    case (Some su)
    then obtain s u where su: "pooled = Some (s, u)" by (cases su) auto
    with assms(2,3) obtain e where "bind_target (dw_peer W) (is_ws s) host port = Inl e"
      by (auto simp: token_refused_def)
    with assms d su show ?thesis by (simp add: desk_establish_def current_settings_def token_refused_def)
  qed
qed

text \<open>C34: a token that was replaced on disk is taken over.  When every endpoint refuses the token in
  memory, the last repair is at least 30 seconds ago, and the disk has another token that some
  endpoint of the settings there accepts, the request that met the refusal gets a session
  with the new token; the new settings are in force from then on, are written back, and the
  sessions of the old token are gone.\<close>

theorem self_heal_recovers:
  assumes "dt_watch st = (Some raw, Some token)" "token_refused K W host port raw token (dt_pool st)"
    and "elapsed_since SELF_HEAL_COOLDOWN (dw_heal W) (dt_last_heal st)"
    and "dw_disk_heal W = (Some u', Some t')" "t' \<noteq> token" "trim_str t' \<noteq> []" "dw_persists W"
    and "ep \<in> set (ordered_urls W u' host)"
    and "try_establish_url (dw_client W) (dw_peer W) ep t' host port = Inr ws"
  shows "\<exists>ws' ep' dials st'. desk_establish K W host port st = (Inr (ws', ep'), dials, st')
    \<and> ep' \<in> set (ordered_urls W u' host) \<and> dt_watch st' = (Some u', Some t') \<and> dt_persisted st' = Some t'
    \<and> tp_idle (dt_pool st') = []"
proof -
  obtain pooled wake p where co:
    "checkout (dw_now W) (ordered_urls W raw host) (Some (token_fp8_of K token)) (dt_pool st) = (pooled, wake, p)"
    by (metis prod_cases3)
  have fresh: "fresh_settings W token (st\<lparr> dt_pool := p \<rparr>) = Some (u', t')"
    using assms(1,3-6) by (simp add: fresh_settings_def)
  obtain r dials where l: "redial_loop (\<lambda>ep. try_establish_url (dw_client W) (dw_peer W) ep t' host port) (ordered_urls W u' host)
      = (Some r, dials)"
    using redial_loop_succeeds [OF assms(8), of "\<lambda>ep. try_establish_url (dw_client W) (dw_peer W) ep t' host port"] assms(9) by blast
  obtain ws' ep' where r: "r = (ws', ep')" by fastforce
  with redial_loop_dials [OF l] have "ep' \<in> set (ordered_urls W u' host)" by blast
  then show ?thesis
    unfolding establish_refused [OF assms(1,2) co] using fresh l r assms(7)
    by (auto simp: heal_stage_def adopt_settings_def invalidate_def)
qed

text \<open>Requests one after the other, each meeting a refusal within the cooldown of the one before.\<close>

fun establish_run :: "crypto \<Rightarrow> string \<Rightarrow> nat \<Rightarrow> desk_world list \<Rightarrow> desk_tunnel \<Rightarrow> desk_tunnel" where
  "establish_run K host port [] st = st"
| "establish_run K host port (W # Ws) st = establish_run K host port Ws (snd (snd (desk_establish K W host port st)))"

fun within_cooldown :: "nat \<Rightarrow> desk_world list \<Rightarrow> bool" where
  "within_cooldown t [] \<longleftrightarrow> True"
| "within_cooldown t (W # Ws) \<longleftrightarrow> dw_heal W < t + SELF_HEAL_COOLDOWN \<and> within_cooldown (dw_healed W) Ws"

definition token_refused_cold :: "crypto \<Rightarrow> string \<Rightarrow> nat \<Rightarrow> string \<Rightarrow> string \<Rightarrow> desk_world \<Rightarrow> bool" where
  "token_refused_cold K host port raw token W \<longleftrightarrow>
     ordered_urls W raw host \<noteq> []
   \<and> (\<forall>u \<in> set (ordered_urls W raw host).
        try_establish_url (dw_client W) (dw_peer W) u token host port = Inl AUTH_401_MARKER)"

lemma checkout_loop_Nil: "checkout_loop now ttl fp urls [] st ex popped = (None, [], st, ex, popped)"
  by (induction urls) simp_all

lemma checkout_empty:
  "tp_idle p = [] \<Longrightarrow> \<exists>p'. checkout now urls fp p = (None, False, p') \<and> tp_idle p' = []"
  by (simp add: checkout_def checkout_loop_Nil put_back_def)

lemma establish_in_cooldown:
  assumes "dt_watch st = (Some raw, Some token)" "tp_idle (dt_pool st) = []" "token_refused_cold K host port raw token W"
    and "dt_last_heal st = Some t" "dw_heal W < t + SELF_HEAL_COOLDOWN" "0 < SELF_HEAL_COOLDOWN"
  shows "\<exists>p'. desk_establish K W host port st =
      (Inl (reinput_error (token_fp8_of K token) (tunnel_io AUTH_401_MARKER) (Some (tunnel_io AUTH_401_MARKER))),
       map (\<lambda>u. (u, token)) (ordered_urls W raw host),
       st\<lparr> dt_pool := p', dt_last_heal := Some (dw_healed W) \<rparr>) \<and> tp_idle p' = []"
proof -
  obtain p' where co: "checkout (dw_now W) (ordered_urls W raw host) (Some (token_fp8_of K token)) (dt_pool st) = (None, False, p')"
    and p': "tp_idle p' = []" using checkout_empty [OF assms(2)] by blast
  have ref: "token_refused K W host port raw token (dt_pool st)"
    using assms(3) co by (auto simp: token_refused_def token_refused_cold_def)
  have "fresh_settings W token (st\<lparr> dt_pool := p' \<rparr>) = None"
    using assms(4,5,6) by (auto simp: fresh_settings_def elapsed_since_def)
  then show ?thesis
    unfolding establish_refused [OF assms(1) ref co] using p'
    by (intro exI [of _ p']) (simp add: heal_stage_def)
qed

text \<open>Under steady traffic the repair never happens.  After one repair or failed check, when the
  endpoints refuse the token and each request comes within 30 seconds of the end of the one
  before, every request fails and asks the user for a new token, though the disk may hold a good
  one: a request that skips the disk because of the cooldown starts the cooldown again.\<close>

theorem self_heal_starves:
  assumes "dt_watch st = (Some raw, Some token)" "tp_idle (dt_pool st) = []" "dt_last_heal st = Some t"
    and "\<forall>W' \<in> set (Ws @ [W]). token_refused_cold K host port raw token W'" "within_cooldown t (Ws @ [W])"
  shows "fst (desk_establish K W host port (establish_run K host port Ws st)) =
      Inl (reinput_error (token_fp8_of K token) (tunnel_io AUTH_401_MARKER) (Some (tunnel_io AUTH_401_MARKER)))
    \<and> dt_watch (establish_run K host port (Ws @ [W]) st) = (Some raw, Some token)"
  using assms
proof (induction Ws arbitrary: st t)
  case Nil
  then show ?case using establish_in_cooldown [of st raw token K host port W t] by (auto simp: const_defs)
next
  case (Cons W1 Ws)
  obtain p' where e: "desk_establish K W1 host port st =
      (Inl (reinput_error (token_fp8_of K token) (tunnel_io AUTH_401_MARKER) (Some (tunnel_io AUTH_401_MARKER))),
       map (\<lambda>u. (u, token)) (ordered_urls W1 raw host),
       st\<lparr> dt_pool := p', dt_last_heal := Some (dw_healed W1) \<rparr>)" "tp_idle p' = []"
    using establish_in_cooldown [of st raw token K host port W1 t] Cons.prems by (auto simp: const_defs)
  show ?case
    using Cons.IH [of "st\<lparr> dt_pool := p', dt_last_heal := Some (dw_healed W1) \<rparr>" "dw_healed W1"] Cons.prems e by simp
qed

lemma reinput_starts: "\<not> starts_with ''needs-reinput:'' (reinput_error fp e fe)"
  by (auto simp: reinput_error_def tunnel_io_def starts_with_iff)

text \<open>What the client is told then carries the fingerprint of the token: the prefix that
  selects the other text is never at the start of the error, which \<open>io\<close> has prefixed.\<close>

theorem reinput_leaks_fingerprint:
  "\<exists>before after. tunnel_failure host (reinput_error fp e fe) =
     Failed (reinput_error fp e fe) (before @ ''mem_fp8='' @ fp @ after)"
proof -
  let ?E = "reinput_error fp e fe" and ?m = "''502 Bad Gateway: tunnel failed for '' @ host @ '': ''"
  let ?p = "''tunnel: needs-reinput: tunnel token rejected by gate (''"
  obtain after where E: "?E = ?p @ ''mem_fp8='' @ fp @ after"
    by (simp add: reinput_error_def tunnel_io_def)
  obtain pre where "bad_gateway (?m @ ?E) = pre @ ?m @ ?E"
    by (simp add: bad_gateway_def)
  then have "tunnel_failure host ?E = Failed ?E ((pre @ ?m @ ?p) @ ''mem_fp8='' @ fp @ after)"
    using reinput_starts [of fp e fe] by (simp add: tunnel_failure_def) (simp add: E)
  then show ?thesis by blast
qed

section \<open>Examples\<close>

text \<open>Two gates that accept only the token \<open>new\<close>, which the disk has, while \<open>old\<close> is in memory.\<close>

definition demo_desk :: "nat \<Rightarrow> desk_world" where
  "demo_desk now = \<lparr> dw_client = \<lparr> wc_url_error = (\<lambda>_. None), wc_header_error = (\<lambda>_. None),
       wc_upgrade = (\<lambda>u h. if h = ''Bearer new'' then Upgraded 7 else UpgradeHttp 401 ''no'') \<rparr>,
     dw_peer = \<lparr> wp_send_error = (\<lambda>_ _. None), wp_answers = (\<lambda>_ _. [BindText ''ok'']),
       wp_parse = (\<lambda>_. Inr (JObject [(''ok'', JBool True)])), wp_quote = id \<rparr>,
     dw_now = now, dw_heal = now, dw_healed = now, dw_disk_missing = (None, None),
     dw_disk_heal = (Some ''wss://a,wss://vgate.b'', Some ''new''), dw_persists = True, dw_conserve = None \<rparr>"

definition demo_desk_state :: "nat option \<Rightarrow> desk_tunnel" where
  "demo_desk_state healed = \<lparr> dt_watch = (Some ''wss://a,wss://vgate.b'', Some ''old''),
     dt_pool = \<lparr> tp_idle = [], tp_size = 2, tp_ttl = 25, tp_hits = 0, tp_misses = 0, tp_expired = 0, tp_fused401 = 0 \<rparr>,
     dt_last_heal = healed, dt_last_refresh = None, dt_persisted = None \<rparr>"

definition demo_target :: string where
  "demo_target = ''cloudcode-pa.googleapis.com''"

lemma demo_desk_urls: "ordered_urls (demo_desk now) ''wss://a,wss://vgate.b'' demo_target = [''wss://vgate.b'']"
proof -
  have "split_endpoints ''wss://a,wss://vgate.b'' = [''wss://a'', ''wss://vgate.b'']"
    "requires_compliant_egress demo_target" by code_simp+
  moreover have "compliant_egress_endpoints (order_endpoints None [''wss://a'', ''wss://vgate.b''] demo_target) = [''wss://vgate.b'']"
    by code_simp
  ultimately show ?thesis by (simp add: ordered_urls_def egress_filter_def demo_desk_def)
qed

lemma demo_desk_refuses:
  "try_establish_url (dw_client (demo_desk now)) (dw_peer (demo_desk now)) u ''old'' host port = Inl AUTH_401_MARKER"
  "try_establish_url (dw_client (demo_desk now)) (dw_peer (demo_desk now)) u ''new'' host port = Inr 7"
proof -
  have "trim_str ''old'' = ''old''" "trim_str ''new'' = ''new''" by code_simp+
  then show "try_establish_url (dw_client (demo_desk now)) (dw_peer (demo_desk now)) u ''old'' host port = Inl AUTH_401_MARKER"
    "try_establish_url (dw_client (demo_desk now)) (dw_peer (demo_desk now)) u ''new'' host port = Inr 7"
    by (simp_all add: try_establish_url_def connect_ws_def demo_desk_def bind_target_def)
qed

lemma demo_refused_cold: "token_refused_cold demo demo_target 443 ''wss://a,wss://vgate.b'' ''old'' (demo_desk now)"
  by (simp add: token_refused_cold_def demo_desk_urls demo_desk_refuses)

lemma demo_refused:
  "token_refused demo (demo_desk now) demo_target 443 ''wss://a,wss://vgate.b'' ''old'' (dt_pool (demo_desk_state healed))"
proof -
  have "tp_idle (dt_pool (demo_desk_state healed)) = []" by (simp add: demo_desk_state_def)
  then have "fst (checkout now' urls fp (dt_pool (demo_desk_state healed))) = None" for now' urls fp
    using checkout_empty by (metis fst_conv)
  then show ?thesis
    using demo_refused_cold [of now] by (simp add: token_refused_def token_refused_cold_def)
qed

lemma demo_watch: "dt_watch (demo_desk_state healed) = (Some ''wss://a,wss://vgate.b'', Some ''old'')"
  by (simp add: demo_desk_state_def)

theorem self_heal_recovers_witness:
  "\<exists>ws ep dials st'. desk_establish demo (demo_desk 40000) demo_target 443 (demo_desk_state (Some 100)) = (Inr (ws, ep), dials, st')
    \<and> dt_watch st' = (Some ''wss://a,wss://vgate.b'', Some ''new'')"
proof -
  have "elapsed_since SELF_HEAL_COOLDOWN (dw_heal (demo_desk 40000)) (dt_last_heal (demo_desk_state (Some 100)))"
    by (simp add: elapsed_since_def demo_desk_def demo_desk_state_def const_defs)
  moreover have "dw_disk_heal (demo_desk 40000) = (Some ''wss://a,wss://vgate.b'', Some ''new'')" "dw_persists (demo_desk 40000)"
    by (simp_all add: demo_desk_def)
  moreover have "trim_str ''new'' \<noteq> []" by code_simp
  moreover have "''wss://vgate.b'' \<in> set (ordered_urls (demo_desk 40000) ''wss://a,wss://vgate.b'' demo_target)"
    by (simp add: demo_desk_urls)
  ultimately obtain ws' ep' dials st' where
    "desk_establish demo (demo_desk 40000) demo_target 443 (demo_desk_state (Some 100)) = (Inr (ws', ep'), dials, st')"
    "dt_watch st' = (Some ''wss://a,wss://vgate.b'', Some ''new'')"
    using self_heal_recovers [OF demo_watch demo_refused, of 40000 "Some 100"] demo_desk_refuses(2) by fastforce
  then show ?thesis by blast
qed

theorem self_heal_starves_witness:
  "fst (desk_establish demo (demo_desk 50000) demo_target 443
     (establish_run demo demo_target 443 [demo_desk 20000, demo_desk 40000] (demo_desk_state (Some 100)))) =
   Inl (reinput_error (token_fp8_of demo ''old'') (tunnel_io AUTH_401_MARKER) (Some (tunnel_io AUTH_401_MARKER)))"
proof -
  have c: "within_cooldown 100 ([demo_desk 20000, demo_desk 40000] @ [demo_desk 50000])"
    by (simp add: demo_desk_def const_defs)
  have e: "tp_idle (dt_pool (demo_desk_state (Some 100))) = []" "dt_last_heal (demo_desk_state (Some 100)) = Some 100"
    by (simp_all add: demo_desk_state_def)
  show ?thesis
    using self_heal_starves [OF demo_watch e _ c, of demo demo_target 443] demo_refused_cold by simp
qed

definition demo_stats :: engine_stats where
  "demo_stats = \<lparr> es_conns = 0, es_tunneled = 0, es_direct = 0, es_errors = 0, es_traffic = demo_traffic, es_cf_reqs = 0,
     es_vercel_reqs = 0, es_rn_reqs = 0, es_upstream_up = 0, es_upstream_down = 0, es_upstream_reqs = 0, es_last_error = None \<rparr>"

definition demo_req :: req_head where
  "demo_req = \<lparr> rq_kind = Connect, rq_host = demo_target, rq_port = 443 \<rparr>"

theorem tunnel_fails_closed_witness:
  "list_all (\<lambda>(u, t). is_native_vps_endpoint u \<or> is_vercel_endpoint u)
     (fst (snd (tunnel_connect_and_relay demo (\<lambda>_. demo_desk 40000) (\<lambda>_. 0) None None demo_req [] [] (demo_desk_state None, demo_stats))))"
proof -
  obtain res dials sleeps st' stats' where r: "tunnel_connect_and_relay demo (\<lambda>_. demo_desk 40000) (\<lambda>_. 0) None None
      demo_req [] [] (demo_desk_state None, demo_stats) = (res, dials, sleeps, st', stats')"
    by (metis prod_cases5)
  have "requires_compliant_egress (rq_host demo_req)" by code_simp
  from tunnel_fails_closed [OF r this] show ?thesis by (auto simp: r list_all_iff)
qed

end
