(* ===== verification/DesktopEngine.thy ===== *)
theory DesktopEngine
  imports DesktopTunnel
begin

text \<open>
  The local engine of the desktop client (\<open>desktop/src-tauri/src/proxy/engine.rs\<close>): reading and
  dispatching a request, the listener for the local network with its authentication, the relay
  between two sockets with its limits; and the client of the user's own upstream proxy
  (\<open>engine_upstream.rs\<close>).

  A connection is a list of the reads of the client's socket; what the network does is part of
  the surroundings.  \<open>base64\<close> without padding is a parameter beside the cryptographic ones.
\<close>

section \<open>Sockets\<close>

datatype io_kind = TimedOut | ConnectionRefused | WouldBlock | Interrupted | ConnectionReset | PermissionDenied | OtherKind

type_synonym io_error = "io_kind \<times> string"

datatype sock_read = ReadTimeout | ReadError io_kind string | ReadBytes string

datatype head_read = GotHead string string "sock_read list" | PeerClosed | HeadFailed string

text \<open>The deadline passes at the end of the events.\<close>

fun desk_read_head :: "string \<Rightarrow> sock_read list \<Rightarrow> head_read" where
  "desk_read_head buf [] = HeadFailed ''client head read timed out''"
| "desk_read_head buf (ev # evs) =
     (case ev of
        ReadTimeout \<Rightarrow> HeadFailed ''client head read timed out''
      | ReadError _ e \<Rightarrow> HeadFailed e
      | ReadBytes chunk \<Rightarrow>
          if chunk = [] then PeerClosed
          else (let buf = buf @ chunk in
                case find_sub CRLF2 buf of
                  Some pos \<Rightarrow> GotHead (from_utf8_lossy (take (pos + 4) buf)) (drop (pos + 4) buf) evs
                | None \<Rightarrow>
                    if length buf > 16 * 1024 then GotHead (from_utf8_lossy buf) [] evs
                    else desk_read_head buf evs))"

section \<open>The upstream proxy\<close>

record upstream_proxy =
  ux_host :: string
  ux_username :: string
  ux_password :: string

definition upstream_io :: "string \<Rightarrow> string" where
  "upstream_io e = ''upstream: '' @ e"

definition proxy_auth_header :: "crypto \<Rightarrow> upstream_proxy \<Rightarrow> string" where
  "proxy_auth_header K up =
     (if ux_username up = [] then []
      else ''Proxy-Authorization: Basic '' @ b64std_encode K (ux_username up @ '':'' @ ux_password up) @ CRLF)"

definition rebuild_upstream :: "string \<Rightarrow> string \<Rightarrow> string" where
  "rebuild_upstream head auth = (case split_first_line head of (first, rest) \<Rightarrow> first @ CRLF @ auth @ rest)"

definition upstream_connect_request :: "crypto \<Rightarrow> upstream_proxy \<Rightarrow> req_head \<Rightarrow> string" where
  "upstream_connect_request K up parsed =
     (let authority = rq_host parsed @ '':'' @ show_nat (rq_port parsed) in
      ''CONNECT '' @ authority @ '' HTTP/1.1'' @ CRLF @ ''Host: '' @ authority @ CRLF @ proxy_auth_header K up @ CRLF)"

text \<open>How dialling the upstream ends; a connection comes with the error of writing the request, if any,
  and what is read afterwards.\<close>

datatype up_dial = UpDialTimeout | UpDialError io_kind string | UpDialled "io_error option" "sock_read list"

fun read_answer :: "string \<Rightarrow> string \<Rightarrow> sock_read list \<Rightarrow> io_error + string \<times> sock_read list" where
  "read_answer host buf [] = Inl (TimedOut, upstream_io (host @ '' no response in 10s''))"
| "read_answer host buf (ev # evs) =
     (case ev of
        ReadTimeout \<Rightarrow> Inl (TimedOut, upstream_io (host @ '' no response in 10s''))
      | ReadError k e \<Rightarrow> Inl (k, upstream_io (''read failed: '' @ e))
      | ReadBytes chunk \<Rightarrow>
          if chunk = [] then Inl (ConnectionReset, upstream_io (host @ '' closed before response''))
          else (let buf = buf @ chunk in
                if contains_str CRLF2 buf \<or> length buf > 8 * 1024 then Inr (buf, evs) else read_answer host buf evs))"

definition status_line :: "string \<Rightarrow> string" where
  "status_line buf = (case str_lines (from_utf8_lossy buf) of l # _ \<Rightarrow> l | [] \<Rightarrow> [])"

definition status_accepted :: "string \<Rightarrow> bool" where
  "status_accepted status \<longleftrightarrow>
     contains_str '' 2'' status \<and> (starts_with ''HTTP/1.1 '' status \<or> starts_with ''HTTP/1.0 '' status)"

definition desk_try_establish :: "upstream_proxy \<Rightarrow> req_head \<Rightarrow> up_dial \<Rightarrow> io_error + sock_read list" where
  "desk_try_establish up parsed dial =
     (case dial of
        UpDialTimeout \<Rightarrow> Inl (TimedOut, upstream_io (''dial '' @ ux_host up @ '' timed out after 10s''))
      | UpDialError k e \<Rightarrow> Inl (k, upstream_io (''dial '' @ ux_host up @ '' failed: '' @ e))
      | UpDialled werr evs \<Rightarrow>
          if rq_kind parsed \<noteq> Connect then Inr evs
          else (case werr of
            Some (k, e) \<Rightarrow> Inl (k, upstream_io (''write CONNECT failed: '' @ e))
          | None \<Rightarrow>
              (case read_answer (ux_host up) [] evs of
                 Inl e \<Rightarrow> Inl e
               | Inr (buf, evs') \<Rightarrow>
                   (let status = status_line buf in
                    if status_accepted status then Inr evs'
                    else Inl (PermissionDenied, upstream_io (ux_host up @ '' refused: ''
                      @ (case split_once (CHR '' '') status of Some (_, r) \<Rightarrow> r | None \<Rightarrow> status)))))))"

definition retriable :: "io_kind \<Rightarrow> bool" where
  "retriable k \<longleftrightarrow> k \<in> {TimedOut, ConnectionRefused, WouldBlock, Interrupted}"

fun upstream_attempts ::
  "upstream_proxy \<Rightarrow> req_head \<Rightarrow> (nat \<Rightarrow> up_dial) \<Rightarrow> (nat \<Rightarrow> nat) \<Rightarrow> nat \<Rightarrow> nat \<Rightarrow> (string option + sock_read list) \<times> nat list" where
  "upstream_attempts up parsed dials rnd attempt 0 = (Inl None, [])"
| "upstream_attempts up parsed dials rnd attempt (Suc n) =
     (case desk_try_establish up parsed (dials attempt) of
        Inr evs \<Rightarrow> (Inr evs, [])
      | Inl (k, e) \<Rightarrow>
          if \<not> retriable k \<or> attempt + 1 \<ge> DESK_RETRY then (Inl (Some e), [])
          else apsnd ((#) (backoff attempt (rnd attempt))) (upstream_attempts up parsed dials rnd (attempt + 1) n))"

text \<open>The result; the reads of the upstream's socket are what its relay starts with.\<close>

definition upstream_connect_and_relay ::
  "crypto \<Rightarrow> upstream_proxy \<Rightarrow> (nat \<Rightarrow> up_dial) \<Rightarrow> (nat \<Rightarrow> nat) \<Rightarrow> string option \<Rightarrow> string option \<Rightarrow> req_head \<Rightarrow> string \<Rightarrow> string
   \<Rightarrow> engine_stats \<Rightarrow> desk_result \<times> nat list \<times> engine_stats" where
  "upstream_connect_and_relay K up dials rnd client_err target_err parsed head preamble stats =
     (case upstream_attempts up parsed dials rnd 0 DESK_RETRY of
        (Inl last_err, sleeps) \<Rightarrow>
          (let err = (case last_err of Some e \<Rightarrow> e | None \<Rightarrow> upstream_io ''upstream establish failed'') in
           (Failed err (bad_gateway (''502 Bad Gateway: upstream failed for '' @ rq_host parsed @ '': '' @ err)), sleeps, stats))
      | (Inr _, sleeps) \<Rightarrow>
          (let stats = stats\<lparr> es_upstream_reqs := wrap_add64 (es_upstream_reqs stats) 1 \<rparr> in
           if rq_kind parsed = Connect then
             (case client_err of
                Some e \<Rightarrow> (Failed e [], sleeps, stats)
              | None \<Rightarrow>
                  (case (if preamble = [] then None else target_err) of
                     Some e \<Rightarrow> (Failed e ESTABLISHED, sleeps, stats)
                   | None \<Rightarrow> (RelayUpstream (ux_host up) preamble, sleeps, stats)))
           else (let forwarded = rebuild_upstream head (proxy_auth_header K up);
                     stats = stats\<lparr> es_upstream_up := wrap_add64 (es_upstream_up stats) (length forwarded) \<rparr>
                 in case target_err of
                      Some e \<Rightarrow> (Failed e [], sleeps, stats)
                    | None \<Rightarrow> (RelayUpstream (ux_host up) (forwarded @ preamble), sleeps, stats))))"

section \<open>Dispatching a request\<close>

record engine_state =
  en_whitelist :: "string list"
  en_mode :: proxy_mode
  en_upstream :: "upstream_proxy option"
  en_tunnel :: desk_tunnel
  en_stats :: engine_stats

record engine_surroundings =
  ew_bypass :: "string list"
  ew_attempts :: "nat \<Rightarrow> desk_world"
  ew_rnd :: "nat \<Rightarrow> nat"
  ew_up_dials :: "nat \<Rightarrow> up_dial"
  ew_direct_err :: "string \<Rightarrow> nat \<Rightarrow> string option"
  ew_client_err :: "string option"
  ew_target_err :: "string option"

definition direct_relay :: "engine_surroundings \<Rightarrow> req_head \<Rightarrow> string \<Rightarrow> string \<Rightarrow> desk_result" where
  "direct_relay W parsed head preamble =
     (case ew_direct_err W (rq_host parsed) (rq_port parsed) of
        Some e \<Rightarrow> Failed e (bad_gateway (''502 Bad Gateway: direct dial '' @ rq_host parsed @ '' failed: '' @ e))
      | None \<Rightarrow>
          if rq_kind parsed = Connect then
            (case ew_client_err W of
               Some e \<Rightarrow> Failed e []
             | None \<Rightarrow>
                 (case (if preamble = [] then None else ew_target_err W) of
                    Some e \<Rightarrow> Failed e ESTABLISHED
                  | None \<Rightarrow> RelayDirect (rq_host parsed) (rq_port parsed) preamble))
          else (case ew_target_err W of
                  Some e \<Rightarrow> Failed e []
                | None \<Rightarrow> RelayDirect (rq_host parsed) (rq_port parsed) (rebuild_direct head @ preamble)))"

definition BAD_REQUEST :: string where
  "BAD_REQUEST = ''HTTP/1.1 400 Bad Request'' @ CRLF @ ''Content-Length: 0'' @ CRLF2"

definition note_failure :: "desk_result \<Rightarrow> engine_stats \<Rightarrow> engine_stats" where
  "note_failure res stats =
     (case res of
        Failed e _ \<Rightarrow> stats\<lparr> es_errors := wrap_add64 (es_errors stats) 1, es_last_error := Some e \<rparr>
      | _ \<Rightarrow> stats)"

definition tunnel_dispatch ::
  "crypto \<Rightarrow> engine_surroundings \<Rightarrow> req_head \<Rightarrow> string \<Rightarrow> string \<Rightarrow> engine_state \<Rightarrow> desk_result \<times> engine_state" where
  "tunnel_dispatch K W parsed head preamble st =
     (let stats = (en_stats st)\<lparr> es_tunneled := wrap_add64 (es_tunneled (en_stats st)) 1 \<rparr> in
      case en_upstream st of
        Some u \<Rightarrow>
          (case upstream_connect_and_relay K u (ew_up_dials W) (ew_rnd W) (ew_client_err W) (ew_target_err W)
                  parsed head preamble stats of
             (res, _, stats') \<Rightarrow> (res, st\<lparr> en_stats := note_failure res stats' \<rparr>))
      | None \<Rightarrow>
          (case tunnel_connect_and_relay K (ew_attempts W) (ew_rnd W) (ew_client_err W) (ew_target_err W)
                  parsed head preamble (en_tunnel st, stats) of
             (res, _, _, tunnel, stats') \<Rightarrow>
               (res, st\<lparr> en_tunnel := tunnel, en_stats := note_failure res stats' \<rparr>)))"

definition dispatch ::
  "crypto \<Rightarrow> engine_surroundings \<Rightarrow> string \<Rightarrow> string \<Rightarrow> engine_state \<Rightarrow> desk_result \<times> engine_state" where
  "dispatch K W head preamble st =
     (case parse_head head of
        None \<Rightarrow> (Answered BAD_REQUEST, st)
      | Some parsed \<Rightarrow>
          (case decide (ew_bypass W) (rq_host parsed) (en_whitelist st) (en_mode st) of
             Direct \<Rightarrow>
               (direct_relay W parsed head preamble,
                st\<lparr> en_stats := (en_stats st)\<lparr> es_direct := wrap_add64 (es_direct (en_stats st)) 1 \<rparr> \<rparr>)
           | Tunnel \<Rightarrow> tunnel_dispatch K W parsed head preamble st))"

definition is_pac_request :: "string \<Rightarrow> bool" where
  "is_pac_request head =
     (case str_lines head of
        [] \<Rightarrow> False
      | first # _ \<Rightarrow>
          (let path = (case strip_prefix ''GET '' first of
                         Some r \<Rightarrow> (case split_whitespace r of p # _ \<Rightarrow> p | [] \<Rightarrow> [])
                       | None \<Rightarrow> [])
           in path = ''/pac'' \<or> starts_with ''/pac?'' path \<or> starts_with ''http://127.0.0.1:18900/pac'' path
              \<or> starts_with ''http://localhost:18900/pac'' path))"

text \<open>The text of the script is a parameter of the loopback engine.\<close>

definition pac_answer :: "string \<Rightarrow> string" where
  "pac_answer body =
     ''HTTP/1.1 200 OK'' @ CRLF @ ''Content-Type: application/x-ns-proxy-autoconfig'' @ CRLF
     @ ''Cache-Control: no-cache, no-store, must-revalidate'' @ CRLF @ ''Pragma: no-cache'' @ CRLF @ ''Expires: 0'' @ CRLF
     @ ''Content-Length: '' @ show_nat (length body) @ CRLF @ ''Connection: close'' @ CRLF2 @ body"

definition desk_handle_conn ::
  "crypto \<Rightarrow> (string list \<Rightarrow> proxy_mode \<Rightarrow> string) \<Rightarrow> engine_surroundings \<Rightarrow> sock_read list \<Rightarrow> engine_state \<Rightarrow> desk_result \<times> engine_state" where
  "desk_handle_conn K generate_pac W evs st =
     (case desk_read_head [] evs of
        HeadFailed e \<Rightarrow> (Failed e [], st)
      | PeerClosed \<Rightarrow> (NothingToDo, st)
      | GotHead head preamble _ \<Rightarrow>
          if is_pac_request head then (Answered (pac_answer (generate_pac (en_whitelist st) (en_mode st))), st)
          else dispatch K W head preamble st)"

text \<open>One turn of the accept loop with the task it spawns.\<close>

definition run_conn ::
  "crypto \<Rightarrow> (string list \<Rightarrow> proxy_mode \<Rightarrow> string) \<Rightarrow> engine_surroundings \<Rightarrow> sock_read list \<Rightarrow> engine_state \<Rightarrow> desk_result \<times> engine_state" where
  "run_conn K generate_pac W evs st =
     (case desk_handle_conn K generate_pac W evs
             (st\<lparr> en_stats := (en_stats st)\<lparr> es_conns := wrap_add64 (es_conns (en_stats st)) 1 \<rparr> \<rparr>) of
        (res, st') \<Rightarrow> (res, st'\<lparr> en_stats := note_failure res (en_stats st') \<rparr>))"

section \<open>The listener for the local network\<close>

definition LAN_DEFAULT_PORT :: nat where [const_defs]: "LAN_DEFAULT_PORT = 8899"
definition LAN_ACCEPT_MAX_CONSECUTIVE_ERRORS :: nat where [const_defs]: "LAN_ACCEPT_MAX_CONSECUTIVE_ERRORS = 10"

definition lan_port_from_env :: "string option \<Rightarrow> nat" where
  "lan_port_from_env v =
     (case v of
        None \<Rightarrow> LAN_DEFAULT_PORT
      | Some s \<Rightarrow> (case parse_uint 10 u16_max (trim_str s) of
                    Some p \<Rightarrow> if p \<noteq> 0 then p else LAN_DEFAULT_PORT
                  | None \<Rightarrow> LAN_DEFAULT_PORT))"

definition is_proxy_auth_name :: "string \<Rightarrow> bool" where
  "is_proxy_auth_name name \<longleftrightarrow> eq_ignore_ascii_case (trim_str name) ''proxy-authorization''"

definition decode_basic :: "crypto \<Rightarrow> (string \<Rightarrow> string option) \<Rightarrow> string \<Rightarrow> (string \<times> string) option" where
  "decode_basic K nopad value =
     (let raw = trim_str value in
      if length raw < 6 \<or> \<not> eq_ignore_ascii_case (take 6 raw) ''basic '' then None
      else (let b64 = trim_str (drop 6 raw) in
        case or_else (b64std_decode K b64) (nopad b64) of
          None \<Rightarrow> None
        | Some decoded \<Rightarrow>
            (case from_utf8 decoded of
               None \<Rightarrow> None
             | Some text \<Rightarrow> (case split_once (CHR '':'') text of Some (u, p) \<Rightarrow> Some (u, p) | None \<Rightarrow> Some (text, [])))))"

fun basic_of_lines :: "crypto \<Rightarrow> (string \<Rightarrow> string option) \<Rightarrow> string list \<Rightarrow> (string \<times> string) option" where
  "basic_of_lines K nopad [] = None"
| "basic_of_lines K nopad (line # lines) =
     (case split_once (CHR '':'') line of
        None \<Rightarrow> basic_of_lines K nopad lines
      | Some (name, value) \<Rightarrow>
          if is_proxy_auth_name name then decode_basic K nopad value else basic_of_lines K nopad lines)"

definition basic_proxy_auth :: "crypto \<Rightarrow> (string \<Rightarrow> string option) \<Rightarrow> string \<Rightarrow> (string \<times> string) option" where
  "basic_proxy_auth K nopad head = basic_of_lines K nopad (str_lines head)"

definition lan_auth_ok :: "crypto \<Rightarrow> (string \<Rightarrow> string option) \<Rightarrow> string \<Rightarrow> string \<Rightarrow> bool" where
  "lan_auth_ok K nopad head raw_token =
     (let token = trim_str raw_token in
      if token = [] then False
      else (case basic_proxy_auth K nopad head of
              Some (user, pass) \<Rightarrow> user = token \<or> pass = token
            | None \<Rightarrow> False))"

text \<open>\<open>split("\r\n")\<close>.\<close>

function split_crlf :: "string \<Rightarrow> string list" where
  "split_crlf s = (case find_sub CRLF s of None \<Rightarrow> [s] | Some i \<Rightarrow> take i s # split_crlf (drop (i + 2) s))"
  by auto
termination
proof (relation "measure length")
  fix s i assume "find_sub CRLF s = Some i"
  from find_sub_Some [OF this] show "(drop (i + 2) s, s) \<in> measure length" by (simp add: CRLF_def) linarith
qed simp

declare split_crlf.simps [simp del]

definition is_proxy_auth_line :: "string \<Rightarrow> bool" where
  "is_proxy_auth_line line =
     (case split_once (CHR '':'') line of Some (name, _) \<Rightarrow> is_proxy_auth_name name | None \<Rightarrow> False)"

definition split_head_body :: "string \<Rightarrow> string \<times> string" where
  "split_head_body head =
     (case find_sub CRLF2 head of Some i \<Rightarrow> (take i head, drop (i + 4) head) | None \<Rightarrow> (head, []))"

definition strip_proxy_authorization :: "string \<Rightarrow> string" where
  "strip_proxy_authorization head =
     (case split_head_body head of (header_part, body) \<Rightarrow>
        (case split_crlf header_part of
           [] \<Rightarrow> []
         | first # lines \<Rightarrow> first @ concat (map ((@) CRLF) (filter (\<lambda>l. \<not> is_proxy_auth_line l) lines)))
        @ CRLF2 @ body)"

fun find_token :: "string list \<Rightarrow> string option" where
  "find_token [] = None"
| "find_token (kv # kvs) = (case strip_prefix ''token='' kv of Some v \<Rightarrow> Some v | None \<Rightarrow> find_token kvs)"

definition subscription_request :: "string \<Rightarrow> string option option" where
  "subscription_request head =
     (case str_lines head of
        [] \<Rightarrow> None
      | first # _ \<Rightarrow>
          (case split_whitespace first of
             m # target # _ \<Rightarrow>
               if \<not> eq_ignore_ascii_case m ''GET'' then None
               else (let path = (case strip_prefix ''http://'' target of
                            Some rest \<Rightarrow> ''/'' @ (case split_once (CHR ''/'') rest of Some (_, p) \<Rightarrow> p | None \<Rightarrow> [])
                          | None \<Rightarrow> target);
                         (path, query) = (case split_once (CHR ''?'') path of Some pq \<Rightarrow> pq | None \<Rightarrow> (path, []))
                     in if path \<noteq> ''/clash.yaml'' then None
                        else Some (case find_token (split_on (CHR ''&'') query) of
                                     Some v \<Rightarrow> if v \<noteq> [] then Some v else None
                                   | None \<Rightarrow> None))
           | _ \<Rightarrow> None))"

definition plain_answer :: "string \<Rightarrow> string \<Rightarrow> string" where
  "plain_answer status body =
     ''HTTP/1.1 '' @ status @ CRLF @ ''Content-Type: text/plain; charset=utf-8'' @ CRLF @ ''Content-Length: '' @ show_nat (length body)
     @ CRLF @ ''Connection: close'' @ CRLF2 @ body"

definition ANSWER_407 :: string where
  "ANSWER_407 = ''HTTP/1.1 407 Proxy Authentication Required'' @ CRLF @ ''Proxy-Authenticate: Basic realm='' @ [CHR 0x22]
     @ ''pproxy'' @ [CHR 0x22] @ CRLF @ ''Content-Type: text/plain'' @ CRLF @ ''Content-Length: 0'' @ CRLF @ ''Connection: close'' @ CRLF2"

definition yaml_answer :: "string \<Rightarrow> string" where
  "yaml_answer yaml =
     ''HTTP/1.1 200 OK'' @ CRLF @ ''Content-Type: text/yaml; charset=utf-8'' @ CRLF @ ''Content-Length: '' @ show_nat (length yaml)
     @ CRLF @ ''Connection: close'' @ CRLF2 @ yaml"

text \<open>The configured token, when it is not blank.\<close>

definition usable_token :: "string option \<Rightarrow> string option" where
  "usable_token provided = (case provided of Some t \<Rightarrow> if trim_str t \<noteq> [] then Some t else None | None \<Rightarrow> None)"

definition serve_subscription :: "string option \<Rightarrow> string \<Rightarrow> string option \<Rightarrow> desk_result" where
  "serve_subscription provided yaml query_token =
     Answered (case usable_token provided of
        None \<Rightarrow> yaml_answer yaml
      | Some tok \<Rightarrow>
          (case query_token of
             Some q \<Rightarrow> if q = tok then yaml_answer yaml else plain_answer ''401 Unauthorized'' ''invalid token''
           | None \<Rightarrow> plain_answer ''401 Unauthorized'' ''missing token''))"

definition handle_lan_conn ::
  "crypto \<Rightarrow> (string \<Rightarrow> string option) \<Rightarrow> string option \<Rightarrow> string \<Rightarrow> engine_surroundings \<Rightarrow> bool \<Rightarrow> sock_read list \<Rightarrow> engine_state
   \<Rightarrow> desk_result \<times> engine_state" where
  "handle_lan_conn K nopad provided yaml W peer_is_loopback evs st =
     (case desk_read_head [] evs of
        HeadFailed e \<Rightarrow> (Failed e [], st)
      | PeerClosed \<Rightarrow> (NothingToDo, st)
      | GotHead head preamble _ \<Rightarrow>
          (case subscription_request head of
             Some query_token \<Rightarrow> (serve_subscription provided yaml query_token, st)
           | None \<Rightarrow>
               if \<not> peer_is_loopback \<and>
                  \<not> (case usable_token provided of Some t \<Rightarrow> lan_auth_ok K nopad head t | None \<Rightarrow> False)
               then (Answered ANSWER_407, st)
               else dispatch K W (strip_proxy_authorization head) preamble st))"

text \<open>The accept loop: the consecutive errors, the pauses in milliseconds, and whether it has
  ended.\<close>

datatype accept_event = StopChanged bool | Accepted | AcceptFailed

record accept_loop =
  al_errors :: nat
  al_sleeps :: "nat list"
  al_sessions :: nat
  al_over :: bool

definition lan_backoff :: "nat \<Rightarrow> nat" where
  "lan_backoff consecutive_errors = min (50 * 2 ^ (min (consecutive_errors - 1) 5)) 1000"

definition lan_accept_step :: "accept_event \<Rightarrow> accept_loop \<Rightarrow> accept_loop" where
  "lan_accept_step ev s =
     (if al_over s then s
      else (case ev of
              StopChanged stop \<Rightarrow> s\<lparr> al_over := stop \<rparr>
            | Accepted \<Rightarrow> s\<lparr> al_errors := 0, al_sessions := al_sessions s + 1 \<rparr>
            | AcceptFailed \<Rightarrow>
                (let n = al_errors s + 1 in
                 if n \<ge> LAN_ACCEPT_MAX_CONSECUTIVE_ERRORS then s\<lparr> al_errors := n, al_over := True \<rparr>
                 else s\<lparr> al_errors := n, al_sleeps := al_sleeps s @ [lan_backoff n] \<rparr>)))"

definition accept_loop_new :: accept_loop where
  "accept_loop_new = \<lparr> al_errors = 0, al_sleeps = [], al_sessions = 0, al_over = False \<rparr>"

section \<open>The relay between two sockets\<close>

record relay_limits_desk =
  rl_idle :: "nat option"
  rl_absolute :: "nat option"
  rl_start :: nat

datatype tcp_end = TcpIdle | TcpAbsolute | TcpFailed | TcpDone

text \<open>Side \<open>a\<close> is the client.  The last two fields are bookkeeping: what each side sent, and when the
  idle deadline was last set.\<close>

record tcp_relay =
  tr_a_eof :: bool
  tr_b_eof :: bool
  tr_idle_deadline :: nat
  tr_to_b :: string
  tr_to_a :: string
  tr_a_shut :: bool
  tr_b_shut :: bool
  tr_up :: nat
  tr_down :: nat
  tr_result :: "tcp_end option"
  tr_from_a :: string
  tr_from_b :: string
  tr_active :: nat

definition desk_idle_window :: "relay_limits_desk \<Rightarrow> nat" where
  "desk_idle_window l = (case rl_idle l of Some d \<Rightarrow> d | None \<Rightarrow> FAR_FUTURE)"

definition desk_absolute_deadline :: "relay_limits_desk \<Rightarrow> nat" where
  "desk_absolute_deadline l = rl_start l + (case rl_absolute l of Some d \<Rightarrow> d | None \<Rightarrow> FAR_FUTURE)"

definition tcp_relay_begin :: "relay_limits_desk \<Rightarrow> nat \<Rightarrow> nat \<Rightarrow> tcp_relay" where
  "tcp_relay_begin l up down =
     \<lparr> tr_a_eof = False, tr_b_eof = False, tr_idle_deadline = rl_start l + desk_idle_window l, tr_to_b = [], tr_to_a = [],
       tr_a_shut = False, tr_b_shut = False, tr_up = up, tr_down = down, tr_result = None, tr_from_a = [], tr_from_b = [],
       tr_active = rl_start l \<rparr>"

text \<open>The branches of the select; a flag says whether the write succeeds.  The loop ends when
  both sides are at their end.\<close>

datatype tcp_event = TcpIdleFires | TcpAbsoluteFires | ARead string bool | AError | BRead string bool | BError

definition tcp_enabled :: "relay_limits_desk \<Rightarrow> nat \<Rightarrow> tcp_event \<Rightarrow> tcp_relay \<Rightarrow> bool" where
  "tcp_enabled l now ev s \<longleftrightarrow> tr_result s = None \<and>
     (case ev of
        TcpIdleFires \<Rightarrow> rl_idle l \<noteq> None \<and> tr_idle_deadline s \<le> now
      | TcpAbsoluteFires \<Rightarrow> rl_absolute l \<noteq> None \<and> desk_absolute_deadline l \<le> now
      | ARead chunk _ \<Rightarrow> \<not> tr_a_eof s \<and> length chunk \<le> 8192
      | AError \<Rightarrow> \<not> tr_a_eof s
      | BRead chunk _ \<Rightarrow> \<not> tr_b_eof s \<and> length chunk \<le> 8192
      | BError \<Rightarrow> \<not> tr_b_eof s)"

definition tcp_loop_head :: "tcp_relay \<Rightarrow> tcp_relay" where
  "tcp_loop_head s = (if tr_a_eof s \<and> tr_b_eof s then s\<lparr> tr_result := Some TcpDone \<rparr> else s)"

definition tcp_event_step :: "relay_limits_desk \<Rightarrow> nat \<Rightarrow> tcp_event \<Rightarrow> tcp_relay \<Rightarrow> tcp_relay" where
  "tcp_event_step l now ev s =
     (case ev of
        TcpIdleFires \<Rightarrow> s\<lparr> tr_a_shut := True, tr_b_shut := True, tr_result := Some TcpIdle \<rparr>
      | TcpAbsoluteFires \<Rightarrow> s\<lparr> tr_a_shut := True, tr_b_shut := True, tr_result := Some TcpAbsolute \<rparr>
      | AError \<Rightarrow> s\<lparr> tr_result := Some TcpFailed \<rparr>
      | BError \<Rightarrow> s\<lparr> tr_result := Some TcpFailed \<rparr>
      | ARead chunk ok \<Rightarrow>
          if chunk = [] then tcp_loop_head (s\<lparr> tr_a_eof := True, tr_b_shut := True \<rparr>)
          else (let s = s\<lparr> tr_idle_deadline := now + desk_idle_window l, tr_active := now,
                          tr_up := wrap_add64 (tr_up s) (length chunk), tr_from_a := tr_from_a s @ chunk \<rparr>
                in if ok then s\<lparr> tr_to_b := tr_to_b s @ chunk \<rparr> else s\<lparr> tr_result := Some TcpFailed \<rparr>)
      | BRead chunk ok \<Rightarrow>
          if chunk = [] then tcp_loop_head (s\<lparr> tr_b_eof := True, tr_a_shut := True \<rparr>)
          else (let s = s\<lparr> tr_idle_deadline := now + desk_idle_window l, tr_active := now,
                          tr_down := wrap_add64 (tr_down s) (length chunk), tr_from_b := tr_from_b s @ chunk \<rparr>
                in if ok then s\<lparr> tr_to_a := tr_to_a s @ chunk \<rparr> else s\<lparr> tr_result := Some TcpFailed \<rparr>))"

inductive tcp_relay_step :: "relay_limits_desk \<Rightarrow> nat \<times> tcp_relay \<Rightarrow> nat \<times> tcp_relay \<Rightarrow> bool" for l where
  pass: "now \<le> now' \<Longrightarrow> tcp_relay_step l (now, s) (now', s)"
| event: "tcp_enabled l now ev s \<Longrightarrow> tcp_relay_step l (now, s) (now, tcp_event_step l now ev s)"

inductive_cases tcp_relay_stepE: "tcp_relay_step l a b"

section \<open>Lemmas on lines\<close>

lemma find_sub_at: "find_sub p s = Some i \<Longrightarrow> s = take i s @ p @ drop (i + length p) s"
  using find_sub_Some [of p s i] by (metis add.commute append_take_drop_id drop_drop)

lemma find_sub_least:
  assumes "find_sub p s = Some i" "s = a @ p @ b"
  shows "i \<le> length a"
  using assms
proof (induction a arbitrary: s i)
  case Nil
  then have "starts_with p s" by simp
  with Nil.prems(1) show ?case by (cases s) (auto simp: starts_with_iff split: if_splits)
next
  case (Cons c a)
  then show ?case by (cases "starts_with p s") (fastforce split: if_splits)+
qed

text \<open>Texts without a line end in them.\<close>

definition one_line :: "string \<Rightarrow> bool" where
  "one_line x \<longleftrightarrow> find_sub CRLF x = None"

lemma one_line_Cons: "one_line (c # x) \<Longrightarrow> one_line x"
  by (auto simp: one_line_def split: if_splits)

lemma not_starts_line:
  assumes "one_line (c # x)"
  shows "\<not> starts_with CRLF (c # x @ CRLF @ rest)"
proof
  assume "starts_with CRLF (c # x @ CRLF @ rest)"
  then obtain r where r: "c # x @ CRLF @ rest = CRLF @ r" by (auto simp: starts_with_iff)
  show False
  proof (cases x)
    case Nil
    with r show False by (simp add: CRLF_def)
  next
    case (Cons d x')
    with r have "c # x = CRLF @ x'" by (simp add: CRLF_def)
    with assms show False unfolding one_line_def find_sub_None_iff by (metis append_Nil)
  qed
qed

lemma find_line_end: "one_line x \<Longrightarrow> find_sub CRLF (x @ CRLF @ rest) = Some (length x)"
proof (induction x)
  case Nil
  then show ?case by (simp add: CRLF_def starts_with_iff)
next
  case (Cons c x)
  then show ?case using not_starts_line [OF Cons.prems] one_line_Cons [OF Cons.prems] by simp
qed

lemma CRLF2_CRLF: "CRLF2 = CRLF @ CRLF"
  by (simp add: CRLF2_def CRLF_def)

lemma find_blank_line:
  assumes "one_line x" "\<not> starts_with CRLF rest"
  shows "find_sub CRLF2 (x @ CRLF @ rest) = map_option (\<lambda>i. length x + 2 + i) (find_sub CRLF2 rest)"
  using assms(1)
proof (induction x)
  case Nil
  have "\<not> starts_with CRLF2 (CRLF @ rest)" using assms(2) by (auto simp: CRLF2_CRLF starts_with_iff)
  moreover have "\<not> starts_with CRLF2 (tl CRLF @ rest)" by (auto simp: CRLF_def CRLF2_def starts_with_iff)
  ultimately show ?case by (simp add: CRLF_def) (auto simp: map_option_case split: option.split)
next
  case (Cons c x)
  have "\<not> starts_with CRLF2 (c # x @ CRLF @ rest)"
    using not_starts_line [OF Cons.prems, of rest] by (auto simp: CRLF2_CRLF starts_with_iff)
  then show ?case
    using Cons.IH one_line_Cons [OF Cons.prems] by (auto simp: map_option_case split: option.split)
qed

lemma find_blank_line_last: "one_line x \<Longrightarrow> find_sub CRLF2 (x @ CRLF2 @ body) = Some (length x)"
proof (induction x)
  case Nil
  then show ?case by (simp add: CRLF2_def starts_with_iff)
next
  case (Cons c x)
  have "\<not> starts_with CRLF2 (c # x @ CRLF2 @ body)"
    using not_starts_line [OF Cons.prems, of "CRLF @ body"] by (auto simp: CRLF2_CRLF starts_with_iff)
  then show ?case using Cons.IH one_line_Cons [OF Cons.prems] by simp
qed

definition join_lines :: "string \<Rightarrow> string list \<Rightarrow> string" where
  "join_lines first ls = first @ concat (map ((@) CRLF) ls)"

lemma join_lines_simps [simp]:
  "join_lines first [] = first"
  "join_lines first (l # ls) = first @ CRLF @ join_lines l ls"
  by (simp_all add: join_lines_def)

lemma split_crlf_join: "one_line first \<Longrightarrow> list_all one_line ls \<Longrightarrow> split_crlf (join_lines first ls) = first # ls"
proof (induction ls arbitrary: first)
  case Nil
  then show ?case by (simp add: split_crlf.simps [of first] one_line_def)
next
  case (Cons l ls)
  then show ?case by (subst split_crlf.simps) (simp add: find_line_end CRLF_def [THEN arg_cong, of length, simplified])
qed

lemma join_not_line_start:
  assumes "one_line l" "l \<noteq> []"
  shows "\<not> starts_with CRLF (join_lines l ls @ CRLF2 @ body)"
proof -
  obtain c x where l: "l = c # x" using assms(2) by (cases l) auto
  show ?thesis
    using not_starts_line [of c x] assms(1)
    by (cases ls) (auto simp: l CRLF2_CRLF)
qed

lemma find_blank_line_join:
  "one_line first \<Longrightarrow> list_all (\<lambda>l. one_line l \<and> l \<noteq> []) ls \<Longrightarrow>
   find_sub CRLF2 (join_lines first ls @ CRLF2 @ body) = Some (length (join_lines first ls))"
proof (induction ls arbitrary: first)
  case Nil
  then show ?case by (simp add: find_blank_line_last)
next
  case (Cons l ls)
  have "find_sub CRLF2 (join_lines first (l # ls) @ CRLF2 @ body) =
      map_option (\<lambda>i. length first + 2 + i) (find_sub CRLF2 (join_lines l ls @ CRLF2 @ body))"
    using find_blank_line [OF Cons.prems(1) join_not_line_start [of l ls body]] Cons.prems(2) by simp
  then show ?case using Cons.IH [of l] Cons.prems(2) by (simp add: CRLF_def)
qed

lemma split_crlf_lines:
  obtains first ls where "split_crlf h = first # ls" "h = join_lines first ls" "one_line first" "list_all one_line ls"
proof (induction h arbitrary: thesis rule: split_crlf.induct)
  case (1 h)
  show ?case
  proof (cases "find_sub CRLF h")
    case None
    then show ?thesis using 1(2) [of h "[]"] by (simp add: split_crlf.simps [of h] one_line_def)
  next
    case (Some i)
    obtain first ls where r: "split_crlf (drop (i + 2) h) = first # ls" "drop (i + 2) h = join_lines first ls"
      "one_line first" "list_all one_line ls" using 1(1) [OF Some] by blast
    have "one_line (take i h)" unfolding one_line_def find_sub_None_iff
    proof (intro allI notI)
      fix a b assume t: "take i h = a @ CRLF @ b"
      have "i \<le> length h" using find_sub_Some [OF Some] by simp
      with arg_cong [OF t, of length] have "length a < i" by (simp add: CRLF_def)
      moreover have "h = a @ CRLF @ (b @ drop i h)" using t by (metis append.assoc append_take_drop_id)
      ultimately show False using find_sub_least [OF Some] by fastforce
    qed
    moreover have "h = take i h @ CRLF @ drop (i + 2) h" using find_sub_at [OF Some] by (simp add: CRLF_def)
    ultimately show ?thesis
      using 1(2) [of "take i h" "first # ls"] r Some by (simp add: split_crlf.simps [of h])
  qed
qed

lemma header_lines_not_empty:
  assumes "find_sub CRLF2 head = Some i" "take i head = join_lines first ls"
  shows "[] \<notin> set ls"
proof
  assume "[] \<in> set ls"
  then obtain ls1 ls2 where ls: "ls = ls1 @ [] # ls2" by (meson split_list)
  have head: "head = take i head @ CRLF2 @ drop (i + 4) head" using find_sub_at [OF assms(1)] by simp
  have "concat (map ((@) CRLF) ls2) @ CRLF2 = CRLF @ tl (tl (concat (map ((@) CRLF) ls2) @ CRLF2))"
    by (cases ls2) (simp_all add: CRLF2_CRLF, simp_all add: CRLF_def)
  then have "head = join_lines first ls1 @ CRLF2 @ (tl (tl (concat (map ((@) CRLF) ls2) @ CRLF2)) @ drop (i + 4) head)"
    using head assms(2) by (simp add: join_lines_def ls CRLF2_CRLF) (metis append.assoc)
  from find_sub_least [OF assms(1) this] have "i \<le> length (join_lines first ls1)" .
  moreover have "length (take i head) = i" using find_sub_Some [OF assms(1)] by simp
  ultimately show False using assms(2) by (simp add: join_lines_def ls CRLF_def)
qed

text \<open>What \<open>strip_proxy_authorization\<close> gives for a head that has its blank line: the lines of its
  header section are those of the head that are not credentials, and the body is the same.\<close>

lemma strip_shape:
  assumes "find_sub CRLF2 head = Some i" "split_crlf (take i head) = first # ls"
  shows "strip_proxy_authorization head = join_lines first (filter (\<lambda>l. \<not> is_proxy_auth_line l) ls) @ CRLF2 @ drop (i + 4) head"
    and "split_head_body (strip_proxy_authorization head) =
      (join_lines first (filter (\<lambda>l. \<not> is_proxy_auth_line l) ls), drop (i + 4) head)"
    and "split_crlf (join_lines first (filter (\<lambda>l. \<not> is_proxy_auth_line l) ls)) = first # filter (\<lambda>l. \<not> is_proxy_auth_line l) ls"
proof -
  let ?ls = "filter (\<lambda>l. \<not> is_proxy_auth_line l) ls"
  obtain first' ls' where "split_crlf (take i head) = first' # ls'" "take i head = join_lines first' ls'"
    "one_line first'" "list_all one_line ls'" by (rule split_crlf_lines)
  with assms(2) have sp: "take i head = join_lines first ls" "one_line first" "list_all one_line ls" by auto
  show st: "strip_proxy_authorization head = join_lines first ?ls @ CRLF2 @ drop (i + 4) head"
    using assms by (simp add: strip_proxy_authorization_def split_head_body_def join_lines_def)
  have "list_all (\<lambda>l. one_line l \<and> l \<noteq> []) ?ls"
    using sp(3) header_lines_not_empty [OF assms(1) sp(1)] by (auto simp: list_all_iff)
  from find_blank_line_join [OF sp(2) this]
  show "split_head_body (strip_proxy_authorization head) = (join_lines first ?ls, drop (i + 4) head)"
    unfolding st by (simp add: split_head_body_def)
  show "split_crlf (join_lines first ?ls) = first # ?ls"
    using split_crlf_join [OF sp(2), of ?ls] sp(3) by (auto simp: list_all_iff)
qed

section \<open>Properties\<close>

text \<open>C32: from the local network only the holder of the tunnel token gets through.  When a client
  that is not on the machine makes the listener open any connection or changes anything in the
  engine, a token is configured that is not blank, the client's head has Basic credentials
  one half of which is that token, and what is dispatched is the head without its
  lines of proxy credentials, followed by the same body.\<close>

theorem lan_requires_credentials:
  assumes "handle_lan_conn K nopad provided yaml W False evs st = (res, st')"
    and "st' \<noteq> st \<or> (\<forall>a. res \<noteq> Answered a) \<and> res \<noteq> NothingToDo \<and> (\<forall>e. res \<noteq> Failed e [])"
  shows "\<exists>head preamble rest tok user pass. desk_read_head [] evs = GotHead head preamble rest
    \<and> provided = Some tok \<and> trim_str tok \<noteq> [] \<and> basic_proxy_auth K nopad head = Some (user, pass)
    \<and> (user = trim_str tok \<or> pass = trim_str tok)
    \<and> (res, st') = dispatch K W (strip_proxy_authorization head) preamble st
    \<and> (\<forall>i first ls. find_sub CRLF2 head = Some i \<and> split_crlf (take i head) = first # ls \<longrightarrow>
        (case split_head_body (strip_proxy_authorization head) of (header, body) \<Rightarrow>
           split_crlf header = first # filter (\<lambda>l. \<not> is_proxy_auth_line l) ls \<and> body = drop (i + 4) head))"
proof -
  obtain head preamble rest where h: "desk_read_head [] evs = GotHead head preamble rest"
    and sub: "subscription_request head = None"
    and tok: "case usable_token provided of Some t \<Rightarrow> lan_auth_ok K nopad head t | None \<Rightarrow> False"
    and d: "(res, st') = dispatch K W (strip_proxy_authorization head) preamble st"
    using assms
    by (auto simp: handle_lan_conn_def serve_subscription_def split: head_read.splits option.splits if_splits)
  from tok obtain t user pass where "provided = Some t" "trim_str t \<noteq> []" "basic_proxy_auth K nopad head = Some (user, pass)"
    "user = trim_str t \<or> pass = trim_str t"
    by (auto simp: usable_token_def lan_auth_ok_def Let_def split: option.splits if_splits)
  moreover have "\<forall>i first ls. find_sub CRLF2 head = Some i \<and> split_crlf (take i head) = first # ls \<longrightarrow>
        (case split_head_body (strip_proxy_authorization head) of (header, body) \<Rightarrow>
           split_crlf header = first # filter (\<lambda>l. \<not> is_proxy_auth_line l) ls \<and> body = drop (i + 4) head)"
    by (auto simp: strip_shape(2)) (auto intro: strip_shape(3))
  ultimately show ?thesis using h d by blast
qed

text \<open>The decision is kept.  A request decided for the tunnel is never connected directly,
  whatever fails, and goes to the upstream proxy exactly when one is set; a request decided as
  direct reaches only the host and port it names.\<close>

theorem dispatch_keeps_decision:
  assumes "dispatch K W head preamble st = (res, st')" "parse_head head = Some parsed"
    and "decide (ew_bypass W) (rq_host parsed) (en_whitelist st) (en_mode st) = route"
  shows "case route of
      Tunnel \<Rightarrow> (\<forall>h p b. res \<noteq> RelayDirect h p b)
        \<and> (\<forall>ws u b. res = RelayTunnel ws u b \<longrightarrow> en_upstream st = None)
        \<and> (\<forall>h b. res = RelayUpstream h b \<longrightarrow> (\<exists>up. en_upstream st = Some up \<and> h = ux_host up))
    | Direct \<Rightarrow> (\<forall>ws u b. res \<noteq> RelayTunnel ws u b) \<and> (\<forall>h b. res \<noteq> RelayUpstream h b)
        \<and> (\<forall>h p b. res = RelayDirect h p b \<longrightarrow> h = rq_host parsed \<and> p = rq_port parsed)"
proof (cases route)
  case Tunnel
  then show ?thesis
    using assms
    by (auto simp: dispatch_def tunnel_dispatch_def upstream_connect_and_relay_def tunnel_connect_and_relay_def Let_def
        tunnel_failure_def sent_first_def split: option.splits prod.splits sum.splits if_splits)
next
  case Direct
  then show ?thesis
    using assms by (auto simp: dispatch_def direct_relay_def split: option.splits if_splits)
qed

text \<open>A failed tunnel is counted as two errors: by \<open>dispatch\<close> and again by the accept loop.\<close>

theorem tunnel_failure_counted_twice:
  assumes "desk_read_head [] evs = GotHead head preamble rest" "\<not> is_pac_request head" "parse_head head = Some parsed"
    and "decide (ew_bypass W) (rq_host parsed) (en_whitelist st) (en_mode st) = Tunnel"
    and "run_conn K gp W evs st = (Failed e told, st')" "en_upstream st = None"
  shows "es_errors (en_stats st') = wrap_add64 (wrap_add64 (es_errors (en_stats st)) 1) 1"
proof -
  let ?st = "st\<lparr> en_stats := (en_stats st)\<lparr> es_conns := wrap_add64 (es_conns (en_stats st)) 1 \<rparr> \<rparr>"
  obtain res st1 where d: "tunnel_dispatch K W parsed head preamble ?st = (res, st1)" by fastforce
  then have r: "res = Failed e told" and st': "st' = st1\<lparr> en_stats := note_failure res (en_stats st1) \<rparr>"
    using assms(1-5) by (auto simp: run_conn_def desk_handle_conn_def dispatch_def)
  have "es_errors (en_stats st1) = wrap_add64 (es_errors (en_stats st)) 1"
    using d r assms(6)
    by (auto simp: tunnel_dispatch_def tunnel_connect_and_relay_def note_failure_def count_request_def count_up_def Let_def
        split: prod.splits sum.splits option.splits if_splits egress.splits)
  with r st' show ?thesis by (simp add: note_failure_def)
qed

text \<open>The status line is only searched for a blank and a two, and what the upstream sent behind its
  answer is lost: the relay starts with the next read.\<close>

theorem upstream_status_misread: "status_accepted ''HTTP/1.1 407 Proxy login 2 required''"
  by code_simp

theorem upstream_early_bytes_lost:
  assumes "rq_kind parsed = Connect" "from_utf8_lossy (''HTTP/1.1 200 OK'' @ CRLF2 @ data) = ''HTTP/1.1 200 OK'' @ CRLF2 @ data'"
  shows "desk_try_establish up parsed (UpDialled None (ReadBytes (''HTTP/1.1 200 OK'' @ CRLF2 @ data) # evs)) = Inr evs"
proof -
  have "contains_str CRLF2 (''HTTP/1.1 200 OK'' @ CRLF2 @ data)" unfolding contains_str_iff by blast
  moreover have "status_line (''HTTP/1.1 200 OK'' @ CRLF2 @ data) = ''HTTP/1.1 200 OK''"
  proof -
    have 1: "map chomp_cr (split_on (char_of (10::nat)) (''HTTP/1.1 200 OK'' @ [char_of (13::nat)])) = [''HTTP/1.1 200 OK'']"
      by code_simp
    have 2: "''HTTP/1.1 200 OK'' @ CRLF2 @ data' =
        (''HTTP/1.1 200 OK'' @ [char_of (13::nat)]) @ char_of (10::nat) # map char_of [13, 10 :: nat] @ data'"
      by (simp add: CRLF2_def)
    have "str_lines (''HTTP/1.1 200 OK'' @ CRLF2 @ data') =
        ''HTTP/1.1 200 OK'' # str_lines (map char_of [13, 10 :: nat] @ data')"
      unfolding 2 str_lines_append 1 by simp
    then show ?thesis unfolding status_line_def assms(2) by (simp only: list.case)
  qed
  moreover have "status_accepted ''HTTP/1.1 200 OK''" by code_simp
  ultimately show ?thesis using assms(1) by (simp add: desk_try_establish_def)
qed

text \<open>The accept loop of the listener: it stops by itself only after ten failures in a row, never
  pauses for more than a second, and a connection clears the count.\<close>

definition lan_loop_ok :: "accept_loop \<Rightarrow> bool" where
  "lan_loop_ok s \<longleftrightarrow> al_errors s \<le> LAN_ACCEPT_MAX_CONSECUTIVE_ERRORS
   \<and> (al_errors s = LAN_ACCEPT_MAX_CONSECUTIVE_ERRORS \<longrightarrow> al_over s) \<and> (\<forall>d \<in> set (al_sleeps s). d \<le> 1000)"

lemma lan_loop_ok_step: "lan_loop_ok s \<Longrightarrow> lan_loop_ok (lan_accept_step ev s)"
  by (cases ev) (auto simp: lan_loop_ok_def lan_accept_step_def lan_backoff_def const_defs Let_def)

interpretation lan_loop: machine "\<lambda>s. s = accept_loop_new" "\<lambda>s t. \<exists>ev. t = lan_accept_step ev s" lan_loop_ok
  by unfold_locales (auto simp: lan_loop_ok_step, simp add: lan_loop_ok_def accept_loop_new_def const_defs)

section \<open>The relay is faithful\<close>

definition tcp_ok :: "relay_limits_desk \<Rightarrow> nat \<Rightarrow> nat \<Rightarrow> nat \<times> tcp_relay \<Rightarrow> bool" where
  "tcp_ok l up down a \<longleftrightarrow> (case a of (now, s) \<Rightarrow>
     (\<exists>rest. tr_from_a s = tr_to_b s @ rest \<and> (rest \<noteq> [] \<longrightarrow> tr_result s = Some TcpFailed))
   \<and> (\<exists>rest. tr_from_b s = tr_to_a s @ rest \<and> (rest \<noteq> [] \<longrightarrow> tr_result s = Some TcpFailed))
   \<and> tr_up s = (up + length (tr_from_a s)) mod 2 ^ 64 \<and> tr_down s = (down + length (tr_from_b s)) mod 2 ^ 64
   \<and> tr_active s \<le> now \<and> tr_idle_deadline s = tr_active s + desk_idle_window l
   \<and> (tr_result s = Some TcpIdle \<longrightarrow> (\<exists>d. rl_idle l = Some d \<and> tr_active s + d \<le> now))
   \<and> (tr_result s = Some TcpAbsolute \<longrightarrow> (\<exists>d. rl_absolute l = Some d \<and> rl_start l + d \<le> now))
   \<and> (tr_result s = Some TcpDone \<longrightarrow> tr_a_eof s \<and> tr_b_eof s)
   \<and> (tr_result s = None \<longrightarrow> tr_b_shut s = tr_a_eof s \<and> tr_a_shut s = tr_b_eof s \<and> \<not> (tr_a_eof s \<and> tr_b_eof s)))"

lemmas tcp_step_simps = tcp_ok_def tcp_event_step_def tcp_enabled_def tcp_loop_head_def Let_def
  wrap_add64_mod [simplified] add.assoc

lemma tcp_ok_event:
  assumes "tcp_ok l up down (now, s)" "tcp_enabled l now ev s"
  shows "tcp_ok l up down (now, tcp_event_step l now ev s)"
proof (cases ev)
  case TcpIdleFires
  with assms show ?thesis by (auto simp: tcp_step_simps desk_idle_window_def)
next
  case TcpAbsoluteFires
  with assms show ?thesis by (auto simp: tcp_step_simps desk_absolute_deadline_def)
next
  case (ARead chunk b)
  with assms show ?thesis by (cases b) (auto simp: tcp_step_simps)
next
  case (BRead chunk b)
  with assms show ?thesis by (cases b) (auto simp: tcp_step_simps)
qed (use assms in \<open>auto simp: tcp_step_simps\<close>)

lemma tcp_ok_later: "tcp_ok l up down (now, s) \<Longrightarrow> now \<le> later \<Longrightarrow> tcp_ok l up down (later, s)"
  unfolding tcp_ok_def prod.case by (elim conjE, intro conjI) (assumption | metis le_trans)+

interpretation tcp: machine "\<lambda>a. a = (rl_start l, tcp_relay_begin l up down) \<and> up < 2 ^ 64 \<and> down < 2 ^ 64"
  "tcp_relay_step l" "tcp_ok l up down" for l up down
proof
  fix a assume "a = (rl_start l, tcp_relay_begin l up down) \<and> up < 2 ^ 64 \<and> down < 2 ^ 64"
  then show "tcp_ok l up down a" by (simp add: tcp_ok_def tcp_relay_begin_def)
next
  fix a b assume "tcp_ok l up down a" "tcp_relay_step l a b"
  then show "tcp_ok l up down b"
    by (elim tcp_relay_stepE) (use tcp_ok_event tcp_ok_later in blast)+
qed

text \<open>In every run the bytes each side gets are those the other sent, in order, up to the one
  write that failed; they are counted; a relay without limits is never ended by a clock, one with an
  idle limit only after the whole window without a byte; and the end of one side closes only the
  other's input, so an answer still under way arrives.\<close>

theorem tcp_relay_faithful:
  assumes "up < 2 ^ 64" "down < 2 ^ 64" "(tcp_relay_step l)\<^sup>*\<^sup>* (rl_start l, tcp_relay_begin l up down) (now, s)"
  shows "(\<exists>rest. tr_from_a s = tr_to_b s @ rest \<and> (rest \<noteq> [] \<longrightarrow> tr_result s = Some TcpFailed))
    \<and> (\<exists>rest. tr_from_b s = tr_to_a s @ rest \<and> (rest \<noteq> [] \<longrightarrow> tr_result s = Some TcpFailed))
    \<and> tr_up s = (up + length (tr_from_a s)) mod 2 ^ 64 \<and> tr_down s = (down + length (tr_from_b s)) mod 2 ^ 64
    \<and> (tr_result s = Some TcpIdle \<longrightarrow> (\<exists>d. rl_idle l = Some d \<and> tr_active s + d \<le> now))
    \<and> (tr_result s = Some TcpAbsolute \<longrightarrow> (\<exists>d. rl_absolute l = Some d \<and> rl_start l + d \<le> now))
    \<and> (tr_result s = Some TcpDone \<longrightarrow> tr_a_eof s \<and> tr_b_eof s)
    \<and> (tr_result s = None \<longrightarrow> tr_b_shut s = tr_a_eof s \<and> tr_a_shut s = tr_b_eof s)"
  using tcp.reachable_inv [OF _ assms(3), of up down] assms(1,2) unfolding tcp_ok_def by auto

section \<open>Examples\<close>

definition demo_desk_engine :: engine_state where
  "demo_desk_engine = \<lparr> en_whitelist = [], en_mode = Global, en_upstream = None, en_tunnel = demo_desk_state None, en_stats = demo_stats \<rparr>"

definition demo_surroundings :: engine_surroundings where
  "demo_surroundings = \<lparr> ew_bypass = [''ponyjob.top''], ew_attempts = (\<lambda>_. demo_desk 40000), ew_rnd = (\<lambda>_. 0),
     ew_up_dials = (\<lambda>_. UpDialTimeout), ew_direct_err = (\<lambda>_ _. None), ew_client_err = None, ew_target_err = None \<rparr>"

definition demo_lan_head :: string where
  "demo_lan_head = ''CONNECT ponyjob.top:443 HTTP/1.1'' @ CRLF @ ''Proxy-Authorization: Basic '' @ b64std_encode demo ''u:tok'' @ CRLF @ ''Host: x'' @ CRLF2"

lemma demo_lan_run:
  "fst (handle_lan_conn demo (\<lambda>_. None) (Some ''tok'') [] demo_surroundings False [ReadBytes demo_lan_head] demo_desk_engine) =
     RelayDirect ''ponyjob.top'' 443 []"
  by code_simp

theorem lan_requires_credentials_witness:
  "\<exists>head preamble rest user pass. desk_read_head [] [ReadBytes demo_lan_head] = GotHead head preamble rest
    \<and> basic_proxy_auth demo (\<lambda>_. None) head = Some (user, pass) \<and> (user = trim_str ''tok'' \<or> pass = trim_str ''tok'')"
proof -
  obtain st' where "handle_lan_conn demo (\<lambda>_. None) (Some ''tok'') [] demo_surroundings False [ReadBytes demo_lan_head] demo_desk_engine =
      (RelayDirect ''ponyjob.top'' 443 [], st')"
    using demo_lan_run by (metis prod.collapse)
  from lan_requires_credentials [OF this] show ?thesis by fastforce
qed

text \<open>A line end that is not the one of HTTP hides the credentials from the removal, but not from the
  check: they are sent on.\<close>

definition bare_lf_head :: string where
  "bare_lf_head = ''GET http://ponyjob.top/ HTTP/1.1'' @ [CHR 0x0A] @ ''Proxy-Authorization: Basic '' @ b64std_encode demo ''u:tok'' @ CRLF2"

theorem bare_lf_leaks_credentials:
  "lan_auth_ok demo (\<lambda>_. None) bare_lf_head ''tok'' \<and> strip_proxy_authorization bare_lf_head = bare_lf_head"
  by code_simp

theorem dispatch_keeps_decision_witness:
  "\<forall>h p b. fst (dispatch demo demo_surroundings (''CONNECT x.org:443 HTTP/1.1'' @ CRLF2) [] demo_desk_engine) \<noteq> RelayDirect h p b"
proof -
  obtain res st' where r: "dispatch demo demo_surroundings (''CONNECT x.org:443 HTTP/1.1'' @ CRLF2) [] demo_desk_engine = (res, st')"
    by fastforce
  have p: "parse_head (''CONNECT x.org:443 HTTP/1.1'' @ CRLF2) = Some \<lparr> rq_kind = Connect, rq_host = ''x.org'', rq_port = 443 \<rparr>"
    by code_simp
  have "decide (ew_bypass demo_surroundings) (rq_host \<lparr> rq_kind = Connect, rq_host = ''x.org'', rq_port = 443 \<rparr>)
      (en_whitelist demo_desk_engine) (en_mode demo_desk_engine) = Tunnel" by code_simp
  from dispatch_keeps_decision [OF r p this] show ?thesis unfolding r by simp
qed

end
