(* ===== verification/DesktopCreds.thy ===== *)
theory DesktopCreds
  imports Json Crypto Transport "HOL-Library.Char_ord" "HOL-Library.List_Lexorder"
begin

text \<open>
  The desktop client's credentials and tunnel settings
  (\<open>desktop/src-tauri/src/lib.rs\<close>): a secret is kept in the key ring of the system and in a file
  beside it, with backups and a note of the last writing; readings repair the file when both differ.
  Above it, the endpoint file, the application settings, the watched pair of endpoint and token, and
  the commands that change them.

  The release build is modelled (the file key ring of debug builds is left out).  A slot has the
  contents of the files by role; every call gets what the key ring and the file system
  answer in it.  JSON texts, base64 and the cipher are parameters; the settings file is its value.
\<close>

section \<open>Slots\<close>

record cred_meta =
  cm_last_write_ts :: nat
  cm_source :: string
  cm_fp8 :: string

record cred_slot =
  sl_keyring :: "string option"
  sl_dat :: "string option"
  sl_tmp :: "string option"
  sl_bak :: "string option"
  sl_ts_baks :: "(string \<times> string) list"
  sl_meta :: "cred_meta option"

text \<open>Errors of the outside are texts; \<open>ce_get\<close> and \<open>ce_delete\<close> are those other than a missing entry.
  \<open>ce_broken\<close> is what a failed writing or copy leaves of a file.\<close>

record cred_env =
  ce_entry :: "string option"
  ce_get :: "string option"
  ce_set :: "string option"
  ce_delete :: "string option"
  ce_read_ok :: bool
  ce_mkdir :: "string option"
  ce_write :: "string option"
  ce_rename :: "string option"
  ce_copy_bak :: bool
  ce_copy_ts :: bool
  ce_read_dir :: bool
  ce_remove :: "string \<Rightarrow> bool"
  ce_meta_ok :: bool
  ce_broken :: "string option \<Rightarrow> string option"
  ce_now :: nat
  ce_millis :: nat
  ce_pid :: nat

datatype desk_error =
    EntryError string | GetFailed string | SetFailed string | DeleteFailed string
  | HalfWrittenDir string | HalfWritten string | DualSourceMismatch bool bool string
  | IoError string | EmptyTunnelUrl | BadScheme string | NothingGiven | EmptySecret
  | CodeTooLong | CodePrefix | CodeBase64 | CodeJson | CodeVersion nat | CodeNoUrl | CodeNoToken | CodeNotWss
  | SyncNoPass | SyncTooShort | SyncDecrypt | SyncExpired | SyncReplayed | CodeNoAt | CodeNoPassword | CodeUnknown

definition read_file :: "bool \<Rightarrow> string option \<Rightarrow> string option" where
  "read_file ok f = (if ok then Option.bind f from_utf8 else None)"

text \<open>Trimmed, and dropped when blank.\<close>

definition nonblank :: "string option \<Rightarrow> string option" where
  "nonblank v = (case v of Some s \<Rightarrow> if trim_str s = [] then None else Some (trim_str s) | None \<Rightarrow> None)"

definition cred_meta_load :: "cred_slot \<Rightarrow> cred_meta" where
  "cred_meta_load s = (case sl_meta s of Some m \<Rightarrow> m | None \<Rightarrow> \<lparr> cm_last_write_ts = 0, cm_source = [], cm_fp8 = [] \<rparr>)"

definition cred_fingerprint_of :: "crypto \<Rightarrow> string \<Rightarrow> string" where
  "cred_fingerprint_of K s = hex_encode K (take 4 (sha256 K s))"

definition cred_meta_record :: "crypto \<Rightarrow> cred_env \<Rightarrow> string \<Rightarrow> string \<Rightarrow> cred_slot \<Rightarrow> cred_slot" where
  "cred_meta_record K E source secret s =
     (if ce_meta_ok E
      then s\<lparr> sl_meta := Some \<lparr> cm_last_write_ts = ce_now E, cm_source = source, cm_fp8 = cred_fingerprint_of K secret \<rparr> \<rparr>
      else s)"

definition cred_meta_record_tombstone :: "cred_env \<Rightarrow> string \<Rightarrow> cred_slot \<Rightarrow> cred_slot" where
  "cred_meta_record_tombstone E source s =
     (if ce_meta_ok E
      then s\<lparr> sl_meta := Some \<lparr> cm_last_write_ts = ce_now E, cm_source = source @ '':cleared'', cm_fp8 = [] \<rparr> \<rparr>
      else s)"

definition cred_timestamped_bak :: "cred_env \<Rightarrow> string" where
  "cred_timestamped_bak E = show_nat (ce_millis E) @ ''_'' @ show_nat (ce_pid E)"

definition put_file :: "string \<Rightarrow> string \<Rightarrow> (string \<times> string) list \<Rightarrow> (string \<times> string) list" where
  "put_file n c fs = (n, c) # filter (\<lambda>(m, _). m \<noteq> n) fs"

definition cred_prune_timestamped_backups :: "cred_env \<Rightarrow> (string \<times> string) list \<Rightarrow> (string \<times> string) list" where
  "cred_prune_timestamped_backups E fs =
     (if ce_read_dir E
      then (let victims = take (length fs - 5) (sort (map fst fs))
            in filter (\<lambda>(n, _). \<not> (n \<in> set victims \<and> ce_remove E n)) fs)
      else fs)"

definition cred_remove_timestamped_backups :: "cred_env \<Rightarrow> (string \<times> string) list \<Rightarrow> (string \<times> string) list" where
  "cred_remove_timestamped_backups E fs = (if ce_read_dir E then filter (\<lambda>(n, _). \<not> ce_remove E n) fs else fs)"

definition fallback_value :: "cred_env \<Rightarrow> cred_slot \<Rightarrow> string option" where
  "fallback_value E s = nonblank (read_file (ce_read_ok E) (sl_dat s))"

definition backup_files :: "cred_env \<Rightarrow> cred_slot \<Rightarrow> cred_slot" where
  "backup_files E s =
     (let s = s\<lparr> sl_bak := (if ce_copy_bak E then sl_dat s else ce_broken E (sl_bak s)) \<rparr>;
          ts = cred_timestamped_bak E;
          old = map_of (sl_ts_baks s) ts;
          left = (if ce_copy_ts E then sl_dat s else ce_broken E old);
          fs = (case left of Some c \<Rightarrow> put_file ts c (sl_ts_baks s) | None \<Rightarrow> filter (\<lambda>(m, _). m \<noteq> ts) (sl_ts_baks s))
      in s\<lparr> sl_ts_baks := cred_prune_timestamped_backups E fs \<rparr>)"

definition cred_self_heal_locked :: "crypto \<Rightarrow> cred_env \<Rightarrow> string \<Rightarrow> cred_slot \<Rightarrow> string \<times> cred_slot" where
  "cred_self_heal_locked K E keyring_val s =
     (case fallback_value E s of
        Some f \<Rightarrow>
          if f \<noteq> keyring_val then
            (let s = backup_files E s in
             (''keyring(diverged)'',
              if ce_write E \<noteq> None then s\<lparr> sl_tmp := ce_broken E (sl_tmp s) \<rparr>
              else if ce_rename E \<noteq> None then s\<lparr> sl_tmp := Some keyring_val \<rparr>
              else cred_meta_record K E ''self_heal_diverged'' keyring_val (s\<lparr> sl_dat := Some keyring_val, sl_tmp := None \<rparr>)))
          else (''keyring'', s)
      | None \<Rightarrow> (''keyring'', s))"

section \<open>Reading\<close>

record cred_detail =
  cd_value :: "string option"
  cd_fp_fallback :: "string option"
  cd_fp_keyring :: "string option"
  cd_keyring_error :: "desk_error option"
  cd_winner :: string

definition keyring_value :: "cred_env \<Rightarrow> cred_slot \<Rightarrow> string option \<times> desk_error option" where
  "keyring_value E s =
     (case ce_entry E of
        Some e \<Rightarrow> (None, Some (EntryError e))
      | None \<Rightarrow>
          (case ce_get E of
             Some e \<Rightarrow> (None, Some (GetFailed e))
           | None \<Rightarrow> (nonblank (sl_keyring s), None)))"

definition MANUAL_SOURCES :: "string list" where
  "MANUAL_SOURCES = [''tunnel_token_save'', ''connect_code_import'', ''configure_direct_tunnel'', ''tunnel_config_set'']"

definition manual_fallback :: "crypto \<Rightarrow> cred_meta \<Rightarrow> string \<Rightarrow> string \<Rightarrow> bool" where
  "manual_fallback K meta f k \<longleftrightarrow>
     cm_source meta \<in> set MANUAL_SOURCES \<and> cm_fp8 meta \<noteq> [] \<and> cm_fp8 meta = cred_fingerprint_of K f
     \<and> cm_fp8 meta \<noteq> cred_fingerprint_of K k"

text \<open>The reading is outside the lock and the repair inside, so other calls may come in between:
  \<open>s\<close> is the slot that is read and \<open>s'\<close> the one the repair finds.\<close>

definition cred_detail_impl :: "crypto \<Rightarrow> cred_env \<Rightarrow> cred_slot \<Rightarrow> cred_slot \<Rightarrow> cred_detail \<times> cred_slot" where
  "cred_detail_impl K E s s' =
     (let fallback_val = fallback_value E s; (keyring_val, keyring_error) = keyring_value E s;
          (value, winner, s'') =
            (case (keyring_val, fallback_val) of
               (Some k, Some f) \<Rightarrow>
                 if k \<noteq> f then
                   (if manual_fallback K (cred_meta_load s) f k then (Some f, ''fallback(diverged-unhealed)'', s')
                    else (case cred_self_heal_locked K E k s' of (w, t) \<Rightarrow> (Some k, w, t)))
                 else (Some k, ''keyring'', s')
             | (Some k, None) \<Rightarrow> (Some k, ''keyring'', s')
             | (None, Some f) \<Rightarrow> (Some f, ''fallback'', s')
             | (None, None) \<Rightarrow> (None, ''none'', s'))
      in (\<lparr> cd_value = value, cd_fp_fallback = map_option (cred_fingerprint_of K) fallback_val,
           cd_fp_keyring = map_option (cred_fingerprint_of K) keyring_val, cd_keyring_error = keyring_error,
           cd_winner = winner \<rparr>, s''))"

definition detail_result :: "cred_detail \<Rightarrow> desk_error + string option" where
  "detail_result d =
     (if cd_value d \<noteq> None then Inr (cd_value d)
      else (case cd_keyring_error d of Some e \<Rightarrow> Inl e | None \<Rightarrow> Inr None))"

definition cred_get :: "crypto \<Rightarrow> cred_env \<Rightarrow> cred_slot \<Rightarrow> (desk_error + string option) \<times> cred_slot" where
  "cred_get K E s = apfst detail_result (cred_detail_impl K E s s)"

text \<open>\<open>cred_get_with_warning\<close>: the same value, with the error of the key ring as a warning when
  there is a value.\<close>

definition cred_get_with_warning ::
  "crypto \<Rightarrow> cred_env \<Rightarrow> cred_slot \<Rightarrow> (desk_error + string option) \<times> desk_error option \<times> cred_slot" where
  "cred_get_with_warning K E s =
     (case cred_detail_impl K E s s of (d, s') \<Rightarrow>
        (case cd_keyring_error d of
           Some e \<Rightarrow> if cd_value d \<noteq> None then (Inr (cd_value d), Some e, s') else (Inl e, None, s')
         | None \<Rightarrow> (Inr (cd_value d), None, s')))"

section \<open>Writing\<close>

definition cred_set :: "crypto \<Rightarrow> cred_env \<Rightarrow> string \<Rightarrow> string \<Rightarrow> cred_slot \<Rightarrow> (desk_error + unit) \<times> cred_slot" where
  "cred_set K E source secret s =
     (case ce_entry E of
        Some e \<Rightarrow> (Inl (EntryError e), s)
      | None \<Rightarrow>
     (case ce_set E of
        Some e \<Rightarrow> (Inl (SetFailed e), s)
      | None \<Rightarrow>
          (let s = s\<lparr> sl_keyring := Some secret \<rparr> in
           case ce_mkdir E of
             Some e \<Rightarrow> (Inl (HalfWrittenDir e), s)
           | None \<Rightarrow>
          (case ce_write E of
             Some e \<Rightarrow> (Inl (HalfWritten e), s\<lparr> sl_tmp := ce_broken E (sl_tmp s) \<rparr>)
           | None \<Rightarrow>
          (case ce_rename E of
             Some e \<Rightarrow> (Inl (HalfWritten e), s\<lparr> sl_tmp := Some secret \<rparr>)
           | None \<Rightarrow> (Inr (), cred_meta_record K E source secret (s\<lparr> sl_dat := Some secret, sl_tmp := None \<rparr>)))))))"

definition cred_remove_fallback_all :: "cred_env \<Rightarrow> cred_slot \<Rightarrow> cred_slot" where
  "cred_remove_fallback_all E s =
     s\<lparr> sl_dat := (if ce_remove E ''dat'' then None else sl_dat s),
       sl_bak := (if ce_remove E ''dat.bak'' then None else sl_bak s),
       sl_ts_baks := cred_remove_timestamped_backups E (sl_ts_baks s) \<rparr>"

definition cred_delete :: "cred_env \<Rightarrow> string \<Rightarrow> cred_slot \<Rightarrow> (desk_error + unit) \<times> cred_slot" where
  "cred_delete E source s =
     (let clear = (\<lambda>s. (Inr (), cred_meta_record_tombstone E source (cred_remove_fallback_all E s)))
      in case ce_entry E of
           None \<Rightarrow>
             (case ce_delete E of
                Some e \<Rightarrow> (Inl (DeleteFailed e), s)
              | None \<Rightarrow> clear (s\<lparr> sl_keyring := None \<rparr>))
         | Some _ \<Rightarrow> clear s)"

definition cred_verify_dual_source ::
  "crypto \<Rightarrow> cred_env \<Rightarrow> string \<Rightarrow> cred_slot \<Rightarrow> (desk_error + unit) \<times> cred_slot" where
  "cred_verify_dual_source K E secret s =
     (let want = cred_fingerprint_of K (trim_str secret); (d, s') = cred_detail_impl K E s s;
          ok_fb = cd_fp_fallback d = Some want; ok_kr = cd_fp_keyring d = Some want
      in (if ok_fb \<and> ok_kr then Inr () else Inl (DualSourceMismatch ok_fb ok_kr want), s'))"


section \<open>Endpoints\<close>

definition DEFAULT_TUNNEL_URLS :: string where
  "DEFAULT_TUNNEL_URLS = ''wss://rn.ponygo.fun/ws''"

definition DESK_GATE_WS_URL :: string where
  "DESK_GATE_WS_URL = ''wss://rn.ponygo.fun/ws''"

definition migrate_tunnel_url :: "string \<Rightarrow> string" where
  "migrate_tunnel_url url =
     (let t = trim_str url in
      if contains_str ''example.com'' t \<or> contains_str ''ponyjob.top'' t then DEFAULT_TUNNEL_URLS
      else if t = DESK_GATE_WS_URL \<or> t = DEFAULT_TUNNEL_URLS then DEFAULT_TUNNEL_URLS
      else t)"

definition ws_scheme :: "string \<Rightarrow> bool" where
  "ws_scheme u \<longleftrightarrow> starts_with ''wss://'' u \<or> starts_with ''ws://'' u"

definition validate_tunnel_url :: "string \<Rightarrow> desk_error + unit" where
  "validate_tunnel_url url =
     (let urls = split_endpoints url in
      if urls = [] then Inl EmptyTunnelUrl
      else (case find (\<lambda>u. \<not> ws_scheme u) urls of Some u \<Rightarrow> Inl (BadScheme u) | None \<Rightarrow> Inr ()))"

section \<open>Settings and the watched pair\<close>

text \<open>\<open>dc_tunnel_file\<close> is the text of \<open>tunnel.json\<close>, \<open>dc_app\<close> the value of
  \<open>app_config.json\<close> when it can be read.\<close>

record desk_config =
  dc_slot :: cred_slot
  dc_proxy_slot :: cred_slot
  dc_tunnel_file :: "string option"
  dc_app :: "json option"
  dc_watch :: "string option \<times> string option"
  dc_nonces :: "string set"

text \<open>The JSON library: reading a text, and the text of an object with the field \<open>url\<close>.\<close>

record desk_codec =
  jc_from_str :: "string \<Rightarrow> json option"
  jc_url_text :: "string \<Rightarrow> string"

definition url_text_law :: "desk_codec \<Rightarrow> bool" where
  "url_text_law J \<longleftrightarrow> (\<forall>u. jc_from_str J (jc_url_text J u) = Some (JObject [(''url'', JString u)]))"

definition tunnel_url_load :: "desk_codec \<Rightarrow> desk_config \<Rightarrow> string option" where
  "tunnel_url_load J d =
     (case Option.bind (Option.bind (dc_tunnel_file d) (jc_from_str J)) (\<lambda>v. Option.bind (json_get ''url'' v) as_str) of
        None \<Rightarrow> None
      | Some u \<Rightarrow>
          (let u = migrate_tunnel_url u in if validate_tunnel_url u = Inr () then Some u else None))"

definition tunnel_token_load_status :: "crypto \<Rightarrow> cred_env \<Rightarrow> desk_config \<Rightarrow> (desk_error + string option) \<times> desk_config" where
  "tunnel_token_load_status K E d =
     (case cred_get K E (dc_slot d) of (r, s) \<Rightarrow>
        (case r of
           Inl e \<Rightarrow> (Inl e, d\<lparr> dc_slot := s \<rparr>)
         | Inr v \<Rightarrow> (Inr (case v of Some t \<Rightarrow> if t = [] then None else Some t | None \<Rightarrow> None), d\<lparr> dc_slot := s \<rparr>)))"

definition tunnel_config_load ::
  "crypto \<Rightarrow> desk_codec \<Rightarrow> cred_env \<Rightarrow> desk_config \<Rightarrow> (string option \<times> string option) \<times> desk_config" where
  "tunnel_config_load K J E d =
     (let url = tunnel_url_load J d; (r, d) = tunnel_token_load_status K E d;
          token = (case r of Inr v \<Rightarrow> v | Inl _ \<Rightarrow> None)
      in (case (url, token) of
            (Some u, Some t) \<Rightarrow> (Some u, Some t)
          | (None, Some t) \<Rightarrow> (Some DEFAULT_TUNNEL_URLS, Some t)
          | _ \<Rightarrow> (None, None), d))"

definition tunnel_watch_send_fresh ::
  "crypto \<Rightarrow> desk_codec \<Rightarrow> cred_env \<Rightarrow> cred_env \<Rightarrow> desk_config \<Rightarrow> desk_config" where
  "tunnel_watch_send_fresh K J E E' d =
     (let (fresh, d) = tunnel_config_load K J E d in
      if fresh = (None, None) \<and> dc_watch d \<noteq> (None, None) then
        (let (det, s) = cred_detail_impl K E' (dc_slot d) (dc_slot d); d = d\<lparr> dc_slot := s \<rparr>
         in if cd_keyring_error det \<noteq> None then d else d\<lparr> dc_watch := fresh \<rparr>)
      else d\<lparr> dc_watch := fresh \<rparr>)"

definition json_insert :: "string \<times> json \<Rightarrow> (string \<times> json) list \<Rightarrow> (string \<times> json) list" where
  "json_insert kv fs = kv # filter (\<lambda>(k, _). k \<noteq> fst kv) fs"

text \<open>\<open>app_config_set\<close>; \<open>err\<close> is the error of the directory, the writing or the renaming.\<close>

definition app_config_set :: "string option \<Rightarrow> json \<Rightarrow> desk_config \<Rightarrow> (desk_error + unit) \<times> desk_config" where
  "app_config_set err patch d =
     (let cur = (case dc_app d of Some v \<Rightarrow> v | None \<Rightarrow> JObject []);
          cur = (case (cur, patch) of (JObject fs, JObject ps) \<Rightarrow> JObject (fold json_insert ps fs) | _ \<Rightarrow> patch)
      in case err of Some e \<Rightarrow> (Inl (IoError e), d) | None \<Rightarrow> (Inr (), d\<lparr> dc_app := Some cur \<rparr>))"

text \<open>Writing \<open>tunnel.json\<close> through a temporary file; \<open>err\<close> as before.\<close>

definition write_tunnel_url :: "desk_codec \<Rightarrow> string option \<Rightarrow> string \<Rightarrow> desk_config \<Rightarrow> (desk_error + unit) \<times> desk_config" where
  "write_tunnel_url J err u d =
     (case err of Some e \<Rightarrow> (Inl (IoError e), d) | None \<Rightarrow> (Inr (), d\<lparr> dc_tunnel_file := Some (jc_url_text J u) \<rparr>))"

section \<open>Commands\<close>

text \<open>The surroundings of one command: the errors of the endpoint file and of the settings file, the
  four readings and the writing of credentials, and how a rollback fares.\<close>

record cmd_env =
  me_tunnel_io :: "string option"
  me_app_io :: "string option"
  me_set :: cred_env
  me_verify :: cred_env
  me_load :: cred_env
  me_detail :: cred_env
  me_fp :: cred_env
  me_prev_ok :: bool
  me_rollback_ok :: bool

definition proxy_tunnel_set_url :: "crypto \<Rightarrow> desk_codec \<Rightarrow> cmd_env \<Rightarrow> string \<Rightarrow> desk_config \<Rightarrow> (desk_error + unit) \<times> desk_config" where
  "proxy_tunnel_set_url K J M url d =
     (let url = trim_str url in
      case validate_tunnel_url url of
        Inl e \<Rightarrow> (Inl e, d)
      | Inr _ \<Rightarrow>
          (case write_tunnel_url J (me_tunnel_io M) url d of
             (Inl e, d) \<Rightarrow> (Inl e, d)
           | (Inr _, d) \<Rightarrow> (Inr (), tunnel_watch_send_fresh K J (me_load M) (me_detail M) d)))"

text \<open>Writing a token and reading both copies back.\<close>

definition store_token ::
  "crypto \<Rightarrow> cmd_env \<Rightarrow> string \<Rightarrow> string \<Rightarrow> desk_config \<Rightarrow> (desk_error + unit) \<times> desk_config" where
  "store_token K M source secret d =
     (case cred_set K (me_set M) source secret (dc_slot d) of
        (Inl e, s) \<Rightarrow> (Inl e, d\<lparr> dc_slot := s \<rparr>)
      | (Inr _, s) \<Rightarrow>
          (case cred_verify_dual_source K (me_verify M) secret s of (r, s) \<Rightarrow> (r, d\<lparr> dc_slot := s \<rparr>)))"

definition tunnel_token_save :: "crypto \<Rightarrow> desk_codec \<Rightarrow> cmd_env \<Rightarrow> string \<Rightarrow> desk_config \<Rightarrow> (desk_error + unit) \<times> desk_config" where
  "tunnel_token_save K J M secret d =
     (if trim_str secret = [] then (Inl EmptySecret, d)
      else (let secret = trim_str secret in
        case store_token K M ''tunnel_token_save'' secret d of
          (Inl e, d) \<Rightarrow> (Inl e, d)
        | (Inr _, d) \<Rightarrow>
            (case tunnel_config_load K J (me_load M) d of ((url, _), d) \<Rightarrow>
               (case url of
                  Some u \<Rightarrow> (Inr (), d\<lparr> dc_watch := (Some u, Some secret) \<rparr>)
                | None \<Rightarrow>
                    (case write_tunnel_url J (me_tunnel_io M) DEFAULT_TUNNEL_URLS d of
                       (Inl e, d) \<Rightarrow> (Inl e, d)
                     | (Inr _, d) \<Rightarrow> (Inr (), d\<lparr> dc_watch := (Some DEFAULT_TUNNEL_URLS, Some secret) \<rparr>))))))"

definition tunnel_token_clear :: "crypto \<Rightarrow> desk_codec \<Rightarrow> cmd_env \<Rightarrow> desk_config \<Rightarrow> (desk_error + unit) \<times> desk_config" where
  "tunnel_token_clear K J M d =
     (case cred_delete (me_set M) ''tunnel_token_clear'' (dc_slot d) of
        (Inl e, s) \<Rightarrow> (Inl e, d\<lparr> dc_slot := s \<rparr>)
      | (Inr _, s) \<Rightarrow>
          (case tunnel_config_load K J (me_load M) (d\<lparr> dc_slot := s \<rparr>) of (fresh, d) \<Rightarrow>
             (Inr (), snd (app_config_set (me_app_io M) (JObject [(''configured'', JBool False)]) (d\<lparr> dc_watch := fresh \<rparr>)))))"

definition rollback_url :: "cmd_env \<Rightarrow> string option \<Rightarrow> desk_config \<Rightarrow> desk_config" where
  "rollback_url M prev d = (if me_rollback_ok M then d\<lparr> dc_tunnel_file := prev \<rparr> else d)"

definition tunnel_token_fingerprint :: "crypto \<Rightarrow> cred_env \<Rightarrow> desk_config \<Rightarrow> string option \<times> desk_config" where
  "tunnel_token_fingerprint K E d =
     (case cred_get K E (dc_slot d) of (r, s) \<Rightarrow>
        (case r of
           Inr (Some t) \<Rightarrow> if t = [] then None else Some (cred_fingerprint_of K t)
         | _ \<Rightarrow> None, d\<lparr> dc_slot := s \<rparr>))"

definition norm_url :: "string option \<Rightarrow> desk_error + string option" where
  "norm_url url =
     (case url of
        None \<Rightarrow> Inr None
      | Some u \<Rightarrow>
          (case validate_tunnel_url (trim_str u) of Inl e \<Rightarrow> Inl e | Inr _ \<Rightarrow> Inr (Some (trim_str u))))"

definition norm_secret :: "string option \<Rightarrow> desk_error + string option" where
  "norm_secret secret =
     (case secret of
        None \<Rightarrow> Inr None
      | Some s \<Rightarrow> if trim_str s = [] then Inl EmptySecret else Inr (Some (trim_str s)))"

text \<open>The second half of \<open>tunnel_config_set\<close>, after the endpoint is written: the token, the
  rollback of the endpoint when that fails, one broadcast and the settings.\<close>

definition finish_config_set ::
  "crypto \<Rightarrow> desk_codec \<Rightarrow> cmd_env \<Rightarrow> string option \<Rightarrow> string option \<Rightarrow> desk_config
    \<Rightarrow> (desk_error + string \<times> string option) \<times> desk_config" where
  "finish_config_set K J M prev secret d =
     (case (case secret of Some s \<Rightarrow> store_token K M ''tunnel_config_set'' s d | None \<Rightarrow> (Inr (), d)) of
        (Inl e, d) \<Rightarrow> (Inl e, rollback_url M prev d)
      | (Inr _, d) \<Rightarrow>
          (case tunnel_config_load K J (me_load M) d of (fresh, d) \<Rightarrow>
             (case app_config_set (me_app_io M) (JObject [(''mode_type'', JString ''direct''), (''configured'', JBool True)])
                     (d\<lparr> dc_watch := fresh \<rparr>) of
                (Inl e, d) \<Rightarrow> (Inl e, d)
              | (Inr _, d) \<Rightarrow>
                  (let echo = (case tunnel_url_load J d of Some u \<Rightarrow> u | None \<Rightarrow> []); (fp, d) = tunnel_token_fingerprint K (me_fp M) d
                   in (Inr (echo, fp), d)))))"

definition tunnel_config_set ::
  "crypto \<Rightarrow> desk_codec \<Rightarrow> cmd_env \<Rightarrow> string option \<Rightarrow> string option \<Rightarrow> desk_config
    \<Rightarrow> (desk_error + string \<times> string option) \<times> desk_config" where
  "tunnel_config_set K J M url secret d =
     (if url = None \<and> secret = None then (Inl NothingGiven, d)
      else (case norm_url url of
        Inl e \<Rightarrow> (Inl e, d)
      | Inr url \<Rightarrow>
     (case norm_secret secret of
        Inl e \<Rightarrow> (Inl e, d)
      | Inr secret \<Rightarrow>
          (let prev = (if me_prev_ok M then dc_tunnel_file d else None) in
           case (case url of Some u \<Rightarrow> write_tunnel_url J (me_tunnel_io M) u d | None \<Rightarrow> (Inr (), d)) of
             (Inl e, d) \<Rightarrow> (Inl e, d)
           | (Inr _, d) \<Rightarrow> finish_config_set K J M prev secret d))))"

definition configure_direct_tunnel :: "crypto \<Rightarrow> desk_codec \<Rightarrow> cmd_env \<Rightarrow> string \<Rightarrow> desk_config \<Rightarrow> (desk_error + unit) \<times> desk_config" where
  "configure_direct_tunnel K J M secret d =
     (case tunnel_config_load K J (me_load M) d of ((existing, _), d) \<Rightarrow>
       (let ws_url = (case existing of Some u \<Rightarrow> if u \<noteq> [] then u else DEFAULT_TUNNEL_URLS | None \<Rightarrow> DEFAULT_TUNNEL_URLS) in
        case write_tunnel_url J (me_tunnel_io M) ws_url d of
          (Inl e, d) \<Rightarrow> (Inl e, d)
        | (Inr _, d) \<Rightarrow>
            if trim_str secret = [] then (Inl EmptySecret, d)
            else (case store_token K M ''configure_direct_tunnel'' (trim_str secret) d of
                    (Inl e, d) \<Rightarrow> (Inl e, d)
                  | (Inr _, d) \<Rightarrow> (Inr (), d\<lparr> dc_watch := (Some ws_url, Some (trim_str secret)) \<rparr>))))"

definition str_of :: "string \<Rightarrow> json \<Rightarrow> string option" where
  "str_of k v = Option.bind (json_get k v) as_str"

definition proxy_password_set :: "crypto \<Rightarrow> cmd_env \<Rightarrow> string \<Rightarrow> string \<Rightarrow> desk_config \<Rightarrow> (desk_error + unit) \<times> desk_config" where
  "proxy_password_set K M source pass d =
     (case cred_set K (me_set M) source (trim_str pass) (dc_proxy_slot d) of (r, s) \<Rightarrow> (r, d\<lparr> dc_proxy_slot := s \<rparr>))"

definition opt_field :: "string \<Rightarrow> string option \<Rightarrow> (string \<times> json) list" where
  "opt_field k v = (case v of Some s \<Rightarrow> [(k, JString s)] | None \<Rightarrow> [])"

definition proxy_mode_switch ::
  "crypto \<Rightarrow> desk_codec \<Rightarrow> cmd_env \<Rightarrow> string \<Rightarrow> json \<Rightarrow> desk_config \<Rightarrow> (desk_error + string option) \<times> desk_config" where
  "proxy_mode_switch K J M mode_type config d =
     (let base = [(''mode_type'', JString mode_type), (''configured'', JBool True)];
          (r, d) =
            (if mode_type = ''chained'' then
               (let flds = base @ opt_field ''remote_host'' (str_of ''remote_host'' config) @ opt_field ''username'' (str_of ''username'' config)
                in case str_of ''password'' config of
                     None \<Rightarrow> (Inr (flds, None), d)
                   | Some pass \<Rightarrow>
                       if trim_str pass = [] then (Inl EmptySecret, d)
                       else (case proxy_password_set K M ''mode_switch_chained'' pass d of
                               (Inl e, d) \<Rightarrow> (Inl e, d) | (Inr _, d) \<Rightarrow> (Inr (flds, None), d)))
             else if mode_type = ''direct'' then
               (let worker = (case str_of ''worker_url'' config of Some w \<Rightarrow> w | None \<Rightarrow> ''https://edge.example.com'');
                    flds = base @ [(''worker_url'', JString worker)]
                in case str_of ''proxy_secret'' config of
                     Some sec \<Rightarrow>
                       if trim_str sec = [] then (Inl EmptySecret, d)
                       else (case configure_direct_tunnel K J M sec d of
                               (Inl e, d) \<Rightarrow> (Inl e, d) | (Inr _, d) \<Rightarrow> (Inr (flds, None), d))
                   | None \<Rightarrow>
                       (case tunnel_token_fingerprint K (me_fp M) d of (fp, d) \<Rightarrow>
                          (let fp = (case fp of Some f \<Rightarrow> f | None \<Rightarrow> ''none'')
                           in (Inr (flds @ [(''tunnel_retained_fp8'', JString fp)], Some fp), d))))
             else (Inr (base, None), d))
      in case r of
           Inl e \<Rightarrow> (Inl e, d)
         | Inr (flds, retained) \<Rightarrow>
             (case app_config_set (me_app_io M) (JObject flds) d of
                (Inl e, d) \<Rightarrow> (Inl e, d) | (Inr _, d) \<Rightarrow> (Inr retained, d)))"

section \<open>Codes\<close>

definition decode_code :: "crypto \<Rightarrow> string \<Rightarrow> string option" where
  "decode_code K s = (case b64url_decode K s of Some b \<Rightarrow> Some b | None \<Rightarrow> b64std_decode K s)"

definition as_u64_json :: "json \<Rightarrow> nat option" where
  "as_u64_json v = (case v of JInt i \<Rightarrow> if 0 \<le> i then Some (nat i) else None | _ \<Rightarrow> None)"

definition code_version_error :: "json \<Rightarrow> nat option" where
  "code_version_error v =
     (case Option.bind (json_get ''v'' v) as_u64_json of Some n \<Rightarrow> if n \<noteq> 1 then Some n else None | None \<Rightarrow> None)"

definition parse_connect_code :: "crypto \<Rightarrow> desk_codec \<Rightarrow> string \<Rightarrow> desk_error + string \<times> string" where
  "parse_connect_code K J code =
     (if length code > 4096 then Inl CodeTooLong
      else (case strip_prefix ''pony-gate://'' (trim_str code) of
        None \<Rightarrow> Inl CodePrefix
      | Some encoded \<Rightarrow>
     (case decode_code K encoded of
        None \<Rightarrow> Inl CodeBase64
      | Some bytes \<Rightarrow>
     (case jc_from_str J bytes of
        None \<Rightarrow> Inl CodeJson
      | Some v \<Rightarrow>
     (case code_version_error v of
        Some n \<Rightarrow> Inl (CodeVersion n)
      | None \<Rightarrow>
     (case nonblank (str_of ''u'' v) of
        None \<Rightarrow> Inl CodeNoUrl
      | Some url \<Rightarrow>
     (case nonblank (str_of ''t'' v) of
        None \<Rightarrow> Inl CodeNoToken
      | Some token \<Rightarrow>
     (case validate_tunnel_url url of
        Inl e \<Rightarrow> Inl e
      | Inr _ \<Rightarrow> if list_ex (\<lambda>u. \<not> starts_with ''wss://'' u) (split_endpoints url) then Inl CodeNotWss
                else Inr (url, token)))))))))"

definition tunnel_connect_code_import ::
  "crypto \<Rightarrow> desk_codec \<Rightarrow> cmd_env \<Rightarrow> string \<Rightarrow> desk_config \<Rightarrow> (desk_error + string \<times> string option) \<times> desk_config" where
  "tunnel_connect_code_import K J M code d =
     (case parse_connect_code K J code of
        Inl e \<Rightarrow> (Inl e, d)
      | Inr (url, token) \<Rightarrow>
          (case tunnel_config_set K J M (Some url) (Some token) d of
             (Inl e, d) \<Rightarrow> (Inl e, d) | (Inr (_, fp), d) \<Rightarrow> (Inr (url, fp), d)))"

text \<open>The key of a synchronisation code, with all rounds of hashing.\<close>

definition sync_key :: "crypto \<Rightarrow> string \<Rightarrow> string \<Rightarrow> string" where
  "sync_key K salt pass = ((\<lambda>current. sha256 K (current @ salt @ pass)) ^^ 9999) (sha256 K (hex_encode K salt @ '':'' @ pass))"

text \<open>Reading a code: the passphrase, the cipher (\<open>decrypt key nonce data\<close>), the expiry and the
  nonces used before.\<close>

definition open_sync ::
  "crypto \<Rightarrow> desk_codec \<Rightarrow> (string \<Rightarrow> string \<Rightarrow> string \<Rightarrow> string option) \<Rightarrow> nat \<Rightarrow> string \<Rightarrow> string option \<Rightarrow> desk_config
    \<Rightarrow> (desk_error + json) \<times> desk_config" where
  "open_sync K J decrypt now encoded passphrase d =
     (case passphrase of
        None \<Rightarrow> (Inl SyncNoPass, d)
      | Some pass \<Rightarrow>
          if pass = [] then (Inl SyncNoPass, d)
          else (case decode_code K encoded of
        None \<Rightarrow> (Inl CodeBase64, d)
      | Some bytes \<Rightarrow>
          if length bytes < 28 then (Inl SyncTooShort, d)
          else (case decrypt (sync_key K (take 16 bytes) pass) (take 12 (drop 16 bytes)) (drop 28 bytes) of
        None \<Rightarrow> (Inl SyncDecrypt, d)
      | Some decrypted \<Rightarrow>
     (case jc_from_str J decrypted of
        None \<Rightarrow> (Inl CodeJson, d)
      | Some payload \<Rightarrow>
          if (case Option.bind (json_get ''exp'' payload) as_u64_json of Some e \<Rightarrow> e < now | None \<Rightarrow> False) then (Inl SyncExpired, d)
          else (case str_of ''nonce'' payload of
                  Some n \<Rightarrow> if n \<in> dc_nonces d then (Inl SyncReplayed, d) else (Inr payload, d\<lparr> dc_nonces := insert n (dc_nonces d) \<rparr>)
                | None \<Rightarrow> (Inr payload, d))))))"

datatype import_result = ImportedGate string "string option" | ImportedSync "string option" | ImportedChained string string

definition import_sync_payload ::
  "crypto \<Rightarrow> desk_codec \<Rightarrow> cmd_env \<Rightarrow> json \<Rightarrow> desk_config \<Rightarrow> (desk_error + import_result) \<times> desk_config" where
  "import_sync_payload K J M payload d =
     (let data = (case json_get ''data'' payload of Some v \<Rightarrow> v | None \<Rightarrow> JNull);
          server_url = (case str_of ''server_url'' data of Some u \<Rightarrow> u | None \<Rightarrow> ''http://127.0.0.1:8899'');
          worker_url = (case str_of ''worker_url'' data of Some u \<Rightarrow> u | None \<Rightarrow> ''https://edge.example.com'');
          (r, d) =
            (case str_of ''proxy_secret'' data of
               Some sec \<Rightarrow>
                 if trim_str sec \<noteq> [] then
                   (case configure_direct_tunnel K J M sec d of (Inl e, d) \<Rightarrow> (Inl e, d) | (Inr _, d) \<Rightarrow> (Inr None, d))
                 else (case tunnel_token_fingerprint K (me_fp M) d of (fp, d) \<Rightarrow> (Inr (Some (case fp of Some f \<Rightarrow> f | None \<Rightarrow> ''none'')), d))
             | None \<Rightarrow> (case tunnel_token_fingerprint K (me_fp M) d of (fp, d) \<Rightarrow> (Inr (Some (case fp of Some f \<Rightarrow> f | None \<Rightarrow> ''none'')), d)))
      in case r of
           Inl e \<Rightarrow> (Inl e, d)
         | Inr retained \<Rightarrow>
             (Inr (ImportedSync retained),
              snd (app_config_set (me_app_io M)
                (JObject ([(''mode_type'', JString ''direct''), (''server_url'', JString server_url), (''worker_url'', JString worker_url),
                   (''configured'', JBool True)] @ opt_field ''tunnel_retained_fp8'' retained)) d)))"

definition import_chained :: "crypto \<Rightarrow> cmd_env \<Rightarrow> string \<Rightarrow> desk_config \<Rightarrow> (desk_error + import_result) \<times> desk_config" where
  "import_chained K M cleaned d =
     (case split_once (CHR ''@'') cleaned of
        None \<Rightarrow> (Inl CodeNoAt, d)
      | Some (auth, host_port) \<Rightarrow>
     (case split_once (CHR '':'') auth of
        None \<Rightarrow> (Inl CodeNoPassword, d)
      | Some (username, password) \<Rightarrow>
          (let d = snd (app_config_set (me_app_io M)
                 (JObject [(''mode_type'', JString ''chained''), (''remote_host'', JString host_port), (''username'', JString username),
                    (''configured'', JBool True)]) d)
           in if trim_str password = [] then (Inl EmptySecret, d)
              else (case proxy_password_set K M ''proxy_import_sync'' password d of
                      (Inl e, d) \<Rightarrow> (Inl e, d) | (Inr _, d) \<Rightarrow> (Inr (ImportedChained host_port username), d)))))"

definition proxy_import_sync ::
  "crypto \<Rightarrow> desk_codec \<Rightarrow> (string \<Rightarrow> string \<Rightarrow> string \<Rightarrow> string option) \<Rightarrow> cmd_env \<Rightarrow> nat \<Rightarrow> string \<Rightarrow> string option \<Rightarrow> desk_config
    \<Rightarrow> (desk_error + import_result) \<times> desk_config" where
  "proxy_import_sync K J decrypt M now sync_uri passphrase d =
     (let raw = trim_str sync_uri in
      if starts_with ''pony-gate://'' raw then
        (case tunnel_connect_code_import K J M raw d of (Inl e, d) \<Rightarrow> (Inl e, d) | (Inr (u, fp), d) \<Rightarrow> (Inr (ImportedGate u fp), d))
      else (case strip_prefix ''pproxy-sync://'' raw of
        Some encoded \<Rightarrow>
          (case open_sync K J decrypt now encoded passphrase d of
             (Inl e, d) \<Rightarrow> (Inl e, d) | (Inr payload, d) \<Rightarrow> import_sync_payload K J M payload d)
      | None \<Rightarrow>
     (case strip_prefix ''pproxy://'' raw of
        Some cleaned \<Rightarrow> import_chained K M cleaned d
      | None \<Rightarrow>
     (case strip_prefix ''http://'' raw of
        Some cleaned \<Rightarrow> import_chained K M cleaned d
      | None \<Rightarrow> (Inl CodeUnknown, d)))))"


section \<open>Steps\<close>

text \<open>Everything that changes the state, each with any answers of the outside; the engine takes over
  settings read from disk or writes a token it found working; and other programs may put anything
  into the key ring and the files.\<close>

inductive desk_step ::
  "crypto \<Rightarrow> desk_codec \<Rightarrow> (string \<Rightarrow> string \<Rightarrow> string \<Rightarrow> string option) \<Rightarrow> desk_config \<Rightarrow> desk_config \<Rightarrow> bool"
  for K J decrypt where
  set_url: "desk_step K J decrypt d (snd (proxy_tunnel_set_url K J M url d))"
| save: "desk_step K J decrypt d (snd (tunnel_token_save K J M secret d))"
| clear: "desk_step K J decrypt d (snd (tunnel_token_clear K J M d))"
| config_set: "desk_step K J decrypt d (snd (tunnel_config_set K J M url sec d))"
| mode_switch: "desk_step K J decrypt d (snd (proxy_mode_switch K J M mode_type config d))"
| import_code: "desk_step K J decrypt d (snd (tunnel_connect_code_import K J M code d))"
| import_sync: "desk_step K J decrypt d (snd (proxy_import_sync K J decrypt M now uri pass d))"
| fresh: "desk_step K J decrypt d (tunnel_watch_send_fresh K J E E' d)"
| adopt: "tunnel_config_load K J E d = (w, d') \<Longrightarrow> desk_step K J decrypt d (d'\<lparr> dc_watch := w \<rparr>)"
| healed: "cred_set K E source (trim_str secret) (dc_slot d) = (r, s) \<Longrightarrow> desk_step K J decrypt d (d\<lparr> dc_slot := s \<rparr>)"
| outside: "desk_step K J decrypt d (d\<lparr> dc_slot := s, dc_proxy_slot := ps, dc_tunnel_file := f, dc_app := a \<rparr>)"

inductive_cases desk_stepE: "desk_step K J decrypt d d'"

section \<open>Lemmas\<close>

definition clean_secret :: "string \<Rightarrow> bool" where
  "clean_secret s \<longleftrightarrow> s \<noteq> [] \<and> trim_str s = s \<and> utf8_valid s"

lemma nonblank_Some: "nonblank v = Some t \<Longrightarrow> t \<noteq> [] \<and> trim_str t = t"
  by (auto simp: nonblank_def split: option.splits if_splits)

lemma nonblank_clean: "clean_secret s \<Longrightarrow> nonblank (Some s) = Some s"
  by (simp add: nonblank_def clean_secret_def)

lemma read_clean: "clean_secret s \<Longrightarrow> read_file ok (Some s) = (if ok then Some s else None)"
  by (simp add: read_file_def from_utf8_def clean_secret_def)

lemma cred_set_Ok:
  "cred_set K E source secret s = (Inr (), s') \<Longrightarrow> sl_keyring s' = Some secret \<and> sl_dat s' = Some secret"
  by (auto simp: cred_set_def cred_meta_record_def Let_def split: option.splits if_splits)

text \<open>When both copies agree, a reading repairs nothing and gives the secret from either.\<close>

lemma detail_agreeing:
  assumes "sl_keyring s = Some secret" "sl_dat s = Some secret" "clean_secret secret"
    and "cred_detail_impl K E s s = (d, s')"
  shows "s' = s \<and> (cd_value d = (if ce_read_ok E \<or> ce_entry E = None \<and> ce_get E = None then Some secret else None))
    \<and> (cd_keyring_error d = None \<longleftrightarrow> ce_entry E = None \<and> ce_get E = None)"
proof -
  have "fallback_value E s = (if ce_read_ok E then Some secret else None)"
    using assms(2,3) by (simp add: fallback_value_def read_clean nonblank_clean) (simp add: nonblank_def)
  moreover have "fst (keyring_value E s) = (if ce_entry E = None \<and> ce_get E = None then Some secret else None)"
    "snd (keyring_value E s) = None \<longleftrightarrow> ce_entry E = None \<and> ce_get E = None"
    using assms(1,3) by (auto simp: keyring_value_def nonblank_clean split: option.split)
  ultimately show ?thesis using assms(4)
    by (cases "keyring_value E s") (auto simp: cred_detail_impl_def Let_def split: if_splits)
qed

lemma detail_value: "cred_detail_impl K E s s' = (d, t) \<Longrightarrow> cd_value d = Some v \<Longrightarrow> v \<noteq> [] \<and> trim_str v = v"
proof -
  have fb: "fallback_value E s = Some f \<Longrightarrow> f \<noteq> [] \<and> trim_str f = f" for f
    by (simp add: fallback_value_def nonblank_Some)
  have kr: "fst (keyring_value E s) = Some k \<Longrightarrow> k \<noteq> [] \<and> trim_str k = k" for k
    by (auto simp: keyring_value_def nonblank_Some split: option.splits)
  assume "cred_detail_impl K E s s' = (d, t)" "cd_value d = Some v"
  then have "fallback_value E s = Some v \<or> fst (keyring_value E s) = Some v"
    by (cases "keyring_value E s")
      (auto simp: cred_detail_impl_def Let_def split: option.splits if_splits prod.splits)
  with fb kr show ?thesis by blast
qed

lemma cred_get_value: "cred_get K E s = (Inr (Some v), t) \<Longrightarrow> v \<noteq> [] \<and> trim_str v = v"
  by (auto simp: cred_get_def detail_result_def apfst_def map_prod_def split: prod.splits option.splits if_splits
      dest: detail_value)

subsection \<open>The watched pair\<close>

definition settings_ok :: "string option \<times> string option \<Rightarrow> bool" where
  "settings_ok w \<longleftrightarrow> w = (None, None)
     \<or> (\<exists>u t. w = (Some u, Some t) \<and> validate_tunnel_url u = Inr () \<and> t \<noteq> [] \<and> trim_str t = t)"

lemma validate_default [simp]: "validate_tunnel_url DEFAULT_TUNNEL_URLS = Inr ()"
  by code_simp

lemma validate_Inr: "validate_tunnel_url u = Inr () \<longleftrightarrow> split_endpoints u \<noteq> [] \<and> (\<forall>e \<in> set (split_endpoints u). ws_scheme e)"
  by (auto simp: validate_tunnel_url_def Let_def find_None_iff split: option.split)
    (metis find_None_iff option.distinct(1))+

lemma tunnel_url_load_ok: "tunnel_url_load J d = Some u \<Longrightarrow> validate_tunnel_url u = Inr ()"
  by (auto simp: tunnel_url_load_def Let_def split: option.splits if_splits)

lemma load_keeps:
  "tunnel_config_load K J E d = (w, d') \<Longrightarrow> settings_ok w \<and> (\<exists>s. d' = d\<lparr> dc_slot := s \<rparr>)"
proof -
  assume a: "tunnel_config_load K J E d = (w, d')"
  obtain r s where g: "cred_get K E (dc_slot d) = (r, s)" by fastforce
  show ?thesis
    using a cred_get_value [of K E "dc_slot d"] tunnel_url_load_ok [of J d]
    by (auto simp: tunnel_config_load_def tunnel_token_load_status_def g settings_ok_def Let_def split: sum.splits option.splits if_splits)
qed

lemma load_settings: "settings_ok (fst (tunnel_config_load K J E d))"
  using load_keeps prod.collapse by metis

lemma load_watch [simp]: "dc_watch (snd (tunnel_config_load K J E d)) = dc_watch d"
proof -
  obtain w d' where l: "tunnel_config_load K J E d = (w, d')" by fastforce
  from load_keeps [OF this] show ?thesis by (auto simp: l)
qed

lemma settings_ok_pair: "settings_ok (Some u, t) \<Longrightarrow> trim_str secret \<noteq> [] \<Longrightarrow> settings_ok (Some u, Some (trim_str secret))"
  by (auto simp: settings_ok_def)

lemma settings_ok_default: "trim_str secret \<noteq> [] \<Longrightarrow> settings_ok (Some DEFAULT_TUNNEL_URLS, Some (trim_str secret))"
  by (simp add: settings_ok_def)

text \<open>The operations that leave the watched pair alone.\<close>

lemma app_config_watch [simp]: "dc_watch (snd (app_config_set err patch d)) = dc_watch d"
  by (auto simp: app_config_set_def Let_def split: option.split)

lemma write_url_watch [simp]: "dc_watch (snd (write_tunnel_url J err u d)) = dc_watch d"
  by (auto simp: write_tunnel_url_def split: option.split)

lemma store_token_watch [simp]: "dc_watch (snd (store_token K M source secret d)) = dc_watch d"
  by (auto simp: store_token_def split: prod.split sum.split)

lemma rollback_watch [simp]: "dc_watch (rollback_url M prev d) = dc_watch d"
  by (simp add: rollback_url_def)

lemma fingerprint_watch [simp]: "dc_watch (snd (tunnel_token_fingerprint K E d)) = dc_watch d"
  by (auto simp: tunnel_token_fingerprint_def split: prod.split)

lemma password_watch [simp]: "dc_watch (snd (proxy_password_set K M source pass d)) = dc_watch d"
  by (auto simp: proxy_password_set_def split: prod.split)

lemma open_sync_watch [simp]: "dc_watch (snd (open_sync K J decrypt now encoded pass d)) = dc_watch d"
  by (auto simp: open_sync_def split: option.split)

lemmas watch_kept = app_config_watch write_url_watch store_token_watch rollback_watch fingerprint_watch password_watch
  open_sync_watch load_watch

text \<open>The same facts for results taken apart.\<close>

lemma watch_keptD:
  "app_config_set err patch d = (r0, d') \<Longrightarrow> dc_watch d' = dc_watch d"
  "write_tunnel_url J err u d = (r0, d') \<Longrightarrow> dc_watch d' = dc_watch d"
  "store_token K M source secret d = (r0, d') \<Longrightarrow> dc_watch d' = dc_watch d"
  "tunnel_token_fingerprint K E d = (f, d') \<Longrightarrow> dc_watch d' = dc_watch d"
  "proxy_password_set K M source secret d = (r0, d') \<Longrightarrow> dc_watch d' = dc_watch d"
  "open_sync K J decrypt now encoded pass d = (p, d') \<Longrightarrow> dc_watch d' = dc_watch d"
  "tunnel_config_load K J E d = (w, d') \<Longrightarrow> dc_watch d' = dc_watch d"
  by (metis snd_conv watch_kept)+

lemma send_fresh_ok: "settings_ok (dc_watch d) \<Longrightarrow> settings_ok (dc_watch (tunnel_watch_send_fresh K J E E' d))"
  using load_keeps [of K J E d]
  by (auto simp: tunnel_watch_send_fresh_def Let_def split: prod.split)

lemma save_ok: "settings_ok (dc_watch d) \<Longrightarrow> settings_ok (dc_watch (snd (tunnel_token_save K J M secret d)))"
  by (auto simp: tunnel_token_save_def Let_def settings_ok_default split: prod.split sum.split option.split
      dest!: watch_keptD(1-6) load_keeps intro: settings_ok_pair)

lemma clear_ok: "settings_ok (dc_watch d) \<Longrightarrow> settings_ok (dc_watch (snd (tunnel_token_clear K J M d)))"
  by (auto simp: tunnel_token_clear_def split: prod.split sum.split dest: load_keeps)

lemma set_url_ok: "settings_ok (dc_watch d) \<Longrightarrow> settings_ok (dc_watch (snd (proxy_tunnel_set_url K J M url d)))"
  by (auto simp: proxy_tunnel_set_url_def Let_def split: prod.split sum.split dest: watch_keptD intro!: send_fresh_ok)

lemma finish_ok: "settings_ok (dc_watch d) \<Longrightarrow> settings_ok (dc_watch (snd (finish_config_set K J M prev secret d)))"
  by (auto simp: finish_config_set_def Let_def split: prod.split sum.split option.split dest!: watch_keptD(1-6) load_keeps)

lemma config_set_ok: "settings_ok (dc_watch d) \<Longrightarrow> settings_ok (dc_watch (snd (tunnel_config_set K J M url secret d)))"
  by (auto simp: tunnel_config_set_def Let_def split: prod.split sum.split option.split dest: watch_keptD intro!: finish_ok)

lemma direct_ok: "settings_ok (dc_watch d) \<Longrightarrow> settings_ok (dc_watch (snd (configure_direct_tunnel K J M secret d)))"
  by (auto simp: configure_direct_tunnel_def Let_def settings_ok_default split: prod.split sum.split option.split
      dest!: watch_keptD(1-6) load_keeps intro: settings_ok_pair)


text \<open>These facts too for results taken apart.\<close>

lemma settings_keptD:
  "configure_direct_tunnel K J M secret d = (r0, d') \<Longrightarrow> settings_ok (dc_watch d) \<Longrightarrow> settings_ok (dc_watch d')"
  "tunnel_config_set K J M url sec d = (rc, d') \<Longrightarrow> settings_ok (dc_watch d) \<Longrightarrow> settings_ok (dc_watch d')"
  using direct_ok [of d K J M secret] config_set_ok [of d K J M url sec] by simp_all

lemma mode_switch_ok: "settings_ok (dc_watch d) \<Longrightarrow> settings_ok (dc_watch (snd (proxy_mode_switch K J M mode_type config d)))"
proof -
  assume ok: "settings_ok (dc_watch d)"
  consider (c) "mode_type = ''chained''" | (d) "mode_type = ''direct''" | (o) "mode_type \<noteq> ''chained''" "mode_type \<noteq> ''direct''" by blast
  then show ?thesis
  proof cases
    case c
    then show ?thesis using ok
      by (auto simp: proxy_mode_switch_def Let_def split: prod.split sum.split option.split dest!: watch_keptD(1,5))
  next
    case d
    then show ?thesis using ok
      by (auto simp: proxy_mode_switch_def Let_def split: prod.split sum.split option.split
          dest!: watch_keptD(1,4) dest: settings_keptD(1))
  next
    case o
    then show ?thesis using ok
      by (auto simp: proxy_mode_switch_def Let_def split: prod.split sum.split dest!: watch_keptD(1))
  qed
qed

lemma import_code_ok: "settings_ok (dc_watch d) \<Longrightarrow> settings_ok (dc_watch (snd (tunnel_connect_code_import K J M code d)))"
  by (auto simp: tunnel_connect_code_import_def split: prod.split sum.split dest: settings_keptD(2))

lemma import_chained_ok: "settings_ok (dc_watch d) \<Longrightarrow> settings_ok (dc_watch (snd (import_chained K M cleaned d)))"
  by (auto simp: import_chained_def Let_def split: prod.split sum.split option.split dest!: watch_keptD(5))

lemma import_payload_ok: "settings_ok (dc_watch d) \<Longrightarrow> settings_ok (dc_watch (snd (import_sync_payload K J M payload d)))"
  by (auto simp: import_sync_payload_def Let_def split: prod.split sum.split option.split
      dest!: watch_keptD(4) dest: settings_keptD(1))

lemma import_code_okD:
  "tunnel_connect_code_import K J M code d = (ri, d') \<Longrightarrow> settings_ok (dc_watch d) \<Longrightarrow> settings_ok (dc_watch d')"
  using import_code_ok [of d K J M code] by simp

lemma import_sync_ok: "settings_ok (dc_watch d) \<Longrightarrow> settings_ok (dc_watch (snd (proxy_import_sync K J decrypt M now uri pass d)))"
  by (auto simp: proxy_import_sync_def Let_def split: prod.split sum.split option.split dest!: watch_keptD(6)
      dest: import_code_okD intro!: import_payload_ok import_chained_ok)

lemma desk_step_ok: "settings_ok (dc_watch d) \<Longrightarrow> desk_step K J decrypt d d' \<Longrightarrow> settings_ok (dc_watch d')"
  by (elim desk_stepE)
    (auto simp: set_url_ok save_ok clear_ok config_set_ok mode_switch_ok import_code_ok import_sync_ok send_fresh_ok
      dest: load_keeps)

text \<open>At the start what a reading gives is watched.\<close>

interpretation desk: machine "\<lambda>d. \<exists>E d0. dc_watch d = fst (tunnel_config_load K J E d0)" "desk_step K J decrypt"
  "\<lambda>d. settings_ok (dc_watch d)" for K J decrypt
  using load_settings desk_step_ok by unfold_locales metis+


subsection \<open>Agreeing copies\<close>

definition holds_secret :: "cred_slot \<Rightarrow> string \<Rightarrow> bool" where
  "holds_secret s secret \<longleftrightarrow> sl_keyring s = Some secret \<and> sl_dat s = Some secret"

definition readable :: "cred_env \<Rightarrow> bool" where
  "readable E \<longleftrightarrow> ce_read_ok E \<or> ce_entry E = None \<and> ce_get E = None"

lemma cred_get_agreeing:
  assumes "holds_secret s secret" "clean_secret secret" "cred_get K E s = (r, s')"
  shows "s' = s \<and> (if readable E then r = Inr (Some secret) else \<exists>e. r = Inl e)"
proof -
  obtain d t where "cred_detail_impl K E s s = (d, t)" by fastforce
  with detail_agreeing [OF _ _ assms(2) this] assms(1,3) show ?thesis
    by (auto simp: holds_secret_def cred_get_def detail_result_def readable_def split: option.splits if_splits)
qed

lemma reads_agreeing:
  "holds_secret s secret \<Longrightarrow> clean_secret secret \<Longrightarrow> foldl (\<lambda>t F. snd (cred_get K F t)) s Es = s"
proof (induction Es)
  case (Cons E Es)
  from cred_get_agreeing [OF Cons.prems, of K E "fst (cred_get K E s)" "snd (cred_get K E s)"] Cons show ?case by simp
qed simp

lemma load_agreeing:
  assumes "holds_secret (dc_slot d) secret" "clean_secret secret" "tunnel_config_load K J E d = (w, d')"
  shows "d' = d \<and> (readable E \<longrightarrow>
    w = (Some (case tunnel_url_load J d of Some u \<Rightarrow> u | None \<Rightarrow> DEFAULT_TUNNEL_URLS), Some secret))"
proof -
  obtain r t where g: "cred_get K E (dc_slot d) = (r, t)" by fastforce
  have "secret \<noteq> []" using assms(2) by (simp add: clean_secret_def)
  with cred_get_agreeing [OF assms(1,2) g] assms(3) show ?thesis
    by (auto simp: tunnel_config_load_def tunnel_token_load_status_def g Let_def split: option.splits sum.splits if_splits)
qed

lemma fingerprint_agreeing:
  assumes "holds_secret (dc_slot d) secret" "clean_secret secret" "tunnel_token_fingerprint K E d = (f, d')"
  shows "d' = d"
proof -
  obtain r t where g: "cred_get K E (dc_slot d) = (r, t)" by fastforce
  with cred_get_agreeing [OF assms(1,2) g] assms(3) show ?thesis by (simp add: tunnel_token_fingerprint_def)
qed

lemma store_token_Ok:
  assumes "store_token K M source secret d = (Inr (), d')" "clean_secret secret"
  shows "\<exists>s. d' = d\<lparr> dc_slot := s \<rparr> \<and> holds_secret s secret"
proof -
  obtain s where c: "cred_set K (me_set M) source secret (dc_slot d) = (Inr (), s)"
    using assms(1) by (auto simp: store_token_def split: prod.splits sum.splits)
  have h: "holds_secret s secret" using cred_set_Ok [OF c] by (simp add: holds_secret_def)
  obtain x t where "cred_detail_impl K (me_verify M) s s = (x, t)" by fastforce
  with detail_agreeing [OF _ _ assms(2) this] h assms(1) c show ?thesis
    by (auto simp: store_token_def cred_verify_dual_source_def holds_secret_def Let_def split: prod.splits)
qed

lemma store_token_frame:
  "store_token K M source secret d = (r, d') \<Longrightarrow> \<exists>s. d' = d\<lparr> dc_slot := s \<rparr>"
  by (auto simp: store_token_def split: prod.splits sum.splits)

lemma migrate_valid: "validate_tunnel_url (trim_str u) = Inr () \<Longrightarrow> validate_tunnel_url (migrate_tunnel_url u) = Inr ()"
  by (simp add: migrate_tunnel_url_def Let_def)

lemma url_load_written:
  assumes "url_text_law J" "validate_tunnel_url u = Inr ()" "trim_str u = u" "dc_tunnel_file d = Some (jc_url_text J u)"
  shows "tunnel_url_load J d = Some (migrate_tunnel_url u)"
  using assms migrate_valid [of u] by (simp add: tunnel_url_load_def url_text_law_def Let_def)

lemma url_load_file: "dc_tunnel_file d' = dc_tunnel_file d \<Longrightarrow> tunnel_url_load J d' = tunnel_url_load J d"
  by (simp add: tunnel_url_load_def)

lemma load_frame: "tunnel_config_load K J E d = (w, d') \<Longrightarrow> \<exists>s. d' = d\<lparr> dc_slot := s \<rparr>"
  using load_keeps by blast

lemma fingerprint_frame: "tunnel_token_fingerprint K E d = (f, d') \<Longrightarrow> \<exists>s. d' = d\<lparr> dc_slot := s \<rparr>"
  by (auto simp: tunnel_token_fingerprint_def split: prod.splits)

lemma app_config_Inl: "app_config_set err patch d = (Inl e, d') \<longleftrightarrow> (\<exists>io. err = Some io \<and> e = IoError io \<and> d' = d)"
  by (auto simp: app_config_set_def Let_def split: option.split)

lemma app_config_Inr: "app_config_set err patch d = (Inr u, d') \<Longrightarrow> \<exists>a. d' = d\<lparr> dc_app := a \<rparr>"
  by (auto simp: app_config_set_def Let_def split: option.splits)

text \<open>The token part of \<open>finish_config_set\<close> as a step of its own.\<close>

definition token_part :: "crypto \<Rightarrow> cmd_env \<Rightarrow> string option \<Rightarrow> desk_config \<Rightarrow> (desk_error + unit) \<times> desk_config" where
  "token_part K M secret d = (case secret of Some s \<Rightarrow> store_token K M ''tunnel_config_set'' s d | None \<Rightarrow> (Inr (), d))"

lemma token_part_frame: "token_part K M secret d = (r, d') \<Longrightarrow> \<exists>s. d' = d\<lparr> dc_slot := s \<rparr>"
  by (cases secret) (auto simp: token_part_def dest: store_token_frame intro: exI [of _ "dc_slot d"])

lemma finish_error:
  assumes "finish_config_set K J M prev secret d = (Inl e, d')" "me_rollback_ok M"
  shows "dc_tunnel_file d' = prev \<and> dc_watch d' = dc_watch d \<and> dc_app d' = dc_app d
    \<or> (\<exists>io. me_app_io M = Some io \<and> e = IoError io \<and> dc_app d' = dc_app d)"
proof -
  obtain r t where t: "token_part K M secret d = (r, t)" by fastforce
  from token_part_frame [OF t] obtain s where ts: "t = d\<lparr> dc_slot := s \<rparr>" by blast
  show ?thesis
  proof (cases r)
    case (Inl x)
    with t ts assms show ?thesis by (auto simp: finish_config_set_def token_part_def [symmetric] rollback_url_def)
  next
    case (Inr x)
    obtain w l where l: "tunnel_config_load K J (me_load M) t = (w, l)" by fastforce
    with load_frame [OF l] t ts Inr assms(1) show ?thesis
      by (auto simp: finish_config_set_def token_part_def [symmetric] app_config_Inl Let_def split: prod.splits sum.splits)
  qed
qed

lemma finish_success:
  assumes "finish_config_set K J M prev secret d = (Inr x, d')" "opt_all clean_secret secret"
  shows "dc_tunnel_file d' = dc_tunnel_file d
    \<and> opt_all (\<lambda>s. holds_secret (dc_slot d') s \<and> (readable (me_load M) \<longrightarrow> dc_watch d' =
        (Some (case tunnel_url_load J d' of Some u \<Rightarrow> u | None \<Rightarrow> DEFAULT_TUNNEL_URLS), Some s))) secret"
proof -
  obtain t where t: "token_part K M secret d = (Inr (), t)"
    using assms(1) by (cases "token_part K M secret d") (auto simp: finish_config_set_def token_part_def [symmetric] split: sum.splits)
  obtain s where ts: "t = d\<lparr> dc_slot := s \<rparr>" using token_part_frame [OF t] by blast
  obtain w l where l: "tunnel_config_load K J (me_load M) t = (w, l)" by fastforce
  from load_frame [OF this] obtain s2 where ls: "l = t\<lparr> dc_slot := s2 \<rparr>" by blast
  obtain a where a: "app_config_set (me_app_io M) (JObject [(''mode_type'', JString ''direct''), (''configured'', JBool True)])
      (l\<lparr> dc_watch := w \<rparr>) = (Inr (), a)"
    using assms(1) t l by (auto simp: finish_config_set_def token_part_def [symmetric] split: prod.splits sum.splits)
  from app_config_Inr [OF this] obtain v where av: "a = l\<lparr> dc_watch := w, dc_app := v \<rparr>" by auto
  obtain f where f: "tunnel_token_fingerprint K (me_fp M) a = (f, d')"
    using assms(1) t l a by (auto simp: finish_config_set_def token_part_def [symmetric] Let_def split: prod.splits)
  from fingerprint_frame [OF this] obtain s3 where ds: "d' = a\<lparr> dc_slot := s3 \<rparr>" by blast
  have tf: "dc_tunnel_file d' = dc_tunnel_file d" using ds av ls ts by simp
  show ?thesis
  proof (cases secret)
    case None
    with tf show ?thesis by simp
  next
    case (Some sec)
    then have c: "clean_secret sec" using assms(2) by simp
    have h: "holds_secret (dc_slot t) sec" using t Some c by (auto simp: token_part_def dest: store_token_Ok)
    from load_agreeing [OF this c l] have "l = t" and
      w: "readable (me_load M) \<longrightarrow> w = (Some (case tunnel_url_load J t of Some u \<Rightarrow> u | None \<Rightarrow> DEFAULT_TUNNEL_URLS), Some sec)"
      by auto
    with av h have ha: "holds_secret (dc_slot a) sec" by simp
    from fingerprint_agreeing [OF this c f] have "d' = a" .
    moreover have "tunnel_url_load J a = tunnel_url_load J t" using av ls by (intro url_load_file) simp
    moreover have "dc_watch a = w" using av by simp
    ultimately show ?thesis using tf Some ha w by auto
  qed
qed

lemma norm_secret_Inr: "norm_secret secret = Inr sec \<Longrightarrow> opt_all (\<lambda>s. utf8_valid (trim_str s)) secret \<Longrightarrow>
    sec = map_option trim_str secret \<and> opt_all clean_secret sec"
  by (auto simp: norm_secret_def clean_secret_def split: option.splits if_splits)

lemma norm_url_Inr: "norm_url url = Inr u \<Longrightarrow> u = map_option trim_str url \<and> opt_all (\<lambda>v. validate_tunnel_url v = Inr ()) u"
  by (auto simp: norm_url_def split: option.splits sum.splits)

section \<open>Properties\<close>

text \<open>C35: the engine is never handed half a configuration.  From a start with what was read, after any
  commands, imports and repairs with any failures of the key ring and the file system, and whatever
  other programs write into the key ring and the files, the watched pair is either empty or an endpoint
  list that is not empty and has only \<open>ws://\<close> or \<open>wss://\<close> addresses, with a token that is
  not blank.\<close>

theorem watch_settings_ok:
  assumes "dc_watch d = fst (tunnel_config_load K J E d0)" "(desk_step K J decrypt)\<^sup>*\<^sup>* d d'"
  shows "dc_watch d' = (None, None) \<or> (\<exists>u t. dc_watch d' = (Some u, Some t) \<and> split_endpoints u \<noteq> []
    \<and> (\<forall>e \<in> set (split_endpoints u). ws_scheme e) \<and> t \<noteq> [] \<and> trim_str t = t)"
proof -
  have "settings_ok (dc_watch d')" using desk.reachable_inv [of d K J decrypt d'] assms by blast
  then show ?thesis by (auto simp: settings_ok_def validate_Inr)
qed

text \<open>A token that was saved is found again.  When writing succeeds, both copies hold the secret, and
  any number of readings with any failures later a reading gives it as long as one of the two
  copies can be read, and an error otherwise, never that there is none.\<close>

theorem cred_set_survives:
  assumes "cred_set K E source secret s = (Inr (), s')" "clean_secret secret"
  shows "holds_secret (foldl (\<lambda>t F. snd (cred_get K F t)) s' Es) secret
    \<and> (if readable F then fst (cred_get K F (foldl (\<lambda>t F. snd (cred_get K F t)) s' Es)) = Inr (Some secret)
       else \<exists>e. fst (cred_get K F (foldl (\<lambda>t F. snd (cred_get K F t)) s' Es)) = Inl e)"
proof -
  have h: "holds_secret s' secret" using cred_set_Ok [OF assms(1)] by (simp add: holds_secret_def)
  from cred_get_agreeing [OF this assms(2), of K F "fst (cred_get K F s')" "snd (cred_get K F s')"] h
    reads_agreeing [OF h assms(2), of K Es]
  show ?thesis by simp
qed



section \<open>More behaviour\<close>

text \<open>A key ring that does not answer keeps an old copy at hand: a save that fails after the key ring took the
  new secret leaves the old one in force when the last writing was recorded as one of the user's and
  the fingerprints differ.\<close>

theorem failed_save_keeps_token:
  assumes "holds_secret s old" "clean_secret old" "clean_secret new"
    and "sl_meta s = Some m" "cm_source m \<in> set MANUAL_SOURCES" "cm_fp8 m = cred_fingerprint_of K old" "cm_fp8 m \<noteq> []"
    and "cred_fingerprint_of K old \<noteq> cred_fingerprint_of K new"
    and "cred_set K E source new s = (Inl e, s')" "ce_read_ok F"
  shows "fst (cred_get K F s') = Inr (Some old)"
proof -
  have s': "sl_dat s' = Some old" "sl_meta s' = Some m" "sl_keyring s' = Some old \<or> sl_keyring s' = Some new"
    using assms(1,4,9) by (auto simp: cred_set_def holds_secret_def Let_def split: option.splits)
  have fb: "fallback_value F s' = Some old"
    using s'(1) assms(2,10) by (simp add: fallback_value_def read_clean nonblank_clean)
  have mf: "manual_fallback K (cred_meta_load s') old new"
    using s'(2) assms(5-8) by (simp add: manual_fallback_def cred_meta_load_def)
  have "fst (keyring_value F s') \<in> {None, Some old, Some new}"
    using s'(3) assms(2,3) by (auto simp: keyring_value_def nonblank_clean split: option.split)
  moreover have "new \<noteq> old" using assms(8) by blast
  ultimately show ?thesis using fb mf
    by (cases "keyring_value F s'") (auto simp: cred_get_def cred_detail_impl_def detail_result_def Let_def)
qed

text \<open>Clearing: when the key ring and the file system do what they are asked, no copy is left but a temporary
  file.\<close>

theorem clear_forgets:
  assumes "ce_entry E = None" "ce_delete E = None" "ce_read_dir E" "\<forall>n. ce_remove E n"
  shows "\<exists>s'. cred_delete E source s = (Inr (), s') \<and> sl_keyring s' = None \<and> sl_dat s' = None \<and> sl_bak s' = None
    \<and> sl_ts_baks s' = [] \<and> sl_tmp s' = sl_tmp s \<and> fst (cred_get K E s') \<in> {Inr None} \<union> range Inl"
  using assms
  by (auto simp: cred_delete_def cred_remove_fallback_all_def cred_remove_timestamped_backups_def
      cred_meta_record_tombstone_def cred_get_def cred_detail_impl_def detail_result_def fallback_value_def read_file_def
      keyring_value_def nonblank_def Let_def split: option.split)

text \<open>A key ring whose entry cannot be made is skipped, and clearing reports success though the key ring keeps the
  secret.\<close>

theorem clear_skips_keyring:
  "ce_entry E = Some e \<Longrightarrow> \<exists>s'. cred_delete E source s = (Inr (), s') \<and> sl_keyring s' = sl_keyring s"
  by (auto simp: cred_delete_def cred_remove_fallback_all_def cred_meta_record_tombstone_def)

text \<open>A repair that waited for the lock while a new secret was saved puts the old one back into the file:
  it reads the file again but not the key ring.\<close>

theorem stale_repair_overwrites:
  assumes "holds_secret s new" "clean_secret new" "stale \<noteq> new" "ce_read_ok E" "ce_write E = None" "ce_rename E = None"
  shows "sl_dat (snd (cred_self_heal_locked K E stale s)) = Some stale
    \<and> sl_keyring (snd (cred_self_heal_locked K E stale s)) = Some new"
  using assms
  by (auto simp: cred_self_heal_locked_def holds_secret_def fallback_value_def read_clean nonblank_clean cred_meta_record_def
      backup_files_def Let_def split: option.split)

text \<open>The repair keeps the old copy: as the backup and, while the names of the backups sort by age, among
  the five last.\<close>

theorem repair_keeps_backup:
  assumes "fallback_value E s = Some f" "f \<noteq> k" "ce_copy_bak E" "cred_self_heal_locked K E k s = (w, s')"
  shows "sl_bak s' = sl_dat s \<and> w = ''keyring(diverged)''"
  using assms by (auto simp: cred_self_heal_locked_def backup_files_def cred_meta_record_def Let_def split: if_splits)

text \<open>A connection code is accepted only with encrypted endpoints and a token.\<close>

theorem parse_connect_code_sound:
  assumes "parse_connect_code K J code = Inr (url, token)"
  shows "split_endpoints url \<noteq> [] \<and> (\<forall>e \<in> set (split_endpoints url). starts_with ''wss://'' e)
    \<and> token \<noteq> [] \<and> trim_str token = token \<and> length code \<le> 4096"
proof -
  have "validate_tunnel_url url = Inr ()" "\<not> list_ex (\<lambda>u. \<not> starts_with ''wss://'' u) (split_endpoints url)"
    "\<exists>v. nonblank v = Some token" "length code \<le> 4096"
    using assms by (auto simp: parse_connect_code_def split: if_splits option.splits sum.splits)
  then show ?thesis by (auto simp: validate_Inr list_ex_iff dest: nonblank_Some)
qed


text \<open>When the writing succeeds but the file cannot be read back, the command reports an error, though the new secret is in
  both places and will be used from the next reading on.\<close>

theorem failed_check_keeps_new_token:
  assumes "cred_set K (me_set M) source new (dc_slot d) = (Inr (), s)" "\<not> ce_read_ok (me_verify M)" "clean_secret new"
  shows "\<exists>e d'. store_token K M source new d = (Inl e, d') \<and> holds_secret (dc_slot d') new"
proof -
  have h: "holds_secret s new" using cred_set_Ok [OF assms(1)] by (simp add: holds_secret_def)
  obtain x t where x: "cred_detail_impl K (me_verify M) s s = (x, t)" by fastforce
  have "t = s" using detail_agreeing [OF _ _ assms(3) x] h by (simp add: holds_secret_def)
  moreover have "cd_fp_fallback x = None"
    using x assms(2) by (auto simp: cred_detail_impl_def fallback_value_def read_file_def nonblank_def Let_def split: prod.splits)
  ultimately show ?thesis
    using h assms(1) x by (simp add: store_token_def cred_verify_dual_source_def Let_def)
qed

section \<open>Witnesses\<close>

definition demo_cred_env :: cred_env where
  "demo_cred_env = \<lparr> ce_entry = None, ce_get = None, ce_set = None, ce_delete = None, ce_read_ok = True, ce_mkdir = None,
     ce_write = None, ce_rename = None, ce_copy_bak = True, ce_copy_ts = True, ce_read_dir = True, ce_remove = (\<lambda>_. True),
     ce_meta_ok = True, ce_broken = id, ce_now = 7, ce_millis = 7000, ce_pid = 1 \<rparr>"

definition demo_slot :: cred_slot where
  "demo_slot = \<lparr> sl_keyring = None, sl_dat = None, sl_tmp = None, sl_bak = None, sl_ts_baks = [], sl_meta = None \<rparr>"

definition demo_url_codec :: desk_codec where
  "demo_url_codec = \<lparr> jc_from_str = (\<lambda>s. Some (JObject [(''url'', JString s)])), jc_url_text = id \<rparr>"

definition demo_cmd :: cmd_env where
  "demo_cmd = \<lparr> me_tunnel_io = None, me_app_io = None, me_set = demo_cred_env, me_verify = demo_cred_env, me_load = demo_cred_env,
     me_detail = demo_cred_env, me_fp = demo_cred_env, me_prev_ok = True, me_rollback_ok = True \<rparr>"

definition demo_config :: desk_config where
  "demo_config = \<lparr> dc_slot = demo_slot, dc_proxy_slot = demo_slot, dc_tunnel_file = None, dc_app = None, dc_watch = (None, None),
     dc_nonces = {} \<rparr>"

lemma demo_clean: "clean_secret ''tok''"
  by code_simp

theorem watch_settings_ok_witness:
  "\<exists>u t. dc_watch (snd (tunnel_config_set demo demo_url_codec demo_cmd (Some ''wss://a'') (Some ''tok'') demo_config)) = (Some u, Some t)
     \<and> list_all ws_scheme (split_endpoints u)"
proof -
  let ?d = "snd (tunnel_config_set demo demo_url_codec demo_cmd (Some ''wss://a'') (Some ''tok'') demo_config)"
  have 1: "dc_watch demo_config = fst (tunnel_config_load demo demo_url_codec demo_cred_env demo_config)" by code_simp
  have 2: "(desk_step demo demo_url_codec (\<lambda>_ _ _. None))\<^sup>*\<^sup>* demo_config ?d"
    by (rule r_into_rtranclp, rule desk_step.config_set)
  have "dc_watch ?d \<noteq> (None, None)" by code_simp
  with watch_settings_ok [OF 1 2] show ?thesis by (auto simp: list_all_iff)
qed

theorem cred_set_survives_witness:
  "fst (cred_get demo demo_cred_env (snd (cred_set demo demo_cred_env ''tunnel_token_save'' ''tok'' demo_slot))) = Inr (Some ''tok'')"
proof -
  have "cred_set demo demo_cred_env ''tunnel_token_save'' ''tok'' demo_slot =
      (Inr (), snd (cred_set demo demo_cred_env ''tunnel_token_save'' ''tok'' demo_slot))" by code_simp
  from cred_set_survives [OF this demo_clean, of "[]" demo_cred_env] show ?thesis
    by (simp add: readable_def demo_cred_env_def)
qed


end
