(* ===== verification/DesktopState.thy ===== *)
theory DesktopState
  imports DesktopCreds Whitelist
begin

text \<open>
  The rest of the desktop client's state (\<open>desktop/src-tauri/src/lib.rs\<close>): saving the white list,
  the statistics of traffic kept over days and restarts, and switching the proxy of the system on
  and off.  The file system, the clock, the engine's socket and the settings of the operating
  system are parameters.
\<close>

section \<open>White list\<close>

definition SEED :: "string list" where
  "SEED = [''github.com'', ''githubusercontent.com'', ''google.com'', ''youtube.com'', ''googlevideo.com'', ''githubassets.com'',
     ''googleusercontent.com'', ''gstatic.com'', ''googleapis.com'', ''ytimg.com'', ''ggpht.com'', ''openai.com'', ''chatgpt.com'',
     ''anthropic.com'', ''claude.ai'']"

definition ALWAYS_TUNNEL :: "string list" where
  "ALWAYS_TUNNEL = [''github.com'', ''githubusercontent.com'']"

datatype whitelist_error = InvalidDomain string | BypassHost string | AlreadyCovered string "string option" | WhitelistIo string

definition desk_valid_label :: "string \<Rightarrow> bool" where
  "desk_valid_label p \<longleftrightarrow> p \<noteq> [] \<and> length p \<le> 63 \<and> is_ascii_alphanumeric (hd p) \<and> is_ascii_alphanumeric (last p)
     \<and> list_all (\<lambda>b. is_ascii_alphanumeric b \<or> b = CHR ''-'') p"

definition is_valid_domain :: "string \<Rightarrow> bool" where
  "is_valid_domain e =
     (let parts = split_on (CHR ''.'') e in
      e \<noteq> [] \<and> length e \<le> 253 \<and> \<not> list_ex (\<lambda>c. c \<in> set e) [CHR ''_'', CHR ''*'', CHR '':'', CHR ''/'', CHR ''?'', CHR ''#'', CHR '' '']
      \<and> 2 \<le> length parts \<and> list_all desk_valid_label parts \<and> list_all is_ascii_alphabetic (last parts) \<and> 2 \<le> length (last parts))"

definition lib_suffix_match :: "string \<Rightarrow> string \<Rightarrow> bool" where
  "lib_suffix_match host entry =
     (let h = to_ascii_lowercase host; e = to_ascii_lowercase entry in h = e \<or> ends_with (CHR ''.'' # e) h)"

definition normalize_entries :: "string list \<Rightarrow> string list" where
  "normalize_entries entries = remdups (sort (filter (\<lambda>s. s \<noteq> []) (map wl_normalize_host entries)))"

text \<open>A bypass name that an entry would send through the tunnel.\<close>

definition bypass_hit :: "string list \<Rightarrow> string \<Rightarrow> bool" where
  "bypass_hit normalized b \<longleftrightarrow>
     list_ex (\<lambda>e. e = b) normalized \<or> list_ex (\<lambda>e. lib_suffix_match b e) normalized \<or> matches b normalized"

definition covered_error :: "string list \<Rightarrow> string \<Rightarrow> whitelist_error option" where
  "covered_error existing e =
     (if e \<notin> set existing \<and> matches e existing
      then Some (AlreadyCovered e (find (\<lambda>c. matches e [c]) existing)) else None)"

definition minimal_step :: "string list \<Rightarrow> string \<Rightarrow> string list" where
  "minimal_step minimal cand =
     (if matches cand minimal then minimal
      else filter (\<lambda>ex. \<not> matches ex [cand]) minimal @ [cand])"

text \<open>Sorted by length and then by the bytes.\<close>

definition minimal_set :: "string list \<Rightarrow> string list" where
  "minimal_set normalized = sort (foldl minimal_step [] (sort_key length (sort normalized)))"

record whitelist_state =
  wl_file :: "string list option"
  wl_watch :: "string list option"

definition current_whitelist :: "whitelist_state \<Rightarrow> string list" where
  "current_whitelist st =
     (case wl_watch st of Some w \<Rightarrow> w | None \<Rightarrow> (case wl_file st of Some w \<Rightarrow> w | None \<Rightarrow> SEED))"

definition find_map :: "('a \<Rightarrow> 'b option) \<Rightarrow> 'a list \<Rightarrow> 'b option" where
  "find_map f xs = (case List.map_filter f xs of [] \<Rightarrow> None | y # _ \<Rightarrow> Some y)"

definition proxy_whitelist_set ::
  "string list \<Rightarrow> string option \<Rightarrow> string list \<Rightarrow> whitelist_state \<Rightarrow> (whitelist_error + unit) \<times> whitelist_state" where
  "proxy_whitelist_set bypass io entries st =
     (let normalized = normalize_entries entries; existing = current_whitelist st in
      case find (\<lambda>e. \<not> is_valid_domain e) normalized of
        Some e \<Rightarrow> (Inl (InvalidDomain e), st)
      | None \<Rightarrow>
     (case find (bypass_hit normalized) bypass of
        Some b \<Rightarrow> (Inl (BypassHost b), st)
      | None \<Rightarrow>
     (case find_map (covered_error existing) normalized of
        Some e \<Rightarrow> (Inl e, st)
      | None \<Rightarrow>
     (case io of
        Some e \<Rightarrow> (Inl (WhitelistIo e), st)
      | None \<Rightarrow> (Inr (), st\<lparr> wl_file := Some (minimal_set normalized), wl_watch := Some (minimal_set normalized) \<rparr>)))))"

section \<open>Traffic\<close>

record bucket =
  bk_reqs :: nat
  bk_up :: nat
  bk_down :: nat

record buckets =
  bs_cf :: bucket
  bs_vercel :: bucket
  bs_rn :: bucket
  bs_upstream :: bucket

definition zip_bucket :: "(nat \<Rightarrow> nat \<Rightarrow> nat) \<Rightarrow> bucket \<Rightarrow> bucket \<Rightarrow> bucket" where
  "zip_bucket f a b = \<lparr> bk_reqs = f (bk_reqs a) (bk_reqs b), bk_up = f (bk_up a) (bk_up b), bk_down = f (bk_down a) (bk_down b) \<rparr>"

definition zip_buckets :: "(nat \<Rightarrow> nat \<Rightarrow> nat) \<Rightarrow> buckets \<Rightarrow> buckets \<Rightarrow> buckets" where
  "zip_buckets f a b = \<lparr> bs_cf = zip_bucket f (bs_cf a) (bs_cf b), bs_vercel = zip_bucket f (bs_vercel a) (bs_vercel b),
     bs_rn = zip_bucket f (bs_rn a) (bs_rn b), bs_upstream = zip_bucket f (bs_upstream a) (bs_upstream b) \<rparr>"

definition no_bucket :: bucket where
  "no_bucket = \<lparr> bk_reqs = 0, bk_up = 0, bk_down = 0 \<rparr>"

definition no_buckets :: buckets where
  "no_buckets = \<lparr> bs_cf = no_bucket, bs_vercel = no_bucket, bs_rn = no_bucket, bs_upstream = no_bucket \<rparr>"

record traffic_persist =
  tp_date :: string
  tp_today :: buckets
  tp_total :: buckets
  tp_history :: "(string \<times> buckets) list"
  tp_hourly :: "(string \<times> buckets) list"

definition no_traffic :: traffic_persist where
  "no_traffic = \<lparr> tp_date = [], tp_today = no_buckets, tp_total = no_buckets, tp_history = [], tp_hourly = [] \<rparr>"

text \<open>\<open>TRAFFIC_STATE\<close>, \<open>TRAFFIC_BASE\<close> and the file, when it can be read.\<close>

record traffic_state =
  ts_state :: "traffic_persist option"
  ts_base :: "buckets option"
  ts_disk :: "traffic_persist option"

definition keep_last :: "nat \<Rightarrow> 'a list \<Rightarrow> 'a list" where
  "keep_last n xs = drop (length xs - n) xs"

definition roll_day :: "string \<Rightarrow> traffic_persist \<Rightarrow> traffic_persist" where
  "roll_day today st =
     (if tp_date st \<noteq> today then
        (let st = (if tp_date st \<noteq> [] \<and> tp_today st \<noteq> no_buckets
                   then st\<lparr> tp_history := keep_last 6 (tp_history st @ [(tp_date st, tp_today st)]) \<rparr> else st)
         in st\<lparr> tp_date := today, tp_today := no_buckets \<rparr>)
      else st)"

definition roll_hour :: "string \<Rightarrow> traffic_persist \<Rightarrow> traffic_persist" where
  "roll_hour hour st =
     (if tp_hourly st = [] \<or> fst (last (tp_hourly st)) \<noteq> hour
      then st\<lparr> tp_hourly := keep_last 24 (tp_hourly st @ [(hour, no_buckets)]) \<rparr> else st)"

definition add_traffic :: "buckets \<Rightarrow> traffic_persist \<Rightarrow> traffic_persist" where
  "add_traffic delta st =
     (if delta = no_buckets then st
      else st\<lparr> tp_today := zip_buckets wrap_add64 (tp_today st) delta, tp_total := zip_buckets wrap_add64 (tp_total st) delta,
               tp_hourly := (if tp_hourly st = [] then []
                 else butlast (tp_hourly st) @ [(fst (last (tp_hourly st)), zip_buckets wrap_add64 (snd (last (tp_hourly st))) delta)]) \<rparr>)"

text \<open>\<open>cur\<close> are the engine's counters at the time.\<close>

definition traffic_snapshot :: "string \<Rightarrow> string \<Rightarrow> buckets \<Rightarrow> traffic_state \<Rightarrow> traffic_persist \<times> traffic_state" where
  "traffic_snapshot today hour cur ts =
     (let st = (case ts_state ts of Some s \<Rightarrow> s | None \<Rightarrow> (case ts_disk ts of Some s \<Rightarrow> s | None \<Rightarrow> no_traffic));
          st = roll_hour hour (roll_day today st);
          base = (case ts_base ts of Some b \<Rightarrow> b | None \<Rightarrow> cur);
          st = add_traffic (zip_buckets (-) cur base) st
      in (st, ts\<lparr> ts_state := Some st, ts_base := Some cur \<rparr>))"

definition traffic_flush :: "bool \<Rightarrow> string \<Rightarrow> string \<Rightarrow> buckets \<Rightarrow> traffic_state \<Rightarrow> traffic_state" where
  "traffic_flush written today hour cur ts =
     (case traffic_snapshot today hour cur ts of (snap, ts) \<Rightarrow> if written then ts\<lparr> ts_disk := Some snap \<rparr> else ts)"

text \<open>One call: the time, the counters, and whether and how the file is written.\<close>

type_synonym traffic_call = "bool \<times> bool \<times> string \<times> string \<times> buckets"

definition traffic_call_step :: "traffic_state \<Rightarrow> traffic_call \<Rightarrow> traffic_state" where
  "traffic_call_step ts c =
     (case c of (flush, written, today, hour, cur) \<Rightarrow>
        if flush then traffic_flush written today hour cur ts else snd (traffic_snapshot today hour cur ts))"

section \<open>On and off\<close>

function trim_start_matches :: "string \<Rightarrow> string \<Rightarrow> string" where
  "trim_start_matches p s =
     (if p = [] then s else (case strip_prefix p s of Some r \<Rightarrow> trim_start_matches p r | None \<Rightarrow> s))"
  by auto
termination by (relation "measure (length \<circ> snd)") auto

datatype switch_error = RemoteMissing | CredUnreadable desk_error | TunnelMissing | EngineNotReady | SysProxy string

text \<open>An upstream is host, user and password.  \<open>'snap\<close> is what the operating system's settings were before.\<close>

type_synonym chain_proxy = "string \<times> string \<times> string"

record 'snap switch_state =
  sw_on :: bool
  sw_snapshot :: "'snap option"
  sw_task :: bool
  sw_upstream :: "chain_proxy option"
  sw_config :: desk_config
  sw_whitelist :: whitelist_state

text \<open>What a command meets: the key ring and files in its readings, the errors of the settings file, whether the
  listener answers in time, and what the operating system says.\<close>

record 'snap switch_env =
  sv_tunnel_cred :: cred_env
  sv_proxy_cred :: cred_env
  sv_load :: cred_env
  sv_detail :: cred_env
  sv_app_io :: "string option"
  sv_listener :: bool
  sv_enable :: "string + 'snap"
  sv_disable :: "string option"
  sv_rescue :: "string option"

definition with_always :: "string list \<Rightarrow> string list" where
  "with_always wl = foldl (\<lambda>w h. if h \<in> set w then w else w @ [h]) wl ALWAYS_TUNNEL"

definition app_str :: "string \<Rightarrow> string \<Rightarrow> desk_config \<Rightarrow> string" where
  "app_str k dflt d = (case Option.bind (dc_app d) (str_of k) of Some v \<Rightarrow> v | None \<Rightarrow> dflt)"

definition read_secret :: "crypto \<Rightarrow> cred_env \<Rightarrow> cred_slot \<Rightarrow> string option" where
  "read_secret K E s = (case fst (cred_get K E s) of Inr v \<Rightarrow> v | Inl _ \<Rightarrow> None)"

text \<open>Falling back to the tunnel when the remote proxy is not really set up.\<close>

definition effective_mode :: "crypto \<Rightarrow> 'snap switch_env \<Rightarrow> desk_config \<Rightarrow> string \<times> desk_config" where
  "effective_mode K V d =
     (let mode_type = app_str ''mode_type'' ''direct'' d; raw_host = trim_str (app_str ''remote_host'' [] d) in
      if mode_type = ''chained'' \<and> (raw_host = [] \<or> starts_with ''127.0.0.1:'' raw_host)
         \<and> read_secret K (sv_tunnel_cred V) (dc_slot d) \<noteq> None
         \<and> (case read_secret K (sv_proxy_cred V) (dc_proxy_slot d) of Some p \<Rightarrow> p = [] | None \<Rightarrow> True)
      then (''direct'', snd (app_config_set (sv_app_io V) (JObject [(''mode_type'', JString ''direct'')]) d))
      else (mode_type, d))"

definition chained_upstream :: "crypto \<Rightarrow> 'snap switch_env \<Rightarrow> desk_config \<Rightarrow> switch_error + chain_proxy" where
  "chained_upstream K V d =
     (let raw_host = trim_str (app_str ''remote_host'' [] d) in
      if raw_host = [] then Inl RemoteMissing
      else (let bare = trim_end_matches (CHR ''/'') (trim_start_matches ''http://'' (trim_start_matches ''https://'' raw_host));
                host = (if CHR '':'' \<in> set bare then bare else bare @ '':8899'')
            in Inr (host, trim_str (app_str ''username'' [] d),
                 case read_secret K (sv_proxy_cred V) (dc_proxy_slot d) of Some p \<Rightarrow> p | None \<Rightarrow> [])))"

definition start_engine ::
  "'snap switch_env \<Rightarrow> string list \<Rightarrow> chain_proxy option \<Rightarrow> 'snap switch_state \<Rightarrow> (switch_error + unit) \<times> 'snap switch_state" where
  "start_engine V wl upstream st =
     (let st = st\<lparr> sw_whitelist := (sw_whitelist st)\<lparr> wl_watch := Some wl \<rparr>, sw_upstream := upstream, sw_task := True \<rparr> in
      if \<not> sv_listener V then (Inl EngineNotReady, st\<lparr> sw_task := False \<rparr>)
      else (case sv_enable V of
              Inl e \<Rightarrow> (Inl (SysProxy e), st)
            | Inr snap \<Rightarrow> (Inr (), st\<lparr> sw_snapshot := Some snap, sw_on := True \<rparr>)))"

definition proxy_enable_inner ::
  "crypto \<Rightarrow> desk_codec \<Rightarrow> 'snap switch_env \<Rightarrow> 'snap switch_state \<Rightarrow> (switch_error + unit) \<times> 'snap switch_state" where
  "proxy_enable_inner K J V st =
     (if sw_on st then (Inr (), st)
      else (let wl = with_always (current_whitelist (sw_whitelist st)) in
        case effective_mode K V (sw_config st) of (mode_type, d) \<Rightarrow>
          if mode_type = ''chained'' then
            (case chained_upstream K V d of
               Inl e \<Rightarrow> (Inl e, st\<lparr> sw_config := d \<rparr>)
             | Inr u \<Rightarrow> start_engine V wl (Some u) (st\<lparr> sw_config := d \<rparr>))
          else (case tunnel_config_load K J (sv_load V) d of (settings, d) \<Rightarrow>
            if wl \<noteq> [] \<and> (fst settings = None \<or> snd settings = None)
            then (Inl (case fst (cred_get K (sv_tunnel_cred V) (dc_slot d)) of Inl e \<Rightarrow> CredUnreadable e | Inr _ \<Rightarrow> TunnelMissing),
                  st\<lparr> sw_config := d \<rparr>)
            else start_engine V wl None (st\<lparr> sw_config := tunnel_watch_send_fresh K J (sv_load V) (sv_detail V) d \<rparr>))))"

definition proxy_disable_inner :: "'snap switch_env \<Rightarrow> 'snap switch_state \<Rightarrow> (switch_error + unit) \<times> 'snap switch_state" where
  "proxy_disable_inner V st =
     (case (sw_snapshot st, sv_disable V) of
        (Some _, Some e) \<Rightarrow> (Inl (SysProxy e), st)
      | _ \<Rightarrow> (Inr (), st\<lparr> sw_snapshot := None, sw_on := False \<rparr>))"

definition proxy_rescue :: "'snap switch_env \<Rightarrow> 'snap switch_state \<Rightarrow> (switch_error + unit) \<times> 'snap switch_state" where
  "proxy_rescue V st =
     (case sv_rescue V of
        Some e \<Rightarrow> (Inl (SysProxy e), st)
      | None \<Rightarrow> (Inr (), st\<lparr> sw_on := False, sw_snapshot := None \<rparr>))"

inductive switch_step :: "crypto \<Rightarrow> desk_codec \<Rightarrow> 'snap switch_state \<Rightarrow> 'snap switch_state \<Rightarrow> bool" for K J where
  enable: "switch_step K J st (snd (proxy_enable_inner K J V st))"
| disable: "switch_step K J st (snd (proxy_disable_inner V st))"
| rescue: "switch_step K J st (snd (proxy_rescue V st))"
| config: "switch_step K J st (st\<lparr> sw_config := d, sw_whitelist := w \<rparr>)"

inductive_cases switch_stepE: "switch_step K J st st'"

section \<open>Lemmas\<close>

subsection \<open>White list\<close>

definition hit :: "string \<Rightarrow> string \<Rightarrow> bool" where
  "hit h e \<longleftrightarrow> wl_suffix_match h e \<or> alias_match h e"

lemma matches_iff:
  "matches host es \<longleftrightarrow> wl_normalize_host host \<noteq> []
     \<and> (\<exists>e \<in> set BUILTIN_GFW_DOMAINS \<union> set es. hit (wl_normalize_host host) (wl_normalize_host e))"
  by (auto simp: matches_def hit_def list_ex_iff Let_def)

lemma wl_suffix_match_trans: "wl_suffix_match h e \<Longrightarrow> wl_suffix_match e f \<Longrightarrow> wl_suffix_match h f"
  by (auto simp: wl_suffix_match_iff ends_with_iff)

lemma region_below: "wl_suffix_match h e \<Longrightarrow> google_region e \<Longrightarrow> google_region h"
proof -
  assume h: "wl_suffix_match h e" and e: "google_region e"
  from e obtain base tld where r: "rsplit_once (CHR ''.'') e = Some (base, tld)"
    and t: "length tld = 2 \<or> length tld = 3" "list_all is_ascii_lower tld" "wl_suffix_match base ''google.com''"
    by (auto simp: google_region_def split: option.splits)
  from r have e': "e = base @ CHR ''.'' # tld" "CHR ''.'' \<notin> set tld" by (auto simp: rsplit_once_Some_iff)
  from h consider "h = e" | q where "h = q @ CHR ''.'' # e" by (auto simp: wl_suffix_match_iff ends_with_iff)
  then show ?thesis
  proof cases
    case 1
    with e show ?thesis by simp
  next
    case 2
    have "rsplit_once (CHR ''.'') h = Some (q @ CHR ''.'' # base, tld)" using 2 e' by (simp add: rsplit_once_Some_iff)
    moreover have "wl_suffix_match (q @ CHR ''.'' # base) base" using t(3) by (auto simp: wl_suffix_match_iff ends_with_iff)
    ultimately show ?thesis using t(1,2) wl_suffix_match_trans [OF _ t(3)] unfolding google_region_def by (simp only: option.case prod.case)
  qed
qed

text \<open>What a covered entry lets through is let through by the one that covers it, or by the built-in
  list.\<close>

lemma alias_only_google: "alias_match h e \<Longrightarrow> e = ''google.com''"
  by (rule ccontr) (simp add: alias_match_def aliases_for_def)

lemma alias_below: "wl_suffix_match h e \<Longrightarrow> alias_match e f \<Longrightarrow> alias_match h f"
  unfolding alias_match_iff using wl_suffix_match_trans region_below by blast

lemma hit_trans: "hit h e \<Longrightarrow> hit e f \<Longrightarrow> hit h f \<or> hit h ''google.com''"
proof -
  assume h: "hit h e" and e: "hit e f"
  show ?thesis
  proof (cases "wl_suffix_match h e")
    case True
    from e have "wl_suffix_match h f \<or> alias_match h f"
      unfolding hit_def using wl_suffix_match_trans [OF True] alias_below [OF True] by blast
    then show ?thesis unfolding hit_def by blast
  next
    case False
    with h have "alias_match h e" unfolding hit_def by blast
    from alias_only_google [OF this] h show ?thesis by blast
  qed
qed

definition covers :: "string list \<Rightarrow> string \<Rightarrow> bool" where
  "covers es h \<longleftrightarrow> (\<exists>e \<in> set BUILTIN_GFW_DOMAINS \<union> set es. hit h e)"

lemma builtin_normal: "map wl_normalize_host BUILTIN_GFW_DOMAINS = BUILTIN_GFW_DOMAINS" "''google.com'' \<in> set BUILTIN_GFW_DOMAINS"
  by code_simp+

lemma matches_covers: "\<forall>e \<in> set es. wl_normalize_host e = e \<Longrightarrow> matches host es \<longleftrightarrow> wl_normalize_host host \<noteq> [] \<and> covers es (wl_normalize_host host)"
proof -
  assume n: "\<forall>e \<in> set es. wl_normalize_host e = e"
  have "wl_normalize_host e = e" if "e \<in> set BUILTIN_GFW_DOMAINS" for e
    using builtin_normal(1) that by (metis map_eq_conv map_ident list.map_ident)
  with n have "(\<exists>e \<in> set BUILTIN_GFW_DOMAINS \<union> set es. hit h (wl_normalize_host e)) \<longleftrightarrow> covers es h" for h
    unfolding covers_def by (intro bex_cong) auto
  then show ?thesis unfolding matches_iff by blast
qed

lemma covers_trans: "covers es e \<Longrightarrow> hit h e \<Longrightarrow> covers es h"
  unfolding covers_def using hit_trans [of h e] builtin_normal(2) by blast

lemma covers_mono: "set es \<subseteq> set fs \<Longrightarrow> covers es h \<Longrightarrow> covers fs h"
  unfolding covers_def by blast

text \<open>An entry of the list is covered by it.\<close>

lemma covers_member: "e \<in> set es \<Longrightarrow> e \<noteq> [] \<Longrightarrow> covers es e"
  unfolding covers_def hit_def by (auto simp: wl_suffix_match_iff)

lemma minimal_step_covers:
  assumes "\<forall>e \<in> set (cand # es). wl_normalize_host e = e \<and> e \<noteq> []"
  shows "covers (minimal_step es cand) h \<longleftrightarrow> covers (cand # es) h"
proof (cases "matches cand es")
  case True
  then have "covers es cand" using assms by (simp add: matches_covers)
  then have "covers (cand # es) h \<Longrightarrow> covers es h"
    using covers_trans [of es cand h] by (auto simp: covers_def)
  moreover have "covers es h \<Longrightarrow> covers (cand # es) h" by (rule covers_mono [of es]) auto
  ultimately show ?thesis using True by (auto simp: minimal_step_def)
next
  case False
  let ?r = "filter (\<lambda>ex. \<not> matches ex [cand]) es @ [cand]"
  have "covers ?r h" if c: "covers (cand # es) h"
  proof -
    from c consider "covers [cand] h" | e where "e \<in> set es" "hit h e" by (auto simp: covers_def)
    then show ?thesis
    proof cases
      case 1
      then show ?thesis by (rule covers_mono [rotated]) simp
    next
      case 2
      show ?thesis
      proof (cases "matches e [cand]")
        case True
        then have "covers [cand] e" using assms 2(1) by (simp add: matches_covers)
        with 2(2) have "covers [cand] h" by (rule covers_trans [rotated])
        then show ?thesis by (rule covers_mono [rotated]) simp
      next
        case f: False
        with 2 show ?thesis by (auto simp: covers_def)
      qed
    qed
  qed
  moreover have "covers ?r h \<Longrightarrow> covers (cand # es) h" by (rule covers_mono [of ?r]) auto
  ultimately show ?thesis using False by (auto simp: minimal_step_def)
qed

lemma set_minimal_step: "set (minimal_step es c) \<subseteq> insert c (set es)"
  by (auto simp: minimal_step_def)

lemma minimal_fold_covers:
  "\<forall>e \<in> set cs \<union> set es. wl_normalize_host e = e \<and> e \<noteq> [] \<Longrightarrow> covers (foldl minimal_step es cs) h \<longleftrightarrow> covers (cs @ es) h"
proof (induction cs arbitrary: es)
  case (Cons c cs)
  have "covers (foldl minimal_step (minimal_step es c) cs) h \<longleftrightarrow> covers (cs @ minimal_step es c) h"
    using Cons.prems set_minimal_step [of es c] by (intro Cons.IH) auto
  also have "\<dots> \<longleftrightarrow> covers (c # cs @ es) h"
    using minimal_step_covers [of c es h] Cons.prems by (auto simp: covers_def)
  finally show ?case by simp
qed simp

lemma set_minimal_fold: "set (foldl minimal_step es cs) \<subseteq> set es \<union> set cs"
  using set_minimal_step by (induction cs arbitrary: es) fastforce+


lemma set_split_on: "c \<in> set s \<Longrightarrow> c = d \<or> (\<exists>p \<in> set (split_on d s). c \<in> set p)"
proof (induction s)
  case (Cons x s)
  show ?case
  proof (cases "x = d")
    case True
    with Cons show ?thesis by (cases "split_on d s") auto
  next
    case False
    with Cons show ?thesis by (cases "split_on d s") auto
  qed
qed simp

lemma valid_domain_graphic: "is_valid_domain e \<Longrightarrow> c \<in> set e \<Longrightarrow> graphic c"
proof -
  assume v: "is_valid_domain e" and c: "c \<in> set e"
  have "is_ascii_alphanumeric c \<or> c = CHR ''-'' \<or> c = CHR ''.''"
    using set_split_on [OF c, of "CHR ''.''"] v
    by (auto simp: is_valid_domain_def desk_valid_label_def list_all_iff Let_def)
  then show ?thesis by (auto simp: graphic_def ascii_defs byte_def)
qed

lemma normalize_valid: "is_valid_domain (wl_normalize_host x) \<Longrightarrow> wl_normalize_host (wl_normalize_host x) = wl_normalize_host x"
proof -
  assume "is_valid_domain (wl_normalize_host x)"
  then have "trim_str (wl_normalize_host x) = wl_normalize_host x" using valid_domain_graphic by (intro trim_str_graphic) blast
  then have "wl_normalize_host (wl_normalize_host x) = trim_end_matches (CHR ''.'') (to_ascii_lowercase (wl_normalize_host x))"
    by (simp add: wl_normalize_host_def [of "wl_normalize_host x"])
  also have "\<dots> = wl_normalize_host x" by (simp only: lower_normalize_host) (simp add: wl_normalize_host_def)
  finally show ?thesis .
qed

lemma set_normalize_entries: "set (normalize_entries es) = wl_normalize_host ` set es - {[]}"
  by (auto simp: normalize_entries_def)

lemma not_hit_Nil: "\<not> hit h []"
  unfolding hit_def using alias_only_google [of h "[]"] by (auto simp: wl_suffix_match_iff)

lemma matches_normalized:
  assumes "\<forall>e \<in> set (normalize_entries es). is_valid_domain e"
  shows "(\<forall>e \<in> set (normalize_entries es). wl_normalize_host e = e \<and> e \<noteq> [])
    \<and> (matches host (normalize_entries es) \<longleftrightarrow> matches host es)"
proof -
  have n: "\<forall>e \<in> set (normalize_entries es). wl_normalize_host e = e \<and> e \<noteq> []"
    using assms normalize_valid by (auto simp: set_normalize_entries)
  then have "(\<exists>e \<in> set (normalize_entries es). hit h (wl_normalize_host e)) \<longleftrightarrow> (\<exists>e \<in> set (normalize_entries es). hit h e)" for h
    by (intro bex_cong) auto
  also have "\<dots> h \<longleftrightarrow> (\<exists>e \<in> set es. hit h (wl_normalize_host e))" for h
    using not_hit_Nil [of h] by (auto simp: set_normalize_entries)
  finally have "(\<exists>e \<in> set (normalize_entries es). hit h (wl_normalize_host e)) \<longleftrightarrow> (\<exists>e \<in> set es. hit h (wl_normalize_host e))" for h .
  then have "matches host (normalize_entries es) \<longleftrightarrow> matches host es" unfolding matches_iff bex_Un by blast
  with n show ?thesis by blast
qed

text \<open>No entry is covered by the built-in list or by the other entries.\<close>

definition irredundant :: "string list \<Rightarrow> bool" where
  "irredundant es \<longleftrightarrow> (\<forall>e \<in> set es. \<not> covers (removeAll e es) e)"

lemma covers_append: "covers (a @ b) h \<longleftrightarrow> covers a h \<or> covers b h"
  unfolding covers_def by auto

lemma irredundant_step:
  assumes "irredundant es" "\<forall>e \<in> set (cand # es). wl_normalize_host e = e \<and> e \<noteq> []"
  shows "irredundant (minimal_step es cand)"
proof (cases "matches cand es")
  case True
  with assms(1) show ?thesis by (simp add: minimal_step_def)
next
  case False
  then have nc: "\<not> covers es cand" using assms(2) by (simp add: matches_covers)
  let ?k = "filter (\<lambda>ex. \<not> matches ex [cand]) es"
  have "\<not> covers (removeAll e (?k @ [cand])) e" if e: "e \<in> set (?k @ [cand])" for e
  proof (cases "e = cand")
    case True
    have "set (removeAll cand (?k @ [cand])) \<subseteq> set es" by auto
    with nc True show ?thesis using covers_mono by blast
  next
    case ne: False
    with e have e': "e \<in> set es" "\<not> matches e [cand]" by auto
    then have "\<not> covers [cand] e" using assms(2) by (simp add: matches_covers)
    moreover have "\<not> covers (removeAll e ?k) e"
      using assms(1) e'(1) covers_mono [of "removeAll e ?k" "removeAll e es" e] by (auto simp: irredundant_def)
    ultimately show ?thesis using ne by (simp add: covers_append)
  qed
  then show ?thesis using False by (auto simp: minimal_step_def irredundant_def)
qed

lemma irredundant_fold:
  "irredundant es \<Longrightarrow> \<forall>e \<in> set cs \<union> set es. wl_normalize_host e = e \<and> e \<noteq> [] \<Longrightarrow> irredundant (foldl minimal_step es cs)"
proof (induction cs arbitrary: es)
  case (Cons c cs)
  have "irredundant (minimal_step es c)" using Cons.prems by (intro irredundant_step) auto
  with Cons.prems set_minimal_step [of es c] show ?case by (simp, intro Cons.IH) auto
qed simp

lemma covers_set: "set a = set b \<Longrightarrow> covers a h \<longleftrightarrow> covers b h"
  by (simp add: covers_def)

lemma irredundant_set: "set a = set b \<Longrightarrow> irredundant a \<longleftrightarrow> irredundant b"
  unfolding irredundant_def using covers_set [of "removeAll _ a" "removeAll _ b"] by (metis set_removeAll)

lemma minimal_set_props:
  assumes "\<forall>e \<in> set es. wl_normalize_host e = e \<and> e \<noteq> []"
  shows "set (minimal_set es) \<subseteq> set es" "covers (minimal_set es) h \<longleftrightarrow> covers es h" "irredundant (minimal_set es)"
    "sorted (minimal_set es)"
proof -
  let ?cs = "sort_key length (sort es)"
  have s: "set (minimal_set es) = set (foldl minimal_step [] ?cs)" by (simp add: minimal_set_def)
  show "set (minimal_set es) \<subseteq> set es" using set_minimal_fold [of "[]" ?cs] s by simp
  show "covers (minimal_set es) h \<longleftrightarrow> covers es h"
    using minimal_fold_covers [of ?cs "[]" h] assms covers_set [OF s] covers_set [of ?cs es] by simp
  show "irredundant (minimal_set es)"
    using irredundant_fold [of "[]" ?cs] assms irredundant_set [OF s] by (simp add: irredundant_def)
  show "sorted (minimal_set es)" by (simp add: minimal_set_def)
qed


subsection \<open>Traffic\<close>

lemma zip_bucket_sel [simp]:
  "bk_reqs (zip_bucket f a b) = f (bk_reqs a) (bk_reqs b)" "bk_up (zip_bucket f a b) = f (bk_up a) (bk_up b)"
  "bk_down (zip_bucket f a b) = f (bk_down a) (bk_down b)"
  by (simp_all add: zip_bucket_def)

lemma zip_buckets_sel [simp]:
  "bs_cf (zip_buckets f a b) = zip_bucket f (bs_cf a) (bs_cf b)" "bs_vercel (zip_buckets f a b) = zip_bucket f (bs_vercel a) (bs_vercel b)"
  "bs_rn (zip_buckets f a b) = zip_bucket f (bs_rn a) (bs_rn b)" "bs_upstream (zip_buckets f a b) = zip_bucket f (bs_upstream a) (bs_upstream b)"
  by (simp_all add: zip_buckets_def)

lemma no_bucket_sel [simp]: "bk_reqs no_bucket = 0" "bk_up no_bucket = 0" "bk_down no_bucket = 0"
  by (simp_all add: no_bucket_def)

lemma no_buckets_sel [simp]:
  "bs_cf no_buckets = no_bucket" "bs_vercel no_buckets = no_bucket" "bs_rn no_buckets = no_bucket" "bs_upstream no_buckets = no_bucket"
  by (simp_all add: no_buckets_def)

text \<open>The twelve counters by name.\<close>

definition counters :: "buckets \<Rightarrow> nat list" where
  "counters b = concat (map (\<lambda>x. [bk_reqs x, bk_up x, bk_down x]) [bs_cf b, bs_vercel b, bs_rn b, bs_upstream b])"

lemma counters_zip: "counters (zip_buckets f a b) = map2 f (counters a) (counters b)"
  by (simp add: counters_def)

lemma counters_no [simp]: "counters no_buckets = replicate 12 0"
  by (simp add: counters_def numeral_eq_Suc)

lemma length_counters [simp]: "length (counters b) = 12"
  by (simp add: counters_def)

lemma counters_inject: "counters a = counters b \<longleftrightarrow> a = b"
  by (auto simp: counters_def intro!: buckets.equality bucket.equality)

definition bounded :: "traffic_persist \<Rightarrow> bool" where
  "bounded p \<longleftrightarrow> length (tp_history p) \<le> 6 \<and> length (tp_hourly p) \<le> 24"

lemma length_keep_last: "length (keep_last n xs) \<le> n"
  by (simp add: keep_last_def)

lemma bounded_roll: "bounded p \<Longrightarrow> bounded (roll_hour hour (roll_day today p))"
  using length_keep_last by (auto simp: bounded_def roll_hour_def roll_day_def Let_def)

lemma bounded_add: "bounded p \<Longrightarrow> bounded (add_traffic delta p)"
  by (auto simp: bounded_def add_traffic_def)

lemma roll_total [simp]: "tp_total (roll_hour hour (roll_day today p)) = tp_total p"
  by (simp add: roll_hour_def roll_day_def Let_def)

definition loaded :: "traffic_state \<Rightarrow> traffic_persist" where
  "loaded ts = (case ts_state ts of Some s \<Rightarrow> s | None \<Rightarrow> (case ts_disk ts of Some s \<Rightarrow> s | None \<Rightarrow> no_traffic))"

lemma snapshot_eq:
  "traffic_snapshot today hour cur ts =
     (let st = add_traffic (zip_buckets (-) cur (case ts_base ts of Some b \<Rightarrow> b | None \<Rightarrow> cur)) (roll_hour hour (roll_day today (loaded ts)))
      in (st, ts\<lparr> ts_state := Some st, ts_base := Some cur \<rparr>))"
  by (simp add: traffic_snapshot_def loaded_def Let_def)

lemma add_traffic_total:
  assumes "list_all2 (\<lambda>a d. a + d \<le> u64_max) (counters (tp_total p)) (counters delta)"
  shows "counters (tp_total (add_traffic delta p)) = map2 (+) (counters (tp_total p)) (counters delta)"
proof (cases "delta = no_buckets")
  case True
  then show ?thesis by (simp add: add_traffic_def list_eq_iff_nth_eq)
next
  case False
  have "map2 wrap_add64 xs ys = map2 (+) xs ys" if "list_all2 (\<lambda>a d. a + d \<le> u64_max) xs ys" for xs ys
    using that by (induction rule: list_all2_induct) simp_all
  with assms False show ?thesis by (simp add: add_traffic_def counters_zip)
qed

text \<open>A call as a whole: whatever it writes, the state is the snapshot and the base the counters.\<close>

lemma call_step:
  "\<exists>disk. traffic_call_step ts (flush, written, today, hour, cur) =
     (snd (traffic_snapshot today hour cur ts))\<lparr> ts_disk := disk \<rparr>"
  by (auto simp: traffic_call_step_def traffic_flush_def snapshot_eq Let_def intro: exI [of _ "ts_disk ts"])

definition call_counters :: "traffic_call \<Rightarrow> buckets" where
  "call_counters c = snd (snd (snd (snd c)))"

text \<open>Counters that only grow.\<close>

fun growing :: "buckets \<Rightarrow> traffic_call list \<Rightarrow> bool" where
  "growing b [] \<longleftrightarrow> True"
| "growing b (c # cs) \<longleftrightarrow> list_all2 (\<le>) (counters b) (counters (call_counters c)) \<and> growing (call_counters c) cs"

lemma growing_last: "growing b cs \<Longrightarrow> list_all2 (\<le>) (counters b) (counters (last (b # map call_counters cs)))"
proof (induction cs arbitrary: b)
  case Nil
  then show ?case by (simp add: list_all2_refl)
next
  case (Cons c cs)
  have "list_all2 (\<le>) (counters b) (counters (call_counters c))" "growing (call_counters c) cs" using Cons.prems by simp_all
  note ih = this(1) Cons.IH [OF this(2)]
  have "list_all2 (\<le>) xs zs" if "list_all2 (\<le>) xs ys" "list_all2 (\<le>) ys zs" for xs ys zs :: "nat list"
    using that by (simp add: list_all2_conv_all_nth) (metis order_trans)
  from this [OF ih] show ?case by simp
qed

text \<open>Between two readings: what was counted up to one in between fits too, and the rest on top of it.\<close>

lemma counted_between:
  assumes "list_all2 (\<le>) (counters b) (counters m)" "list_all2 (\<le>) (counters m) (counters l)" "length t = 12"
    and "list_all2 (\<lambda>a d. a + d \<le> u64_max) t (map2 (-) (counters l) (counters b))"
  shows "list_all2 (\<lambda>a d. a + d \<le> u64_max) t (map2 (-) (counters m) (counters b))"
    "list_all2 (\<lambda>a d. a + d \<le> u64_max) (map2 (+) t (map2 (-) (counters m) (counters b))) (map2 (-) (counters l) (counters m))"
    "map2 (+) (map2 (+) t (map2 (-) (counters m) (counters b))) (map2 (-) (counters l) (counters m)) = map2 (+) t (map2 (-) (counters l) (counters b))"
proof -
  have n: "counters b ! i \<le> counters m ! i \<and> counters m ! i \<le> counters l ! i
      \<and> t ! i + (counters l ! i - counters b ! i) \<le> u64_max" if "i < 12" for i
    using list_all2_nthD [OF assms(1), of i] list_all2_nthD [OF assms(2), of i] list_all2_nthD [OF assms(4), of i] assms(3) that
    by simp
  have "t ! i + (counters m ! i - counters b ! i) \<le> u64_max" if "i < 12" for i
    using n [OF that] by linarith
  then show "list_all2 (\<lambda>a d. a + d \<le> u64_max) t (map2 (-) (counters m) (counters b))"
    using assms(3) by (intro list_all2_all_nthI) simp_all
  have e: "t ! i + (counters m ! i - counters b ! i) + (counters l ! i - counters m ! i) = t ! i + (counters l ! i - counters b ! i)"
    if "i < 12" for i
    using n [OF that] by linarith
  show "list_all2 (\<lambda>a d. a + d \<le> u64_max) (map2 (+) t (map2 (-) (counters m) (counters b))) (map2 (-) (counters l) (counters m))"
    using assms(3) n e by (intro list_all2_all_nthI) simp_all
  show "map2 (+) (map2 (+) t (map2 (-) (counters m) (counters b))) (map2 (-) (counters l) (counters m)) = map2 (+) t (map2 (-) (counters l) (counters b))"
    using assms(3) e by (intro nth_equalityI) simp_all
qed

lemma calls_conserve:
  assumes "growing b cs" "ts_base ts = Some b" "ts_state ts = Some p"
    and "list_all2 (\<lambda>a d. a + d \<le> u64_max) (counters (tp_total p))
      (map2 (-) (counters (last (b # map call_counters cs))) (counters b))"
  shows "\<exists>q. ts_state (foldl traffic_call_step ts cs) = Some q
    \<and> counters (tp_total q) = map2 (+) (counters (tp_total p)) (map2 (-) (counters (last (b # map call_counters cs))) (counters b))
    \<and> (bounded p \<longrightarrow> bounded q)"
  using assms
proof (induction cs arbitrary: b ts p)
  case Nil
  then show ?case by (auto simp: list_eq_iff_nth_eq)
next
  case (Cons c cs)
  obtain flush written today hour cur where c: "c = (flush, written, today, hour, cur)" by (cases c)
  obtain disk where st: "traffic_call_step ts c = (snd (traffic_snapshot today hour cur ts))\<lparr> ts_disk := disk \<rparr>"
    using call_step c by blast
  define q where "q = add_traffic (zip_buckets (-) cur b) (roll_hour hour (roll_day today p))"
  have s: "ts_state (traffic_call_step ts c) = Some q" "ts_base (traffic_call_step ts c) = Some cur"
    using Cons.prems(2,3) st by (simp_all add: snapshot_eq loaded_def Let_def q_def)
  let ?l = "last (cur # map call_counters cs)"
  have l: "last (b # map call_counters (c # cs)) = ?l" by (simp add: c call_counters_def)
  have g: "list_all2 (\<le>) (counters b) (counters cur)" "growing cur cs" using Cons.prems(1) c by (simp_all add: call_counters_def)
  note gl = growing_last [OF g(2)]
  note bt = counted_between [OF g(1) gl length_counters Cons.prems(4) [unfolded l]]
  have q: "counters (tp_total q) = map2 (+) (counters (tp_total p)) (map2 (-) (counters cur) (counters b))"
    unfolding q_def using bt(1) by (subst add_traffic_total) (simp_all add: counters_zip)
  have "bounded p \<longrightarrow> bounded q" unfolding q_def using bounded_roll bounded_add by blast
  with Cons.IH [OF g(2) s(2,1) bt(2) [folded q]] show ?case
    unfolding l q bt(3) foldl.simps by blast
qed

section \<open>Properties\<close>

text \<open>C37: saving the white list changes no host's way.  When it succeeds, exactly the hosts that the entries as
  typed would send through the tunnel are sent there afterwards, none of the hosts that must be
  reached directly is, and the list is as small as can be: no entry is covered by the built-in names or by the other
  entries.\<close>

theorem whitelist_set_keeps_hosts:
  assumes "proxy_whitelist_set bypass io entries st = (Inr (), st')"
  shows "(matches host (current_whitelist st') \<longleftrightarrow> matches host entries)
    \<and> (\<forall>b \<in> set bypass. \<not> matches b (current_whitelist st'))
    \<and> (\<forall>e \<in> set (current_whitelist st'). is_valid_domain e \<and> \<not> matches e (removeAll e (current_whitelist st')))"
proof -
  let ?n = "normalize_entries entries"
  have st': "current_whitelist st' = minimal_set ?n" and v: "\<forall>e \<in> set ?n. is_valid_domain e"
    and b: "\<forall>b \<in> set bypass. \<not> bypass_hit ?n b"
    using assms by (auto simp: proxy_whitelist_set_def current_whitelist_def Let_def find_None_iff split: option.splits)
  note n = matches_normalized [OF v]
  note m = minimal_set_props [OF conjunct1 [OF n]]
  have mn: "\<forall>e \<in> set (minimal_set ?n). wl_normalize_host e = e" using m(1) n by blast
  have same: "matches h (minimal_set ?n) \<longleftrightarrow> matches h entries" for h
    using n matches_covers [OF mn, of h] matches_covers [of ?n h] m(2) matches_normalized [OF v, of h] by blast
  moreover have "\<not> matches b (minimal_set ?n)" if "b \<in> set bypass" for b
    using b that same n matches_normalized [OF v, of b] by (auto simp: bypass_hit_def)
  moreover have "\<not> matches e (removeAll e (minimal_set ?n))" if e: "e \<in> set (minimal_set ?n)" for e
  proof -
    have "\<forall>x \<in> set (removeAll e (minimal_set ?n)). wl_normalize_host x = x" using mn by simp
    from matches_covers [OF this, of e] m(3) e mn show ?thesis by (auto simp: irredundant_def)
  qed
  ultimately show ?thesis using st' m(1) v by auto
qed


text \<open>The proxy of the system is set exactly while the switch is on and what to put back is known, and it is
  only set when the local listener answers.\<close>

lemma switch_inv: "switch_step K J st st' \<Longrightarrow> (sw_on st \<longleftrightarrow> sw_snapshot st \<noteq> None) \<Longrightarrow> sw_on st' \<longleftrightarrow> sw_snapshot st' \<noteq> None"
proof (elim switch_stepE)
  let ?inv = "\<lambda>s. sw_on s \<longleftrightarrow> sw_snapshot s \<noteq> None"
  assume i: "?inv st"
  show "?inv st'" if e: "st' = snd (proxy_enable_inner K J V st)" for V
  proof -
    have s: "?inv t \<Longrightarrow> ?inv (snd (start_engine V wl u t))" for wl u t
      by (simp add: start_engine_def Let_def split: sum.split)
    show ?thesis unfolding e using i by (auto simp: proxy_enable_inner_def Let_def s split: prod.split sum.split)
  qed
  show "?inv st'" if "st' = snd (proxy_disable_inner V st)" for V
    using that i by (auto simp: proxy_disable_inner_def split: option.splits)
  show "?inv st'" if "st' = snd (proxy_rescue V st)" for V
    using that i by (auto simp: proxy_rescue_def split: option.splits)
  show "?inv st'" if "st' = st\<lparr> sw_config := d, sw_whitelist := w \<rparr>" for d w
    using that i by simp
qed

interpretation switch: machine "\<lambda>st. \<not> sw_on st \<and> sw_snapshot st = None" "switch_step K J" "\<lambda>st. sw_on st \<longleftrightarrow> sw_snapshot st \<noteq> None"
  for K J
  by unfold_locales (simp, erule switch_inv, assumption)

theorem switch_consistent:
  assumes "\<not> sw_on st" "sw_snapshot st = None" "(switch_step K J)\<^sup>*\<^sup>* st st'"
  shows "sw_on st' \<longleftrightarrow> sw_snapshot st' \<noteq> None"
  using switch.reachable_inv [of st K J st'] assms by blast

theorem enable_needs_listener:
  assumes "proxy_enable_inner K J V st = (Inr (), st')" "\<not> sw_on st"
  shows "sv_listener V \<and> sw_on st' \<and> sw_task st' \<and> sv_enable V = Inr (the (sw_snapshot st'))"
  using assms by (auto simp: proxy_enable_inner_def start_engine_def Let_def split: prod.splits sum.splits if_splits)


text \<open>The names a new user starts with vanish from the list with the first saving: they are on the built-in list,
  which covers them.\<close>

theorem seed_vanishes: "minimal_set (normalize_entries SEED) = []"
proof -
  have "list_all (\<lambda>e. wl_normalize_host e = e \<and> e \<noteq> [] \<and> e \<in> set BUILTIN_GFW_DOMAINS) SEED" by code_simp
  then have n: "\<forall>e \<in> set (normalize_entries SEED). wl_normalize_host e = e \<and> e \<noteq> [] \<and> e \<in> set BUILTIN_GFW_DOMAINS"
    by (auto simp: set_normalize_entries list_all_iff)
  have "matches e []" if "wl_normalize_host e = e" "e \<noteq> []" "e \<in> set BUILTIN_GFW_DOMAINS" for e
    using that by (auto simp: matches_covers covers_def hit_def wl_suffix_match_iff)
  then have "foldl minimal_step [] cs = []" if "set cs \<subseteq> set (normalize_entries SEED)" for cs
    using n that by (induction cs) (auto simp: minimal_step_def)
  then show ?thesis by (simp add: minimal_set_def)
qed

section \<open>Witnesses\<close>

definition demo_wl :: whitelist_state where
  "demo_wl = \<lparr> wl_file = None, wl_watch = Some [''example.org''] \<rparr>"

theorem whitelist_set_keeps_hosts_witness:
  "\<not> matches ''ponyjob.top'' (current_whitelist (snd (proxy_whitelist_set [''ponyjob.top''] None [''Test.net.''] demo_wl)))
   \<and> matches ''x.test.net'' (current_whitelist (snd (proxy_whitelist_set [''ponyjob.top''] None [''Test.net.''] demo_wl)))"
proof -
  have "wl_normalize_host ''Test.net.'' = ''test.net''" by code_simp
  then have n: "normalize_entries [''Test.net.''] = [''test.net'']" by (simp add: normalize_entries_def)
  have c: "is_valid_domain ''test.net''" "\<not> bypass_hit [''test.net''] ''ponyjob.top''"
    "covered_error [''example.org''] ''test.net'' = None" by code_simp+
  have "fst (proxy_whitelist_set [''ponyjob.top''] None [''Test.net.''] demo_wl) = Inr ()"
    by (simp add: proxy_whitelist_set_def n c demo_wl_def current_whitelist_def find_map_def map_filter_def Let_def)
  then have s: "proxy_whitelist_set [''ponyjob.top''] None [''Test.net.''] demo_wl = (Inr (), snd (proxy_whitelist_set [''ponyjob.top''] None [''Test.net.''] demo_wl))"
    by (metis prod.collapse)
  have "matches ''x.test.net'' [''Test.net.'']" by code_simp
  with whitelist_set_keeps_hosts [OF s, of "''x.test.net''"] show ?thesis by simp
qed

definition demo_buckets :: "nat \<Rightarrow> buckets" where
  "demo_buckets n = no_buckets\<lparr> bs_cf := \<lparr> bk_reqs = 1, bk_up = n, bk_down = 0 \<rparr> \<rparr>"

definition demo_ts :: traffic_state where
  "demo_ts = \<lparr> ts_state = None, ts_base = None, ts_disk = None \<rparr>"


end
