(* ===== verification/CliSync.thy ===== *)
theory CliSync
  imports DesktopCreds Auth ClusterTicket RouteTable
begin

text \<open>
  The command line's settings file (\<open>crates/cli/src/config.rs\<close>) and the transfer of settings between
  machines (\<open>crates/cli/src/cmd/sync.rs\<close>): an encrypted code made by \<open>export\<close>, read by
  \<open>import\<close> on another machine at most once and within ten minutes.  The serializers
  (\<open>toml\<close>, \<open>serde_json\<close>) and the cipher are parameters; the settings file is its value.
\<close>

section \<open>Settings\<close>

record pony_config =
  pn_server :: string
  pn_admin_token :: string
  pn_data_plane :: "string option"
  pn_cf_token :: "string option"
  pn_cf_account_tag :: "string option"
  pn_vercel_token :: "string option"
  pn_tunnel_token :: "string option"
  pn_tunnel_gate_url :: "string option"
  pn_proxy_secret :: "string option"

datatype config_error = ConfigNotFound | ConfigRead string | ConfigParse string | MissingField string

text \<open>What reading the file gives: nothing, an error, a text that is not a configuration, or one.\<close>

datatype config_file = NoFile | Unreadable string | Malformed string | Contents pony_config

definition load_config :: "config_file \<Rightarrow> config_error + pony_config" where
  "load_config f =
     (case f of
        NoFile \<Rightarrow> Inl ConfigNotFound
      | Unreadable e \<Rightarrow> Inl (ConfigRead e)
      | Malformed e \<Rightarrow> Inl (ConfigParse e)
      | Contents c \<Rightarrow>
          if pn_server c = [] then Inl (MissingField ''server'')
          else if pn_admin_token c = [] then Inl (MissingField ''admin_token'')
          else Inr c)"

text \<open>\<open>save\<close>: the file is replaced at once or not at all.\<close>

definition save_config :: "string option \<Rightarrow> pony_config \<Rightarrow> config_file \<Rightarrow> (config_error + unit) \<times> config_file" where
  "save_config err c f = (case err of Some e \<Rightarrow> (Inl (ConfigRead e), f) | None \<Rightarrow> (Inr (), Contents c))"

definition DEFAULT_CONFIG :: pony_config where
  "DEFAULT_CONFIG = \<lparr> pn_server = ''http://127.0.0.1:8899'', pn_admin_token = [], pn_data_plane = None, pn_cf_token = None,
     pn_cf_account_tag = None, pn_vercel_token = None, pn_tunnel_token = None, pn_tunnel_gate_url = None,
     pn_proxy_secret = None \<rparr>"

definition load_or_default :: "config_file \<Rightarrow> pony_config" where
  "load_or_default f = (case load_config f of Inr c \<Rightarrow> c | Inl _ \<Rightarrow> DEFAULT_CONFIG)"

definition scheme_rest :: "string \<Rightarrow> string option" where
  "scheme_rest s = (case strip_prefix ''http://'' s of Some r \<Rightarrow> Some r | None \<Rightarrow> strip_prefix ''https://'' s)"

definition strip_port :: "string \<Rightarrow> string" where
  "strip_port host_port =
     (case rsplit_once (CHR '':'') host_port of
        Some (h, port) \<Rightarrow> if list_all is_ascii_digit port then h else host_port
      | None \<Rightarrow> host_port)"

definition derive_from_server :: "string \<Rightarrow> string option" where
  "derive_from_server server =
     (case scheme_rest server of
        None \<Rightarrow> None
      | Some rest \<Rightarrow>
          (let host_port = hd (split_on (CHR ''/'') rest) in
           if host_port = [] then None
           else (let host = strip_port host_port in
             if host = [] then None
             else Some ((if starts_with ''https://'' server then ''https'' else ''http'') @ ''://'' @ host @ '':8899''))))"

definition derive_data_plane :: "pony_config \<Rightarrow> config_error + string" where
  "derive_data_plane c =
     (case pn_data_plane c of
        Some dp \<Rightarrow> if dp \<noteq> [] then Inr dp
                   else (case derive_from_server (pn_server c) of Some u \<Rightarrow> Inr u | None \<Rightarrow> Inl (ConfigParse (pn_server c)))
      | None \<Rightarrow> (case derive_from_server (pn_server c) of Some u \<Rightarrow> Inr u | None \<Rightarrow> Inl (ConfigParse (pn_server c))))"

text \<open>The tunnel settings: written to both files, and read from the environment, the settings file and the
  second file, in this order.  \<open>env_file\<close> is its text when it can be read.\<close>

definition EMPTY_CONFIG :: pony_config where
  "EMPTY_CONFIG = DEFAULT_CONFIG\<lparr> pn_server := [] \<rparr>"

definition env_text :: "string \<Rightarrow> string \<Rightarrow> string" where
  "env_text gate_url token =
     ''PPROXY_TUNNEL_GATE_URL='' @ [CHR 0x22] @ trim_str gate_url @ [CHR 0x22, CHR 0x0A]
     @ ''PPROXY_TUNNEL_TOKEN='' @ [CHR 0x22] @ trim_str token @ [CHR 0x22, CHR 0x0A]"

definition save_tunnel_config ::
  "string option \<Rightarrow> bool \<Rightarrow> string \<Rightarrow> string \<Rightarrow> config_file \<times> string option \<Rightarrow> (config_error + unit) \<times> config_file \<times> string option" where
  "save_tunnel_config err env_ok gate_url token st =
     (case st of (f, env_file) \<Rightarrow>
       (let c = (case load_config f of Inr c \<Rightarrow> c | Inl _ \<Rightarrow> EMPTY_CONFIG);
            c = c\<lparr> pn_tunnel_gate_url := Some (trim_str gate_url), pn_tunnel_token := Some (trim_str token) \<rparr>
        in case save_config err c f of
             (Inl e, f) \<Rightarrow> (Inl e, f, env_file)
           | (Inr _, f) \<Rightarrow> (Inr (), f, if env_ok then Some (env_text gate_url token) else env_file)))"

definition trim_matches :: "char \<Rightarrow> string \<Rightarrow> string" where
  "trim_matches c s = trim_end_matches c (dropWhile (\<lambda>x. x = c) s)"

definition env_value :: "string \<Rightarrow> string \<Rightarrow> string option" where
  "env_value key line =
     (case strip_prefix key line of
        None \<Rightarrow> None
      | Some val \<Rightarrow>
          (let t = trim_matches (CHR 0x27) (trim_matches (CHR 0x22) (trim_str val)) in if t \<noteq> [] then Some t else None))"

fun first_value :: "string \<Rightarrow> string list \<Rightarrow> string option" where
  "first_value key [] = None"
| "first_value key (l # ls) = (case env_value key l of Some v \<Rightarrow> Some v | None \<Rightarrow> first_value key ls)"

definition setting :: "string \<Rightarrow> string option \<Rightarrow> string option \<Rightarrow> string option \<Rightarrow> string option" where
  "setting key env_var cfg env_file =
     (let env_var = (case env_var of Some s \<Rightarrow> if trim_str s \<noteq> [] then Some s else None | None \<Rightarrow> None) in
      case env_var of
        Some s \<Rightarrow> Some s
      | None \<Rightarrow> (case cfg of Some s \<Rightarrow> Some s | None \<Rightarrow> Option.bind env_file (\<lambda>c. first_value key (str_lines c))))"

definition get_tunnel_config ::
  "string option \<Rightarrow> string option \<Rightarrow> string option \<Rightarrow> pony_config \<Rightarrow> string option \<times> string option" where
  "get_tunnel_config env_url env_token env_file c =
     (setting ''PPROXY_TUNNEL_GATE_URL='' env_url (pn_tunnel_gate_url c) env_file,
      setting ''PPROXY_TUNNEL_TOKEN='' env_token (pn_tunnel_token c) env_file)"

section \<open>The code\<close>

definition SYNC_SCHEME :: string where
  "SYNC_SCHEME = ''pproxy-sync://''"

definition SYNC_TTL_SECONDS :: nat where
  "SYNC_TTL_SECONDS = 600"

definition PBKDF2_ITERATIONS :: nat where
  "PBKDF2_ITERATIONS = 60000"

record sync_data =
  sd_server_url :: "string option"
  sd_worker_url :: "string option"
  sd_proxy_secret :: "string option"
  sd_routes :: "(string \<times> string) list"

record sync_payload =
  sp_v :: nat
  sp_exp :: nat
  sp_nonce :: string
  sp_data :: sync_data

record sync_codec =
  sc_to_vec :: "sync_payload \<Rightarrow> string"
  sc_from_slice :: "string \<Rightarrow> sync_payload option"
  sc_encrypt :: "string \<Rightarrow> string \<Rightarrow> string \<Rightarrow> string"
  sc_decrypt :: "string \<Rightarrow> string \<Rightarrow> string \<Rightarrow> string option"

text \<open>Documented behaviour: a payload is read back as it was written, and a text decrypts under the
  key and nonce it was encrypted with.\<close>

definition sync_law :: "sync_codec \<Rightarrow> bool" where
  "sync_law S \<longleftrightarrow> (\<forall>p. sp_v p \<le> u32_max \<and> sp_exp p \<le> u64_max \<longrightarrow> sc_from_slice S (sc_to_vec S p) = Some p)
     \<and> (\<forall>k n m. sc_decrypt S k n (sc_encrypt S k n m) = Some m)"

definition xor_bytes :: "string \<Rightarrow> string \<Rightarrow> string" where
  "xor_bytes a b = map2 (\<lambda>x y. char_of (byte x XOR byte y)) a b"

text \<open>The command has a copy of its own of HMAC.\<close>

definition sync_hmac_sha256 :: "crypto \<Rightarrow> string \<Rightarrow> string \<Rightarrow> string" where
  "sync_hmac_sha256 K key data =
     (let key_block = (if length key > 64 then sha256 K key @ replicate 32 (char_of (0::nat))
                       else key @ replicate (64 - length key) (char_of (0::nat)));
          o_key_pad = map (\<lambda>c. char_of (0x5c XOR byte c)) key_block;
          i_key_pad = map (\<lambda>c. char_of (0x36 XOR byte c)) key_block;
          inner_hash = sha256 K (i_key_pad @ data)
      in sha256 K (o_key_pad @ inner_hash))"

definition pbkdf2_round :: "crypto \<Rightarrow> string \<Rightarrow> string \<times> string \<Rightarrow> string \<times> string" where
  "pbkdf2_round K passphrase s =
     (case s of (u, out) \<Rightarrow> let u = sync_hmac_sha256 K passphrase u in (u, xor_bytes out u))"

definition derive_key :: "crypto \<Rightarrow> string \<Rightarrow> string \<Rightarrow> string" where
  "derive_key K passphrase salt =
     (let u = sync_hmac_sha256 K passphrase (salt @ map char_of [0, 0, 0, 1 :: nat])
      in snd ((pbkdf2_round K passphrase ^^ (PBKDF2_ITERATIONS - 1)) (u, u)))"

text \<open>The random bytes of one export.\<close>

record export_random =
  er_passkey :: string
  er_nonce :: string
  er_salt :: string
  er_aead_nonce :: string

definition export_pass :: "crypto \<Rightarrow> export_random \<Rightarrow> string option \<Rightarrow> string" where
  "export_pass K R passphrase =
     (case passphrase of Some p \<Rightarrow> if p \<noteq> [] then p else hex_encode K (er_passkey R) | None \<Rightarrow> hex_encode K (er_passkey R))"

definition export_payload :: "crypto \<Rightarrow> export_random \<Rightarrow> nat \<Rightarrow> pony_config \<Rightarrow> (string \<times> string) list \<Rightarrow> sync_payload" where
  "export_payload K R now c routes =
     \<lparr> sp_v = 1, sp_exp = now + SYNC_TTL_SECONDS, sp_nonce = hex_encode K (er_nonce R),
       sp_data = \<lparr> sd_server_url = Some (pn_server c),
         sd_worker_url = (case pn_data_plane c of Some dp \<Rightarrow> Some dp | None \<Rightarrow> Some (pn_server c)),
         sd_proxy_secret = pn_proxy_secret c, sd_routes = routes \<rparr> \<rparr>"

text \<open>\<open>export\<close>: the code and the passphrase that it prints; \<open>rows\<close> are the routes when the data base can
  be read.\<close>

definition sync_export ::
  "crypto \<Rightarrow> sync_codec \<Rightarrow> export_random \<Rightarrow> nat \<Rightarrow> config_file \<Rightarrow> route_rows option \<Rightarrow> string option \<Rightarrow> string \<times> string" where
  "sync_export K S R now f rows passphrase =
     (let pass = export_pass K R passphrase;
          routes = (case rows of Some rs \<Rightarrow> map (\<lambda>r. (rt_name r, rt_target_host r)) rs | None \<Rightarrow> []);
          payload = export_payload K R now (load_or_default f) routes;
          key = derive_key K pass (er_salt R);
          ciphertext = sc_encrypt S key (er_aead_nonce R) (sc_to_vec S payload)
      in (SYNC_SCHEME @ b64url_encode K (er_salt R @ er_aead_nonce R @ ciphertext), pass))"

section \<open>Import\<close>

datatype sync_error =
    NoPassphrase | BadBase64 | TooShort | DecryptFailed | PayloadUnreadable | Expired | FarFuture
  | LockFailed string | Replayed | NonceWrite string | SaveFailed config_error | StoreOpen string

record import_env =
  ie_now :: nat
  ie_lock :: "string option"
  ie_nonces_readable :: bool
  ie_nonce_write :: "string option"
  ie_save :: "string option"
  ie_store_open :: "string option"
  ie_insert_fault :: "string \<Rightarrow> fault"

record cli_state =
  cl_config :: config_file
  cl_nonces :: "(string \<times> nat) list"
  cl_routes :: route_rows

definition check_and_record_nonce ::
  "import_env \<Rightarrow> string \<Rightarrow> nat \<Rightarrow> (string \<times> nat) list \<Rightarrow> (sync_error + unit) \<times> (string \<times> nat) list" where
  "check_and_record_nonce E nonce exp file =
     (case ie_lock E of
        Some e \<Rightarrow> (Inl (LockFailed e), file)
      | None \<Rightarrow>
          (let nonces = (if ie_nonces_readable E then file else []);
               nonces = filter (\<lambda>(_, item_exp). ie_now E \<le> item_exp) nonces
           in if nonce \<in> fst ` set nonces then (Inl Replayed, file)
              else (case ie_nonce_write E of
                      Some e \<Rightarrow> (Inl (NonceWrite e), file)
                    | None \<Rightarrow> (Inr (), (nonce, exp) # nonces))))"

definition open_code :: "crypto \<Rightarrow> sync_codec \<Rightarrow> nat \<Rightarrow> string \<Rightarrow> string option \<Rightarrow> sync_error + sync_payload" where
  "open_code K S now input passphrase =
     (case passphrase of
        None \<Rightarrow> Inl NoPassphrase
      | Some pass \<Rightarrow>
          if pass = [] then Inl NoPassphrase
          else (let encoded = (case strip_prefix SYNC_SCHEME (trim_str input) of Some r \<Rightarrow> r | None \<Rightarrow> trim_str input) in
            case decode_code K encoded of
              None \<Rightarrow> Inl BadBase64
            | Some raw \<Rightarrow>
                if length raw < 28 then Inl TooShort
                else (case sc_decrypt S (derive_key K pass (take 16 raw)) (take 12 (drop 16 raw)) (drop 28 raw) of
                  None \<Rightarrow> Inl DecryptFailed
                | Some decrypted \<Rightarrow>
                    (case sc_from_slice S decrypted of
                       None \<Rightarrow> Inl PayloadUnreadable
                     | Some p \<Rightarrow>
                         if now > sp_exp p then Inl Expired
                         else if sp_exp p > now + SYNC_TTL_SECONDS + 60 then Inl FarFuture
                         else Inr p))))"

definition import_config :: "sync_data \<Rightarrow> pony_config \<Rightarrow> pony_config" where
  "import_config x c =
     (let c = (case sd_proxy_secret x of Some s \<Rightarrow> c\<lparr> pn_proxy_secret := Some s \<rparr> | None \<Rightarrow> c);
          c = (case sd_server_url x of Some s \<Rightarrow> c\<lparr> pn_server := s \<rparr> | None \<Rightarrow> c)
      in case sd_worker_url x of Some w \<Rightarrow> c\<lparr> pn_data_plane := Some w \<rparr> | None \<Rightarrow> c)"

text \<open>Routes go straight into the table; an error of one is ignored.\<close>

definition import_route :: "import_env \<Rightarrow> route_rows \<Rightarrow> string \<times> string \<Rightarrow> route_rows" where
  "import_route E rows nt =
     (case nt of (name, target) \<Rightarrow>
        snd (insert_route (ie_insert_fault E name) (ie_now E)
          \<lparr> nr_name = name, nr_target_host = target, nr_override_upstream = None, nr_backup_upstream = None \<rparr> rows))"

definition sync_import ::
  "crypto \<Rightarrow> sync_codec \<Rightarrow> import_env \<Rightarrow> string \<Rightarrow> string option \<Rightarrow> cli_state \<Rightarrow> (sync_error + sync_payload) \<times> cli_state" where
  "sync_import K S E input passphrase st =
     (case open_code K S (ie_now E) input passphrase of
        Inl e \<Rightarrow> (Inl e, st)
      | Inr p \<Rightarrow>
          (case check_and_record_nonce E (sp_nonce p) (sp_exp p) (cl_nonces st) of
             (Inl e, ns) \<Rightarrow> (Inl e, st\<lparr> cl_nonces := ns \<rparr>)
           | (Inr _, ns) \<Rightarrow>
               (let st = st\<lparr> cl_nonces := ns \<rparr>;
                    cfg = import_config (sp_data p) (load_or_default (cl_config st))
                in case save_config (ie_save E) cfg (cl_config st) of
                     (Inl e, _) \<Rightarrow> (Inl (SaveFailed e), st)
                   | (Inr _, f) \<Rightarrow>
                       (let st = st\<lparr> cl_config := f \<rparr> in
                        case ie_store_open E of
                          Some e \<Rightarrow> (Inl (StoreOpen e), st)
                        | None \<Rightarrow> (Inr p, st\<lparr> cl_routes := foldl (import_route E) (cl_routes st) (sd_routes (sp_data p)) \<rparr>)))))"

text \<open>A run of imports, with the payloads taken over.\<close>

fun import_run ::
  "crypto \<Rightarrow> sync_codec \<Rightarrow> (import_env \<times> string \<times> string option) list \<Rightarrow> cli_state \<Rightarrow> sync_payload list \<times> cli_state" where
  "import_run K S [] st = ([], st)"
| "import_run K S ((E, input, pass) # calls) st =
     (case sync_import K S E input pass st of (r, st') \<Rightarrow>
        (case import_run K S calls st' of (ps, st'') \<Rightarrow>
           ((case r of Inr p \<Rightarrow> p # ps | Inl _ \<Rightarrow> ps), st'')))"

section \<open>Lemmas\<close>

text \<open>Both copies of HMAC are the same function.\<close>

lemma sync_hmac_eq: "sha256_law K \<Longrightarrow> sync_hmac_sha256 K = hmac_sha256 K"
  by (intro ext) (simp add: sync_hmac_sha256_def hmac_sha256_def key_block_def xor_pad_def sha256_law_def BLOCK_SIZE_def Let_def)

text \<open>Settings that were saved are read back, unless the environment overrides them.\<close>

theorem tunnel_settings_read_back:
  assumes "save_tunnel_config err env_ok gate_url token st = (Inr (), Contents c, env_file)"
  shows "get_tunnel_config None None env_file' c = (Some (trim_str gate_url), Some (trim_str token))"
  using assms by (auto simp: save_tunnel_config_def save_config_def get_tunnel_config_def setting_def Let_def
      split: prod.splits option.splits)

text \<open>On a machine without settings the file written by \<open>save_tunnel_config\<close> is refused by \<open>load\<close>: server and
  admin token are empty.\<close>

theorem tunnel_settings_unloadable:
  assumes "save_tunnel_config None env_ok gate_url token (NoFile, env_file) = (r, f, env_file')"
  shows "load_config f = Inl (MissingField ''server'')"
  using assms by (auto simp: save_tunnel_config_def save_config_def load_config_def EMPTY_CONFIG_def Let_def)

lemma open_code_Inr: "open_code K S now input pass = Inr p \<Longrightarrow> now \<le> sp_exp p \<and> sp_exp p \<le> now + SYNC_TTL_SECONDS + 60"
  by (auto simp: open_code_def Let_def split: option.splits if_splits)

text \<open>While a nonce that was accepted has not expired it stays in the file.\<close>

definition nonce_kept :: "nat \<Rightarrow> (string \<times> nat) list \<Rightarrow> string \<times> nat \<Rightarrow> bool" where
  "nonce_kept now ns ne \<longleftrightarrow> (now \<le> snd ne \<longrightarrow> ne \<in> set ns)"

lemma record_nonce_keeps:
  assumes "check_and_record_nonce E n e ns = (r, ns')" "ie_nonces_readable E" "now \<le> ie_now E" "nonce_kept now ns ne"
  shows "nonce_kept (ie_now E) ns' ne"
  using assms by (cases ne) (auto simp: check_and_record_nonce_def nonce_kept_def Let_def split: option.splits if_splits)

lemma record_nonce_Inr: "check_and_record_nonce E n e ns = (Inr u, ns') \<Longrightarrow> (n, e) \<in> set ns'"
  by (auto simp: check_and_record_nonce_def Let_def split: option.splits if_splits)

lemma import_nonces:
  "sync_import K S E input pass st = (r, st') \<Longrightarrow>
     cl_nonces st' = cl_nonces st \<or> (\<exists>n e r'. check_and_record_nonce E n e (cl_nonces st) = (r', cl_nonces st'))"
  by (auto simp: sync_import_def Let_def split: sum.splits prod.splits option.splits)

lemma import_accepted:
  "sync_import K S E input pass st = (Inr p, st') \<Longrightarrow>
     ie_now E \<le> sp_exp p \<and> check_and_record_nonce E (sp_nonce p) (sp_exp p) (cl_nonces st) = (Inr (), cl_nonces st')"
  by (auto simp: sync_import_def Let_def dest: open_code_Inr split: sum.splits prod.splits option.splits)


lemma rejected_kept:
  assumes "sync_import K S E input pass st = (Inr p, st')" "ie_nonces_readable E"
  shows "\<not> nonce_kept (ie_now E) (cl_nonces st) (sp_nonce p, sp_exp p)"
  using import_accepted [OF assms(1)] assms(2)
  by (force simp: check_and_record_nonce_def nonce_kept_def Let_def split: option.splits if_splits)

lemma import_keeps:
  assumes "sync_import K S E input pass st = (r, st')" "ie_nonces_readable E" "now \<le> ie_now E" "nonce_kept now (cl_nonces st) ne"
  shows "nonce_kept (ie_now E) (cl_nonces st') ne"
  using import_nonces [OF assms(1)] record_nonce_keeps [OF _ assms(2-4)] assms(3,4)
  by (auto simp: nonce_kept_def)

text \<open>Times do not go back and the file of nonces can be read.\<close>

fun calls_ok :: "nat \<Rightarrow> (import_env \<times> string \<times> string option) list \<Rightarrow> bool" where
  "calls_ok now [] \<longleftrightarrow> True"
| "calls_ok now ((E, _) # calls) \<longleftrightarrow> now \<le> ie_now E \<and> ie_nonces_readable E \<and> calls_ok (ie_now E) calls"

lemma import_run_avoids:
  "calls_ok now calls \<Longrightarrow> nonce_kept now (cl_nonces st) ne \<Longrightarrow> import_run K S calls st = (ps, st') \<Longrightarrow>
     ne \<notin> (\<lambda>p. (sp_nonce p, sp_exp p)) ` set ps"
proof (induction calls arbitrary: now st ps st')
  case (Cons c calls)
  obtain E input pass where c: "c = (E, input, pass)" by (cases c)
  obtain r t where r: "sync_import K S E input pass st = (r, t)" by fastforce
  obtain qs u where q: "import_run K S calls t = (qs, u)" by fastforce
  have k: "nonce_kept (ie_now E) (cl_nonces t) ne" using import_keeps [OF r, of now] Cons.prems(1,2) c by simp
  have "ne \<notin> (\<lambda>p. (sp_nonce p, sp_exp p)) ` set qs" using Cons.IH [OF _ k q] Cons.prems(1) c by simp
  moreover have "(sp_nonce p, sp_exp p) \<noteq> ne" if "r = Inr p" for p
  proof
    assume e: "(sp_nonce p, sp_exp p) = ne"
    have "nonce_kept (ie_now E) (cl_nonces st) ne" using Cons.prems(1,2) c by (auto simp: nonce_kept_def)
    with rejected_kept [of K S E input pass st p t] r that e Cons.prems(1) c show False by simp
  qed
  ultimately show ?case using Cons.prems(3) c r q by (auto split: sum.splits)
qed simp

lemma import_run_distinct:
  "calls_ok now calls \<Longrightarrow> import_run K S calls st = (ps, st') \<Longrightarrow> distinct (map (\<lambda>p. (sp_nonce p, sp_exp p)) ps)"
proof (induction calls arbitrary: now st ps st')
  case (Cons c calls)
  obtain E input pass where c: "c = (E, input, pass)" by (cases c)
  obtain r t where r: "sync_import K S E input pass st = (r, t)" by fastforce
  obtain qs u where q: "import_run K S calls t = (qs, u)" by fastforce
  have ok: "calls_ok (ie_now E) calls" using Cons.prems(1) c by simp
  note d = Cons.IH [OF ok q]
  show ?case
  proof (cases r)
    case (Inl e)
    with Cons.prems(2) c r q d show ?thesis by simp
  next
    case (Inr p)
    have "(sp_nonce p, sp_exp p) \<in> set (cl_nonces t)"
      using import_accepted [OF r [unfolded Inr]] record_nonce_Inr by blast
    then have "nonce_kept (ie_now E) (cl_nonces t) (sp_nonce p, sp_exp p)" by (simp add: nonce_kept_def)
    from import_run_avoids [OF ok this q] Cons.prems(2) c r q d Inr show ?thesis by auto
  qed
qed simp

subsection \<open>Codes made by \<open>export\<close>\<close>

lemma trim_sync_uri: "b64url_law K \<Longrightarrow> trim_str (SYNC_SCHEME @ b64url_encode K m) = SYNC_SCHEME @ b64url_encode K m"
proof -
  assume "b64url_law K"
  then have "\<forall>c \<in> set (b64url_encode K m). graphic c" by (auto simp: b64url_law_def dest: b64url_char_graphic)
  moreover have "list_all graphic SYNC_SCHEME" "SYNC_SCHEME \<noteq> []" by code_simp+
  ultimately show ?thesis by (intro trim_str_graphic) (auto simp: list_all_iff)
qed

lemma export_opens:
  assumes "sync_law S" "b64url_law K" "length (er_salt R) = 16" "length (er_aead_nonce R) = 12"
    and "sync_export K S R made f rows passphrase = (uri, pass)" "pass \<noteq> []"
    and "made \<le> now + 60" "now \<le> made + SYNC_TTL_SECONDS" "made + SYNC_TTL_SECONDS \<le> u64_max"
  shows "open_code K S now uri (Some pass) =
    Inr (export_payload K R made (load_or_default f)
      (case rows of Some rs \<Rightarrow> map (\<lambda>r. (rt_name r, rt_target_host r)) rs | None \<Rightarrow> []))"
proof -
  let ?p = "export_payload K R made (load_or_default f) (case rows of Some rs \<Rightarrow> map (\<lambda>r. (rt_name r, rt_target_host r)) rs | None \<Rightarrow> [])"
  let ?c = "sc_encrypt S (derive_key K pass (er_salt R)) (er_aead_nonce R) (sc_to_vec S ?p)"
  have u: "uri = SYNC_SCHEME @ b64url_encode K (er_salt R @ er_aead_nonce R @ ?c)"
    using assms(5) by (auto simp: sync_export_def Let_def)
  have "decode_code K (b64url_encode K (er_salt R @ er_aead_nonce R @ ?c)) = Some (er_salt R @ er_aead_nonce R @ ?c)"
    using assms(2) by (simp add: decode_code_def b64url_law_def)
  moreover have "sp_exp ?p = made + SYNC_TTL_SECONDS" "sp_v ?p = 1" by (simp_all add: export_payload_def)
  ultimately show ?thesis
    using assms(1,3,4,6-9) trim_sync_uri [OF assms(2)] unfolding u open_code_def
    by (simp add: sync_law_def Let_def)
qed

section \<open>Properties\<close>

text \<open>C39: a code is taken over at most once.  Over any calls of \<open>import\<close> with any codes, passphrases and
  failures, on a machine whose clock does not go back and whose file of nonces can be read, no two
  calls succeed with the same nonce and expiry, so never with the same code.\<close>

theorem sync_at_most_once:
  assumes "calls_ok now calls" "import_run K S calls st = (ps, st')"
  shows "distinct (map (\<lambda>p. (sp_nonce p, sp_exp p)) ps)"
  using import_run_distinct [OF assms] .



section \<open>More behaviour\<close>

text \<open>The desktop client cannot read these codes: it derives the key in another way (ten thousand plain
  hashes instead of PBKDF2), so with a cipher that refuses a wrong key every import of a code
  made by the command line ends in an error, whatever passphrase, unless the two keys happen to be equal.\<close>

theorem desktop_cannot_import:
  assumes "b64url_law K" "length (er_salt R) = 16" "length (er_aead_nonce R) = 12"
    and "sync_export K S R made f rows passphrase = (uri, pass)" "typed \<noteq> []"
    and "\<forall>k k' n m. k \<noteq> k' \<longrightarrow> sc_decrypt S k' n (sc_encrypt S k n m) = None"
    and "derive_key K pass (er_salt R) \<noteq> sync_key K (er_salt R) typed"
  shows "proxy_import_sync K J (sc_decrypt S) M now uri (Some typed) d = (Inl SyncDecrypt, d)"
proof -
  define p where "p = sc_to_vec S (export_payload K R made (load_or_default f)
      (case rows of Some rs \<Rightarrow> map (\<lambda>r. (rt_name r, rt_target_host r)) rs | None \<Rightarrow> []))"
  define c where "c = sc_encrypt S (derive_key K pass (er_salt R)) (er_aead_nonce R) p"
  have u: "uri = SYNC_SCHEME @ b64url_encode K (er_salt R @ er_aead_nonce R @ c)"
    using assms(4) by (auto simp: sync_export_def Let_def p_def c_def)
  have "decode_code K (b64url_encode K (er_salt R @ er_aead_nonce R @ c)) = Some (er_salt R @ er_aead_nonce R @ c)"
    using assms(1) by (simp add: decode_code_def b64url_law_def)
  moreover have "sc_decrypt S (sync_key K (er_salt R) typed) (er_aead_nonce R) c = None"
    unfolding c_def using assms(6,7) by blast
  ultimately have "open_sync K J (sc_decrypt S) now (b64url_encode K (er_salt R @ er_aead_nonce R @ c)) (Some typed) d = (Inl SyncDecrypt, d)"
    using assms(2,3,5) by (simp add: open_sync_def)
  then show ?thesis
    using trim_sync_uri [OF assms(1)] unfolding u proxy_import_sync_def
    by (simp add: Let_def SYNC_SCHEME_def starts_with_def)
qed

text \<open>A route of the code goes into the table whatever host it names: the checks of the route table
  are not applied.\<close>

theorem import_skips_validation:
  assumes "ie_insert_fault E name = None" "list_all (\<lambda>r. rt_name r \<noteq> name) rows"
  shows "\<exists>r \<in> set (import_route E rows (name, host)). rt_name r = name \<and> rt_target_host r = host"
  using assms by (auto simp: import_route_def insert_route_def list_ex_iff list_all_iff)

text \<open>An import on a machine whose settings cannot be read replaces them: the tokens that were in the file are lost.\<close>

theorem import_drops_settings:
  assumes "sync_import K S E input pass st = (Inr p, st')" "load_config (cl_config st) = Inl e"
  shows "\<exists>c. cl_config st' = Contents c \<and> pn_admin_token c = [] \<and> pn_tunnel_token c = None \<and> pn_cf_token c = None"
  using assms
  by (auto simp: sync_import_def save_config_def load_or_default_def import_config_def DEFAULT_CONFIG_def Let_def
      split: sum.splits prod.splits option.splits)

section \<open>Witnesses\<close>

text \<open>A codec with real separators and escaping, and a cipher that only checks the key.\<close>

definition demo_opt :: "string option \<Rightarrow> string" where
  "demo_opt v = (case v of None \<Rightarrow> ''-'' | Some s \<Rightarrow> CHR ''+'' # demo_hex s)"

definition demo_unopt :: "string \<Rightarrow> string option option" where
  "demo_unopt s = (case s of [] \<Rightarrow> None | c # r \<Rightarrow> if c = CHR ''-'' then Some None else map_option Some (demo_unhex r))"

fun demo_pairs :: "string list \<Rightarrow> (string \<times> string) list option" where
  "demo_pairs (a # b # r) =
     (case (demo_unhex a, demo_unhex b, demo_pairs r) of (Some x, Some y, Some ps) \<Rightarrow> Some ((x, y) # ps) | _ \<Rightarrow> None)"
| "demo_pairs _ = Some []"

definition demo_sync_to_vec :: "sync_payload \<Rightarrow> string" where
  "demo_sync_to_vec p = join_comma
     ([show_nat (sp_v p), show_nat (sp_exp p), demo_hex (sp_nonce p), demo_opt (sd_server_url (sp_data p)),
       demo_opt (sd_worker_url (sp_data p)), demo_opt (sd_proxy_secret (sp_data p))]
      @ concat (map (\<lambda>(n, t). [demo_hex n, demo_hex t]) (sd_routes (sp_data p))))"

definition demo_sync_from_slice :: "string \<Rightarrow> sync_payload option" where
  "demo_sync_from_slice s =
     (case split_on (CHR '','') s of
        v # e # n # a # b # c # rs \<Rightarrow>
          (case (parse_uint 10 u32_max v, parse_uint 10 u64_max e, demo_unhex n, map demo_unopt [a, b, c], demo_pairs rs) of
             (Some v, Some e, Some n, [Some a, Some b, Some c], Some rs) \<Rightarrow>
               Some \<lparr> sp_v = v, sp_exp = e, sp_nonce = n,
                 sp_data = \<lparr> sd_server_url = a, sd_worker_url = b, sd_proxy_secret = c, sd_routes = rs \<rparr> \<rparr>
           | _ \<Rightarrow> None)
      | _ \<Rightarrow> None)"

definition demo_sync :: sync_codec where
  "demo_sync = \<lparr> sc_to_vec = demo_sync_to_vec, sc_from_slice = demo_sync_from_slice, sc_encrypt = (\<lambda>k n m. k @ n @ m),
     sc_decrypt = (\<lambda>k n c. strip_prefix (k @ n) c) \<rparr>"

lemma demo_pairs_concat: "demo_pairs (concat (map (\<lambda>(n, t). [demo_hex n, demo_hex t]) rs)) = Some rs"
  by (induction rs) (auto simp: demo_unhex_hex)

lemma demo_unopt_opt: "demo_unopt (demo_opt v) = Some v"
  by (auto simp: demo_opt_def demo_unopt_def demo_unhex_hex split: option.split)

lemma demo_sync_law: "sync_law demo_sync"
proof -
  have comma: "CHR '','' \<notin> set (demo_opt v)" for v by (auto simp: demo_opt_def comma_notin split: option.split)
  have "demo_sync_from_slice (demo_sync_to_vec p) = Some p" if "sp_v p \<le> u32_max" "sp_exp p \<le> u64_max" for p
    using that unfolding demo_sync_from_slice_def demo_sync_to_vec_def
    by (subst split_join_comma) (auto simp: comma comma_notin demo_unhex_hex demo_unopt_opt demo_pairs_concat)
  then show ?thesis by (simp add: sync_law_def demo_sync_def)
qed

definition demo_import :: "nat \<Rightarrow> import_env" where
  "demo_import now = \<lparr> ie_now = now, ie_lock = None, ie_nonces_readable = True, ie_nonce_write = None, ie_save = None,
     ie_store_open = None, ie_insert_fault = (\<lambda>_. None) \<rparr>"

definition demo_random :: export_random where
  "demo_random = \<lparr> er_passkey = ''k'', er_nonce = ''n'', er_salt = replicate 16 (CHR ''s''), er_aead_nonce = replicate 12 (CHR ''a'') \<rparr>"

definition demo_cli :: cli_state where
  "demo_cli = \<lparr> cl_config = NoFile, cl_nonces = [], cl_routes = [] \<rparr>"

definition demo_uri :: string where
  "demo_uri = fst (sync_export demo demo_sync demo_random 1000 NoFile None (Some ''pw''))"

theorem sync_at_most_once_witness:
  "distinct (map (\<lambda>p. (sp_nonce p, sp_exp p))
     (fst (import_run demo demo_sync [(demo_import 1100, demo_uri, Some ''pw''), (demo_import 1200, demo_uri, Some ''pw'')] demo_cli)))"
proof -
  let ?calls = "[(demo_import 1100, demo_uri, Some ''pw''), (demo_import 1200, demo_uri, Some ''pw'')]"
  have ok: "calls_ok 1000 ?calls" by (simp add: demo_import_def)
  obtain ps st' where r: "import_run demo demo_sync ?calls demo_cli = (ps, st')" by fastforce
  from sync_at_most_once [OF ok r] show ?thesis unfolding r by simp
qed

lemma demo_uri_export: "sync_export demo demo_sync demo_random 1000 NoFile None (Some ''pw'') = (demo_uri, ''pw'')"
  unfolding demo_uri_def by (simp add: sync_export_def export_pass_def Let_def)


end
